(* ===== verification/InPhasePrelude.thy ===== *)
theory InPhasePrelude
  imports Main "HOL-Library.Word"
begin

text \<open>
  Shared vocabulary of the InPhase development: machine integers and byte strings, the
  little- and big-endian conversions of the Rust standard library
  (\<open>to_le_bytes\<close>, \<open>from_le_bytes\<close>, \<open>to_be_bytes\<close>), the sequencing of fallible steps
  (Rust's \<open>?\<close> on \<open>Result\<close>), saturating and wrapping arithmetic on bounded naturals, and the
  two interfaces a wire codec can satisfy.
\<close>

unbundle bit_operations_syntax

type_synonym u8 = "8 word"
type_synonym u16 = "16 word"
type_synonym u32 = "32 word"
type_synonym u64 = "64 word"
type_synonym i16 = "16 word"
type_synonym bytes = "8 word list"

named_theorems wire_simps \<open>reading back what a writer appended\<close>

section \<open>Fallible steps\<close>

text \<open>\<open>bindE\<close> is the \<open>?\<close> operator: stop at the first error, otherwise go on with the value.\<close>

definition bindE :: "'e + 'a \<Rightarrow> ('a \<Rightarrow> 'e + 'b) \<Rightarrow> 'e + 'b" where
  "bindE m f = (case m of Inl e \<Rightarrow> Inl e | Inr a \<Rightarrow> f a)"

lemma bindE_simps [simp]:
  "bindE (Inl e) f = Inl e"
  "bindE (Inr a) f = f a"
  by (simp_all add: bindE_def)

lemma bindE_Inr_iff: "bindE m f = Inr b \<longleftrightarrow> (\<exists>a. m = Inr a \<and> f a = Inr b)"
  by (cases m) auto

lemma bindE_InrE [elim!]:
  assumes "bindE m f = Inr b"
  obtains a where "m = Inr a" "f a = Inr b"
  using assms by (auto simp: bindE_Inr_iff)

section \<open>Byte order\<close>

text \<open>
  A \<open>w\<close>-byte integer is written byte by byte, least significant first; a byte keeps the low
  eight bits of what is left of the value.
\<close>

fun le_bytes :: "nat \<Rightarrow> nat \<Rightarrow> bytes" where
  "le_bytes 0 v = []"
| "le_bytes (Suc n) v = of_nat v # le_bytes n (v div 256)"

fun le_nat :: "bytes \<Rightarrow> nat" where
  "le_nat [] = 0"
| "le_nat (b # bs) = unat b + 256 * le_nat bs"

definition be_bytes :: "nat \<Rightarrow> nat \<Rightarrow> bytes" where
  "be_bytes n v = rev (le_bytes n v)"

definition be_nat :: "bytes \<Rightarrow> nat" where
  "be_nat bs = le_nat (rev bs)"

lemma length_le_bytes [simp]: "length (le_bytes n v) = n"
  by (induction n v rule: le_bytes.induct) auto

lemma length_be_bytes [simp]: "length (be_bytes n v) = n"
  by (simp add: be_bytes_def)

lemma unat_bound: "unat (w :: 'a::len word) < 2 ^ LENGTH('a)"
  by (rule unsigned_less)

lemma unat_of_nat_u8: "unat (of_nat v :: u8) = v mod 256"
  by (simp add: unat_of_nat)

lemma le_nat_le_bytes: "le_nat (le_bytes n v) = v mod 256 ^ n"
proof (induction n v rule: le_bytes.induct)
  case (2 n v)
  have "v mod 256 + 256 * (v div 256 mod 256 ^ n) = v mod (256 * 256 ^ n)"
    by (metis add.commute mod_mult2_eq)
  with 2 show ?case by (simp add: unat_of_nat_u8)
qed simp

lemma le_nat_less: "le_nat bs < 256 ^ length bs"
proof (induction bs)
  case (Cons b bs)
  have "unat b < 256" using unat_bound [of b] by simp
  with Cons show ?case by simp
qed simp

lemma le_bytes_le_nat: "le_bytes (length bs) (le_nat bs) = bs"
proof (induction bs)
  case (Cons b bs)
  have "unat b < 256" using unat_bound [of b] by simp
  then have "(unat b + 256 * le_nat bs) div 256 = le_nat bs"
    and "(unat b + 256 * le_nat bs) mod 256 = unat b"
    by simp_all
  then have "(unat b + 256 * le_nat bs) div 256 = le_nat bs"
    and "(of_nat (unat b + 256 * le_nat bs) :: u8) = b"
    by (simp_all only: word_unat_eq_iff unat_of_nat_u8)
  with Cons show ?case by (simp only: le_nat.simps length_Cons le_bytes.simps)
qed simp

lemma be_nat_be_bytes: "be_nat (be_bytes n v) = v mod 256 ^ n"
  by (simp add: be_nat_def be_bytes_def le_nat_le_bytes)

definition of_le :: "bytes \<Rightarrow> 'a::len word" where
  "of_le bs = of_nat (le_nat bs)"

definition u16_le :: "u16 \<Rightarrow> bytes" where "u16_le w = le_bytes 2 (unat w)"
definition u32_le :: "u32 \<Rightarrow> bytes" where "u32_le w = le_bytes 4 (unat w)"
definition u64_le :: "u64 \<Rightarrow> bytes" where "u64_le w = le_bytes 8 (unat w)"
definition u32_be :: "u32 \<Rightarrow> bytes" where "u32_be w = be_bytes 4 (unat w)"
definition u64_be :: "u64 \<Rightarrow> bytes" where "u64_be w = be_bytes 8 (unat w)"

lemma le_lengths [simp]:
  "length (u16_le a) = 2" "length (u32_le b) = 4" "length (u64_le c) = 8"
  "length (u32_be b) = 4" "length (u64_be c) = 8"
  by (simp_all add: u16_le_def u32_le_def u64_le_def u32_be_def u64_be_def)

lemma of_le_le [simp, wire_simps]:
  "of_le (u16_le a) = a" "of_le (u32_le b) = b" "of_le (u64_le c) = c"
  using unat_bound [of a] unat_bound [of b] unat_bound [of c]
  by (simp_all add: of_le_def u16_le_def u32_le_def u64_le_def le_nat_le_bytes)

lemma take_le [simp, wire_simps]:
  "take 2 (u16_le a @ ys) = u16_le a"
  "take 4 (u32_le b @ ys) = u32_le b"
  "take 8 (u64_le c @ ys) = u64_le c"
  by simp_all

lemma drop_le [simp, wire_simps]:
  "drop 2 (u16_le a @ ys) = ys"
  "drop 4 (u32_le b @ ys) = ys"
  "drop 8 (u64_le c @ ys) = ys"
  by simp_all

lemma u16_le_of_le: "length bs = 2 \<Longrightarrow> u16_le (of_le bs) = bs"
  using le_nat_less [of bs] le_bytes_le_nat [of bs]
  by (simp add: u16_le_def of_le_def unat_of_nat)

lemma u32_le_of_le: "length bs = 4 \<Longrightarrow> u32_le (of_le bs) = bs"
  using le_nat_less [of bs] le_bytes_le_nat [of bs]
  by (simp add: u32_le_def of_le_def unat_of_nat)

lemma u64_le_of_le: "length bs = 8 \<Longrightarrow> u64_le (of_le bs) = bs"
  using le_nat_less [of bs] le_bytes_le_nat [of bs]
  by (simp add: u64_le_def of_le_def unat_of_nat)

section \<open>Bounded naturals\<close>

text \<open>
  Where only the numeric value of a \<open>u32\<close> or \<open>u64\<close> matters it is a natural number, with
  the overflow behaviour of each operation written out: saturating, or wrapping as a release
  build does.
\<close>

definition u32_max :: nat where "u32_max = 4294967295"
definition u64_max :: nat where "u64_max = 18446744073709551615"

definition sat_add32 :: "nat \<Rightarrow> nat \<Rightarrow> nat" where "sat_add32 a b = min (a + b) u32_max"
definition sat_mul32 :: "nat \<Rightarrow> nat \<Rightarrow> nat" where "sat_mul32 a b = min (a * b) u32_max"
definition wrap_add32 :: "nat \<Rightarrow> nat \<Rightarrow> nat" where "wrap_add32 a b = (a + b) mod 4294967296"
definition wrap_mul32 :: "nat \<Rightarrow> nat \<Rightarrow> nat" where "wrap_mul32 a b = (a * b) mod 4294967296"
definition sat_inc8 :: "nat \<Rightarrow> nat" where "sat_inc8 a = min (a + 1) 255"

definition clampN :: "nat \<Rightarrow> nat \<Rightarrow> nat \<Rightarrow> nat" where
  "clampN x lo hi = (if x < lo then lo else if hi < x then hi else x)"

lemma clampN_bounds: "lo \<le> hi \<Longrightarrow> lo \<le> clampN x lo hi \<and> clampN x lo hi \<le> hi"
  by (simp add: clampN_def)

section \<open>Interfaces of a wire codec\<close>

text \<open>
  \<open>norm\<close> is what survives the wire (fields the encoder truncates or the decoder ignores are
  normalised away), \<open>fits\<close> the values whose lengths the header can carry.
\<close>

locale wire_codec =
  fixes enc :: "'a \<Rightarrow> bytes"
    and dec :: "bytes \<Rightarrow> 'e + 'a"
    and norm :: "'a \<Rightarrow> 'a"
    and fits :: "'a \<Rightarrow> bool"
  assumes dec_enc: "fits x \<Longrightarrow> dec (enc x) = Inr (norm x)"
    and enc_norm: "fits x \<Longrightarrow> enc (norm x) = enc x"
begin

lemma enc_determines_norm:
  assumes "fits x" "fits y" "enc x = enc y"
  shows "norm x = norm y"
  using assms dec_enc [of x] dec_enc [of y] by simp

lemma reencode_stable:
  assumes "fits x" "dec (enc x) = Inr y"
  shows "enc y = enc x"
  using assms dec_enc [of x] enc_norm [of x] by simp

end

text \<open>
  A self-delimiting codec also ignores what follows the message and never accepts an input
  shorter than the message it reports.
\<close>

locale prefix_codec = wire_codec enc dec norm fits
  for enc :: "'a \<Rightarrow> bytes" and dec :: "bytes \<Rightarrow> 'e + 'a"
    and norm :: "'a \<Rightarrow> 'a" and fits :: "'a \<Rightarrow> bool" +
  assumes dec_append: "dec bs = Inr x \<Longrightarrow> dec (bs @ ys) = Inr x"
    and dec_length: "dec bs = Inr x \<Longrightarrow> length (enc x) \<le> length bs"
begin

lemma dec_enc_append: "fits x \<Longrightarrow> dec (enc x @ ys) = Inr (norm x)"
  by (rule dec_append, rule dec_enc)

lemma strict_prefix_fails:
  assumes "fits x" "k < length (enc x)"
  shows "\<exists>e. dec (take k (enc x)) = Inl e"
proof (rule ccontr)
  assume "\<not> ?thesis"
  then obtain y where y: "dec (take k (enc x)) = Inr y"
    by (cases "dec (take k (enc x))") auto
  from dec_append [OF this, of "drop k (enc x)"] have "dec (enc x) = Inr y" by simp
  with assms(1) have "y = norm x" using dec_enc [of x] by simp
  then have "length (enc y) = length (enc x)" using enc_norm [OF assms(1)] by simp
  with dec_length [OF y] assms(2) show False by simp
qed

lemma encodings_prefix_free:
  assumes "fits x" "fits y" "enc y = enc x @ ys"
  shows "norm y = norm x \<and> ys = []"
proof -
  from assms have "norm y = norm x"
    using dec_enc [of y] dec_enc_append [of x ys] by simp
  moreover from this have "enc y = enc x" using assms enc_norm [of x] enc_norm [of y] by simp
  ultimately show ?thesis using assms(3) by simp
qed

end

end
