(* ===== verification/InputCodec.thy ===== *)
theory InputCodec
  imports InPhasePrelude
begin

text \<open>
  The binary input packet, version 1 (\<open>crates/protocol/src/input.rs\<close>): the header and event
  types, \<open>InputPacket::encode\<close> over a little-endian writer, and \<open>InputPacket::decode\<close> over a
  bounds-checked reader. A writer is the bytes written so far; a reader is the buffer and a
  position, as in the source. Every early return of \<open>decode\<close> is an \<open>Inl\<close>.
\<close>

section \<open>Types and constants\<close>

definition INPUT_PROTOCOL_VERSION :: u8 where "INPUT_PROTOCOL_VERSION = 1"
definition INPUT_HEADER_LEN :: nat where "INPUT_HEADER_LEN = 16"
definition SNAP_GAMEPAD_PRESENT :: u8 where "SNAP_GAMEPAD_PRESENT = 1"

datatype InputKind = KMouseMove | KMouseButtons | KKey | KGamepad | KSnapshot | KTouch

datatype InputCodecError =
    Truncated nat nat
  | UnsupportedVersion u8
  | UnknownKind u8

fun kind_code :: "InputKind \<Rightarrow> u8" where
  "kind_code KMouseMove = 1"
| "kind_code KMouseButtons = 2"
| "kind_code KKey = 3"
| "kind_code KGamepad = 4"
| "kind_code KSnapshot = 5"
| "kind_code KTouch = 6"

definition kind_from_u8 :: "u8 \<Rightarrow> InputCodecError + InputKind" where
  "kind_from_u8 v =
     (if v = 1 then Inr KMouseMove
      else if v = 2 then Inr KMouseButtons
      else if v = 3 then Inr KKey
      else if v = 4 then Inr KGamepad
      else if v = 5 then Inr KSnapshot
      else if v = 6 then Inr KTouch
      else Inl (UnknownKind v))"

record InputHeader =
  version :: u8
  kind :: InputKind
  flags :: u16
  sequence :: u32
  client_monotonic_us :: u64

record GamepadState =
  gbuttons :: u32
  glx :: i16
  gly :: i16
  grx :: i16
  gry :: i16
  glt :: u16
  grt :: u16

record SnapshotState =
  mouse_buttons :: u16
  modifiers :: u8
  held_keys :: "u16 list"
  gamepad :: "GamepadState option"

datatype InputEvent =
    MouseMove i16 i16 i16 i16
  | MouseButtons u16
  | Key u16 bool u8
  | Gamepad GamepadState
  | Snapshot SnapshotState
  | Touch u32 u8 u16 u16

fun event_kind :: "InputEvent \<Rightarrow> InputKind" where
  "event_kind (MouseMove _ _ _ _) = KMouseMove"
| "event_kind (MouseButtons _) = KMouseButtons"
| "event_kind (Key _ _ _) = KKey"
| "event_kind (Gamepad _) = KGamepad"
| "event_kind (Snapshot _) = KSnapshot"
| "event_kind (Touch _ _ _ _) = KTouch"

record InputPacket =
  header :: InputHeader
  event :: InputEvent

definition new_packet :: "u32 \<Rightarrow> u64 \<Rightarrow> u16 \<Rightarrow> InputEvent \<Rightarrow> InputPacket" where
  "new_packet seq us fl ev =
     \<lparr>header = \<lparr>version = INPUT_PROTOCOL_VERSION, kind = event_kind ev, flags = fl,
                sequence = seq, client_monotonic_us = us\<rparr>, event = ev\<rparr>"

section \<open>Encoding\<close>

definition write_gamepad :: "GamepadState \<Rightarrow> bytes" where
  "write_gamepad g =
     u32_le (gbuttons g) @ u16_le (glx g) @ u16_le (gly g) @ u16_le (grx g) @ u16_le (gry g)
     @ u16_le (glt g) @ u16_le (grt g)"

fun write_keys :: "u16 list \<Rightarrow> bytes" where
  "write_keys [] = []"
| "write_keys (k # ks) = u16_le k @ write_keys ks"

text \<open>
  \<open>u16::try_from(len).unwrap_or(u16::MAX)\<close> is the minimum of the length and 65535, and
  \<open>take(u16::MAX)\<close> keeps as many keys as were announced.
\<close>

definition write_event :: "InputEvent \<Rightarrow> bytes" where
  "write_event ev =
     (case ev of
        MouseMove dx dy wx wy \<Rightarrow> u16_le dx @ u16_le dy @ u16_le wx @ u16_le wy
      | MouseButtons b \<Rightarrow> u16_le b
      | Key c d m \<Rightarrow> u16_le c @ [if d then 1 else 0] @ [m]
      | Gamepad g \<Rightarrow> write_gamepad g
      | Snapshot s \<Rightarrow>
          u16_le (mouse_buttons s) @ [modifiers s]
          @ [if gamepad s \<noteq> None then SNAP_GAMEPAD_PRESENT else 0]
          @ u16_le (of_nat (min (length (held_keys s)) 65535))
          @ write_keys (take 65535 (held_keys s))
          @ (case gamepad s of Some g \<Rightarrow> write_gamepad g | None \<Rightarrow> [])
      | Touch p ph x y \<Rightarrow> u32_le p @ [ph] @ [0] @ u16_le x @ u16_le y)"

definition write_header :: "InputHeader \<Rightarrow> InputKind \<Rightarrow> bytes" where
  "write_header h k =
     [version h] @ [kind_code k] @ u16_le (flags h) @ u32_le (sequence h)
     @ u64_le (client_monotonic_us h)"

definition encode :: "InputPacket \<Rightarrow> bytes" where
  "encode p = write_header (header p) (event_kind (event p)) @ write_event (event p)"

section \<open>The reader\<close>

record reader =
  rbuf :: bytes
  rpos :: nat

definition reader_new :: "bytes \<Rightarrow> reader" where
  "reader_new b = \<lparr>rbuf = b, rpos = 0\<rparr>"

definition rd_take :: "nat \<Rightarrow> reader \<Rightarrow> InputCodecError + bytes \<times> reader" where
  "rd_take n r =
     (let e = rpos r + n in
      if e > length (rbuf r) then Inl (Truncated e (length (rbuf r)))
      else Inr (take n (drop (rpos r) (rbuf r)), r\<lparr>rpos := e\<rparr>))"

definition rd_u8 :: "reader \<Rightarrow> InputCodecError + u8 \<times> reader" where
  "rd_u8 r = bindE (rd_take 1 r) (\<lambda>(bs, r). Inr (bs ! 0, r))"

definition rd_u16 :: "reader \<Rightarrow> InputCodecError + u16 \<times> reader" where
  "rd_u16 r = bindE (rd_take 2 r) (\<lambda>(bs, r). Inr (of_le bs, r))"

definition rd_u32 :: "reader \<Rightarrow> InputCodecError + u32 \<times> reader" where
  "rd_u32 r = bindE (rd_take 4 r) (\<lambda>(bs, r). Inr (of_le bs, r))"

definition rd_u64 :: "reader \<Rightarrow> InputCodecError + u64 \<times> reader" where
  "rd_u64 r = bindE (rd_take 8 r) (\<lambda>(bs, r). Inr (of_le bs, r))"

section \<open>Decoding\<close>

definition read_gamepad :: "reader \<Rightarrow> InputCodecError + GamepadState \<times> reader" where
  "read_gamepad r =
     bindE (rd_u32 r) (\<lambda>(b, r). bindE (rd_u16 r) (\<lambda>(lx, r). bindE (rd_u16 r) (\<lambda>(ly, r).
     bindE (rd_u16 r) (\<lambda>(rx, r). bindE (rd_u16 r) (\<lambda>(ry, r). bindE (rd_u16 r) (\<lambda>(lt, r).
     bindE (rd_u16 r) (\<lambda>(rt, r).
       Inr (\<lparr>gbuttons = b, glx = lx, gly = ly, grx = rx, gry = ry, glt = lt, grt = rt\<rparr>, r))))))))"

fun read_keys :: "nat \<Rightarrow> reader \<Rightarrow> InputCodecError + u16 list \<times> reader" where
  "read_keys 0 r = Inr ([], r)"
| "read_keys (Suc n) r =
     bindE (rd_u16 r) (\<lambda>(k, r). bindE (read_keys n r) (\<lambda>(ks, r). Inr (k # ks, r)))"

definition read_snapshot :: "reader \<Rightarrow> InputCodecError + SnapshotState \<times> reader" where
  "read_snapshot r =
     bindE (rd_u16 r) (\<lambda>(mb, r). bindE (rd_u8 r) (\<lambda>(md, r). bindE (rd_u8 r) (\<lambda>(sf, r).
     bindE (rd_u16 r) (\<lambda>(n, r). bindE (read_keys (unat n) r) (\<lambda>(ks, r).
     bindE (if sf AND SNAP_GAMEPAD_PRESENT \<noteq> 0
            then bindE (read_gamepad r) (\<lambda>(g, r). Inr (Some g, r)) else Inr (None, r)) (\<lambda>(gp, r).
       Inr (\<lparr>mouse_buttons = mb, modifiers = md, held_keys = ks, gamepad = gp\<rparr>, r)))))))"

definition read_event :: "InputKind \<Rightarrow> reader \<Rightarrow> InputCodecError + InputEvent \<times> reader" where
  "read_event k r =
     (case k of
        KMouseMove \<Rightarrow>
          bindE (rd_u16 r) (\<lambda>(dx, r). bindE (rd_u16 r) (\<lambda>(dy, r).
          bindE (rd_u16 r) (\<lambda>(wx, r). bindE (rd_u16 r) (\<lambda>(wy, r).
            Inr (MouseMove dx dy wx wy, r)))))
      | KMouseButtons \<Rightarrow> bindE (rd_u16 r) (\<lambda>(b, r). Inr (MouseButtons b, r))
      | KKey \<Rightarrow>
          bindE (rd_u16 r) (\<lambda>(c, r). bindE (rd_u8 r) (\<lambda>(d, r). bindE (rd_u8 r) (\<lambda>(m, r).
            Inr (Key c (d \<noteq> 0) m, r))))
      | KGamepad \<Rightarrow> bindE (read_gamepad r) (\<lambda>(g, r). Inr (Gamepad g, r))
      | KSnapshot \<Rightarrow> bindE (read_snapshot r) (\<lambda>(s, r). Inr (Snapshot s, r))
      | KTouch \<Rightarrow>
          bindE (rd_u32 r) (\<lambda>(p, r). bindE (rd_u8 r) (\<lambda>(ph, r). bindE (rd_u8 r) (\<lambda>(_, r).
          bindE (rd_u16 r) (\<lambda>(x, r). bindE (rd_u16 r) (\<lambda>(y, r).
            Inr (Touch p ph x y, r)))))))"

definition decode :: "bytes \<Rightarrow> InputCodecError + InputPacket" where
  "decode bs =
     (if length bs < INPUT_HEADER_LEN then Inl (Truncated INPUT_HEADER_LEN (length bs))
      else
        bindE (rd_u8 (reader_new bs)) (\<lambda>(v, r).
        if v \<noteq> INPUT_PROTOCOL_VERSION then Inl (UnsupportedVersion v)
        else
          bindE (rd_u8 r) (\<lambda>(kb, r). bindE (kind_from_u8 kb) (\<lambda>k.
          bindE (rd_u16 r) (\<lambda>(fl, r). bindE (rd_u32 r) (\<lambda>(sq, r). bindE (rd_u64 r) (\<lambda>(us, r).
          bindE (read_event k r) (\<lambda>(ev, r).
            Inr \<lparr>header = \<lparr>version = v, kind = k, flags = fl, sequence = sq,
                            client_monotonic_us = us\<rparr>, event = ev\<rparr>))))))))"

section \<open>Reader laws\<close>

text \<open>What is left to read, and the reader moved on by \<open>n\<close> bytes.\<close>

definition rest :: "reader \<Rightarrow> bytes" where
  "rest r = drop (rpos r) (rbuf r)"

definition adv :: "nat \<Rightarrow> reader \<Rightarrow> reader" where
  "adv n r = r\<lparr>rpos := rpos r + n\<rparr>"

definition ext :: "bytes \<Rightarrow> reader \<Rightarrow> reader" where
  "ext ys r = r\<lparr>rbuf := rbuf r @ ys\<rparr>"

lemma rest_simps [simp]:
  "rest (reader_new b) = b"
  "rest (adv n r) = drop n (rest r)"
  by (simp_all add: rest_def reader_new_def adv_def add.commute)

lemma rd_take_rest:
  "0 < n \<Longrightarrow> n \<le> length (rest r) \<Longrightarrow> rd_take n r = Inr (take n (rest r), adv n r)"
  by (simp add: rd_take_def rest_def adv_def Let_def)

lemma rd_rest:
  "1 \<le> length (rest r) \<Longrightarrow> rd_u8 r = Inr (hd (rest r), adv 1 r)"
  "2 \<le> length (rest r) \<Longrightarrow> rd_u16 r = Inr (of_le (take 2 (rest r)), adv 2 r)"
  "4 \<le> length (rest r) \<Longrightarrow> rd_u32 r = Inr (of_le (take 4 (rest r)), adv 4 r)"
  "8 \<le> length (rest r) \<Longrightarrow> rd_u64 r = Inr (of_le (take 8 (rest r)), adv 8 r)"
  by (cases "rest r";
      simp add: rd_u8_def rd_u16_def rd_u32_def rd_u64_def rd_take_rest del: One_nat_def)+

text \<open>Each read either fails or moves on by its width inside the buffer.\<close>

lemma rd_take_Inr: "rd_take n r = Inr (x, r') \<longleftrightarrow>
    rpos r + n \<le> length (rbuf r) \<and> x = take n (rest r) \<and> r' = adv n r"
  by (auto simp: rd_take_def Let_def rest_def adv_def)

lemma rd_Inr [dest!]:
  "rd_u8 r = Inr (a, r') \<Longrightarrow> rpos r + 1 \<le> length (rbuf r) \<and> a = take 1 (rest r) ! 0 \<and> r' = adv 1 r"
  "rd_u16 r = Inr (b, r') \<Longrightarrow> rpos r + 2 \<le> length (rbuf r) \<and> b = of_le (take 2 (rest r)) \<and> r' = adv 2 r"
  "rd_u32 r = Inr (c, r') \<Longrightarrow> rpos r + 4 \<le> length (rbuf r) \<and> c = of_le (take 4 (rest r)) \<and> r' = adv 4 r"
  "rd_u64 r = Inr (d, r') \<Longrightarrow> rpos r + 8 \<le> length (rbuf r) \<and> d = of_le (take 8 (rest r)) \<and> r' = adv 8 r"
  by (auto simp: rd_u8_def rd_u16_def rd_u32_def rd_u64_def rd_take_Inr simp del: One_nat_def)

text \<open>A read that succeeds does not look past its bytes: more input changes nothing.\<close>

definition prefix_read :: "(reader \<Rightarrow> 'e + 'a \<times> reader) \<Rightarrow> bool" where
  "prefix_read f \<longleftrightarrow> (\<forall>r x r' ys. f r = Inr (x, r') \<longrightarrow> f (ext ys r) = Inr (x, ext ys r'))"

lemma prefix_readD: "prefix_read f \<Longrightarrow> f r = Inr (x, r') \<Longrightarrow> f (ext ys r) = Inr (x, ext ys r')"
  by (simp add: prefix_read_def)

lemma prefix_read_bind:
  assumes "prefix_read f" "\<And>x. prefix_read (g x)"
  shows "prefix_read (\<lambda>r. bindE (f r) (\<lambda>(x, r). g x r))"
  using assms by (fastforce simp: prefix_read_def bindE_Inr_iff)

lemma prefix_read_Inr: "prefix_read (\<lambda>r. Inr (x, r))"
  by (simp add: prefix_read_def)

lemma prefix_read_Inl: "prefix_read (\<lambda>r. Inl e)"
  by (simp add: prefix_read_def)

lemma prefix_read_if: "prefix_read f \<Longrightarrow> prefix_read g \<Longrightarrow> prefix_read (\<lambda>r. if c then f r else g r)"
  by (simp add: prefix_read_def)

lemma prefix_read_take: "prefix_read (rd_take n)"
  by (auto simp: prefix_read_def rd_take_def Let_def ext_def split: if_splits)

lemmas prefix_read_intros =
  prefix_read_bind prefix_read_Inr prefix_read_Inl prefix_read_if prefix_read_take

lemma prefix_read_ints: "prefix_read rd_u8" "prefix_read rd_u16" "prefix_read rd_u32" "prefix_read rd_u64"
  unfolding rd_u8_def [abs_def] rd_u16_def [abs_def] rd_u32_def [abs_def] rd_u64_def [abs_def]
  by (intro prefix_read_intros)+

lemma prefix_read_gamepad: "prefix_read read_gamepad"
  unfolding read_gamepad_def [abs_def]
  by (intro prefix_read_intros prefix_read_ints)

lemma prefix_read_keys: "prefix_read (read_keys n)"
proof (induction n)
  case (Suc n)
  have "read_keys (Suc n) = (\<lambda>r. bindE (rd_u16 r) (\<lambda>(k, r).
      bindE (read_keys n r) (\<lambda>(ks, r). Inr (k # ks, r))))"
    by (rule ext) simp
  with Suc show ?case by (simp only:) (intro prefix_read_intros prefix_read_ints)
qed (simp add: prefix_read_Inr)

lemma prefix_read_snapshot: "prefix_read read_snapshot"
  unfolding read_snapshot_def [abs_def]
  by (intro prefix_read_intros prefix_read_ints prefix_read_keys prefix_read_gamepad)

lemma prefix_read_event: "prefix_read (read_event k)"
  by (cases k; simp only: read_event_def [abs_def] InputKind.case;
      intro prefix_read_intros prefix_read_ints prefix_read_gamepad prefix_read_snapshot)

section \<open>Round trip\<close>

text \<open>
  What the wire keeps of a packet: the kind byte comes from the event, and a snapshot keeps
  its first 65535 keys.
\<close>

definition norm_event :: "InputEvent \<Rightarrow> InputEvent" where
  "norm_event ev =
     (case ev of Snapshot s \<Rightarrow> Snapshot (s\<lparr>held_keys := take 65535 (held_keys s)\<rparr>) | _ \<Rightarrow> ev)"

definition norm_packet :: "InputPacket \<Rightarrow> InputPacket" where
  "norm_packet p = p\<lparr>header := (header p)\<lparr>kind := event_kind (event p)\<rparr>,
                     event := norm_event (event p)\<rparr>"

definition speaks_v1 :: "InputPacket \<Rightarrow> bool" where
  "speaks_v1 p \<longleftrightarrow> version (header p) = INPUT_PROTOCOL_VERSION"

lemma adv_adv [simp]: "adv m (adv n r) = adv (n + m) r"
  by (simp add: adv_def add.assoc)

lemma write_keys_append [simp]: "length (write_keys ks) = 2 * length ks"
  by (induction ks) auto

lemma length_write_gamepad [simp]: "length (write_gamepad g) = 16"
  by (simp add: write_gamepad_def)

lemma kind_from_code [simp]: "kind_from_u8 (kind_code k) = Inr k"
  by (cases k) (simp_all add: kind_from_u8_def)

lemma kind_code_from: "kind_from_u8 v = Inr k \<Longrightarrow> kind_code k = v"
  by (auto simp: kind_from_u8_def split: if_splits)

lemma read_gamepad_write:
  "rest r = write_gamepad g @ ys \<Longrightarrow> read_gamepad r = Inr (g, adv 16 r)"
  by (simp add: read_gamepad_def write_gamepad_def rd_rest)

lemma read_keys_write:
  "rest r = write_keys ks @ ys \<Longrightarrow> read_keys (length ks) r = Inr (ks, adv (2 * length ks) r)"
proof (induction ks arbitrary: r)
  case Nil
  then show ?case by (simp add: adv_def)
next
  case (Cons k ks)
  from Cons.prems have "rest (adv 2 r) = write_keys ks @ ys" by simp
  from Cons.IH [OF this] Cons.prems show ?case by (simp add: rd_rest)
qed

lemma unat_min_count [simp]: "unat (of_nat (min n 65535) :: u16) = min n 65535"
  by (simp add: unat_of_nat)

lemma read_snapshot_write:
  assumes "rest r = write_event (Snapshot s) @ ys"
  shows "read_snapshot r =
    Inr (s\<lparr>held_keys := take 65535 (held_keys s)\<rparr>, adv (length (write_event (Snapshot s))) r)"
proof -
  let ?ks = "take 65535 (held_keys s)"
  have n: "length ?ks = min (length (held_keys s)) 65535" by simp
  have ks: "read_keys (min (length (held_keys s)) 65535) (adv 6 r) = Inr (?ks, adv (2 * length ?ks) (adv 6 r))"
    if "rest r = u16_le a @ [b] @ [c] @ u16_le d @ write_keys ?ks @ zs" for a b c d zs
    using read_keys_write [of "adv 6 r" ?ks zs] that by (simp add: drop_append n del: adv_adv)
  show ?thesis
  proof (cases "gamepad s")
    case None
    with assms show ?thesis
      using ks [of "mouse_buttons s" "modifiers s" 0 "of_nat (min (length (held_keys s)) 65535)" ys]
      by (cases s) (auto simp: write_event_def read_snapshot_def rd_rest SNAP_GAMEPAD_PRESENT_def
          intro!: arg_cong2 [where f = adv])
  next
    case (Some g)
    with assms have "rest (adv (2 * length ?ks) (adv 6 r)) = write_gamepad g @ ys"
      by (simp add: write_event_def n del: adv_adv)
    from read_gamepad_write [OF this] Some assms show ?thesis
      using ks [of "mouse_buttons s" "modifiers s" 1 "of_nat (min (length (held_keys s)) 65535)" "write_gamepad g @ ys"]
      by (cases s) (auto simp: write_event_def read_snapshot_def rd_rest SNAP_GAMEPAD_PRESENT_def
          intro!: arg_cong2 [where f = adv])
  qed
qed

lemma read_event_write:
  assumes "rest r = write_event ev @ ys"
  shows "read_event (event_kind ev) r = Inr (norm_event ev, adv (length (write_event ev)) r)"
proof (cases ev)
  case (Gamepad g)
  with assms have "rest r = write_gamepad g @ ys" by (simp add: write_event_def)
  from read_gamepad_write [OF this] Gamepad show ?thesis
    by (simp add: read_event_def norm_event_def write_event_def)
next
  case (Snapshot s)
  with read_snapshot_write [of r s ys] assms show ?thesis
    by (simp add: read_event_def norm_event_def)
qed (use assms in \<open>simp_all add: write_event_def read_event_def norm_event_def rd_rest\<close>)

lemma decode_header:
  assumes "bs = write_header h k @ zs" "version h = INPUT_PROTOCOL_VERSION"
  shows "decode bs = bindE (read_event k (adv 16 (reader_new bs))) (\<lambda>(ev, r).
    Inr \<lparr>header = h\<lparr>kind := k\<rparr>, event = ev\<rparr>)"
  using assms(2) unfolding assms(1)
  by (cases h) (simp add: decode_def write_header_def rd_rest INPUT_HEADER_LEN_def)

lemma decode_encode:
  assumes "speaks_v1 p"
  shows "decode (encode p) = Inr (norm_packet p)"
proof -
  let ?r = "adv 16 (reader_new (encode p))"
  have "rest ?r = write_event (event p) @ []"
    by (simp add: encode_def write_header_def)
  from read_event_write [OF this] show ?thesis
    using assms decode_header [of "encode p" "header p" "event_kind (event p)" "write_event (event p)"]
    by (cases p) (simp add: encode_def speaks_v1_def norm_packet_def)
qed

lemma norm_kind [simp]: "event_kind (norm_event ev) = event_kind ev"
  by (cases ev) (simp_all add: norm_event_def)

lemma write_norm_event: "write_event (norm_event ev) = write_event ev"
  by (cases ev) (simp_all add: norm_event_def write_event_def)

lemma encode_norm: "encode (norm_packet p) = encode p"
  by (simp add: encode_def norm_packet_def write_norm_event write_header_def)

section \<open>Self-delimitation\<close>

text \<open>The body of \<open>decode\<close> as one prefix-closed read.\<close>

definition read_packet :: "reader \<Rightarrow> InputCodecError + InputPacket \<times> reader" where
  "read_packet r =
     bindE (rd_u8 r) (\<lambda>(v, r).
     if v \<noteq> INPUT_PROTOCOL_VERSION then Inl (UnsupportedVersion v)
     else bindE (rd_u8 r) (\<lambda>(kb, r).
       bindE (bindE (kind_from_u8 kb) (\<lambda>k. Inr (k, r))) (\<lambda>(k, r).
       bindE (rd_u16 r) (\<lambda>(fl, r). bindE (rd_u32 r) (\<lambda>(sq, r). bindE (rd_u64 r) (\<lambda>(us, r).
       bindE (read_event k r) (\<lambda>(ev, r).
         Inr (\<lparr>header = \<lparr>version = v, kind = k, flags = fl, sequence = sq,
                         client_monotonic_us = us\<rparr>, event = ev\<rparr>, r))))))))"

lemma decode_read_packet:
  "decode bs = (if length bs < 16 then Inl (Truncated 16 (length bs))
                else bindE (read_packet (reader_new bs)) (\<lambda>(p, _). Inr p))"
  by (auto simp: decode_def read_packet_def INPUT_HEADER_LEN_def bindE_def
           split: sum.splits prod.splits)

lemma prefix_read_kind: "prefix_read (\<lambda>r. bindE (kind_from_u8 kb) (\<lambda>k. Inr (k, r)))"
  by (cases "kind_from_u8 kb") (simp_all add: prefix_read_Inr prefix_read_Inl)

lemma prefix_read_packet: "prefix_read read_packet"
  unfolding read_packet_def [abs_def]
  by (intro prefix_read_intros prefix_read_ints prefix_read_kind prefix_read_event)

lemma decode_append:
  assumes "decode bs = Inr p"
  shows "decode (bs @ ys) = Inr p"
proof -
  from assms obtain r where r: "read_packet (reader_new bs) = Inr (p, r)" and l: "\<not> length bs < 16"
    by (auto simp: decode_read_packet split: if_splits)
  have "ext ys (reader_new bs) = reader_new (bs @ ys)" by (simp add: ext_def reader_new_def)
  with prefix_readD [OF prefix_read_packet r, of ys] l show ?thesis
    by (simp add: decode_read_packet)
qed

text \<open>Every successful read moved on by exactly the encoded length, inside the buffer.\<close>

lemma adv_fields [simp]: "rbuf (adv n r) = rbuf r" "rpos (adv n r) = rpos r + n"
  by (simp_all add: adv_def)

lemma read_gamepad_consumes:
  "read_gamepad r = Inr (g, r') \<Longrightarrow> r' = adv 16 r \<and> rpos r + 16 \<le> length (rbuf r)"
  by (auto simp: read_gamepad_def)

lemma read_keys_consumes:
  "read_keys n r = Inr (ks, r') \<Longrightarrow> rpos r \<le> length (rbuf r) \<Longrightarrow>
     length ks = n \<and> r' = adv (2 * n) r \<and> rpos r + 2 * n \<le> length (rbuf r)"
proof (induction n arbitrary: r ks)
  case 0
  then show ?case by (simp add: adv_def)
next
  case (Suc n)
  from Suc.prems(1) obtain ks' where "read_keys n (adv 2 r) = Inr (ks', r')" "length ks = Suc (length ks')"
    "rpos r + 2 \<le> length (rbuf r)"
    by auto
  with Suc.IH [of "adv 2 r" ks'] show ?case by simp
qed

lemma read_snapshot_consumes:
  assumes "read_snapshot r = Inr (s, r')"
  shows "rbuf r' = rbuf r \<and> rpos r' = rpos r + length (write_event (Snapshot s))
    \<and> rpos r' \<le> length (rbuf r)"
proof -
  from assms obtain mb md sf n ks r4 gp where
    r6: "rpos r + 6 \<le> length (rbuf r)" and
    ks: "read_keys (unat (n :: u16)) (adv 6 r) = Inr (ks, r4)" and
    gp: "(if sf AND SNAP_GAMEPAD_PRESENT \<noteq> 0
          then bindE (read_gamepad r4) (\<lambda>(g, r). Inr (Some g, r)) else Inr (None, r4)) = Inr (gp, r')" and
    s: "s = \<lparr>mouse_buttons = mb, modifiers = md, held_keys = ks, gamepad = gp\<rparr>"
    by (auto simp: read_snapshot_def)
  from read_keys_consumes [OF ks] r6
  have k: "length ks = unat n" "r4 = adv (6 + 2 * unat n) r"
    "rpos r + (6 + 2 * unat n) \<le> length (rbuf r)" by auto
  have "unat n \<le> 65535" using unat_bound [of n] by simp
  with k gp show ?thesis
    by (auto simp: s write_event_def min_absorb1 split: if_splits dest!: read_gamepad_consumes)
qed

lemma read_event_consumes:
  assumes "read_event k r = Inr (ev, r')"
  shows "rbuf r' = rbuf r \<and> rpos r' = rpos r + length (write_event ev) \<and> rpos r' \<le> length (rbuf r)"
  using assms
  by (cases k) (auto simp: read_event_def write_event_def [of "MouseMove _ _ _ _"]
      write_event_def [of "MouseButtons _"] write_event_def [of "Key _ _ _"]
      write_event_def [of "Gamepad _"] write_event_def [of "Touch _ _ _ _"]
      dest!: read_gamepad_consumes read_snapshot_consumes)

lemma decode_length:
  assumes "decode bs = Inr p"
  shows "length (encode p) \<le> length bs"
proof -
  from assms obtain k r where "read_event k (adv 16 (reader_new bs)) = Inr (event p, r)"
    by (auto simp: decode_read_packet read_packet_def split: if_splits)
  from read_event_consumes [OF this] show ?thesis
    by (simp add: encode_def write_header_def reader_new_def)
qed

text \<open>The decoder's result always carries version 1 and the kind of its event.\<close>

lemma read_event_kind: "read_event k r = Inr (ev, r') \<Longrightarrow> event_kind ev = k"
  by (cases k) (auto simp: read_event_def)

lemma decode_wellformed:
  "decode bs = Inr p \<Longrightarrow> speaks_v1 p \<and> kind (header p) = event_kind (event p)"
  by (auto simp: decode_read_packet read_packet_def speaks_v1_def split: if_splits)
     (metis read_event_kind)

interpretation input_wire: prefix_codec encode decode norm_packet speaks_v1
  by unfold_locales (auto simp: decode_encode encode_norm decode_append decode_length)

section \<open>The only way a read fails\<close>

definition trunc_only :: "(reader \<Rightarrow> InputCodecError + 'a \<times> reader) \<Rightarrow> bool" where
  "trunc_only f \<longleftrightarrow> (\<forall>r. case f r of
     Inl e \<Rightarrow> \<exists>need. e = Truncated need (length (rbuf r)) \<and> length (rbuf r) < need
   | Inr (x, r') \<Rightarrow> rbuf r' = rbuf r)"

lemma trunc_only_bind:
  assumes "trunc_only f" "\<And>x. trunc_only (g x)"
  shows "trunc_only (\<lambda>r. bindE (f r) (\<lambda>(x, r). g x r))"
  unfolding trunc_only_def
proof
  fix r
  show "case bindE (f r) (\<lambda>(x, r). g x r) of
     Inl e \<Rightarrow> \<exists>need. e = Truncated need (length (rbuf r)) \<and> length (rbuf r) < need
   | Inr (x, r') \<Rightarrow> rbuf r' = rbuf r"
  proof (cases "f r")
    case (Inl e)
    with assms(1) [unfolded trunc_only_def, THEN spec, of r] show ?thesis by simp
  next
    case (Inr q)
    obtain x r1 where q: "q = (x, r1)" by (cases q)
    with Inr assms(1) [unfolded trunc_only_def, THEN spec, of r] have "rbuf r1 = rbuf r" by simp
    with assms(2) [of x, unfolded trunc_only_def, THEN spec, of r1] Inr q show ?thesis
      by (auto split: sum.splits)
  qed
qed

lemma trunc_only_Inr: "trunc_only (\<lambda>r. Inr (x, r))"
  by (simp add: trunc_only_def)

lemma trunc_only_if: "trunc_only f \<Longrightarrow> trunc_only g \<Longrightarrow> trunc_only (\<lambda>r. if c then f r else g r)"
  by (simp add: trunc_only_def)

lemma trunc_only_take: "trunc_only (rd_take n)"
  by (simp add: trunc_only_def rd_take_def Let_def)

lemmas trunc_only_intros = trunc_only_bind trunc_only_Inr trunc_only_if trunc_only_take

lemma trunc_only_ints: "trunc_only rd_u8" "trunc_only rd_u16" "trunc_only rd_u32" "trunc_only rd_u64"
  unfolding rd_u8_def [abs_def] rd_u16_def [abs_def] rd_u32_def [abs_def] rd_u64_def [abs_def]
  by (intro trunc_only_intros)+

lemma trunc_only_gamepad: "trunc_only read_gamepad"
  unfolding read_gamepad_def [abs_def] by (intro trunc_only_intros trunc_only_ints)

lemma trunc_only_keys: "trunc_only (read_keys n)"
proof (induction n)
  case (Suc n)
  have "read_keys (Suc n) = (\<lambda>r. bindE (rd_u16 r) (\<lambda>(k, r).
      bindE (read_keys n r) (\<lambda>(ks, r). Inr (k # ks, r))))"
    by (rule ext) simp
  with Suc show ?case by (simp only:) (intro trunc_only_intros trunc_only_ints)
qed (simp add: trunc_only_Inr)

lemma trunc_only_snapshot: "trunc_only read_snapshot"
  unfolding read_snapshot_def [abs_def]
  by (intro trunc_only_intros trunc_only_ints trunc_only_keys trunc_only_gamepad)

lemma trunc_only_event: "trunc_only (read_event k)"
  by (cases k; simp only: read_event_def [abs_def] InputKind.case;
      intro trunc_only_intros trunc_only_ints trunc_only_gamepad trunc_only_snapshot)

text \<open>The complete case analysis of \<open>decode\<close>, by header length, version byte, kind byte and body.\<close>

lemma decode_cases:
  "decode bs =
    (if length bs < 16 then Inl (Truncated 16 (length bs))
     else if hd bs \<noteq> INPUT_PROTOCOL_VERSION then Inl (UnsupportedVersion (hd bs))
     else bindE (kind_from_u8 (bs ! 1)) (\<lambda>k. bindE (read_event k (adv 16 (reader_new bs))) (\<lambda>(ev, r).
       Inr \<lparr>header = \<lparr>version = hd bs, kind = k, flags = of_le (take 2 (drop 2 bs)),
              sequence = of_le (take 4 (drop 4 bs)),
              client_monotonic_us = of_le (take 8 (drop 8 bs))\<rparr>, event = ev\<rparr>)))"
  by (simp add: decode_def rd_rest INPUT_HEADER_LEN_def hd_drop_conv_nth del: One_nat_def)

lemma decode_truncated_iff:
  assumes "decode bs = Inl e"
  shows "(\<exists>need. e = Truncated need (length bs) \<and> length bs < need)
    \<or> (16 \<le> length bs \<and> (e = UnsupportedVersion (hd bs) \<and> hd bs \<noteq> INPUT_PROTOCOL_VERSION
         \<or> hd bs = INPUT_PROTOCOL_VERSION \<and> e = UnknownKind (bs ! 1) \<and> kind_from_u8 (bs ! 1) = Inl e))"
proof (cases "length bs < 16 \<or> hd bs \<noteq> INPUT_PROTOCOL_VERSION")
  case True
  with assms show ?thesis by (auto simp: decode_cases split: if_splits)
next
  case False
  show ?thesis
  proof (cases "kind_from_u8 (bs ! 1)")
    case (Inl e')
    with assms False show ?thesis
      by (auto simp: decode_cases kind_from_u8_def split: if_splits)
  next
    case (Inr k)
    with assms False have "read_event k (adv 16 (reader_new bs)) = Inl e"
      by (cases "read_event k (adv 16 (reader_new bs))") (auto simp: decode_cases)
    with trunc_only_event [of k, unfolded trunc_only_def, THEN spec, of "adv 16 (reader_new bs)"]
    show ?thesis by (simp add: reader_new_def)
  qed
qed

lemma cut_packet_is_truncated:
  assumes "speaks_v1 p" "k < length (encode p)"
  shows "\<exists>need. decode (take k (encode p)) = Inl (Truncated need k) \<and> k < need"
proof -
  let ?b = "take k (encode p)"
  from input_wire.strict_prefix_fails [OF assms] obtain e where e: "decode ?b = Inl e" by blast
  have full: "decode (encode p) = Inr (norm_packet p)" by (rule decode_encode [OF assms(1)])
  have "hd (encode p) = INPUT_PROTOCOL_VERSION" "\<exists>k. kind_from_u8 (encode p ! 1) = Inr k"
    using assms(1) by (simp_all add: encode_def write_header_def speaks_v1_def)
  moreover have "hd ?b = hd (encode p)" "?b ! 1 = encode p ! 1" if "16 \<le> length ?b"
    using that assms(2) by simp_all
  ultimately show ?thesis
    using decode_truncated_iff [OF e] e assms(2) by auto
qed

section \<open>Properties\<close>

text \<open>C16. Every packet a client encodes is read back, whatever bytes follow it in the datagram: same
  header and event, up to the kind byte (which comes from the event) and the first 65535 keys of a
  snapshot; the packet read encodes to the same bytes again; and no strict prefix of it is accepted:
  a packet cut short is reported as truncated, with the length there was and a larger one needed.\<close>
theorem packet_roundtrip:
  assumes "speaks_v1 p"
  shows "decode (encode p @ ys) = Inr (norm_packet p) \<and> encode (norm_packet p) = encode p
    \<and> (\<forall>k. k < length (encode p) \<longrightarrow> (\<exists>need. decode (take k (encode p)) = Inl (Truncated need k) \<and> k < need))"
  using input_wire.dec_enc_append [OF assms] input_wire.enc_norm [OF assms] cut_packet_is_truncated [OF assms]
  by blast

lemma packet_roundtrip_witness:
  "decode (encode \<lparr>header = \<lparr>version = INPUT_PROTOCOL_VERSION, kind = KKey, flags = 0, sequence = 7,
                            client_monotonic_us = 9\<rparr>, event = Key 30 True 0\<rparr> @ [1, 2, 3])
    = Inr \<lparr>header = \<lparr>version = INPUT_PROTOCOL_VERSION, kind = KKey, flags = 0, sequence = 7,
                            client_monotonic_us = 9\<rparr>, event = Key 30 True 0\<rparr>"
  using packet_roundtrip [of "\<lparr>header = \<lparr>version = INPUT_PROTOCOL_VERSION, kind = KKey, flags = 0, sequence = 7,
      client_monotonic_us = 9\<rparr>, event = Key 30 True 0\<rparr>" "[1, 2, 3]"]
  by (simp add: speaks_v1_def norm_packet_def norm_event_def)

text \<open>C17. What the decoder does with arbitrary bytes: a packet it accepts is well formed (its version is
  the host's, its kind byte is the event's, and it fits in the bytes given); otherwise the error says
  what is wrong: too few bytes, with the number missing from the right length, a foreign version, or
  an unknown kind byte.\<close>
theorem decode_exact:
  "(case decode bs of
      Inr p \<Rightarrow> speaks_v1 p \<and> kind (header p) = event_kind (event p) \<and> length (encode p) \<le> length bs
    | Inl (Truncated need got) \<Rightarrow> got = length bs \<and> got < need
    | Inl (UnsupportedVersion v) \<Rightarrow> 16 \<le> length bs \<and> v = hd bs \<and> v \<noteq> INPUT_PROTOCOL_VERSION
    | Inl (UnknownKind k) \<Rightarrow> 16 \<le> length bs \<and> hd bs = INPUT_PROTOCOL_VERSION \<and> k = bs ! 1
        \<and> kind_from_u8 k = Inl (UnknownKind k))"
proof (cases "decode bs")
  case (Inl e)
  from decode_truncated_iff [OF this] show ?thesis by (auto simp: Inl)
next
  case (Inr p)
  then show ?thesis using decode_wellformed [OF Inr] decode_length [OF Inr] by simp
qed

end
