(* ===== verification/WtWire.thy ===== *)
theory WtWire
  imports InPhasePrelude
begin

text \<open>
  The WebTransport video wire formats (\<open>crates/protocol/src/wtvideo.rs\<close>): the version 3
  self-delimiting stream frame, the version 4 datagram fragment, and the XOR parity rows that
  let a receiver rebuild lost fragments. The conversions \<open>as u32\<close> truncate, as in the source.
\<close>

section \<open>Version 3: one self-delimiting frame\<close>

definition WT_VIDEO_PROTOCOL_VERSION :: u8 where "WT_VIDEO_PROTOCOL_VERSION = 3"
definition WT_VIDEO_HEADER_LEN :: nat where "WT_VIDEO_HEADER_LEN = 18"
definition WT_FRAME_KEY :: u8 where "WT_FRAME_KEY = 1"

datatype WtVideoError = VTruncated | BadVersion u8

record WtFrame =
  frame_no :: u32
  capture_us :: u64
  key :: bool
  payload :: bytes

definition frame_encode :: "WtFrame \<Rightarrow> bytes" where
  "frame_encode f =
     [WT_VIDEO_PROTOCOL_VERSION] @ [if key f then WT_FRAME_KEY else 0]
     @ u32_le (frame_no f) @ u64_le (capture_us f)
     @ u32_le (of_nat (length (payload f))) @ payload f"

definition frame_decode :: "bytes \<Rightarrow> WtVideoError + WtFrame" where
  "frame_decode buf =
     (if length buf < WT_VIDEO_HEADER_LEN then Inl VTruncated
      else
        let payload_len = unat (of_le (take 4 (drop 14 buf)) :: u32) in
        if length buf < WT_VIDEO_HEADER_LEN + payload_len then Inl VTruncated
        else if buf ! 0 \<noteq> WT_VIDEO_PROTOCOL_VERSION then Inl (BadVersion (buf ! 0))
        else Inr \<lparr>frame_no = of_le (take 4 (drop 2 buf)),
                  capture_us = of_le (take 8 (drop 6 buf)),
                  key = (buf ! 1 AND WT_FRAME_KEY \<noteq> 0),
                  payload = take payload_len (drop WT_VIDEO_HEADER_LEN buf)\<rparr>)"

definition frame_fits :: "WtFrame \<Rightarrow> bool" where
  "frame_fits f \<longleftrightarrow> length (payload f) < 4294967296"

lemma unat_length_u32 [simp]: "n < 4294967296 \<Longrightarrow> unat (of_nat n :: u32) = n"
  by (simp add: unat_of_nat)

lemma length_frame_encode: "length (frame_encode f) = 18 + length (payload f)"
  by (simp add: frame_encode_def)

lemma frame_encode_fields:
  "take 4 (drop 14 (frame_encode f)) = u32_le (of_nat (length (payload f)))"
  "frame_encode f ! 0 = 3" "frame_encode f ! Suc 0 = (if key f then 1 else 0)"
  "take 4 (drop 2 (frame_encode f)) = u32_le (frame_no f)"
  "take 8 (drop 6 (frame_encode f)) = u64_le (capture_us f)"
  "drop 18 (frame_encode f) = payload f"
  by (simp_all add: frame_encode_def WT_VIDEO_PROTOCOL_VERSION_def WT_FRAME_KEY_def)

lemma frame_decode_encode:
  assumes "frame_fits f"
  shows "frame_decode (frame_encode f) = Inr f"
  using assms
  by (cases f) (simp add: frame_decode_def frame_encode_fields length_frame_encode frame_fits_def
      WT_VIDEO_HEADER_LEN_def WT_VIDEO_PROTOCOL_VERSION_def WT_FRAME_KEY_def)

lemma frame_decode_append:
  assumes "frame_decode bs = Inr f"
  shows "frame_decode (bs @ ys) = Inr f"
  using assms
  by (auto simp: frame_decode_def Let_def WT_VIDEO_HEADER_LEN_def nth_append split: if_splits)

lemma frame_decode_length:
  "frame_decode bs = Inr f \<Longrightarrow> length (frame_encode f) \<le> length bs"
  by (auto simp: frame_decode_def Let_def WT_VIDEO_HEADER_LEN_def length_frame_encode min_def
      split: if_splits)

interpretation frame_wire: prefix_codec frame_encode frame_decode "\<lambda>f. f" frame_fits
  by unfold_locales
    (simp_all add: frame_decode_encode frame_decode_append frame_decode_length)

text \<open>
  Back-to-back frames on one stream: the reader takes a frame's header, then exactly its
  payload, and goes on with the rest.
\<close>

fun read_frames :: "nat \<Rightarrow> bytes \<Rightarrow> WtFrame list" where
  "read_frames 0 bs = []"
| "read_frames (Suc n) bs =
     (case frame_decode bs of
        Inl _ \<Rightarrow> []
      | Inr f \<Rightarrow> f # read_frames n (drop (WT_VIDEO_HEADER_LEN + length (payload f)) bs))"

lemma read_frames_stream:
  "\<forall>f \<in> set fs. frame_fits f \<Longrightarrow>
     read_frames (length fs) (concat (map frame_encode fs) @ tail) = fs"
proof (induction fs)
  case (Cons f fs)
  have "frame_decode (frame_encode f @ (concat (map frame_encode fs) @ tail)) = Inr f"
    using Cons.prems by (intro frame_wire.dec_enc_append) simp
  with Cons show ?case
    by (simp add: length_frame_encode WT_VIDEO_HEADER_LEN_def del: drop_append)
       (simp add: drop_append length_frame_encode)
qed simp

section \<open>Version 4: datagram fragments\<close>

definition WT_VIDEO_PROTOCOL_V4 :: u8 where "WT_VIDEO_PROTOCOL_V4 = 4"
definition WT_FRAGMENT_HEADER_LEN :: nat where "WT_FRAGMENT_HEADER_LEN = 18"
definition WT_AUDIO_DATAGRAM_TAG :: u8 where "WT_AUDIO_DATAGRAM_TAG = 65"
definition WT_FRAGMENT_PARITY1 :: u8 where "WT_FRAGMENT_PARITY1 = 2"
definition WT_FRAGMENT_PARITY2 :: u8 where "WT_FRAGMENT_PARITY2 = 4"

record WtFragment =
  fg_frame_no :: u32
  fg_frag_idx :: u16
  fg_frag_cnt :: u16
  fg_capture_us :: u64
  fg_key :: bool
  fg_parity :: u8
  fg_payload :: bytes

definition fragment_flags :: "WtFragment \<Rightarrow> u8" where
  "fragment_flags f =
     (if fg_key f then 0 OR WT_FRAME_KEY else 0)
     OR (if fg_parity f = 1 then WT_FRAGMENT_PARITY1
         else if fg_parity f = 2 then WT_FRAGMENT_PARITY2 else 0)"

definition fragment_encode :: "WtFragment \<Rightarrow> bytes" where
  "fragment_encode f =
     [WT_VIDEO_PROTOCOL_V4] @ [fragment_flags f] @ u32_le (fg_frame_no f)
     @ u16_le (fg_frag_idx f) @ u16_le (fg_frag_cnt f) @ u64_le (fg_capture_us f)
     @ fg_payload f"

definition fragment_decode :: "bytes \<Rightarrow> WtVideoError + WtFragment" where
  "fragment_decode buf =
     (if length buf < WT_FRAGMENT_HEADER_LEN then Inl VTruncated
      else if buf ! 0 \<noteq> WT_VIDEO_PROTOCOL_V4 then Inl (BadVersion (buf ! 0))
      else Inr \<lparr>fg_frame_no = of_le (take 4 (drop 2 buf)),
                fg_frag_idx = of_le (take 2 (drop 6 buf)),
                fg_frag_cnt = of_le (take 2 (drop 8 buf)),
                fg_capture_us = of_le (take 8 (drop 10 buf)),
                fg_key = (buf ! 1 AND WT_FRAME_KEY \<noteq> 0),
                fg_parity = (if buf ! 1 AND WT_FRAGMENT_PARITY2 \<noteq> 0 then 2
                             else if buf ! 1 AND WT_FRAGMENT_PARITY1 \<noteq> 0 then 1 else 0),
                fg_payload = drop WT_FRAGMENT_HEADER_LEN buf\<rparr>)"

text \<open>The flags byte has room for three parity values; any other reads back as data.\<close>

definition norm_fragment :: "WtFragment \<Rightarrow> WtFragment" where
  "norm_fragment f = f\<lparr>fg_parity := (if fg_parity f = 1 \<or> fg_parity f = 2 then fg_parity f else 0)\<rparr>"

lemma fragment_encode_fields:
  "length (fragment_encode f) = 18 + length (fg_payload f)"
  "fragment_encode f ! 0 = 4" "fragment_encode f ! Suc 0 = fragment_flags f"
  "take 4 (drop 2 (fragment_encode f)) = u32_le (fg_frame_no f)"
  "take 2 (drop 6 (fragment_encode f)) = u16_le (fg_frag_idx f)"
  "take 2 (drop 8 (fragment_encode f)) = u16_le (fg_frag_cnt f)"
  "take 8 (drop 10 (fragment_encode f)) = u64_le (fg_capture_us f)"
  "drop 18 (fragment_encode f) = fg_payload f"
  by (simp_all add: fragment_encode_def WT_VIDEO_PROTOCOL_V4_def)

lemma fragment_decode_encode: "fragment_decode (fragment_encode f) = Inr (norm_fragment f)"
  by (cases f)
    (simp add: fragment_decode_def fragment_encode_fields norm_fragment_def fragment_flags_def
      WT_FRAGMENT_HEADER_LEN_def WT_VIDEO_PROTOCOL_V4_def WT_FRAME_KEY_def
      WT_FRAGMENT_PARITY1_def WT_FRAGMENT_PARITY2_def)

lemma fragment_encode_norm: "fragment_encode (norm_fragment f) = fragment_encode f"
  by (simp add: fragment_encode_def norm_fragment_def fragment_flags_def)

interpretation fragment_wire: wire_codec fragment_encode fragment_decode norm_fragment "\<lambda>_. True"
  by unfold_locales (simp_all add: fragment_decode_encode fragment_encode_norm)

section \<open>XOR parity\<close>

definition FRAGMENT_GROUP :: nat where "FRAGMENT_GROUP = 8"
definition PARITY_TRAILER_LEN :: nat where "PARITY_TRAILER_LEN = 4"
definition TWO_ROW_MIN_FRAGMENTS :: nat where "TWO_ROW_MIN_FRAGMENTS = 16"

definition wants_two_parity_rows :: "bool \<Rightarrow> u16 \<Rightarrow> bool" where
  "wants_two_parity_rows k frag_cnt \<longleftrightarrow> k \<or> TWO_ROW_MIN_FRAGMENTS \<le> unat frag_cnt"

definition div_ceil :: "nat \<Rightarrow> nat \<Rightarrow> nat" where
  "div_ceil a b = (if a mod b = 0 then a div b else a div b + 1)"

text \<open>\<open>row[j] ^= b\<close> for every byte of one payload; the row is at least as wide.\<close>

fun xor_into :: "bytes \<Rightarrow> bytes \<Rightarrow> bytes" where
  "xor_into [] ps = []"
| "xor_into rs [] = rs"
| "xor_into (r # rs) (p # ps) = (r XOR p) # xor_into rs ps"

text \<open>The loop over a group's members with their offsets.\<close>

fun xor_rows :: "nat \<Rightarrow> bytes list \<Rightarrow> bytes \<times> bytes \<Rightarrow> bytes \<times> bytes" where
  "xor_rows off [] rr = rr"
| "xor_rows off (p # ps) (row1, row2) =
     xor_rows (Suc off) ps (xor_into row1 p, if off mod 2 = 1 then xor_into row2 p else row2)"

definition parity_group :: "bytes list \<Rightarrow> nat \<Rightarrow> bytes list" where
  "parity_group frags g =
     (let lo = g * FRAGMENT_GROUP; hi = min ((g + 1) * FRAGMENT_GROUP) (length frags)
      in take (hi - lo) (drop lo frags))"

definition group_width :: "bytes list \<Rightarrow> nat" where
  "group_width grp = fold max (map length grp) 0"

definition parity_total :: "bytes list \<Rightarrow> bytes" where
  "parity_total frags = u32_le (of_nat (sum_list (map length frags)))"

definition group_rows :: "bytes list \<Rightarrow> nat \<Rightarrow> bytes \<times> bytes" where
  "group_rows frags g =
     (let grp = parity_group frags g; zero = replicate (group_width grp) 0
      in xor_rows 0 grp (zero, zero))"

definition fragment_parity :: "bytes list \<Rightarrow> bool \<Rightarrow> (u8 \<times> bytes) list" where
  "fragment_parity frags two_rows =
     concat (map (\<lambda>g. let (row1, row2) = group_rows frags g; total = parity_total frags
                      in (1, row1 @ total) # (if two_rows then [(2, row2 @ total)] else []))
              [0..<div_ceil (length frags) FRAGMENT_GROUP])"

section \<open>What parity can rebuild\<close>

text \<open>The \<open>j\<close>-th byte of a payload padded with zeros, and the XOR of a list.\<close>

definition pad_at :: "bytes \<Rightarrow> nat \<Rightarrow> u8" where
  "pad_at p j = (if j < length p then p ! j else 0)"

definition xor_list :: "u8 list \<Rightarrow> u8" where
  "xor_list xs = foldr (XOR) xs 0"

definition rebuild :: "bytes list \<Rightarrow> bytes \<Rightarrow> bytes" where
  "rebuild others row = fold (\<lambda>p acc. xor_into acc p) others row"

lemma xor_list_simps [simp]: "xor_list [] = 0" "xor_list (x # xs) = x XOR xor_list xs"
  by (simp_all add: xor_list_def)

lemma length_xor_into [simp]: "length (xor_into row p) = length row"
  by (induction row p rule: xor_into.induct) auto

lemma xor_into_nth: "j < length row \<Longrightarrow> xor_into row p ! j = row ! j XOR pad_at p j"
proof (induction row p arbitrary: j rule: xor_into.induct)
  case (3 r rs p ps)
  then show ?case by (cases j) (auto simp: pad_at_def)
qed (auto simp: pad_at_def)

lemma length_rebuild [simp]: "length (rebuild others row) = length row"
  unfolding rebuild_def by (induction others arbitrary: row) auto

lemma rebuild_nth:
  "j < length row \<Longrightarrow> rebuild others row ! j = row ! j XOR xor_list (map (\<lambda>p. pad_at p j) others)"
  unfolding rebuild_def
  by (induction others arbitrary: row) (simp_all add: xor_into_nth ac_simps)

lemma xor_rows_rebuild:
  "xor_rows off ps (r1, r2) =
     (rebuild ps r1, rebuild (map (nth ps) (filter (\<lambda>m. odd (off + m)) [0..<length ps])) r2)"
proof (induction ps arbitrary: off r1 r2)
  case (Cons p ps)
  have "[0..<length (p # ps)] = 0 # map Suc [0..<length ps]"
    by (metis map_Suc_upt upt_conv_Cons length_Cons zero_less_Suc)
  then have "map (nth (p # ps)) (filter (\<lambda>m. odd (off + m)) [0..<length (p # ps)]) =
    (if odd off then [p] else []) @ map (nth ps) (filter (\<lambda>m. odd (Suc off + m)) [0..<length ps])"
    by (simp add: filter_map o_def del: upt_Suc)
  moreover have "off mod 2 = 1 \<longleftrightarrow> odd off" by presburger
  ultimately show ?case
    by (cases "odd off"; simp only: xor_rows.simps if_True if_False Cons.IH; simp add: rebuild_def)
qed (simp add: rebuild_def)

lemma xor_list_remove:
  assumes "k \<in> set ms" "distinct ms"
  shows "xor_list (map f ms) = f k XOR xor_list (map f (filter (\<lambda>m. m \<noteq> k) ms))"
  using assms
proof (induction ms)
  case (Cons m ms)
  show ?case
  proof (cases "m = k")
    case True
    with Cons.prems have "filter (\<lambda>m. m \<noteq> k) ms = ms" by (auto simp: filter_id_conv)
    with True show ?thesis by simp
  next
    case False
    with Cons show ?thesis by (simp add: ac_simps)
  qed
qed simp

lemma fold_max_ge: "(a::nat) \<le> fold max xs a" "x \<in> set xs \<Longrightarrow> x \<le> fold max xs a"
proof -
  show mono: "a \<le> fold max xs a" for a :: nat and xs
    by (induction xs arbitrary: a) (auto intro: le_trans [OF max.cobounded2])
  show "x \<le> fold max xs a" if "x \<in> set xs"
    using that
  proof (induction xs arbitrary: a)
    case (Cons y ys)
    show ?case
    proof (cases "x = y")
      case True
      then show ?thesis using mono [of "max y a" ys] by simp
    next
      case False
      with Cons show ?thesis by simp
    qed
  qed simp
qed

lemma group_width_ge: "p \<in> set grp \<Longrightarrow> length p \<le> group_width grp"
  unfolding group_width_def by (rule fold_max_ge) simp

text \<open>
  The heart of the scheme: a row that is the XOR of the members \<open>ms\<close> of a group gives back
  member \<open>k\<close> from all the others.
\<close>

lemma rebuild_member:
  assumes k: "k \<in> set ms" "distinct ms" and w: "length (ps ! k) \<le> w"
    and row: "row = rebuild (map (nth ps) ms) (replicate w 0)"
  shows "take (length (ps ! k)) (rebuild (map (nth ps) (filter (\<lambda>m. m \<noteq> k) ms)) row) = ps ! k"
proof (rule nth_equalityI)
  show "length (take (length (ps ! k)) (rebuild (map (nth ps) (filter (\<lambda>m. m \<noteq> k) ms)) row))
    = length (ps ! k)"
    using w by (simp add: row)
next
  fix j
  assume "j < length (take (length (ps ! k)) (rebuild (map (nth ps) (filter (\<lambda>m. m \<noteq> k) ms)) row))"
  then have j: "j < length (ps ! k)" "j < w" using w by (simp_all add: row)
  let ?f = "\<lambda>m. pad_at (ps ! m) j"
  let ?X = "xor_list (map ?f (filter (\<lambda>m. m \<noteq> k) ms))"
  have "rebuild (map (nth ps) (filter (\<lambda>m. m \<noteq> k) ms)) row ! j = xor_list (map ?f ms) XOR ?X"
    using j by (simp add: row rebuild_nth o_def)
  also have "\<dots> = ?f k"
    by (simp add: xor_list_remove [OF k] xor.assoc)
  also have "\<dots> = ps ! k ! j" using j by (simp add: pad_at_def)
  finally show "take (length (ps ! k)) (rebuild (map (nth ps) (filter (\<lambda>m. m \<noteq> k) ms)) row) ! j
    = ps ! k ! j"
    using j by simp
qed

lemma concat_pairs_nth:
  "g < n \<Longrightarrow> concat (map (\<lambda>g. [a g, b g]) [0..<n]) ! (2 * g) = a g
     \<and> concat (map (\<lambda>g. [a g, b g]) [0..<n]) ! (2 * g + 1) = b g"
proof (induction n)
  case (Suc n)
  have len: "length (concat (map (\<lambda>g. [a g, b g]) [0..<n])) = 2 * n" by (induction n) auto
  show ?case
  proof (cases "g < n")
    case True
    with Suc.IH show ?thesis by (simp add: nth_append len)
  next
    case False
    with Suc.prems have "g = n" by simp
    then show ?thesis by (simp add: nth_append len)
  qed
qed simp

lemma concat_singletons: "concat (map (\<lambda>g. [a g]) xs) = map a xs"
  by (induction xs) auto

text \<open>Position of a group's rows in the list the sender walks.\<close>

definition row1_pos :: "bool \<Rightarrow> nat \<Rightarrow> nat" where
  "row1_pos two_rows g = (if two_rows then 2 * g else g)"

lemma fragment_parity_row1:
  assumes "g < div_ceil (length frags) FRAGMENT_GROUP"
  shows "fragment_parity frags two_rows ! row1_pos two_rows g
    = (1, fst (group_rows frags g) @ parity_total frags)"
proof (cases two_rows)
  case True
  then have "fragment_parity frags two_rows =
    concat (map (\<lambda>g. [(1, fst (group_rows frags g) @ parity_total frags),
                      (2, snd (group_rows frags g) @ parity_total frags)])
             [0..<div_ceil (length frags) FRAGMENT_GROUP])"
    by (simp add: fragment_parity_def Let_def split_beta)
  with concat_pairs_nth [OF assms, where a = "\<lambda>g. (1 :: u8, fst (group_rows frags g) @ parity_total frags)"
      and b = "\<lambda>g. (2 :: u8, snd (group_rows frags g) @ parity_total frags)"] True show ?thesis by (simp add: row1_pos_def)
next
  case False
  with assms show ?thesis
    by (simp add: fragment_parity_def Let_def split_beta concat_singletons row1_pos_def)
qed

lemma fragment_parity_row2:
  assumes "g < div_ceil (length frags) FRAGMENT_GROUP"
  shows "fragment_parity frags True ! Suc (row1_pos True g)
    = (2, snd (group_rows frags g) @ parity_total frags)"
  using concat_pairs_nth [OF assms, where a = "\<lambda>g. (1 :: u8, fst (group_rows frags g) @ parity_total frags)"
      and b = "\<lambda>g. (2 :: u8, snd (group_rows frags g) @ parity_total frags)"]
  by (simp add: fragment_parity_def Let_def split_beta row1_pos_def)

lemma group_rows_rebuild:
  "group_rows frags g =
     (let grp = parity_group frags g; zero = replicate (group_width grp) 0 in
      (rebuild (map (nth grp) [0..<length grp]) zero,
       rebuild (map (nth grp) (filter odd [0..<length grp])) zero))"
  by (simp add: group_rows_def Let_def xor_rows_rebuild map_nth)

lemma parity_group_len:
  "length (parity_group frags g) = min (g * 8 + 8) (length frags) - g * 8"
  by (auto simp: parity_group_def FRAGMENT_GROUP_def Let_def min_def)

lemma parity_group_nth:
  "i < length (parity_group frags g) \<Longrightarrow> parity_group frags g ! i = frags ! (g * 8 + i)"
  by (simp add: parity_group_def FRAGMENT_GROUP_def Let_def)

lemma group_index:
  assumes "i < 8" "g * 8 + i < length frags"
  shows "g < div_ceil (length frags) FRAGMENT_GROUP" "i < length (parity_group frags g)"
  using assms by (auto simp: div_ceil_def FRAGMENT_GROUP_def parity_group_len)

text \<open>The members of a group other than fragment \<open>k\<close>, by position in the frame.\<close>

definition group_others :: "bytes list \<Rightarrow> nat \<Rightarrow> nat \<Rightarrow> bytes list" where
  "group_others frags g k =
     map (nth frags) (filter (\<lambda>m. m \<noteq> k) [g * 8..<min (g * 8 + 8) (length frags)])"

definition group_odd_others :: "bytes list \<Rightarrow> nat \<Rightarrow> nat \<Rightarrow> bytes list" where
  "group_odd_others frags g k =
     map (nth frags) (filter (\<lambda>m. odd (m - g * 8) \<and> m \<noteq> k) [g * 8..<min (g * 8 + 8) (length frags)])"

lemma upt_shift: "[a..<b] = map (\<lambda>i. a + i) [0..<b - a]"
  using map_add_upt [of a "b - a"] by (cases "a \<le> b") (simp_all add: add.commute)

lemma group_others_local:
  "group_others frags g (g * 8 + i)
     = map (nth (parity_group frags g)) (filter (\<lambda>m. m \<noteq> i) [0..<length (parity_group frags g)])"
  "group_odd_others frags g (g * 8 + i)
     = map (nth (parity_group frags g)) (filter (\<lambda>m. m \<noteq> i) (filter odd [0..<length (parity_group frags g)]))"
  unfolding group_others_def group_odd_others_def
  by (subst upt_shift; simp add: filter_map o_def parity_group_len conj_commute;
      auto simp: parity_group_nth parity_group_len)+

definition strip_trailer :: "bytes \<Rightarrow> bytes" where
  "strip_trailer w = take (length w - PARITY_TRAILER_LEN) w"

lemma strip_trailer_total [simp]: "strip_trailer (row @ parity_total frags) = row"
  by (simp add: strip_trailer_def PARITY_TRAILER_LEN_def parity_total_def)

lemma row1_rebuilds:
  assumes "i < 8" "g * 8 + i < length frags"
  shows "take (length (frags ! (g * 8 + i)))
    (rebuild (group_others frags g (g * 8 + i))
      (strip_trailer (snd (fragment_parity frags two_rows ! row1_pos two_rows g))))
    = frags ! (g * 8 + i)"
proof -
  let ?grp = "parity_group frags g"
  note ix = group_index [OF assms]
  have "length (?grp ! i) \<le> group_width ?grp" using ix by (intro group_width_ge) simp
  then have "take (length (?grp ! i)) (rebuild (map (nth ?grp) (filter (\<lambda>m. m \<noteq> i) [0..<length ?grp]))
      (fst (group_rows frags g))) = ?grp ! i"
    using ix by (intro rebuild_member) (auto simp: group_rows_rebuild Let_def)
  then show ?thesis
    using ix by (simp add: fragment_parity_row1 group_others_local parity_group_nth)
qed

lemma row2_rebuilds:
  assumes "i < 8" "odd i" "g * 8 + i < length frags"
  shows "take (length (frags ! (g * 8 + i)))
    (rebuild (group_odd_others frags g (g * 8 + i))
      (strip_trailer (snd (fragment_parity frags True ! Suc (row1_pos True g)))))
    = frags ! (g * 8 + i)"
proof -
  let ?grp = "parity_group frags g"
  note ix = group_index [OF assms(1,3)]
  have "length (?grp ! i) \<le> group_width ?grp" using ix by (intro group_width_ge) simp
  then have "take (length (?grp ! i))
      (rebuild (map (nth ?grp) (filter (\<lambda>m. m \<noteq> i) (filter odd [0..<length ?grp])))
        (snd (group_rows frags g))) = ?grp ! i"
    using ix assms(2) by (intro rebuild_member) (auto simp: group_rows_rebuild Let_def)
  then show ?thesis
    using ix by (simp add: fragment_parity_row2 group_others_local parity_group_nth del: filter_filter)
qed

section \<open>Properties\<close>

text \<open>Frames written back to back on one stream are read back one by one: the header delimits each
  frame exactly, so a reader never loses its place, however many there are and whatever follows.\<close>
theorem frame_stream_roundtrip:
  assumes "list_all frame_fits fs"
  shows "read_frames (length fs) (concat (map frame_encode fs) @ tail) = fs"
  using assms by (intro read_frames_stream) (simp add: list_all_iff)

lemma frame_stream_roundtrip_witness:
  "read_frames 2 (concat (map frame_encode [\<lparr>frame_no = 1, capture_us = 5, key = True, payload = [1, 2]\<rparr>,
       \<lparr>frame_no = 2, capture_us = 6, key = False, payload = []\<rparr>]) @ [3])
    = [\<lparr>frame_no = 1, capture_us = 5, key = True, payload = [1, 2]\<rparr>,
       \<lparr>frame_no = 2, capture_us = 6, key = False, payload = []\<rparr>]"
proof -
  let ?fs = "[\<lparr>frame_no = 1, capture_us = 5, key = True, payload = [1, 2]\<rparr>,
       \<lparr>frame_no = 2, capture_us = 6, key = False, payload = []\<rparr>]"
  have "list_all frame_fits ?fs" by (simp add: frame_fits_def)
  from frame_stream_roundtrip [OF this, of "[3]"] have "read_frames (length ?fs) (concat (map frame_encode ?fs) @ [3]) = ?fs" .
  moreover have "length ?fs = 2" by simp
  ultimately show ?thesis by (simp only:)
qed

end
