(* ===== verification/AnnexB.thy ===== *)
theory AnnexB
  imports InPhasePrelude
begin

text \<open>
  The Annex-B helpers of \<open>crates/protocol/src/wtvideo.rs\<close>: splitting an access unit into NAL
  units, rewriting it with length prefixes, removing emulation-prevention bytes, and building
  the HEVC decoder configuration record. The index loops of the source are recursions on the
  remaining input or on the index, with the source's bounds tests.
\<close>

section \<open>Splitting\<close>

text \<open>The positions of the three-byte start codes: \<open>while i + 2 < au.len()\<close>.\<close>

function start_codes :: "bytes \<Rightarrow> nat \<Rightarrow> nat list" where
  "start_codes au i =
     (if i + 2 < length au then
        if au ! i = 0 \<and> au ! (i + 1) = 0 \<and> au ! (i + 2) = 1 then i # start_codes au (i + 3)
        else start_codes au (i + 1)
      else [])"
  by pat_completeness auto
termination by (relation "measure (\<lambda>(au, i). length au - i)") auto

declare start_codes.simps [simp del]

text \<open>\<open>while let Some((&0, rest)) = slice.split_last()\<close>: drop trailing zero bytes.\<close>

definition trim_zeros :: "bytes \<Rightarrow> bytes" where
  "trim_zeros s = rev (dropWhile (\<lambda>b. b = 0) (rev s))"

definition slice :: "bytes \<Rightarrow> nat \<Rightarrow> nat \<Rightarrow> bytes" where
  "slice au s e = take (e - s) (drop s au)"

fun nal_slices :: "bytes \<Rightarrow> nat list \<Rightarrow> bytes list" where
  "nal_slices au [] = []"
| "nal_slices au (t # ts) =
     trim_zeros (slice au (t + 3) (case ts of [] \<Rightarrow> length au | u # _ \<Rightarrow> u)) # nal_slices au ts"

definition annexb_nals :: "bytes \<Rightarrow> bytes list" where
  "annexb_nals au = nal_slices au (start_codes au 0)"

section \<open>Length prefixes\<close>

text \<open>\<open>while nal_end > start && au[nal_end - 1] == 0 \{ nal_end -= 1; \}\<close>\<close>

function trim_end :: "bytes \<Rightarrow> nat \<Rightarrow> nat \<Rightarrow> nat" where
  "trim_end au start e = (if e > start \<and> au ! (e - 1) = 0 then trim_end au start (e - 1) else e)"
  by pat_completeness auto
termination by (relation "measure (\<lambda>(au, s, e). e)") auto

declare trim_end.simps [simp del]

fun prefix_nals :: "bytes \<Rightarrow> nat list \<Rightarrow> bytes" where
  "prefix_nals au [] = []"
| "prefix_nals au (t # ts) =
     (let start = t + 3; e = (case ts of [] \<Rightarrow> length au | u # _ \<Rightarrow> u); nal_end = trim_end au start e
      in u32_be (of_nat (nal_end - start)) @ slice au start nal_end @ prefix_nals au ts)"

definition annexb_to_length_prefixed :: "bytes \<Rightarrow> bytes" where
  "annexb_to_length_prefixed au = prefix_nals au (start_codes au 0)"

section \<open>Emulation prevention\<close>

text \<open>\<open>00 00 03\<close> is replaced by \<open>00 00\<close> wherever three bytes remain; anything else is copied.\<close>

fun rbsp_unescape :: "bytes \<Rightarrow> bytes" where
  "rbsp_unescape (a # b # c # xs) =
     (if a = 0 \<and> b = 0 \<and> c = 3 then 0 # 0 # rbsp_unescape xs else a # rbsp_unescape (b # c # xs))"
| "rbsp_unescape (a # xs) = a # rbsp_unescape xs"
| "rbsp_unescape [] = []"

section \<open>The HEVC decoder configuration record\<close>

definition nal_type :: "bytes \<Rightarrow> u8" where
  "nal_type nal = drop_bit 1 (nal ! 0) AND 63"

text \<open>The scan keeps the first VPS, SPS and PPS, and skips NAL units shorter than two bytes.\<close>

fun param_sets :: "bytes list \<Rightarrow> bytes option \<times> bytes option \<times> bytes option
    \<Rightarrow> bytes option \<times> bytes option \<times> bytes option" where
  "param_sets [] acc = acc"
| "param_sets (nal # nals) (v, s, p) =
     param_sets nals
       (if length nal < 2 then (v, s, p)
        else if nal_type nal = 32 \<and> v = None then (Some nal, s, p)
        else if nal_type nal = 33 \<and> s = None then (v, Some nal, p)
        else if nal_type nal = 34 \<and> p = None then (v, s, Some nal)
        else (v, s, p))"

definition u16_be :: "u16 \<Rightarrow> bytes" where "u16_be w = be_bytes 2 (unat w)"

definition hvcc_array :: "u8 \<Rightarrow> bytes \<Rightarrow> bytes" where
  "hvcc_array ty nal = [128] @ [ty] @ [0, 1] @ u16_be (of_nat (length nal)) @ nal"

text \<open>\<open>x.get(a..b)\<close> of Rust: the slice when it is in range.\<close>

definition get_range :: "bytes \<Rightarrow> nat \<Rightarrow> nat \<Rightarrow> bytes option" where
  "get_range xs a b = (if a \<le> b \<and> b \<le> length xs then Some (slice xs a b) else None)"

definition get_from :: "bytes \<Rightarrow> nat \<Rightarrow> bytes option" where
  "get_from xs a = (if a \<le> length xs then Some (drop a xs) else None)"

definition hvcc_description :: "bytes \<Rightarrow> bytes option" where
  "hvcc_description au =
     (case param_sets (annexb_nals au) (None, None, None) of
        (Some vps, Some sps, Some pps) \<Rightarrow>
          (case get_from sps 2 of None \<Rightarrow> None
           | Some body \<Rightarrow>
              (case get_range (rbsp_unescape body) 1 13 of None \<Rightarrow> None
               | Some ptl \<Rightarrow>
                  Some ([1] @ ptl @ [240, 0] @ [252] @ [252 OR 1] @ [252] @ [252] @ [0, 0] @ [31] @ [3]
                        @ hvcc_array 32 vps @ hvcc_array 33 sps @ hvcc_array 34 pps)))
      | _ \<Rightarrow> None)"

section \<open>Splitting recovers what was joined\<close>

text \<open>
  A NAL unit as an encoder emits it: not empty, no start code inside, no trailing zero. The
  stream puts a four-byte start code in front of each.
\<close>

definition clean_nal :: "bytes \<Rightarrow> bool" where
  "clean_nal n \<longleftrightarrow> n \<noteq> [] \<and> last n \<noteq> 0 \<and> start_codes n 0 = []"

definition annexb_join :: "bytes list \<Rightarrow> bytes" where
  "annexb_join nals = concat (map (\<lambda>n. [0, 0, 0, 1] @ n) nals)"

definition code_at :: "bytes \<Rightarrow> nat \<Rightarrow> bool" where
  "code_at au i \<longleftrightarrow> i + 2 < length au \<and> au ! i = 0 \<and> au ! (i + 1) = 0 \<and> au ! (i + 2) = 1"

lemma start_codes_hit: "code_at au i \<Longrightarrow> start_codes au i = i # start_codes au (i + 3)"
  by (subst start_codes.simps) (simp add: code_at_def)

lemma start_codes_miss: "\<not> code_at au i \<Longrightarrow> i + 2 < length au \<Longrightarrow> start_codes au i = start_codes au (i + 1)"
  by (subst start_codes.simps) (auto simp: code_at_def)

lemma start_codes_end: "\<not> i + 2 < length au \<Longrightarrow> start_codes au i = []"
  by (subst start_codes.simps) simp

lemma start_codes_skip:
  "(\<And>j. i \<le> j \<Longrightarrow> j < k \<Longrightarrow> \<not> code_at au j) \<Longrightarrow> i \<le> k \<Longrightarrow> start_codes au i = start_codes au k"
proof (induction "k - i" arbitrary: i)
  case (Suc d)
  show ?case
  proof (cases "i + 2 < length au")
    case True
    from Suc have "start_codes au (i + 1) = start_codes au k" by simp
    moreover have "\<not> code_at au i" using Suc by simp
    ultimately show ?thesis using True by (simp add: start_codes_miss)
  next
    case False
    with Suc.prems show ?thesis by (simp add: start_codes_end)
  qed
qed simp

lemma start_codes_none: "start_codes au i = [] \<Longrightarrow> i \<le> j \<Longrightarrow> \<not> code_at au j"
proof (induction au i rule: start_codes.induct)
  case (1 au i)
  show ?case
  proof (cases "i + 2 < length au")
    case True
    with 1 have "\<not> code_at au i" using start_codes_hit [of au i] by auto
    with 1 True show ?thesis
      using start_codes_miss [of au i] by (cases "i = j") (auto simp: code_at_def)
  next
    case False
    with "1.prems" show ?thesis by (simp add: code_at_def)
  qed
qed

lemma code_at_shift: "code_at (xs @ ys) (length xs + i) = code_at ys i"
  using nth_append [of xs ys "length xs + i"] nth_append [of xs ys "length xs + i + 1"]
    nth_append [of xs ys "length xs + i + 2"]
  by (simp add: code_at_def)

lemma start_codes_shift: "start_codes (xs @ ys) (length xs + i) = map ((+) (length xs)) (start_codes ys i)"
proof (induction ys i rule: start_codes.induct)
  case (1 ys i)
  show ?case
  proof (cases "i + 2 < length ys")
    case True
    show ?thesis
    proof (cases "code_at ys i")
      case hit: True
      then have "code_at (xs @ ys) (length xs + i)" by (simp add: code_at_shift)
      from start_codes_hit [OF this] start_codes_hit [OF hit] 1(1) hit show ?thesis
        by (simp add: code_at_def add.assoc)
    next
      case miss: False
      then have "\<not> code_at (xs @ ys) (length xs + i)" by (simp add: code_at_shift)
      from start_codes_miss [OF this] start_codes_miss [OF miss True] 1(2) True miss show ?thesis
        by (simp add: code_at_def)
    qed
  next
    case False
    then show ?thesis by (simp add: start_codes_end)
  qed
qed

lemma code_at_0 [simp]: "code_at (0 # 0 # 0 # 1 # xs) 1" "\<not> code_at (0 # 0 # 0 # 1 # xs) 0"
  by (simp_all add: code_at_def)

lemma start_codes_prefix: "start_codes (0 # 0 # 0 # 1 # xs) 0 = 1 # map ((+) 4) (start_codes xs 0)"
proof -
  have "start_codes (0 # 0 # 0 # 1 # xs) 0 = start_codes (0 # 0 # 0 # 1 # xs) 1"
    by (rule start_codes_skip) auto
  also have "\<dots> = 1 # start_codes (0 # 0 # 0 # 1 # xs) 4"
    by (simp add: start_codes_hit del: One_nat_def)
  also have "\<dots> = 1 # start_codes ([0, 0, 0, 1] @ xs) (length [0 :: u8, 0, 0, 1] + 0)"
    by (simp add: eval_nat_numeral)
  finally show ?thesis by (simp only: start_codes_shift) simp
qed

lemma start_codes_clean:
  assumes "clean_nal n" "zs = [] \<or> (\<exists>ys. zs = 0 # 0 # 0 # 1 # ys)"
  shows "start_codes (n @ zs) 0 = map ((+) (length n)) (start_codes zs 0)"
proof -
  have nz: "n ! (length n - 1) \<noteq> 0" "0 < length n"
    using assms(1) last_conv_nth [of n] by (auto simp: clean_nal_def)
  have "\<not> code_at (n @ zs) j" if "j < length n" for j
  proof
    assume c: "code_at (n @ zs) j"
    show False
    proof (cases "j + 2 < length n")
      case True
      with c have "code_at n j" by (simp add: code_at_def nth_append)
      with assms(1) show False using start_codes_none [of n 0 j] by (simp add: clean_nal_def)
    next
      case False
      with that have "length n - 1 = j \<or> length n - 1 = j + 1" by auto
      with c nz show False by (auto simp: code_at_def nth_append split: if_splits)
    qed
  qed
  then have "start_codes (n @ zs) 0 = start_codes (n @ zs) (length n)"
    by (intro start_codes_skip) auto
  with start_codes_shift [of n zs 0] show ?thesis by simp
qed

lemma annexb_join_Cons: "annexb_join (n # ns) = 0 # 0 # 0 # 1 # n @ annexb_join ns"
  by (simp add: annexb_join_def)

lemma annexb_join_shape: "annexb_join ns = [] \<or> (\<exists>ys. annexb_join ns = 0 # 0 # 0 # 1 # ys)"
  by (cases ns) (auto simp: annexb_join_def)

lemma start_codes_join:
  "\<forall>n \<in> set (n # ns). clean_nal n \<Longrightarrow>
   start_codes (annexb_join (n # ns)) 0 = 1 # map ((+) (4 + length n)) (start_codes (annexb_join ns) 0)"
  by (simp only: annexb_join_Cons start_codes_prefix)
     (simp add: start_codes_clean annexb_join_shape o_def add.assoc)

lemma slice_shift: "slice (xs @ ys) (length xs + s) (length xs + e) = slice ys s e"
  by (simp add: slice_def)

lemma nal_slices_shift: "nal_slices (xs @ ys) (map ((+) (length xs)) ts) = nal_slices ys ts"
proof (induction ts)
  case (Cons t ts)
  have "slice (xs @ ys) (length xs + t + 3) (case map ((+) (length xs)) ts of [] \<Rightarrow> length (xs @ ys) | u # _ \<Rightarrow> u)
    = slice ys (t + 3) (case ts of [] \<Rightarrow> length ys | u # _ \<Rightarrow> u)"
    using slice_shift [of xs ys "t + 3"] by (cases ts) (simp_all add: add.assoc)
  with Cons show ?case by simp
qed simp

lemma trim_clean: "clean_nal n \<Longrightarrow> trim_zeros n = n" "clean_nal n \<Longrightarrow> trim_zeros (n @ [0]) = n"
  by (cases n rule: rev_cases; simp add: clean_nal_def trim_zeros_def)+

lemma annexb_nals_join: "\<forall>n \<in> set ns. clean_nal n \<Longrightarrow> annexb_nals (annexb_join ns) = ns"
proof (induction ns)
  case Nil
  then show ?case by (simp add: annexb_nals_def annexb_join_def start_codes_end)
next
  case (Cons n ns)
  let ?r = "annexb_join ns" and ?p = "[0, 0, 0, 1] @ n"
  have au: "annexb_join (n # ns) = ?p @ ?r" by (simp add: annexb_join_Cons)
  have sc: "start_codes (annexb_join (n # ns)) 0 = 1 # map ((+) (length ?p)) (start_codes ?r 0)"
    using start_codes_join [of n ns] Cons.prems by simp
  have first: "trim_zeros (slice (?p @ ?r) (1 + 3)
      (case map ((+) (length ?p)) (start_codes ?r 0) of [] \<Rightarrow> length (?p @ ?r) | u # _ \<Rightarrow> u)) = n"
  proof (cases ns)
    case Nil
    with Cons.prems show ?thesis
      by (simp add: annexb_join_def start_codes_end slice_def trim_clean)
  next
    case (Cons m ms)
    with Cons.prems have "start_codes ?r 0 = 1 # map ((+) (4 + length m)) (start_codes (annexb_join ms) 0)"
      using start_codes_join [of m ms] by simp
    with Cons Cons.prems show ?thesis
      by (simp add: slice_def annexb_join_Cons trim_clean)
  qed
  have "nal_slices (?p @ ?r) (map ((+) (length ?p)) (start_codes ?r 0)) = ns"
    using Cons nal_slices_shift [of ?p ?r "start_codes ?r 0"] by (simp add: annexb_nals_def)
  with first show ?case by (simp only: annexb_nals_def sc nal_slices.simps) (simp only: au)
qed

section \<open>The length-prefixed form carries the same NAL units\<close>

text \<open>Start codes are at least three bytes apart and end inside the buffer.\<close>

fun spaced :: "nat \<Rightarrow> nat list \<Rightarrow> bool" where
  "spaced n [] \<longleftrightarrow> True"
| "spaced n (t # ts) \<longleftrightarrow> t + 3 \<le> (case ts of [] \<Rightarrow> n | u # _ \<Rightarrow> u) \<and> spaced n ts"

lemma start_codes_ge: "t \<in> set (start_codes au i) \<Longrightarrow> i \<le> t \<and> t + 3 \<le> length au"
proof (induction au i rule: start_codes.induct)
  case (1 au i)
  then show ?case
    by (subst (asm) (3) start_codes.simps) (fastforce split: if_splits)
qed

lemma start_codes_spaced: "spaced (length au) (start_codes au i)"
proof (induction au i rule: start_codes.induct)
  case (1 au i)
  show ?case
  proof (cases "code_at au i")
    case True
    then have "spaced (length au) (start_codes au (i + 3))" using 1(1) by (simp add: code_at_def)
    moreover have "i + 3 \<le> (case start_codes au (i + 3) of [] \<Rightarrow> length au | u # _ \<Rightarrow> u)"
      using start_codes_ge [of _ au "i + 3"] True
      by (cases "start_codes au (i + 3)") (auto simp: code_at_def)
    ultimately show ?thesis by (simp add: start_codes_hit [OF True])
  next
    case False
    then show ?thesis
      using 1(2) start_codes_miss [OF False] start_codes_end [of i au]
      by (cases "i + 2 < length au") (auto simp: code_at_def)
  qed
qed

lemma slice_snoc: "s \<le> e \<Longrightarrow> e < length au \<Longrightarrow> slice au s (Suc e) = slice au s e @ [au ! e]"
  by (simp add: slice_def Suc_diff_le take_Suc_conv_app_nth)

lemma trim_end_slice:
  "s \<le> e \<Longrightarrow> e \<le> length au \<Longrightarrow>
     s \<le> trim_end au s e \<and> trim_end au s e \<le> e \<and> slice au s (trim_end au s e) = trim_zeros (slice au s e)"
proof (induction au s e rule: trim_end.induct)
  case (1 au s e)
  show ?case
  proof (cases "e > s")
    case True
    then obtain d where e: "e = Suc d" "s \<le> d" by (cases e) auto
    with 1 have sl: "slice au s e = slice au s d @ [au ! d]" by (simp add: slice_snoc)
    show ?thesis
    proof (cases "au ! d = 0")
      case zero: True
      then have "trim_end au s e = trim_end au s d" using e True by (subst trim_end.simps) simp
      with 1(1) 1(3) e zero True sl show ?thesis by (auto simp: trim_zeros_def)
    next
      case False
      then have "trim_end au s e = e" using e True by (subst trim_end.simps) simp
      with sl False True show ?thesis by (simp add: trim_zeros_def)
    qed
  next
    case False
    then have "trim_end au s e = e" by (subst trim_end.simps) simp
    with False "1.prems" show ?thesis by (simp add: slice_def trim_zeros_def)
  qed
qed

lemma length_slice: "e \<le> length au \<Longrightarrow> length (slice au s e) = e - s"
  by (simp add: slice_def)

definition prefixed :: "bytes \<Rightarrow> bytes" where
  "prefixed nal = u32_be (of_nat (length nal)) @ nal"

lemma prefix_nals_eq:
  "spaced (length au) ts \<Longrightarrow> \<forall>t \<in> set ts. t \<le> length au \<Longrightarrow>
     prefix_nals au ts = concat (map prefixed (nal_slices au ts))"
proof (induction ts)
  case (Cons t ts)
  let ?e = "case ts of [] \<Rightarrow> length au | u # _ \<Rightarrow> u"
  have e: "t + 3 \<le> ?e" "?e \<le> length au" using Cons.prems by (auto split: list.splits)
  from trim_end_slice [OF e] have tr: "t + 3 \<le> trim_end au (t + 3) ?e" "trim_end au (t + 3) ?e \<le> length au"
    "slice au (t + 3) (trim_end au (t + 3) ?e) = trim_zeros (slice au (t + 3) ?e)"
    using e by auto
  from length_slice [OF tr(2), of "t + 3"] tr(3)
  have "trim_end au (t + 3) ?e - (t + 3) = length (trim_zeros (slice au (t + 3) ?e))" by simp
  with Cons tr show ?case by (simp add: Let_def prefixed_def)
qed simp

lemma length_prefixed_eq: "annexb_to_length_prefixed au = concat (map prefixed (annexb_nals au))"
  unfolding annexb_to_length_prefixed_def annexb_nals_def
  by (rule prefix_nals_eq) (auto simp: start_codes_spaced dest: start_codes_ge)

text \<open>Reading a sample back: a big-endian length, then that many bytes.\<close>

fun split_prefixed :: "nat \<Rightarrow> bytes \<Rightarrow> bytes list" where
  "split_prefixed 0 bs = []"
| "split_prefixed (Suc n) bs =
     (let len = be_nat (take 4 bs) in take len (drop 4 bs) # split_prefixed n (drop (4 + len) bs))"

lemma be_nat_u32_be: "n < 4294967296 \<Longrightarrow> be_nat (u32_be (of_nat n)) = n"
  by (simp add: u32_be_def be_nat_be_bytes unat_of_nat)

lemma split_prefixed_concat:
  "\<forall>n \<in> set ns. length n < 4294967296 \<Longrightarrow>
     split_prefixed (length ns) (concat (map prefixed ns)) = ns"
  by (induction ns) (simp_all add: prefixed_def be_nat_u32_be Let_def)

lemma nal_slices_length: "n \<in> set (nal_slices au ts) \<Longrightarrow> length n \<le> length au"
proof (induction ts)
  case (Cons t ts)
  have "length (trim_zeros xs) \<le> length xs" for xs
    using length_dropWhile_le [of "\<lambda>b. b = 0" "rev xs"] by (simp add: trim_zeros_def)
  moreover have "length (slice au s e) \<le> length au" for s e by (simp add: slice_def)
  ultimately have "length (trim_zeros (slice au s e)) \<le> length au" for s e by (blast intro: le_trans)
  with Cons show ?case by auto
qed simp

lemma length_prefixed_roundtrip:
  "length au < 4294967296 \<Longrightarrow>
     split_prefixed (length (annexb_nals au)) (annexb_to_length_prefixed au) = annexb_nals au"
  unfolding length_prefixed_eq
  by (rule split_prefixed_concat) (auto simp: annexb_nals_def dest!: nal_slices_length)

section \<open>Unescaping inverts emulation prevention\<close>

text \<open>
  The encoder's side (H.264/H.265, clause on NAL unit syntax): after two zero bytes a byte
  of at most 3 is preceded by an inserted 3. \<open>z\<close> counts the zeros just emitted.
\<close>

fun rbsp_escape :: "nat \<Rightarrow> bytes \<Rightarrow> bytes" where
  "rbsp_escape z [] = []"
| "rbsp_escape z (b # bs) =
     (if z = 2 \<and> b \<le> 3 then 3 # b # rbsp_escape (if b = 0 then 1 else 0) bs
      else b # rbsp_escape (if b = 0 then z + 1 else 0) bs)"

lemma unescape_nonzero: "b \<noteq> 0 \<Longrightarrow> rbsp_unescape (b # xs) = b # rbsp_unescape xs"
  by (cases xs; cases "tl xs") auto

lemma unescape_zero_nonzero: "b \<noteq> 0 \<Longrightarrow> rbsp_unescape (0 # b # xs) = 0 # b # rbsp_unescape xs"
  by (cases xs) (auto simp: unescape_nonzero)

lemma unescape_escape_run:
  "z \<le> 2 \<Longrightarrow> rbsp_unescape (replicate z 0 @ rbsp_escape z xs) = replicate z 0 @ xs"
proof (induction xs arbitrary: z)
  case Nil
  then consider "z = 0" | "z = 1" | "z = 2" by linarith
  then show ?case by cases (simp_all add: numeral_2_eq_2)
next
  case (Cons b xs)
  from Cons.prems consider "z = 0" | "z = 1" | "z = 2" by linarith
  then show ?case
  proof cases
    case 1
    with Cons.IH [of "Suc 0"] Cons.IH [of 0] show ?thesis by (simp add: unescape_nonzero)
  next
    case 2
    with Cons.IH [of 2] Cons.IH [of 0] show ?thesis
      by (simp add: unescape_zero_nonzero numeral_2_eq_2)
  next
    case 3
    have [simp]: "\<not> b \<le> 3 \<Longrightarrow> b \<noteq> 0 \<and> b \<noteq> 3" by auto
    from 3 Cons.IH [of "Suc 0"] Cons.IH [of 0] show ?thesis
      by (auto simp: numeral_2_eq_2 unescape_nonzero unescape_zero_nonzero)
  qed
qed

lemma unescape_escape: "rbsp_unescape (rbsp_escape 0 xs) = xs"
  using unescape_escape_run [of 0 xs] by simp

lemma unescape_length: "length (rbsp_unescape xs) \<le> length xs"
  by (induction xs rule: rbsp_unescape.induct) auto

section \<open>The configuration record\<close>

lemma param_sets_found:
  "param_sets ns (Some v, Some s, Some p) = (Some v, Some s, Some p)"
  by (induction ns) auto

text \<open>
  What the record is made of: the first parameter set of each kind, whole, and the
  profile-tier-level bytes of the unescaped SPS.
\<close>

lemma get_range_SomeD: "get_range xs a b = Some ys \<Longrightarrow> ys = slice xs a b \<and> a \<le> b \<and> b \<le> length xs"
  by (simp add: get_range_def split: if_splits)

lemma hvcc_SomeD:
  assumes "hvcc_description au = Some out"
  obtains vps sps pps where
    "param_sets (annexb_nals au) (None, None, None) = (Some vps, Some sps, Some pps)"
    "13 \<le> length (rbsp_unescape (drop 2 sps))"
    "out = [1] @ slice (rbsp_unescape (drop 2 sps)) 1 13
       @ [240, 0, 252, 252 OR 1, 252, 252, 0, 0, 31, 3]
       @ hvcc_array 32 vps @ hvcc_array 33 sps @ hvcc_array 34 pps"
  using assms that
  by (auto simp: hvcc_description_def get_from_def get_range_def split: option.splits prod.splits if_splits)

lemma hvcc_layout:
  assumes "hvcc_description au = Some out"
  shows "\<exists>vps sps pps. param_sets (annexb_nals au) (None, None, None) = (Some vps, Some sps, Some pps)
    \<and> slice out 1 13 = slice (rbsp_unescape (drop 2 sps)) 1 13
    \<and> out ! 22 = 3
    \<and> drop 23 out = hvcc_array 32 vps @ hvcc_array 33 sps @ hvcc_array 34 pps"
proof -
  from assms obtain vps sps pps where
    h: "param_sets (annexb_nals au) (None, None, None) = (Some vps, Some sps, Some pps)"
    and l: "13 \<le> length (rbsp_unescape (drop 2 sps))"
    and out: "out = [1] @ slice (rbsp_unescape (drop 2 sps)) 1 13
       @ [240, 0, 252, 252 OR 1, 252, 252, 0, 0, 31, 3]
       @ hvcc_array 32 vps @ hvcc_array 33 sps @ hvcc_array 34 pps"
    by (rule hvcc_SomeD)
  have len: "length (slice (rbsp_unescape (drop 2 sps)) 1 13) = 12" using l by (simp add: slice_def)
  have "slice out 1 13 = slice (rbsp_unescape (drop 2 sps)) 1 13"
    using len by (simp add: out slice_def [of "1 # _"])
  moreover have "out ! 22 = 3" using len by (simp add: out nth_append)
  moreover have "drop 23 out = hvcc_array 32 vps @ hvcc_array 33 sps @ hvcc_array 34 pps"
    using len by (simp add: out)
  ultimately show ?thesis using h by blast
qed

text \<open>For a key frame that opens with one clean VPS, SPS and PPS, the record is the expected one.\<close>

lemma hvcc_of_join:
  assumes clean: "\<forall>n \<in> set ([vps, sps, pps] @ more). clean_nal n \<and> 2 \<le> length n"
    and ty: "nal_type vps = 32" "nal_type sps = 33" "nal_type pps = 34"
    and sps: "13 \<le> length (rbsp_unescape (drop 2 sps))"
  shows "hvcc_description (annexb_join ([vps, sps, pps] @ more)) =
    Some ([1] @ slice (rbsp_unescape (drop 2 sps)) 1 13
       @ [240, 0, 252, 253, 252, 252, 0, 0, 31, 3]
       @ hvcc_array 32 vps @ hvcc_array 33 sps @ hvcc_array 34 pps)"
proof -
  have "annexb_nals (annexb_join ([vps, sps, pps] @ more)) = [vps, sps, pps] @ more"
    using clean by (intro annexb_nals_join) auto
  then show ?thesis
    using assms by (simp add: hvcc_description_def param_sets_found get_from_def get_range_def)
qed

section \<open>Properties\<close>

text \<open>Repackaging loses nothing: the NAL units of an access unit come out of the start-code scan as
  they were joined, and the length-prefixed sample made of it reads back to the same units.\<close>
theorem annexb_roundtrip:
  assumes "list_all clean_nal ns" "length (annexb_join ns) < 4294967296"
  shows "annexb_nals (annexb_join ns) = ns
    \<and> split_prefixed (length ns) (annexb_to_length_prefixed (annexb_join ns)) = ns"
proof -
  have "annexb_nals (annexb_join ns) = ns"
    using assms(1) by (intro annexb_nals_join) (simp add: list_all_iff)
  then show ?thesis using length_prefixed_roundtrip [OF assms(2)] by simp
qed

lemma annexb_roundtrip_witness:
  "annexb_nals (annexb_join [[64, 1], [2, 0, 0, 3, 1]]) = [[64, 1], [2, 0, 0, 3, 1]]"
proof -
  have "list_all clean_nal [[64, 1], [2, 0, 0, 3, 1]]" "length (annexb_join [[64, 1], [2, 0, 0, 3, 1]]) < 4294967296"
    by (simp_all add: clean_nal_def start_codes.simps annexb_join_def)
  from annexb_roundtrip [OF this] show ?thesis by blast
qed

text \<open>The decoder configuration of a key frame: with a clean VPS, SPS and PPS at its front it is the
  version 1 record with the profile-tier-level of the unescaped SPS, four-byte lengths and one
  array per parameter set, in order and whole; and unescaping undoes emulation prevention.\<close>
theorem hvcc_record:
  assumes "list_all (\<lambda>n. clean_nal n \<and> 2 \<le> length n) ([vps, sps, pps] @ more)"
    and "nal_type vps = 32" "nal_type sps = 33" "nal_type pps = 34"
    and "drop 2 sps = rbsp_escape 0 body" "13 \<le> length body"
  shows "hvcc_description (annexb_join ([vps, sps, pps] @ more)) =
    Some ([1] @ slice body 1 13 @ [240, 0, 252, 253, 252, 252, 0, 0, 31, 3]
       @ hvcc_array 32 vps @ hvcc_array 33 sps @ hvcc_array 34 pps)"
  using hvcc_of_join [of vps sps pps more] assms by (simp add: unescape_escape list_all_iff)

lemma hvcc_record_witness:
  "hvcc_description (annexb_join [[64, 1], [66, 1, 1, 1, 96, 0, 0, 3, 0, 176, 0, 0, 3, 0, 9, 1, 7], [68, 1]]) =
    Some ([1] @ [1, 96, 0, 0, 0, 176, 0, 0, 0, 9, 1, 7] @ [240, 0, 252, 253, 252, 252, 0, 0, 31, 3]
       @ hvcc_array 32 [64, 1]
       @ hvcc_array 33 [66, 1, 1, 1, 96, 0, 0, 3, 0, 176, 0, 0, 3, 0, 9, 1, 7] @ hvcc_array 34 [68, 1])"
proof -
  let ?sps = "[66, 1, 1, 1, 96, 0, 0, 3, 0, 176, 0, 0, 3, 0, 9, 1, 7] :: bytes"
  let ?body = "[1, 1, 96, 0, 0, 0, 176, 0, 0, 0, 9, 1, 7] :: bytes"
  have "list_all (\<lambda>n. clean_nal n \<and> 2 \<le> length n) ([[64, 1], ?sps, [68, 1]] @ [])"
    by (simp add: clean_nal_def start_codes.simps)
  moreover have "nal_type [64, 1] = 32" "nal_type ?sps = 33" "nal_type [68, 1] = 34"
    by (simp_all add: nal_type_def)
  moreover have "drop 2 ?sps = rbsp_escape 0 ?body" "13 \<le> length ?body" by simp_all
  ultimately have "hvcc_description (annexb_join ([[64, 1], ?sps, [68, 1]] @ [])) =
    Some ([1] @ slice ?body 1 13 @ [240, 0, 252, 253, 252, 252, 0, 0, 31, 3]
       @ hvcc_array 32 [64, 1] @ hvcc_array 33 ?sps @ hvcc_array 34 [68, 1])"
    by (rule hvcc_record)
  then show ?thesis by (simp add: slice_def)
qed

end
