(* ===== verification/RustText.thy ===== *)
theory RustText
  imports InPhasePrelude
begin

text \<open>
  The string operations of the Rust standard library the host uses, on byte strings (HOL's
  \<open>char\<close> is one byte): ASCII case mapping, substring and prefix tests, splitting, trimming.
  Case mapping and white space are the ASCII ones, which is what \<open>to_lowercase\<close> and \<open>trim\<close>
  are on ASCII input.
\<close>

definition lower_char :: "char \<Rightarrow> char" where
  "lower_char c = (let n = of_char c :: nat in if 65 \<le> n \<and> n \<le> 90 then char_of (n + 32) else c)"

definition upper_char :: "char \<Rightarrow> char" where
  "upper_char c = (let n = of_char c :: nat in if 97 \<le> n \<and> n \<le> 122 then char_of (n - 32) else c)"

definition lower :: "string \<Rightarrow> string" where "lower = map lower_char"
definition upper :: "string \<Rightarrow> string" where "upper = map upper_char"

definition eq_nocase :: "string \<Rightarrow> string \<Rightarrow> bool" where
  "eq_nocase a b \<longleftrightarrow> lower a = lower b"

fun starts_with :: "string \<Rightarrow> string \<Rightarrow> bool" where
  "starts_with s [] = True"
| "starts_with [] (p # ps) = False"
| "starts_with (c # cs) (p # ps) = (c = p \<and> starts_with cs ps)"

fun contains_str :: "string \<Rightarrow> string \<Rightarrow> bool" where
  "contains_str [] p = (p = [])"
| "contains_str (c # cs) p = (starts_with (c # cs) p \<or> contains_str cs p)"

text \<open>\<open>split(c)\<close>: one piece more than there are separators, empty pieces kept.\<close>

fun split_on :: "char \<Rightarrow> string \<Rightarrow> string list" where
  "split_on c [] = [[]]"
| "split_on c (x # xs) =
     (if x = c then [] # split_on c xs
      else (case split_on c xs of [] \<Rightarrow> [[x]] | p # ps \<Rightarrow> (x # p) # ps))"

definition is_space :: "char \<Rightarrow> bool" where
  "is_space c \<longleftrightarrow> (let n = of_char c :: nat in n = 32 \<or> (9 \<le> n \<and> n \<le> 13))"

definition trim_str :: "string \<Rightarrow> string" where
  "trim_str s = rev (dropWhile is_space (rev (dropWhile is_space s)))"

text \<open>The em dash, in UTF-8.\<close>

definition em_dash :: string where "em_dash = map char_of [226, 128, 148 :: nat]"

lemma lower_char_idem [simp]: "lower_char (lower_char c) = lower_char c"
  by (simp add: lower_char_def Let_def)

lemma lower_idem [simp]: "lower (lower s) = lower s"
  by (simp add: lower_def)

lemma lower_length [simp]: "length (lower s) = length s"
  by (simp add: lower_def)

lemma eq_nocase_refl [simp]: "eq_nocase s s"
  by (simp add: eq_nocase_def)

lemma eq_nocase_sym: "eq_nocase a b \<Longrightarrow> eq_nocase b a"
  by (simp add: eq_nocase_def)

lemma eq_nocase_trans: "eq_nocase a b \<Longrightarrow> eq_nocase b c \<Longrightarrow> eq_nocase a c"
  by (simp add: eq_nocase_def)

lemma eq_nocase_lower [simp]: "eq_nocase (lower a) b = eq_nocase a b" "eq_nocase a (lower b) = eq_nocase a b"
  by (simp_all add: eq_nocase_def)

lemma starts_with_append: "starts_with s p \<longleftrightarrow> (\<exists>r. s = p @ r)"
  by (induction s p rule: starts_with.induct) auto

lemma starts_with_refl [simp]: "starts_with s s"
  by (simp add: starts_with_append)

lemma contains_str_append: "contains_str s p \<longleftrightarrow> (\<exists>a b. s = a @ p @ b)"
proof (induction s)
  case (Cons c cs)
  have "(\<exists>a b. c # cs = a @ p @ b) \<longleftrightarrow> (\<exists>b. c # cs = p @ b) \<or> (\<exists>a b. cs = a @ p @ b)"
  proof
    assume "\<exists>a b. c # cs = a @ p @ b"
    then obtain a b where ab: "c # cs = a @ p @ b" by blast
    then show "(\<exists>b. c # cs = p @ b) \<or> (\<exists>a b. cs = a @ p @ b)" by (cases a) auto
  next
    assume "(\<exists>b. c # cs = p @ b) \<or> (\<exists>a b. cs = a @ p @ b)"
    then show "\<exists>a b. c # cs = a @ p @ b"
      by (metis append.left_neutral append_Cons)
  qed
  then show ?case by (simp add: Cons.IH starts_with_append)
qed simp

lemma split_on_nonempty [simp]: "split_on c s \<noteq> []"
  by (cases s) (auto split: list.splits)

lemma split_on_no_sep: "p \<in> set (split_on c s) \<Longrightarrow> c \<notin> set p"
  by (induction c s arbitrary: p rule: split_on.induct) (auto split: list.splits if_splits)

end
