(* ===== verification/Net.thy ===== *)
theory Net
  imports RustText
begin

text \<open>
  Addresses and interface selection (\<open>crates/host/src/net.rs\<close>): which local addresses are
  offered, which of them is a stable global IPv6 address, whether a peer is on the local network,
  and the unit rate limits are counted in. The list of interfaces, which the operating system
  reports, is the parameter \<open>ifaces\<close>; \<open>None\<close> where reading it fails.
\<close>

section \<open>Addresses\<close>

datatype IpAddr = V4 "32 word" | V6 "128 word"

record iface =
  if_name :: string
  if_ip :: IpAddr

definition octet :: "32 word \<Rightarrow> nat \<Rightarrow> u8" where
  "octet a i = ucast (drop_bit (8 * (3 - i)) a)"

definition segment :: "128 word \<Rightarrow> nat \<Rightarrow> u16" where
  "segment a i = ucast (drop_bit (16 * (7 - i)) a)"

definition v4_loopback :: "32 word \<Rightarrow> bool" where "v4_loopback a \<longleftrightarrow> octet a 0 = 127"
definition v4_link_local :: "32 word \<Rightarrow> bool" where
  "v4_link_local a \<longleftrightarrow> octet a 0 = 169 \<and> octet a 1 = 254"

definition v4_private :: "32 word \<Rightarrow> bool" where
  "v4_private a \<longleftrightarrow> octet a 0 = 10 \<or> (octet a 0 = 172 \<and> 16 \<le> octet a 1 \<and> octet a 1 \<le> 31)
     \<or> (octet a 0 = 192 \<and> octet a 1 = 168)"

definition ip_loopback :: "IpAddr \<Rightarrow> bool" where
  "ip_loopback ip = (case ip of V4 a \<Rightarrow> v4_loopback a | V6 a \<Rightarrow> a = 1)"

definition ip_unspecified :: "IpAddr \<Rightarrow> bool" where
  "ip_unspecified ip = (case ip of V4 a \<Rightarrow> a = 0 | V6 a \<Rightarrow> a = 0)"

section \<open>Interface selection\<close>

definition VIRTUAL_HINTS :: "string list" where
  "VIRTUAL_HINTS =
     [''hyper-v'', ''vethernet'', ''vmware'', ''virtualbox'', ''vbox'', ''loopback'',
      ''tailscale'', ''zerotier'', ''tap-windows'', ''wsl'', ''docker'', ''npcap'']"

definition is_virtual :: "string \<Rightarrow> bool" where
  "is_virtual name = (\<exists>h \<in> set VIRTUAL_HINTS. contains_str (lower name) h)"

definition is_private_v4 :: "IpAddr \<Rightarrow> bool" where
  "is_private_v4 ip = (case ip of V4 a \<Rightarrow> v4_private a | V6 _ \<Rightarrow> False)"

definition lan_usable :: "iface \<Rightarrow> bool" where
  "lan_usable i \<longleftrightarrow>
     \<not> ip_loopback (if_ip i) \<and> \<not> ip_unspecified (if_ip i)
     \<and> (case if_ip i of V6 _ \<Rightarrow> False | V4 a \<Rightarrow> \<not> v4_link_local a)
     \<and> \<not> is_virtual (if_name i)"

definition lan_rank :: "string option \<Rightarrow> iface \<Rightarrow> nat" where
  "lan_rank preferred i =
     (if (case preferred of None \<Rightarrow> False | Some p \<Rightarrow> contains_str (lower (if_name i)) (lower p)) then 0
      else if is_private_v4 (if_ip i) then 1 else 2)"

definition candidate_lan_ips :: "string option \<Rightarrow> iface list option \<Rightarrow> IpAddr list" where
  "candidate_lan_ips preferred ifaces =
     (case ifaces of None \<Rightarrow> []
      | Some is \<Rightarrow> map snd (sort_key fst (map (\<lambda>i. (lan_rank preferred i, if_ip i)) (filter lan_usable is))))"

definition best_lan_ip :: "string option \<Rightarrow> iface list option \<Rightarrow> IpAddr option" where
  "best_lan_ip preferred ifaces =
     (case candidate_lan_ips preferred ifaces of [] \<Rightarrow> None | ip # _ \<Rightarrow> Some ip)"

section \<open>Global IPv6\<close>

definition is_global_unicast_v6 :: "128 word \<Rightarrow> bool" where
  "is_global_unicast_v6 a \<longleftrightarrow>
     a \<noteq> 1 \<and> a \<noteq> 0 \<and> segment a 0 AND 0xffc0 \<noteq> 0xfe80 \<and> segment a 0 AND 0xfe00 \<noteq> 0xfc00
     \<and> segment a 0 AND 0xe000 = 0x2000"

definition iid_entropy :: "128 word \<Rightarrow> nat" where
  "iid_entropy a = sum_list (map (\<lambda>i. length (filter (bit (segment a i)) [0..<16])) [4..<8])"

text \<open>The portable branch; on Windows the operating system's answer \<open>os_pick\<close> comes first.\<close>

fun pick_global :: "iface list \<Rightarrow> (128 word) option \<Rightarrow> (128 word) option" where
  "pick_global [] best = best"
| "pick_global (i # is) best =
     (if is_virtual (if_name i) \<or> ip_loopback (if_ip i) then pick_global is best
      else case if_ip i of
        V4 _ \<Rightarrow> pick_global is best
      | V6 a \<Rightarrow>
          if \<not> is_global_unicast_v6 a then pick_global is best
          else pick_global is (Some (case best of None \<Rightarrow> a
                 | Some cur \<Rightarrow> if iid_entropy a < iid_entropy cur then a else cur)))"

definition stable_global_ipv6 :: "(128 word) option \<Rightarrow> iface list option \<Rightarrow> (128 word) option" where
  "stable_global_ipv6 os_pick ifaces =
     (case os_pick of Some a \<Rightarrow> Some a
      | None \<Rightarrow> (case ifaces of None \<Rightarrow> None | Some is \<Rightarrow> pick_global is None))"

section \<open>Peers\<close>

definition same_prefix64 :: "128 word \<Rightarrow> 128 word \<Rightarrow> bool" where
  "same_prefix64 a b \<longleftrightarrow> (\<forall>i \<in> set [0..<4]. segment a i = segment b i)"

definition is_lan_peer :: "iface list option \<Rightarrow> IpAddr \<Rightarrow> bool" where
  "is_lan_peer ifaces ip =
     (case ip of
        V4 a \<Rightarrow> v4_loopback a \<or> v4_private a \<or> v4_link_local a
                \<or> (octet a 0 = 100 \<and> octet a 1 AND 0xc0 = 0x40)
      | V6 a \<Rightarrow>
          if a = 1 then True
          else if segment a 0 AND 0xffc0 = 0xfe80 \<or> segment a 0 AND 0xfe00 = 0xfc00 then True
          else case ifaces of
            None \<Rightarrow> False
          | Some is \<Rightarrow>
              \<exists>i \<in> set is. \<not> is_virtual (if_name i)
                \<and> (case if_ip i of
                     V6 mine \<Rightarrow> is_global_unicast_v6 mine \<and> same_prefix64 mine a
                   | V4 _ \<Rightarrow> False))"

text \<open>\<open>Ipv6Addr::new(s0, s1, s2, s3, 0, 0, 0, 0)\<close>.\<close>

definition v6_new :: "u16 list \<Rightarrow> 128 word" where
  "v6_new ss = fold (\<lambda>s a. push_bit 16 a OR ucast s) ss 0"

definition rate_limit_key :: "IpAddr \<Rightarrow> IpAddr" where
  "rate_limit_key ip =
     (case ip of V4 _ \<Rightarrow> ip
      | V6 a \<Rightarrow> V6 (v6_new [segment a 0, segment a 1, segment a 2, segment a 3, 0, 0, 0, 0]))"

section \<open>Lemmas\<close>

lemma bit_segment:
  assumes "i < 8"
  shows "bit (segment a i) n \<longleftrightarrow> n < 16 \<and> bit a (16 * (7 - i) + n)"
  using assms by (auto simp: segment_def bit_ucast_iff bit_drop_bit_eq)

lemma bit_v6_new_step:
  "bit (push_bit 16 a OR ucast (s :: u16) :: 128 word) n \<longleftrightarrow>
     n < 128 \<and> (if n < 16 then bit s n else bit a (n - 16))"
  using bit_imp_le_length [of s n]
  by (auto simp: bit_or_iff bit_push_bit_iff bit_ucast_iff)

lemma bit_v6_new:
  "length ss \<le> 8 \<Longrightarrow>
     bit (v6_new ss) n \<longleftrightarrow> n < 16 * length ss \<and> bit (rev ss ! (n div 16)) (n mod 16)"
proof (induction ss arbitrary: n rule: rev_induct)
  case Nil
  then show ?case by (simp add: v6_new_def)
next
  case (snoc s ss)
  have step: "bit (v6_new (ss @ [s])) n \<longleftrightarrow> n < 128 \<and> (if n < 16 then bit s n else bit (v6_new ss) (n - 16))"
    by (simp add: v6_new_def bit_v6_new_step)
  show ?case
  proof (cases "n < 16")
    case True
    then show ?thesis by (simp add: step)
  next
    case False
    then have n: "n div 16 = Suc ((n - 16) div 16)" "n mod 16 = (n - 16) mod 16"
      using div_add_self2 [of 16 "n - 16"] mod_add_self2 [of "n - 16" 16] by simp_all
    show ?thesis using False snoc.prems snoc.IH [of "n - 16"] unfolding step by (auto simp: n)
  qed
qed

lemma rate_limit_bits:
  "bit (v6_new [segment a 0, segment a 1, segment a 2, segment a 3, 0, 0, 0, 0]) n
     \<longleftrightarrow> 64 \<le> n \<and> bit a n"
proof (cases "n < 128")
  case True
  let ?l = "[0, 0, 0, 0, segment a 3, segment a 2, segment a 1, segment a 0]"
  have val: "bit (?l ! (n div 16)) (n mod 16) \<longleftrightarrow> 64 \<le> n \<and> bit a n"
  proof (cases "n < 64")
    case True
    then have "n div 16 < 4" by simp
    then have "n div 16 = 0 \<or> n div 16 = 1 \<or> n div 16 = 2 \<or> n div 16 = 3" by linarith
    then have "?l ! (n div 16) = 0" by (elim disjE) simp_all
    with True show ?thesis by simp
  next
    case False
    with True have q: "4 \<le> n div 16" "n div 16 < 8" by simp_all
    then have "n div 16 = 4 \<or> n div 16 = 5 \<or> n div 16 = 6 \<or> n div 16 = 7" by linarith
    then have "?l ! (n div 16) = segment a (7 - n div 16)"
      by (elim disjE) simp_all
    moreover have "16 * (n div 16) + n mod 16 = n" by simp
    moreover have "7 - (7 - n div 16) = n div 16" using q by simp
    ultimately show ?thesis using False bit_segment [of "7 - n div 16" a "n mod 16"] q by simp
  qed
  show ?thesis using True val by (simp add: bit_v6_new)
next
  case False
  then show ?thesis using bit_imp_le_length [of a n] by (auto simp: bit_v6_new)
qed

lemma rate_limit_key_mask: "rate_limit_key (V6 a) = V6 (push_bit 64 (drop_bit 64 a))"
proof -
  have "v6_new [segment a 0, segment a 1, segment a 2, segment a 3, 0, 0, 0, 0] = push_bit 64 (drop_bit 64 a)"
    by (rule bit_word_eqI, subst rate_limit_bits) (auto simp: bit_push_bit_iff bit_drop_bit_eq)
  then show ?thesis by (simp add: rate_limit_key_def)
qed

lemma drop_push_drop: "drop_bit 64 (push_bit 64 (drop_bit 64 a)) = drop_bit 64 (a :: 128 word)"
proof (rule bit_word_eqI)
  fix n
  assume "n < LENGTH(128)"
  show "bit (drop_bit 64 (push_bit 64 (drop_bit 64 a))) n = bit (drop_bit 64 a) n"
    using bit_imp_le_length [of a "64 + n"] by (auto simp: bit_push_bit_iff bit_drop_bit_eq)
qed

lemma segments_eq_iff: "same_prefix64 a b \<longleftrightarrow> drop_bit 64 a = drop_bit 64 b"
proof
  assume eq: "drop_bit 64 a = drop_bit 64 b"
  have "bit a n = bit b n" if "64 \<le> n" for n
  proof -
    have "bit (drop_bit 64 a) (n - 64) = bit (drop_bit 64 b) (n - 64)" by (simp only: eq)
    then show ?thesis using that by (simp add: bit_drop_bit_eq)
  qed
  then have "segment a i = segment b i" if "i < 4" for i
    using that by (intro bit_word_eqI) (simp add: bit_segment)
  then show "same_prefix64 a b" by (simp add: same_prefix64_def)
next
  assume pre: "same_prefix64 a b"
  have seg: "bit a (16 * (7 - i) + n) = bit b (16 * (7 - i) + n)" if "i < 4" "n < 16" for i n
  proof -
    have "segment a i = segment b i" using pre that by (simp add: same_prefix64_def)
    then show ?thesis using bit_segment [of i a n] bit_segment [of i b n] that by simp
  qed
  show "drop_bit 64 a = drop_bit 64 b"
  proof (rule bit_word_eqI)
    fix n :: nat
    show "bit (drop_bit 64 a) n = bit (drop_bit 64 b) n"
    proof (cases "n < 64")
      case True
      then have "7 - (3 - n div 16) = 4 + n div 16" by simp
      then have "16 * (7 - (3 - n div 16)) + n mod 16 = 64 + n" by simp
      moreover have "3 - n div 16 < 4" "n mod 16 < 16" by simp_all
      ultimately show ?thesis using seg [of "3 - n div 16" "n mod 16"] by (simp add: bit_drop_bit_eq add.commute)
    next
      case False
      then show ?thesis by (auto simp: bit_drop_bit_eq dest: bit_imp_le_length)
    qed
  qed
qed

lemma rate_limit_key_collapses:
  "rate_limit_key (V6 a) = rate_limit_key (V6 b) \<longleftrightarrow> same_prefix64 a b"
proof -
  have "push_bit 64 (drop_bit 64 a) = push_bit 64 (drop_bit 64 b) \<longleftrightarrow> drop_bit 64 a = drop_bit 64 b"
    by (metis drop_push_drop)
  then show ?thesis by (simp add: rate_limit_key_mask segments_eq_iff)
qed

lemma rate_limit_key_idem: "rate_limit_key (rate_limit_key ip) = rate_limit_key ip"
proof (cases ip)
  case (V6 a)
  then show ?thesis by (simp add: rate_limit_key_mask drop_push_drop)
qed (simp add: rate_limit_key_def)

lemma candidate_set:
  "ip \<in> set (candidate_lan_ips p (Some is)) \<longleftrightarrow> (\<exists>i \<in> set is. lan_usable i \<and> if_ip i = ip)"
  by (force simp: candidate_lan_ips_def)

lemma pick_global_sound:
  assumes "pick_global is best = Some a"
  shows "best = Some a \<or> (\<exists>i \<in> set is. \<not> is_virtual (if_name i) \<and> if_ip i = V6 a \<and> is_global_unicast_v6 a)"
  using assms
  by (induction "is" best rule: pick_global.induct)
    (fastforce split: if_splits IpAddr.splits option.splits)+

lemma pick_global_minimal:
  assumes "pick_global is best = Some a"
  shows "(\<forall>b. best = Some b \<longrightarrow> iid_entropy a \<le> iid_entropy b)
    \<and> (\<forall>i \<in> set is. \<forall>b. \<not> is_virtual (if_name i) \<and> if_ip i = V6 b \<and> is_global_unicast_v6 b
        \<longrightarrow> iid_entropy a \<le> iid_entropy b)"
  using assms
proof (induction "is" best rule: pick_global.induct)
  case (2 i "is" best)
  show ?case
    using 2
    by (cases "if_ip i"; cases best) (auto simp: ip_loopback_def is_global_unicast_v6_def split: if_splits)
qed simp

end
