(* ===== verification/HostConfig.thy ===== *)
theory HostConfig
  imports Net
begin

text \<open>
  The typed host configuration (\<open>crates/host/src/config.rs\<close>): its sections with their defaults,
  the environment overrides, the checks made at start-up, the firewall scopes and the report of
  unknown keys. Parsing TOML is a library's; a parsed document is a table of sections. The
  environment is a map from variable names to values.
\<close>

section \<open>Sections\<close>

datatype CaptureApi = Dxgi | Wgc
datatype TlsMode = LocalCa | TlsOff
datatype WtCongestion = Realtime | Cubic
datatype VideoCodec = H264 | H265
datatype QualityPreset = LowLatency | Balanced | Quality | Custom

record NetworkConfig =
  http_port :: nat
  bind_addr :: IpAddr
  admin_port :: nat
  strict_lan :: bool
  stun_servers :: "string list"
  preferred_interface :: "string option"
  manage_firewall_rule :: bool
  allowed_remote_cidrs :: "string list"

definition default_network :: NetworkConfig where
  "default_network =
     \<lparr>http_port = 47800, bind_addr = V4 0, admin_port = 47801, strict_lan = True,
      stun_servers = [], preferred_interface = None, manage_firewall_rule = True,
      allowed_remote_cidrs = [''localsubnet'', ''100.64.0.0/10'']\<rparr>"

record CaptureConfig =
  api :: CaptureApi
  monitor_index :: "nat option"
  show_cursor :: bool

definition default_capture :: CaptureConfig where
  "default_capture = \<lparr>api = Dxgi, monitor_index = None, show_cursor = True\<rparr>"

record MediaConfig =
  default_width :: nat
  default_height :: nat
  default_fps :: nat
  default_preset :: QualityPreset
  require_hardware_encoder :: bool
  enable_audio :: bool
  audio_bitrate_bps :: nat
  audio_frame_ms :: nat
  audio_capture_device :: "string option"
  wt_port :: nat
  wt_congestion :: WtCongestion

definition default_media :: MediaConfig where
  "default_media =
     \<lparr>default_width = 1920, default_height = 1080, default_fps = 60, default_preset = Balanced,
      require_hardware_encoder = True, enable_audio = False, audio_bitrate_bps = 160000,
      audio_frame_ms = 10, audio_capture_device = None, wt_port = 4433, wt_congestion = Realtime\<rparr>"

record InputConfig =
  watchdog_ms :: nat
  enable_virtual_hid :: bool
  max_packets_per_sec :: nat
  packet_burst :: nat
  max_mouse_delta :: int

definition default_input :: InputConfig where
  "default_input =
     \<lparr>watchdog_ms = 250, enable_virtual_hid = True, max_packets_per_sec = 2000,
      packet_burst = 400, max_mouse_delta = 4000\<rparr>"

record PairingConfig =
  pin_ttl_secs :: nat
  rotate_pin_on_pair :: bool
  max_attempts :: nat
  rate_window_secs :: nat
  lockout_after :: nat
  session_ttl_secs :: nat
  persist_sessions :: bool

definition default_pairing :: PairingConfig where
  "default_pairing =
     \<lparr>pin_ttl_secs = 300, rotate_pin_on_pair = True, max_attempts = 5, rate_window_secs = 600,
      lockout_after = 10, session_ttl_secs = 0, persist_sessions = True\<rparr>"

record RemoteAccessConfig =
  ra_enabled :: bool
  allow_remote_pairing :: bool

record TlsConfig =
  tls_mode :: TlsMode
  tls_domain :: "string option"
  tls_port :: nat
  cert_dir :: "string option"
  extra_sans :: "string list"
  acme_hostname :: string

definition default_tls :: TlsConfig where
  "default_tls =
     \<lparr>tls_mode = LocalCa, tls_domain = None, tls_port = 443, cert_dir = None, extra_sans = [],
      acme_hostname = []\<rparr>"

record Config =
  c_tls :: TlsConfig
  c_remote_access :: RemoteAccessConfig
  c_network :: NetworkConfig
  c_capture :: CaptureConfig
  c_media :: MediaConfig
  c_input :: InputConfig
  c_pairing :: PairingConfig
  c_online_art :: bool

definition default_config :: Config where
  "default_config =
     \<lparr>c_tls = default_tls, c_remote_access = \<lparr>ra_enabled = False, allow_remote_pairing = False\<rparr>,
      c_network = default_network, c_capture = default_capture, c_media = default_media,
      c_input = default_input, c_pairing = default_pairing, c_online_art = True\<rparr>"

section \<open>Operations\<close>

definition firewall_allowed_remote_cidrs :: "NetworkConfig \<Rightarrow> RemoteAccessConfig \<Rightarrow> string list" where
  "firewall_allowed_remote_cidrs n r =
     (let cidrs = allowed_remote_cidrs n in
      if ra_enabled r \<and> \<not> (\<exists>c \<in> set cidrs. eq_nocase c ''2000::/3'')
      then cidrs @ [''2000::/3''] else cidrs)"

definition wants_tls :: "TlsConfig \<Rightarrow> bool" where "wants_tls t \<longleftrightarrow> tls_mode t \<noteq> TlsOff"

definition cert_dir_path :: "string \<Rightarrow> TlsConfig \<Rightarrow> string" where
  "cert_dir_path config_dir t =
     (case cert_dir t of Some d \<Rightarrow> if d \<noteq> [] then d else config_dir @ ''/tls''
      | None \<Rightarrow> config_dir @ ''/tls'')"

definition validate :: "Config \<Rightarrow> string + unit" where
  "validate c =
     (if http_port (c_network c) = 0 then Inl ''network.http_port must be set''
      else if http_port (c_network c) = admin_port (c_network c)
      then Inl ''http_port and admin_port must differ''
      else if default_fps (c_media c) \<notin> {30, 60, 120}
      then Inl ''media.default_fps must be 30, 60 or 120''
      else if tls_port (c_tls c) = 0 then Inl ''tls.port must be set''
      else Inr ())"

definition preferred_offer_codec :: "Config \<Rightarrow> VideoCodec" where
  "preferred_offer_codec c = H265"

text \<open>
  \<open>str::parse\<close> for the unsigned port and index types: an optional plus sign, then digits, refused
  when empty or above the type's maximum.
\<close>

definition digit :: "char \<Rightarrow> nat option" where
  "digit c = (let n = of_char c :: nat in if 48 \<le> n \<and> n \<le> 57 then Some (n - 48) else None)"

fun digits :: "nat \<Rightarrow> string \<Rightarrow> nat option" where
  "digits acc [] = Some acc"
| "digits acc (c # cs) = (case digit c of None \<Rightarrow> None | Some d \<Rightarrow> digits (acc * 10 + d) cs)"

definition parse_uint :: "nat \<Rightarrow> string \<Rightarrow> nat option" where
  "parse_uint mx s =
     (let body = (case s of c # cs \<Rightarrow> if c = CHR ''+'' then cs else s | [] \<Rightarrow> []) in
      if body = [] then None
      else case digits 0 body of None \<Rightarrow> None | Some n \<Rightarrow> if n \<le> mx then Some n else None)"

definition non_empty :: "string \<Rightarrow> string option" where
  "non_empty s = (if s = [] then None else Some s)"

definition env_http_port :: "(string \<Rightarrow> string option) \<Rightarrow> Config \<Rightarrow> Config" where
  "env_http_port env c =
     (case env ''INPHASE_HTTP_PORT'' of None \<Rightarrow> c
      | Some v \<Rightarrow> (case parse_uint 65535 v of None \<Rightarrow> c
                   | Some p \<Rightarrow> c\<lparr>c_network := (c_network c)\<lparr>http_port := p\<rparr>\<rparr>))"

definition env_capture :: "(string \<Rightarrow> string option) \<Rightarrow> Config \<Rightarrow> Config" where
  "env_capture env c =
     (let c1 = (case env ''INPHASE_MONITOR_INDEX'' of None \<Rightarrow> c
                | Some v \<Rightarrow> c\<lparr>c_capture := (c_capture c)\<lparr>monitor_index := parse_uint u32_max v\<rparr>\<rparr>)
      in case env ''INPHASE_CAPTURE_API'' of None \<Rightarrow> c1
         | Some v \<Rightarrow> c1\<lparr>c_capture := (c_capture c1)\<lparr>api := (if lower v = ''wgc'' then Wgc else Dxgi)\<rparr>\<rparr>)"

definition env_audio :: "(string \<Rightarrow> string option) \<Rightarrow> Config \<Rightarrow> Config" where
  "env_audio env c =
     (let c1 = (case env ''INPHASE_ENABLE_AUDIO'' of None \<Rightarrow> c
                | Some _ \<Rightarrow> c\<lparr>c_media := (c_media c)\<lparr>enable_audio := True\<rparr>\<rparr>)
      in case env ''INPHASE_AUDIO_DEVICE'' of None \<Rightarrow> c1
         | Some v \<Rightarrow> c1\<lparr>c_media := (c_media c1)\<lparr>audio_capture_device := non_empty v\<rparr>\<rparr>)"

definition env_tls :: "(string \<Rightarrow> string option) \<Rightarrow> Config \<Rightarrow> Config" where
  "env_tls env c =
     (let c1 = (case env ''INPHASE_TLS_MODE'' of None \<Rightarrow> c
                | Some v \<Rightarrow> c\<lparr>c_tls := (c_tls c)\<lparr>tls_mode := (if v = ''off'' then TlsOff else LocalCa)\<rparr>\<rparr>);
          c2 = (case env ''INPHASE_TLS_DOMAIN'' of None \<Rightarrow> c1
                | Some v \<Rightarrow> c1\<lparr>c_tls := (c_tls c1)\<lparr>tls_domain := non_empty v\<rparr>\<rparr>)
      in case env ''INPHASE_TLS_PORT'' of None \<Rightarrow> c2
         | Some v \<Rightarrow> (case parse_uint 65535 v of None \<Rightarrow> c2
                      | Some p \<Rightarrow> c2\<lparr>c_tls := (c_tls c2)\<lparr>tls_port := p\<rparr>\<rparr>))"

definition env_stun :: "(string \<Rightarrow> string option) \<Rightarrow> Config \<Rightarrow> Config" where
  "env_stun env c =
     (let c1 = (case env ''INPHASE_STUN_SERVERS'' of None \<Rightarrow> c
                | Some v \<Rightarrow>
                    (let l = filter (\<lambda>s. s \<noteq> []) (map trim_str (split_on (CHR '','') v)) in
                     c\<lparr>c_network := (c_network c)\<lparr>stun_servers := l, strict_lan := (l = [])\<rparr>\<rparr>))
      in case env ''INPHASE_STRICT_LAN'' of None \<Rightarrow> c1
         | Some v \<Rightarrow> c1\<lparr>c_network := (c_network c1)
                         \<lparr>strict_lan := (v = ''1'' \<or> v = ''true'' \<or> v = ''yes'')\<rparr>\<rparr>)"

definition apply_env_overrides :: "(string \<Rightarrow> string option) \<Rightarrow> Config \<Rightarrow> Config" where
  "apply_env_overrides env c =
     env_stun env (env_tls env (env_audio env (env_capture env (env_http_port env c))))"

text \<open>\<open>load\<close>: \<open>parsed\<close> is the file overlaid on the defaults, \<open>None\<close> where there is no file.\<close>

definition load :: "(string \<Rightarrow> string option) \<Rightarrow> Config option \<Rightarrow> string + Config" where
  "load env parsed =
     (let c = apply_env_overrides env (case parsed of Some p \<Rightarrow> p | None \<Rightarrow> default_config)
      in bindE (validate c) (\<lambda>_. Inr c))"

section \<open>Unknown keys\<close>

text \<open>
  A document is an association list of entries with distinct names; an entry is a section with
  its keys, or a plain value (\<open>None\<close>).
\<close>

type_synonym toml = "(string \<times> string list option) list"

fun string_le :: "string \<Rightarrow> string \<Rightarrow> bool" where
  "string_le [] ys = True"
| "string_le (x # xs) [] = False"
| "string_le (x # xs) (y # ys) =
     (let a = of_char x :: nat; b = of_char y :: nat in a < b \<or> (a = b \<and> string_le xs ys))"

fun insert_sorted :: "string \<Rightarrow> string list \<Rightarrow> string list" where
  "insert_sorted x [] = [x]"
| "insert_sorted x (y # ys) = (if string_le x y then x # y # ys else y # insert_sorted x ys)"

definition sort_strings :: "string list \<Rightarrow> string list" where
  "sort_strings xs = fold insert_sorted (rev xs) []"

definition unknown_in_section :: "toml \<Rightarrow> string \<times> string list option \<Rightarrow> string list" where
  "unknown_in_section known e =
     (case e of (sec, v) \<Rightarrow>
        (case map_of known sec of
           None \<Rightarrow> [sec]
         | Some kv \<Rightarrow>
             (case (v, kv) of
                (Some sub, Some known_sub) \<Rightarrow>
                  map (\<lambda>k. sec @ ''.'' @ k) (filter (\<lambda>k. k \<notin> set known_sub) sub)
              | _ \<Rightarrow> [])))"

definition unknown_keys :: "toml \<Rightarrow> toml \<Rightarrow> string list" where
  "unknown_keys found known = sort_strings (concat (map (unknown_in_section known) found))"

section \<open>Lemmas\<close>

lemma firewall_scope_kept:
  "set (allowed_remote_cidrs n) \<subseteq> set (firewall_allowed_remote_cidrs n r)
   \<and> (\<not> ra_enabled r \<longrightarrow> firewall_allowed_remote_cidrs n r = allowed_remote_cidrs n)
   \<and> set (firewall_allowed_remote_cidrs n r) \<subseteq> insert ''2000::/3'' (set (allowed_remote_cidrs n))"
  by (auto simp: firewall_allowed_remote_cidrs_def Let_def)

lemma firewall_idem:
  "firewall_allowed_remote_cidrs (n\<lparr>allowed_remote_cidrs := firewall_allowed_remote_cidrs n r\<rparr>) r
   = firewall_allowed_remote_cidrs n r"
  by (simp add: firewall_allowed_remote_cidrs_def Let_def)

lemma validate_ok_iff:
  "validate c = Inr () \<longleftrightarrow>
     http_port (c_network c) \<noteq> 0 \<and> http_port (c_network c) \<noteq> admin_port (c_network c)
     \<and> default_fps (c_media c) \<in> {30, 60, 120} \<and> tls_port (c_tls c) \<noteq> 0"
  by (simp add: validate_def)

lemma load_validated: "load env parsed = Inr c \<Longrightarrow> validate c = Inr ()"
  by (auto simp: load_def Let_def)

lemma default_is_valid: "load (\<lambda>_. None) None = Inr default_config"
  by (simp add: load_def apply_env_overrides_def env_stun_def env_tls_def env_audio_def env_capture_def
      env_http_port_def validate_def default_config_def default_network_def default_media_def
      default_tls_def)

lemma insert_sorted_set [simp]: "set (insert_sorted x xs) = insert x (set xs)"
  by (induction xs) auto

lemma sort_strings_set [simp]: "set (sort_strings xs) = set xs"
proof -
  have "set (fold insert_sorted ys acc) = set ys \<union> set acc" for ys acc
    by (induction ys arbitrary: acc) auto
  then show ?thesis by (simp add: sort_strings_def)
qed

text \<open>Exactly the sections and keys that the parsed configuration lost are reported.\<close>

lemma unknown_in_section_iff:
  "k \<in> set (unknown_in_section known (sec, v)) \<longleftrightarrow>
      k = sec \<and> map_of known sec = None
      \<or> (\<exists>sub known_sub key. v = Some sub \<and> map_of known sec = Some (Some known_sub)
          \<and> key \<in> set sub \<and> key \<notin> set known_sub \<and> k = sec @ ''.'' @ key)"
  by (cases v; cases "map_of known sec") (auto simp: unknown_in_section_def split: option.splits)

lemma unknown_keys_iff:
  "k \<in> set (unknown_keys found known) \<longleftrightarrow>
     (\<exists>sec v. (sec, v) \<in> set found
        \<and> (k = sec \<and> map_of known sec = None
           \<or> (\<exists>sub known_sub key. v = Some sub \<and> map_of known sec = Some (Some known_sub)
                \<and> key \<in> set sub \<and> key \<notin> set known_sub \<and> k = sec @ ''.'' @ key)))"
proof -
  have "k \<in> set (unknown_keys found known)
      \<longleftrightarrow> (\<exists>e \<in> set found. k \<in> set (unknown_in_section known e))"
    by (auto simp: unknown_keys_def)
  also have "\<dots> \<longleftrightarrow> (\<exists>sec v. (sec, v) \<in> set found \<and> k \<in> set (unknown_in_section known (sec, v)))"
    by auto
  finally show ?thesis by (simp only: unknown_in_section_iff)
qed

end
