(* ===== verification/Floats.thy ===== *)
theory Floats
  imports Complex_Main "HOL-Library.Log_Nat" "HOL-Library.Code_Target_Nat"
begin

text \<open>
  Finite IEEE 754 arithmetic as the source's \<open>f32\<close> and \<open>f64\<close> use it: values are rationals and
  every operation rounds its exact result to the nearest number with \<open>p\<close> significant bits
  (24 for \<open>f32\<close>, 53 for \<open>f64\<close>), ties to even. Exponents are unbounded: the magnitudes the code
  computes with (rates, times, fractions) stay far inside the normal range, so overflow to
  infinity and subnormals are not modelled, and neither is NaN.
\<close>

type_synonym f32 = rat
type_synonym f64 = rat

section \<open>The exponent of a positive rational\<close>

definition flog2 :: "rat \<Rightarrow> int" where
  "flog2 x =
     (let (n, d) = quotient_of x; e = bitlen n - bitlen d
      in if 2 powi e \<le> x then e else e - 1)"

text \<open>Round to the nearest integer, ties to even.\<close>

definition rne :: "rat \<Rightarrow> int" where
  "rne x =
     (let f = \<lfloor>x\<rfloor>; r = x - of_int f
      in if r < 1 / 2 then f else if 1 / 2 < r then f + 1 else if even f then f else f + 1)"

definition fround :: "nat \<Rightarrow> rat \<Rightarrow> rat" where
  "fround p x =
     (if x = 0 then 0
      else let u = 2 powi (flog2 \<bar>x\<bar> - (int p - 1)) in of_int (rne (x / u)) * u)"

section \<open>Operations\<close>

definition f32_of :: "rat \<Rightarrow> f32" where "f32_of x = fround 24 x"
definition f32_add :: "f32 \<Rightarrow> f32 \<Rightarrow> f32" where "f32_add a b = fround 24 (a + b)"
definition f32_mul :: "f32 \<Rightarrow> f32 \<Rightarrow> f32" where "f32_mul a b = fround 24 (a * b)"
definition f32_div :: "f32 \<Rightarrow> f32 \<Rightarrow> f32" where "f32_div a b = fround 24 (a / b)"
definition f32_nat :: "nat \<Rightarrow> f32" where "f32_nat n = fround 24 (of_nat n)"

definition f64_of :: "rat \<Rightarrow> f64" where "f64_of x = fround 53 x"
definition f64_add :: "f64 \<Rightarrow> f64 \<Rightarrow> f64" where "f64_add a b = fround 53 (a + b)"
definition f64_sub :: "f64 \<Rightarrow> f64 \<Rightarrow> f64" where "f64_sub a b = fround 53 (a - b)"
definition f64_mul :: "f64 \<Rightarrow> f64 \<Rightarrow> f64" where "f64_mul a b = fround 53 (a * b)"
definition f64_nat :: "nat \<Rightarrow> f64" where "f64_nat n = fround 53 (of_nat n)"

text \<open>\<open>x as u32\<close>: truncate towards zero and saturate.\<close>

definition to_u32 :: "rat \<Rightarrow> nat" where
  "to_u32 x = (if x \<le> 0 then 0 else min (nat \<lfloor>x\<rfloor>) 4294967295)"

section \<open>Rounding lemmas\<close>

lemma rne_bounds: "\<lfloor>x\<rfloor> \<le> rne x" "rne x \<le> \<lfloor>x\<rfloor> + 1"
  by (simp_all add: rne_def Let_def)

lemma rne_int [simp]: "rne (of_int n) = n"
  by (simp add: rne_def)

lemma rne_mono:
  assumes "x \<le> y"
  shows "rne x \<le> rne y"
proof (cases "\<lfloor>x\<rfloor> = \<lfloor>y\<rfloor>")
  case True
  with assms show ?thesis by (auto simp: rne_def Let_def)
next
  case False
  with floor_mono [OF assms] have "\<lfloor>x\<rfloor> + 1 \<le> \<lfloor>y\<rfloor>" by simp
  with rne_bounds [of x] rne_bounds [of y] show ?thesis by linarith
qed

lemma rne_le_int: "x \<le> of_int n \<Longrightarrow> rne x \<le> n"
  using rne_mono [of x "of_int n"] by simp

lemma rne_ge_int: "of_int n \<le> x \<Longrightarrow> n \<le> rne x"
  using rne_mono [of "of_int n" x] by simp

lemma rne_minus: "rne (- x) = - rne x"
proof -
  have r: "x - of_int \<lfloor>x\<rfloor> \<ge> 0" "x - of_int \<lfloor>x\<rfloor> < 1" by linarith+
  show ?thesis
  proof (cases "x = of_int \<lfloor>x\<rfloor>")
    case True
    then obtain n where "x = of_int n" by blast
    then show ?thesis using rne_int [of "- n"] by simp
  next
    case False
    then have "\<lfloor>- x\<rfloor> = - \<lfloor>x\<rfloor> - 1" by linarith
    with r show ?thesis
      by (auto simp: rne_def Let_def field_simps; presburger)
  qed
qed

lemma flog2_bounds:
  assumes "0 < x"
  shows "2 powi flog2 x \<le> x \<and> x < 2 powi (flog2 x + 1)"
proof -
  obtain n d where q: "quotient_of x = (n, d)" by (cases "quotient_of x")
  have x: "x = of_int n / of_int d" and d: "0 < d"
    using quotient_of_div [OF q] quotient_of_denom_pos [OF q] by auto
  with assms have n: "0 < n" by (simp add: zero_less_divide_iff)
  let ?b = "bitlen n" and ?c = "bitlen d"
  have pos: "1 \<le> ?b" "1 \<le> ?c"
    using n d bitlen_nonneg [of n] bitlen_nonneg [of d] bitlen_eq_zero_iff [of n] bitlen_eq_zero_iff [of d]
    by linarith+
  have pw: "(of_int (2 ^ nat k) :: rat) = 2 powi k" if "0 \<le> k" for k
    using that by (simp add: power_int_def)
  have nb: "2 powi (?b - 1) \<le> (of_int n :: rat)" "(of_int n :: rat) < 2 powi ?b"
    using bitlen_bounds [OF n] pos pw [of "?b - 1"] pw [of ?b] by (metis of_int_le_iff diff_ge_0_iff_ge) 
      (use bitlen_bounds [OF n] pos pw [of ?b] in \<open>metis of_int_less_iff zero_le_one order_trans\<close>)
  have db: "2 powi (?c - 1) \<le> (of_int d :: rat)" "(of_int d :: rat) < 2 powi ?c"
    using bitlen_bounds [OF d] pos pw [of "?c - 1"] by (metis of_int_le_iff diff_ge_0_iff_ge)
      (use bitlen_bounds [OF d] pos pw [of ?c] in \<open>metis of_int_less_iff zero_le_one order_trans\<close>)
  have pos2: "0 < (2 :: rat) powi k" for k by simp
  have lo: "2 powi (?b - ?c - 1) < x"
  proof -
    have "2 powi (?b - ?c - 1) * of_int d < (2 :: rat) powi (?b - ?c - 1) * 2 powi ?c"
      using db(2) pos2 by simp
    also have "\<dots> = (2 :: rat) powi (?b - 1)" by (simp flip: power_int_add)
    finally show ?thesis using nb(1) d by (simp add: x pos_less_divide_eq)
  qed
  have hi: "x < 2 powi (?b - ?c + 1)"
  proof -
    have "of_int n < 2 powi (?b - ?c + 1) * (2 :: rat) powi (?c - 1)"
      using nb(2) by (simp flip: power_int_add)
    also have "\<dots> \<le> 2 powi (?b - ?c + 1) * of_int d"
      using db(1) pos2 by simp
    finally show ?thesis using d by (simp add: x pos_divide_less_eq)
  qed
  show ?thesis
    using lo hi by (auto simp: flog2_def q Let_def less_imp_le)
qed

lemma flog2_unique:
  assumes "0 < x" "2 powi e \<le> x" "x < 2 powi (e + 1)"
  shows "flog2 x = e"
proof (rule antisym; rule ccontr)
  assume "\<not> flog2 x \<le> e"
  then have "(2 :: rat) powi (e + 1) \<le> 2 powi flog2 x" by (intro power_int_increasing) auto
  with flog2_bounds [OF assms(1)] assms(3) show False by linarith
next
  assume "\<not> e \<le> flog2 x"
  then have "(2 :: rat) powi (flog2 x + 1) \<le> 2 powi e" by (intro power_int_increasing) auto
  with flog2_bounds [OF assms(1)] assms(2) show False by linarith
qed

lemma flog2_mono:
  assumes "0 < x" "x \<le> y"
  shows "flog2 x \<le> flog2 y"
proof (rule ccontr)
  assume "\<not> flog2 x \<le> flog2 y"
  then have "(2 :: rat) powi (flog2 y + 1) \<le> 2 powi flog2 x" by (intro power_int_increasing) auto
  with flog2_bounds [of x] flog2_bounds [of y] assms show False by linarith
qed

lemma fround_0 [simp]: "fround p 0 = 0"
  by (simp add: fround_def)

lemma fround_minus: "fround p (- x) = - fround p x"
  by (simp add: fround_def rne_minus Let_def)

lemma unit_pos: "0 < (2 :: rat) powi k" by simp

text \<open>The rounded value stays in the binade, its upper end included.\<close>

lemma fround_binade:
  assumes x: "0 < x" and p: "0 < p"
  shows "2 powi flog2 x \<le> fround p x" "fround p x \<le> 2 powi (flog2 x + 1)"
proof -
  let ?u = "(2 :: rat) powi (flog2 x - (int p - 1))"
  have up: "0 < ?u" by simp
  have lo: "2 powi flog2 x = of_int (2 ^ (p - 1)) * ?u"
    using p by (simp flip: power_int_add power_int_of_nat add: of_nat_diff)
  have hi: "2 powi (flog2 x + 1) = of_int (2 ^ p) * ?u"
    using p by (simp flip: power_int_add power_int_of_nat)
  have f: "fround p x = of_int (rne (x / ?u)) * ?u" using x by (simp add: fround_def Let_def)
  from flog2_bounds [OF x] have "of_int (2 ^ (p - 1)) \<le> x / ?u" "x / ?u \<le> of_int (2 ^ p)"
    unfolding lo hi by (simp_all add: pos_le_divide_eq pos_divide_le_eq)
  from rne_ge_int [OF this(1)] rne_le_int [OF this(2)]
  have "of_int (2 ^ (p - 1)) \<le> (of_int (rne (x / ?u)) :: rat)"
    "(of_int (rne (x / ?u)) :: rat) \<le> of_int (2 ^ p)"
    by (simp_all only: of_int_le_iff)
  then show "2 powi flog2 x \<le> fround p x" "fround p x \<le> 2 powi (flog2 x + 1)"
    unfolding lo hi f using up by (auto intro: mult_right_mono)
qed

lemma fround_mono_pos:
  assumes "0 < x" "x \<le> y" "0 < p"
  shows "fround p x \<le> fround p y"
proof (cases "flog2 x = flog2 y")
  case True
  with assms show ?thesis
    by (auto simp: fround_def Let_def intro!: mult_right_mono rne_mono divide_right_mono)
next
  case False
  with flog2_mono [OF assms(1,2)] have "(2 :: rat) powi (flog2 x + 1) \<le> 2 powi flog2 y"
    by (intro power_int_increasing) auto
  with fround_binade [of x p] fround_binade [of y p] assms show ?thesis by linarith
qed

lemma fround_nonneg: "0 \<le> x \<Longrightarrow> 0 < p \<Longrightarrow> 0 \<le> fround p x"
  using fround_binade(1) [of x p] unit_pos [of "flog2 x"]
  by (cases "x = 0") (simp, linarith)

lemma fround_mono:
  assumes "x \<le> y" "0 < p"
  shows "fround p x \<le> fround p y"
proof -
  consider "0 < x" | "x \<le> 0" "0 \<le> y" | "y < 0" by linarith
  then show ?thesis
  proof cases
    case 1
    then show ?thesis using assms by (intro fround_mono_pos)
  next
    case 2
    have "0 \<le> fround p (- x)" "0 \<le> fround p y" using 2 assms(2) by (auto intro: fround_nonneg)
    then show ?thesis by (simp add: fround_minus)
  next
    case 3
    then have "fround p (- y) \<le> fround p (- x)" using assms by (intro fround_mono_pos) auto
    then show ?thesis by (simp add: fround_minus)
  qed
qed

text \<open>Integers of at most \<open>p\<close> bits are exact.\<close>

lemma fround_nat:
  assumes "n \<le> 2 ^ p" "0 < p"
  shows "fround p (of_nat n) = of_nat n"
proof (cases "n = 0")
  case False
  then have x: "0 < (of_nat n :: rat)" by simp
  let ?e = "flog2 (of_nat n)"
  have b: "2 powi ?e \<le> (of_nat n :: rat)" "(of_nat n :: rat) < 2 powi (?e + 1)"
    using flog2_bounds [OF x] by auto
  show ?thesis
  proof (cases "?e < int p")
    case True
    let ?k = "nat (int p - 1 - ?e)"
    have u: "(2 :: rat) powi (?e - (int p - 1)) = 1 / of_int (2 ^ ?k)"
      using True by (simp add: power_int_def field_simps)
    have "of_nat n / (2 :: rat) powi (?e - (int p - 1)) = of_int (int n * 2 ^ ?k)"
      unfolding u by simp
    then have "fround p (of_nat n) = of_int (int n * 2 ^ ?k) * (1 / of_int (2 ^ ?k))"
      using False unfolding fround_def Let_def by (simp only: rne_int abs_of_nat u) simp
    then show ?thesis by simp
  next
    case False
    then have "(2 :: rat) powi int p \<le> 2 powi ?e" by (intro power_int_increasing) auto
    moreover have "(of_nat n :: rat) \<le> 2 powi int p"
      using assms(1) by (simp add: power_int_of_nat)
    ultimately have n: "(of_nat n :: rat) = 2 powi int p" using b(1) by linarith
    then have e: "?e = int p" using x by (intro flog2_unique) (simp_all add: power_int_add)
    have "of_nat n / (2 :: rat) powi (?e - (int p - 1)) = of_int (2 ^ (p - 1))"
      unfolding e unfolding n using assms(2) power_int_add [of "2 :: rat" "int p - 1" 1]
      by (simp flip: power_int_diff power_int_of_nat add: of_nat_diff)
    then have "fround p (of_nat n) = of_int (2 ^ (p - 1)) * 2 powi (?e - (int p - 1))"
      using \<open>n \<noteq> 0\<close> unfolding fround_def Let_def by (simp only: rne_int abs_of_nat) simp
    also have "\<dots> = 2 powi int p"
      unfolding e using assms(2) power_int_add [of "2 :: rat" "int p - 1" 1]
      by (simp flip: power_int_add power_int_of_nat add: of_nat_diff)
    finally show ?thesis using n by simp
  qed
qed simp

lemma f64_nat_exact: "n \<le> 9007199254740992 \<Longrightarrow> f64_nat n = of_nat n"
  unfolding f64_nat_def by (rule fround_nat) simp_all

lemma f32_nat_exact: "n \<le> 16777216 \<Longrightarrow> f32_nat n = of_nat n"
  unfolding f32_nat_def by (rule fround_nat) simp_all

lemma f64_sub_nat: "m \<le> n \<Longrightarrow> n \<le> 9007199254740992 \<Longrightarrow> f64_sub (of_nat n) (of_nat m) = of_nat (n - m)"
  unfolding f64_sub_def by (simp flip: of_nat_diff add: fround_nat)

lemma to_u32_mono: "x \<le> y \<Longrightarrow> to_u32 x \<le> to_u32 y"
  using nat_mono [OF floor_mono [of x y]] by (auto simp: to_u32_def)

lemma to_u32_nat: "n \<le> 4294967295 \<Longrightarrow> to_u32 (of_nat n) = n"
  by (simp add: to_u32_def)

lemma to_u32_bound: "to_u32 x \<le> 4294967295"
  by (simp add: to_u32_def)

lemma rne_le_half: "of_int (rne x) \<le> x + 1 / 2"
proof -
  define f where "f = (of_int \<lfloor>x\<rfloor> :: rat)"
  have "f \<le> x" "x < f + 1" unfolding f_def by linarith+
  then show ?thesis unfolding rne_def Let_def f_def [symmetric]
    by (auto simp: f_def [symmetric] split: if_splits)
qed

text \<open>Rounding raises a positive value by at most half a unit in the last place.\<close>

lemma fround_le_rel:
  assumes "0 < x" "0 < p"
  shows "fround p x \<le> x * (1 + 1 / 2 ^ p)"
proof -
  define u :: rat where "u = 2 powi (flog2 x - (int p - 1))"
  have u: "0 < u" by (simp add: u_def)
  have "fround p x = of_int (rne (x / u)) * u"
    using assms by (simp add: fround_def u_def Let_def)
  also have "\<dots> \<le> (x / u + 1 / 2) * u"
    using rne_le_half [of "x / u"] u by (intro mult_right_mono) auto
  also have "\<dots> = x + u / 2" using u by (simp add: field_simps)
  also have "u / 2 = 2 powi flog2 x / 2 ^ p"
    by (simp add: u_def power_int_diff power_int_add field_simps)
  also have "x + 2 powi flog2 x / 2 ^ p \<le> x + x / 2 ^ p"
    using flog2_bounds [OF assms(1)] by (simp add: divide_right_mono)
  finally show ?thesis by (simp add: algebra_simps)
qed

end
