(* ===== verification/InputHost.thy ===== *)
theory InputHost
  imports InputCodec HostConfig Floats
begin

text \<open>
  The host's input path (\<open>crates/host/src/input/state.rs\<close>, \<open>crates/host/src/input/mod.rs\<close>): the
  picture of what is held and the minimal differences computed from events and snapshots; then
  the per-player session with its size bound, token bucket, sequence gate, plausibility check,
  watchdog and release. Times are nanoseconds of the monotonic clock, passed in as \<open>now\<close>: a
  handler reads the clock once. What the session sends to its two back ends is recorded in
  \<open>sent\<close>, in order; whether the virtual pad's driver is present is the parameter \<open>driver\<close>.
\<close>

section \<open>State and differences\<close>

datatype InputAction =
    AMouseMove int int
  | AWheel int int
  | AMouseButton nat bool
  | AKey u16 bool
  | AGamepad GamepadState
  | AGamepadCleared

text \<open>\<open>BTreeSet<u16>\<close> is a set iterated in ascending order.\<close>

record InputState =
  st_held_keys :: "u16 set"
  st_mouse_buttons :: u16
  st_gamepad :: "GamepadState option"

definition input_default :: InputState where
  "input_default = \<lparr>st_held_keys = {}, st_mouse_buttons = 0, st_gamepad = None\<rparr>"

definition diff_mouse_buttons :: "u16 \<Rightarrow> u16 \<Rightarrow> InputAction list" where
  "diff_mouse_buttons cur nxt =
     map (\<lambda>b. AMouseButton b (bit nxt b)) (filter (\<lambda>b. bit (cur XOR nxt) b) [0..<16])"

definition key_actions :: "bool \<Rightarrow> u16 set \<Rightarrow> InputAction list" where
  "key_actions down A = map (\<lambda>c. AKey c down) (sorted_list_of_set A)"

definition reconcile_snapshot :: "InputState \<Rightarrow> SnapshotState \<Rightarrow> InputState \<times> InputAction list" where
  "reconcile_snapshot st snap =
     (let want = set (held_keys snap);
          d1 = key_actions True (want - st_held_keys st);
          d2 = key_actions False (st_held_keys st - want);
          d3 = diff_mouse_buttons (st_mouse_buttons st) (mouse_buttons snap);
          (gp, d4) = (case gamepad snap of
              Some g \<Rightarrow> if st_gamepad st \<noteq> Some g then (Some g, [AGamepad g]) else (st_gamepad st, [])
            | None \<Rightarrow> (case st_gamepad st of Some _ \<Rightarrow> (None, [AGamepadCleared]) | None \<Rightarrow> (None, [])))
      in (\<lparr>st_held_keys = want, st_mouse_buttons = mouse_buttons snap, st_gamepad = gp\<rparr>,
          d1 @ d2 @ d3 @ d4))"

definition apply_event :: "InputState \<Rightarrow> InputEvent \<Rightarrow> InputState \<times> InputAction list" where
  "apply_event st ev =
     (case ev of
        MouseMove dx dy wx wy \<Rightarrow>
          (st, (if dx \<noteq> 0 \<or> dy \<noteq> 0 then [AMouseMove (sint dx) (sint dy)] else [])
               @ (if wx \<noteq> 0 \<or> wy \<noteq> 0 then [AWheel (sint wx) (sint wy)] else []))
      | MouseButtons b \<Rightarrow>
          (st\<lparr>st_mouse_buttons := b\<rparr>, diff_mouse_buttons (st_mouse_buttons st) b)
      | Key code down _ \<Rightarrow>
          (let changed = (if down then code \<notin> st_held_keys st else code \<in> st_held_keys st);
               held = (if down then insert code (st_held_keys st) else st_held_keys st - {code})
           in (st\<lparr>st_held_keys := held\<rparr>, if changed then [AKey code down] else []))
      | Gamepad g \<Rightarrow> (st\<lparr>st_gamepad := Some g\<rparr>, [AGamepad g])
      | Touch _ _ _ _ \<Rightarrow> (st, [])
      | Snapshot s \<Rightarrow> reconcile_snapshot st s)"

definition state_release_all :: "InputState \<Rightarrow> InputState \<times> InputAction list" where
  "state_release_all st =
     (input_default,
      key_actions False (st_held_keys st)
      @ map (\<lambda>b. AMouseButton b False) (filter (\<lambda>b. bit (st_mouse_buttons st) b) [0..<16])
      @ (if st_gamepad st \<noteq> None then [AGamepadCleared] else []))"

section \<open>The session\<close>

datatype BackendCall =
    Desk "InputAction list"
  | DeskReleaseAll
  | Pad "InputAction list"
  | PadReleaseAll

record InputSession =
  cfg :: InputConfig
  state :: InputState
  pad_open :: bool
  gamepad_tried :: bool
  last_packet_at :: nat
  high_water :: "u32 option"
  released :: bool
  tokens :: f64
  tokens_refilled_at :: nat
  throttled :: nat
  last_throttle_log :: nat
  sent :: "BackendCall list"

definition MAX_PACKET_BYTES :: nat where "MAX_PACKET_BYTES = 1024"

definition new_session :: "InputConfig \<Rightarrow> nat \<Rightarrow> InputSession" where
  "new_session c now =
     \<lparr>cfg = c, state = input_default, pad_open = False, gamepad_tried = False,
      last_packet_at = now, high_water = None, released = True,
      tokens = f64_nat (packet_burst c), tokens_refilled_at = now, throttled = 0,
      last_throttle_log = now, sent = []\<rparr>"

text \<open>\<open>Duration::as_secs_f64\<close>: whole seconds plus the nanoseconds divided by \<open>1e9\<close>.\<close>

definition as_secs_f64 :: "nat \<Rightarrow> f64" where
  "as_secs_f64 ns =
     f64_add (f64_nat (ns div 1000000000)) (f64_of (f64_nat (ns mod 1000000000) / 1000000000))"

definition rate_ok :: "nat \<Rightarrow> InputSession \<Rightarrow> bool \<times> InputSession" where
  "rate_ok now s =
     (let elapsed = as_secs_f64 (now - tokens_refilled_at s);
          t = min (f64_add (tokens s) (f64_mul elapsed (f64_nat (max_packets_per_sec (cfg s)))))
                  (f64_nat (packet_burst (cfg s)))
      in if 1 \<le> t then (True, s\<lparr>tokens_refilled_at := now, tokens := f64_sub t 1\<rparr>)
         else (False, s\<lparr>tokens_refilled_at := now, tokens := t\<rparr>))"

definition note_throttled :: "nat \<Rightarrow> InputSession \<Rightarrow> InputSession" where
  "note_throttled now s =
     (if 2000000000 \<le> now - last_throttle_log s
      then s\<lparr>throttled := 0, last_throttle_log := now\<rparr>
      else s\<lparr>throttled := throttled s + 1\<rparr>)"

definition is_pad_action :: "InputAction \<Rightarrow> bool" where
  "is_pad_action a = (case a of AGamepad _ \<Rightarrow> True | AGamepadCleared \<Rightarrow> True | _ \<Rightarrow> False)"

definition is_pad_press :: "InputAction \<Rightarrow> bool" where
  "is_pad_press a = (case a of AGamepad _ \<Rightarrow> True | _ \<Rightarrow> False)"

definition new_gamepad_backend :: "bool \<Rightarrow> InputConfig \<Rightarrow> bool" where
  "new_gamepad_backend driver c \<longleftrightarrow> enable_virtual_hid c \<and> driver"

definition apply_diff :: "bool \<Rightarrow> InputAction list \<Rightarrow> InputSession \<Rightarrow> InputSession" where
  "apply_diff driver d s =
     (let s1 =
        (if \<exists>a \<in> set d. is_pad_action a then
           let s0 = (if \<not> pad_open s \<and> \<not> gamepad_tried s \<and> (\<exists>a \<in> set d. is_pad_press a)
                     then s\<lparr>gamepad_tried := True, pad_open := new_gamepad_backend driver (cfg s)\<rparr>
                     else s)
           in if pad_open s0 then s0\<lparr>sent := sent s0 @ [Pad d]\<rparr> else s0
         else s)
      in s1\<lparr>sent := sent s1 @ [Desk d]\<rparr>)"

text \<open>Wrapping distance from the newest sequence accepted, less than half the space (rounded down).\<close>

definition is_fresh :: "InputSession \<Rightarrow> u32 \<Rightarrow> bool" where
  "is_fresh s sq = (case high_water s of None \<Rightarrow> True | Some hw \<Rightarrow> unat (sq - hw) < 2147483647)"

definition implausible :: "InputConfig \<Rightarrow> InputEvent \<Rightarrow> bool" where
  "implausible c ev =
     (case ev of
        MouseMove dx dy wx wy \<Rightarrow>
          \<bar>sint dx\<bar> > max_mouse_delta c \<or> \<bar>sint dy\<bar> > max_mouse_delta c
          \<or> \<bar>sint wx\<bar> > max_mouse_delta c \<or> \<bar>sint wy\<bar> > max_mouse_delta c
      | _ \<Rightarrow> False)"

definition fold_event :: "InputState \<Rightarrow> InputEvent \<Rightarrow> InputState \<times> InputAction list" where
  "fold_event st ev = (case ev of Snapshot snap \<Rightarrow> reconcile_snapshot st snap | _ \<Rightarrow> apply_event st ev)"

definition handle_packet ::
  "bool \<Rightarrow> nat \<Rightarrow> bytes \<Rightarrow> InputSession \<Rightarrow> (InputCodecError + unit) \<times> InputSession" where
  "handle_packet driver now bs s =
     (if length bs > MAX_PACKET_BYTES then (Inr (), note_throttled now s)
      else case decode bs of
        Inl e \<Rightarrow> (Inl e, s)
      | Inr pkt \<Rightarrow>
          (let s1 = s\<lparr>last_packet_at := now, released := False\<rparr>;
               (ok, s2) = rate_ok now s1
           in if \<not> ok then (Inr (), note_throttled now s2)
              else if \<not> is_fresh s2 (sequence (header pkt)) then (Inr (), s2)
              else
                let s3 = s2\<lparr>high_water := Some (sequence (header pkt))\<rparr>
                in if implausible (cfg s3) (event pkt) then (Inr (), note_throttled now s3)
                   else
                     let (st', d) = fold_event (state s3) (event pkt)
                     in (Inr (), apply_diff driver d (s3\<lparr>state := st'\<rparr>))))"

definition release_all :: "bool \<Rightarrow> InputSession \<Rightarrow> InputSession" where
  "release_all driver s =
     (let (st', d) = state_release_all (state s);
          s1 = apply_diff driver d (s\<lparr>state := st'\<rparr>);
          s2 = s1\<lparr>sent := sent s1 @ [DeskReleaseAll]\<rparr>;
          s3 = (if pad_open s2 then s2\<lparr>sent := sent s2 @ [PadReleaseAll]\<rparr> else s2)
      in s3\<lparr>released := True\<rparr>)"

definition watchdog_timeout :: "InputSession \<Rightarrow> nat" where
  "watchdog_timeout s = watchdog_ms (cfg s) * 1000000"

definition tick_watchdog :: "bool \<Rightarrow> nat \<Rightarrow> InputSession \<Rightarrow> InputSession" where
  "tick_watchdog driver now s =
     (if released s then s
      else if watchdog_timeout s \<le> now - last_packet_at s then (release_all driver s)\<lparr>released := True\<rparr>
      else s)"

definition drop_session :: "bool \<Rightarrow> InputSession \<Rightarrow> InputSession" where
  "drop_session driver s = (if \<not> released s then release_all driver s else s)"

section \<open>What the operating system holds\<close>

text \<open>
  The specification side: the keys and buttons the operating system has down and the report the
  virtual pad shows. An action is one press, one release or one pad report; relative motion
  leaves nothing held.
\<close>

record os =
  os_keys :: "u16 set"
  os_buttons :: "nat set"
  os_pad :: "GamepadState option"

fun perform :: "InputAction \<Rightarrow> os \<Rightarrow> os" where
  "perform (AMouseMove _ _) o' = o'"
| "perform (AWheel _ _) o' = o'"
| "perform (AMouseButton b d) o' =
     o'\<lparr>os_buttons := (if d then insert b (os_buttons o') else os_buttons o' - {b})\<rparr>"
| "perform (AKey k d) o' =
     o'\<lparr>os_keys := (if d then insert k (os_keys o') else os_keys o' - {k})\<rparr>"
| "perform (AGamepad g) o' = o'\<lparr>os_pad := Some g\<rparr>"
| "perform AGamepadCleared o' = o'\<lparr>os_pad := None\<rparr>"

definition performs :: "InputAction list \<Rightarrow> os \<Rightarrow> os" where
  "performs as o' = fold perform as o'"

definition button_set :: "u16 \<Rightarrow> nat set" where
  "button_set w = {b. b < 16 \<and> bit w b}"

definition view :: "InputState \<Rightarrow> os" where
  "view st = \<lparr>os_keys = st_held_keys st, os_buttons = button_set (st_mouse_buttons st),
              os_pad = st_gamepad st\<rparr>"

lemma performs_simps [simp]:
  "performs [] o' = o'"
  "performs (a # as) o' = performs as (perform a o')"
  "performs (as @ bs) o' = performs bs (performs as o')"
  by (simp_all add: performs_def)

lemma performs_key_map:
  "performs (map (\<lambda>c. AKey c d) xs) o' =
     o'\<lparr>os_keys := (if d then os_keys o' \<union> set xs else os_keys o' - set xs)\<rparr>"
proof (induction xs arbitrary: o')
  case (Cons x xs)
  have "os_keys o' - {x} - set xs = os_keys o' - insert x (set xs)" by blast
  with Cons show ?case by simp
qed simp

lemma performs_button_map:
  assumes "distinct xs"
  shows "performs (map (\<lambda>b. AMouseButton b (f b)) xs) o' =
     o'\<lparr>os_buttons := (os_buttons o' - set xs) \<union> {b \<in> set xs. f b}\<rparr>"
  using assms
proof (induction xs arbitrary: o')
  case (Cons x xs)
  then show ?case by (cases "f x") (auto intro!: os.equality)
qed simp

lemma performs_key_actions [simp]:
  "performs (key_actions d A) o' =
     o'\<lparr>os_keys := (if d then os_keys o' \<union> A else os_keys o' - A)\<rparr>"
  by (simp add: key_actions_def performs_key_map)

lemma performs_diff_mouse_buttons:
  assumes "os_buttons o' = button_set cur"
  shows "performs (diff_mouse_buttons cur nxt) o' = o'\<lparr>os_buttons := button_set nxt\<rparr>"
proof -
  have "(button_set cur - {b. b < 16 \<and> bit (cur XOR nxt) b}) \<union> {b. b < 16 \<and> bit (cur XOR nxt) b \<and> bit nxt b}
        = button_set nxt"
    by (auto simp: button_set_def bit_xor_iff)
  then show ?thesis
    using assms by (simp add: diff_mouse_buttons_def performs_button_map conj_assoc)
qed

lemma performs_release_buttons:
  "performs (map (\<lambda>b. AMouseButton b False) (filter (\<lambda>b. bit w b) [0..<16])) o' =
     o'\<lparr>os_buttons := os_buttons o' - button_set w\<rparr>"
proof -
  have "{b. b < 16 \<and> bit w b} = button_set w" by (simp add: button_set_def)
  then show ?thesis by (simp add: performs_button_map)
qed

lemma reconcile_refines:
  "performs (snd (reconcile_snapshot st snap)) (view st) = view (fst (reconcile_snapshot st snap))"
  by (auto simp: reconcile_snapshot_def Let_def view_def performs_diff_mouse_buttons
      split: option.splits if_splits intro!: os.equality)

lemma apply_event_refines:
  "performs (snd (apply_event st ev)) (view st) = view (fst (apply_event st ev))"
proof (cases ev)
  case (Snapshot s)
  then show ?thesis by (simp add: apply_event_def reconcile_refines)
qed (auto simp: apply_event_def view_def performs_diff_mouse_buttons intro!: os.equality)

lemma release_refines:
  "performs (snd (state_release_all st)) (view st) = view input_default
   \<and> fst (state_release_all st) = input_default"
  by (auto simp: state_release_all_def view_def input_default_def performs_release_buttons
      button_set_def intro!: os.equality)

lemma view_default [simp]: "view input_default = \<lparr>os_keys = {}, os_buttons = {}, os_pad = None\<rparr>"
  by (simp add: view_def input_default_def button_set_def)

text \<open>The snapshot is authoritative: what it lists is what is held, whatever was held before.\<close>

lemma reconcile_result:
  "fst (reconcile_snapshot st snap) =
     \<lparr>st_held_keys = set (held_keys snap), st_mouse_buttons = mouse_buttons snap,
      st_gamepad = gamepad snap\<rparr>"
  by (auto simp: reconcile_snapshot_def Let_def split: option.splits)

lemma diff_mouse_buttons_same [simp]: "diff_mouse_buttons w w = []"
  by (simp add: diff_mouse_buttons_def)

lemma reconcile_idle:
  "snd (reconcile_snapshot (fst (reconcile_snapshot st snap)) snap) = []"
  unfolding reconcile_result
  by (simp add: reconcile_snapshot_def Let_def key_actions_def split: option.splits)

section \<open>No redundant transitions\<close>

text \<open>A key or button action is effective when it changes what is held at the time it runs.\<close>

fun changes :: "InputAction \<Rightarrow> os \<Rightarrow> bool" where
  "changes (AKey k d) o' \<longleftrightarrow> (k \<in> os_keys o') \<noteq> d"
| "changes (AMouseButton b d) o' \<longleftrightarrow> (b \<in> os_buttons o') \<noteq> d"
| "changes (AMouseMove x y) o' \<longleftrightarrow> x \<noteq> 0 \<or> y \<noteq> 0"
| "changes (AWheel x y) o' \<longleftrightarrow> x \<noteq> 0 \<or> y \<noteq> 0"
| "changes (AGamepad _) o' \<longleftrightarrow> True"
| "changes AGamepadCleared o' \<longleftrightarrow> os_pad o' \<noteq> None"

fun effective :: "InputAction list \<Rightarrow> os \<Rightarrow> bool" where
  "effective [] o' = True"
| "effective (a # as) o' = (changes a o' \<and> effective as (perform a o'))"

lemma effective_append [simp]:
  "effective (as @ bs) o' \<longleftrightarrow> effective as o' \<and> effective bs (performs as o')"
  by (induction as arbitrary: o') auto

lemma effective_key_map:
  assumes "distinct xs" "\<forall>k \<in> set xs. (k \<in> os_keys o') \<noteq> d"
  shows "effective (map (\<lambda>c. AKey c d) xs) o'"
  using assms
proof (induction xs arbitrary: o')
  case (Cons x xs)
  have "effective (map (\<lambda>c. AKey c d) xs) (perform (AKey x d) o')"
    by (rule Cons.IH) (use Cons.prems in auto)
  with Cons.prems show ?case by simp
qed simp

lemma effective_key_actions:
  "\<forall>k \<in> A. (k \<in> os_keys o') \<noteq> d \<Longrightarrow> effective (key_actions d A) o'"
  unfolding key_actions_def by (rule effective_key_map) auto

lemma effective_button_map:
  assumes "distinct xs" "\<forall>b \<in> set xs. (b \<in> os_buttons o') \<noteq> f b"
  shows "effective (map (\<lambda>b. AMouseButton b (f b)) xs) o'"
  using assms
proof (induction xs arbitrary: o')
  case (Cons x xs)
  have "effective (map (\<lambda>b. AMouseButton b (f b)) xs) (perform (AMouseButton x (f x)) o')"
    by (rule Cons.IH) (use Cons.prems in auto)
  with Cons.prems show ?case by simp
qed simp

lemma effective_diff_mouse_buttons:
  assumes "os_buttons o' = button_set cur"
  shows "effective (diff_mouse_buttons cur nxt) o'"
  unfolding diff_mouse_buttons_def
  by (rule effective_button_map) (auto simp: assms button_set_def bit_xor_iff)

lemma sint_nonzero: "(w :: i16) \<noteq> 0 \<Longrightarrow> sint w \<noteq> 0"
  by (metis sint_0 signed_word_eqI)

lemma reconcile_effective: "effective (snd (reconcile_snapshot st snap)) (view st)"
  by (auto simp: reconcile_snapshot_def Let_def view_def performs_diff_mouse_buttons
      intro!: effective_key_actions effective_diff_mouse_buttons split: option.splits if_splits)

lemma apply_event_effective: "effective (snd (apply_event st ev)) (view st)"
proof (cases ev)
  case (Snapshot s)
  then show ?thesis by (simp add: apply_event_def reconcile_effective)
qed (auto simp: apply_event_def view_def sint_nonzero intro!: effective_diff_mouse_buttons)

section \<open>The session invariant\<close>

text \<open>
  What the back ends' calls leave held. The two blanket releases are not counted: what follows
  holds by the explicit differences alone.
\<close>

definition keyboard_call :: "BackendCall \<Rightarrow> InputAction list" where
  "keyboard_call c = (case c of Desk d \<Rightarrow> d | _ \<Rightarrow> [])"

definition pad_call :: "BackendCall \<Rightarrow> InputAction list" where
  "pad_call c = (case c of Pad d \<Rightarrow> d | _ \<Rightarrow> [])"

definition nothing_held :: os where
  "nothing_held = \<lparr>os_keys = {}, os_buttons = {}, os_pad = None\<rparr>"

definition desk_os :: "InputSession \<Rightarrow> os" where
  "desk_os s = performs (concat (map keyboard_call (sent s))) nothing_held"

definition pad_os :: "InputSession \<Rightarrow> os" where
  "pad_os s = performs (concat (map pad_call (sent s))) nothing_held"

definition token_ok :: "InputSession \<Rightarrow> bool" where
  "token_ok s \<longleftrightarrow> 0 \<le> tokens s \<and> tokens s \<le> f64_nat (packet_burst (cfg s))"

definition in_sync :: "InputSession \<Rightarrow> bool" where
  "in_sync s \<longleftrightarrow>
     desk_os s = view (state s)
     \<and> os_pad (pad_os s) = (if pad_open s then st_gamepad (state s) else None)
     \<and> (\<not> gamepad_tried s \<longrightarrow> \<not> pad_open s \<and> st_gamepad (state s) = None)"

definition quiet :: "InputSession \<Rightarrow> bool" where
  "quiet s \<longleftrightarrow> state s = input_default \<and> desk_os s = nothing_held \<and> os_pad (pad_os s) = None"

lemma performs_pad_cong:
  "os_pad o1 = os_pad o2 \<Longrightarrow> os_pad (performs d o1) = os_pad (performs d o2)"
proof (induction d arbitrary: o1 o2)
  case (Cons a d)
  have "os_pad (perform a o1) = os_pad (perform a o2)" using Cons.prems by (cases a) auto
  from Cons.IH [OF this] show ?case by simp
qed simp

lemma performs_no_pad:
  "\<not> (\<exists>a \<in> set d. is_pad_action a) \<Longrightarrow> os_pad (performs d o') = os_pad o'"
proof (induction d arbitrary: o')
  case (Cons a d)
  have "os_pad (perform a o') = os_pad o'" using Cons.prems by (cases a) (auto simp: is_pad_action_def)
  with Cons show ?case by simp
qed simp

lemma performs_no_press:
  "\<not> (\<exists>a \<in> set d. is_pad_press a) \<Longrightarrow> os_pad o' = None \<Longrightarrow> os_pad (performs d o') = None"
proof (induction d arbitrary: o')
  case (Cons a d)
  have "os_pad (perform a o') = None" using Cons.prems by (cases a) (auto simp: is_pad_press_def)
  with Cons show ?case by simp
qed simp

lemma press_is_pad: "is_pad_press a \<Longrightarrow> is_pad_action a"
  by (cases a) (auto simp: is_pad_press_def is_pad_action_def)

lemma call_lists [simp]:
  "keyboard_call (Desk d) = d" "keyboard_call (Pad d) = []"
  "keyboard_call DeskReleaseAll = []" "keyboard_call PadReleaseAll = []"
  "pad_call (Desk d) = []" "pad_call (Pad d) = d"
  "pad_call DeskReleaseAll = []" "pad_call PadReleaseAll = []"
  by (simp_all add: keyboard_call_def pad_call_def)

lemma apply_diff_desk: "desk_os (apply_diff driver d s) = performs d (desk_os s)"
  by (simp add: apply_diff_def Let_def desk_os_def)

lemma apply_diff_pad:
  "pad_os (apply_diff driver d s) =
     (if pad_open (apply_diff driver d s) \<and> (\<exists>a \<in> set d. is_pad_action a)
      then performs d (pad_os s) else pad_os s)"
  by (cases "\<exists>a \<in> set d. is_pad_action a"; cases "pad_open s")
    (simp_all add: apply_diff_def Let_def pad_os_def del: bex_simps)

lemma apply_diff_keeps [simp]:
  "state (apply_diff driver d s) = state s"
  "cfg (apply_diff driver d s) = cfg s"
  "tokens (apply_diff driver d s) = tokens s"
  "released (apply_diff driver d s) = released s"
  "last_packet_at (apply_diff driver d s) = last_packet_at s"
  "high_water (apply_diff driver d s) = high_water s"
  by (simp_all add: apply_diff_def Let_def)

lemma apply_diff_opens:
  "gamepad_tried (apply_diff driver d s) \<longleftrightarrow>
     gamepad_tried s \<or> (\<exists>a \<in> set d. is_pad_press a) \<and> \<not> pad_open s"
  "pad_open (apply_diff driver d s) \<longleftrightarrow>
     pad_open s \<or> \<not> gamepad_tried s \<and> (\<exists>a \<in> set d. is_pad_press a) \<and> new_gamepad_backend driver (cfg s)"
  using press_is_pad by (auto simp: apply_diff_def Let_def)

lemma apply_diff_in_sync:
  assumes sync: "in_sync s" and d: "performs d (view (state s)) = view st'"
  shows "in_sync (apply_diff driver d (s\<lparr>state := st'\<rparr>))"
proof -
  let ?s = "s\<lparr>state := st'\<rparr>" and ?t = "apply_diff driver d (s\<lparr>state := st'\<rparr>)"
  have same: "desk_os ?s = desk_os s" "pad_os ?s = pad_os s"
    by (simp_all add: desk_os_def pad_os_def)
  have desk: "desk_os ?t = view st'"
    using sync d by (simp add: apply_diff_desk same in_sync_def)
  have pad_st: "os_pad (performs d o') = st_gamepad st'" if "os_pad o' = st_gamepad (state s)" for o'
    using performs_pad_cong [of o' "view (state s)" d] that d by (simp add: view_def)
  have idle: "st_gamepad st' = st_gamepad (state s)" if "\<not> (\<exists>a \<in> set d. is_pad_action a)"
    using performs_no_pad [OF that, of "view (state s)"] d by (simp add: view_def)
  have none: "st_gamepad st' = None"
    if "\<not> (\<exists>a \<in> set d. is_pad_press a)" "st_gamepad (state s) = None"
    using performs_no_press [OF that(1), of "view (state s)"] that(2) d by (simp add: view_def)
  have pad0: "os_pad (pad_os s) = st_gamepad (state s)" if "pad_open s \<or> \<not> gamepad_tried s"
    using sync that by (auto simp: in_sync_def)
  have "os_pad (pad_os ?t) = (if pad_open ?t then st_gamepad st' else None)"
  proof (cases "pad_open ?t")
    case True
    then have "os_pad (pad_os s) = st_gamepad (state s)"
      using pad0 by (auto simp: apply_diff_opens)
    then show ?thesis using True pad_st idle by (auto simp: apply_diff_pad same)
  next
    case False
    then have "\<not> pad_open s" by (simp add: apply_diff_opens)
    with False sync show ?thesis by (simp add: apply_diff_pad same in_sync_def)
  qed
  moreover have "\<not> gamepad_tried ?t \<longrightarrow> \<not> pad_open ?t \<and> st_gamepad st' = None"
    using sync none by (auto simp: apply_diff_opens in_sync_def)
  ultimately show ?thesis using desk by (simp add: in_sync_def)
qed

lemma release_all_in_sync: "in_sync s \<Longrightarrow> in_sync (release_all driver s)"
  and release_all_quiet: "in_sync s \<Longrightarrow> quiet (release_all driver s) \<and> released (release_all driver s)"
proof -
  assume sync: "in_sync s"
  obtain d where d: "state_release_all (state s) = (input_default, d)"
    by (simp add: state_release_all_def)
  let ?t = "apply_diff driver d (s\<lparr>state := input_default\<rparr>)"
  have "in_sync ?t"
    using apply_diff_in_sync [OF sync, of d input_default driver] release_refines [of "state s"] d by simp
  then have t: "in_sync ?t" .
  then show "in_sync (release_all driver s)"
    by (auto simp: release_all_def d Let_def in_sync_def desk_os_def pad_os_def)
  have calls: "desk_os (release_all driver s) = desk_os ?t" "pad_os (release_all driver s) = pad_os ?t"
    "state (release_all driver s) = input_default" "released (release_all driver s)"
    by (simp_all add: release_all_def d Let_def desk_os_def pad_os_def)
  from t have "desk_os ?t = nothing_held" "os_pad (pad_os ?t) = None"
    by (simp_all add: in_sync_def nothing_held_def) (simp add: input_default_def)
  with calls show "quiet (release_all driver s) \<and> released (release_all driver s)"
    by (simp add: quiet_def)
qed

section \<open>Reachable sessions\<close>

text \<open>A session of configuration \<open>c\<close>, driven by packets, watchdog ticks and explicit releases.\<close>

inductive reach :: "bool \<Rightarrow> InputConfig \<Rightarrow> InputSession \<Rightarrow> bool"
  for driver :: bool and c :: InputConfig where
  reach_new: "reach driver c (new_session c now)"
| reach_packet: "reach driver c s \<Longrightarrow> reach driver c (snd (handle_packet driver now bs s))"
| reach_tick: "reach driver c s \<Longrightarrow> reach driver c (tick_watchdog driver now s)"
| reach_release: "reach driver c s \<Longrightarrow> reach driver c (release_all driver s)"

lemma in_sync_cong:
  assumes "in_sync s" "sent t = sent s" "state t = state s" "pad_open t = pad_open s"
    "gamepad_tried t = gamepad_tried s"
  shows "in_sync t"
  using assms by (simp add: in_sync_def desk_os_def pad_os_def)

lemma fold_event_eq: "fold_event st ev = apply_event st ev"
  by (simp add: fold_event_def apply_event_def split: InputEvent.splits)

lemma rate_ok_keeps [simp]:
  "state (snd (rate_ok now s)) = state s" "sent (snd (rate_ok now s)) = sent s"
  "cfg (snd (rate_ok now s)) = cfg s" "pad_open (snd (rate_ok now s)) = pad_open s"
  "gamepad_tried (snd (rate_ok now s)) = gamepad_tried s"
  "released (snd (rate_ok now s)) = released s"
  "last_packet_at (snd (rate_ok now s)) = last_packet_at s"
  "high_water (snd (rate_ok now s)) = high_water s"
  by (simp_all add: rate_ok_def Let_def)

lemma note_throttled_keeps [simp]:
  "state (note_throttled now s) = state s" "sent (note_throttled now s) = sent s"
  "cfg (note_throttled now s) = cfg s" "pad_open (note_throttled now s) = pad_open s"
  "gamepad_tried (note_throttled now s) = gamepad_tried s"
  "released (note_throttled now s) = released s"
  "last_packet_at (note_throttled now s) = last_packet_at s"
  "high_water (note_throttled now s) = high_water s"
  "tokens (note_throttled now s) = tokens s"
  by (simp_all add: note_throttled_def)

text \<open>
  The six ways a packet can go. Everything else about \<open>handle_packet\<close> follows by cases.
\<close>

lemma handle_packet_cases:
  obtains (oversize) "length bs > MAX_PACKET_BYTES"
      "handle_packet driver now bs s = (Inr (), note_throttled now s)"
  | (malformed) e where "length bs \<le> MAX_PACKET_BYTES" "decode bs = Inl e"
      "handle_packet driver now bs s = (Inl e, s)"
  | (limited) pkt where "length bs \<le> MAX_PACKET_BYTES" "decode bs = Inr pkt"
      "\<not> fst (rate_ok now (s\<lparr>last_packet_at := now, released := False\<rparr>))"
      "handle_packet driver now bs s =
         (Inr (), note_throttled now (snd (rate_ok now (s\<lparr>last_packet_at := now, released := False\<rparr>))))"
  | (stale) pkt where "length bs \<le> MAX_PACKET_BYTES" "decode bs = Inr pkt"
      "fst (rate_ok now (s\<lparr>last_packet_at := now, released := False\<rparr>))"
      "\<not> is_fresh s (sequence (header pkt))"
      "handle_packet driver now bs s =
         (Inr (), snd (rate_ok now (s\<lparr>last_packet_at := now, released := False\<rparr>)))"
  | (jump) pkt where "length bs \<le> MAX_PACKET_BYTES" "decode bs = Inr pkt"
      "fst (rate_ok now (s\<lparr>last_packet_at := now, released := False\<rparr>))"
      "is_fresh s (sequence (header pkt))" "implausible (cfg s) (event pkt)"
      "handle_packet driver now bs s =
         (Inr (), note_throttled now
            (snd (rate_ok now (s\<lparr>last_packet_at := now, released := False\<rparr>))
               \<lparr>high_water := Some (sequence (header pkt))\<rparr>))"
  | (applied) pkt where "length bs \<le> MAX_PACKET_BYTES" "decode bs = Inr pkt"
      "fst (rate_ok now (s\<lparr>last_packet_at := now, released := False\<rparr>))"
      "is_fresh s (sequence (header pkt))" "\<not> implausible (cfg s) (event pkt)"
      "handle_packet driver now bs s =
         (Inr (), apply_diff driver (snd (apply_event (state s) (event pkt)))
            (snd (rate_ok now (s\<lparr>last_packet_at := now, released := False\<rparr>))
               \<lparr>high_water := Some (sequence (header pkt)),
                state := fst (apply_event (state s) (event pkt))\<rparr>))"
proof (cases "length bs > MAX_PACKET_BYTES")
  case True
  with oversize show thesis by (simp add: handle_packet_def)
next
  case small: False
  then have len: "length bs \<le> MAX_PACKET_BYTES" by simp
  show thesis
  proof (cases "decode bs")
    case (Inl e)
    with malformed [OF len] small show thesis by (simp add: handle_packet_def)
  next
    case (Inr pkt)
    let ?s1 = "s\<lparr>last_packet_at := now, released := False\<rparr>"
    obtain ok s2 where r: "rate_ok now ?s1 = (ok, s2)" by fastforce
    have keep: "state s2 = state s" "cfg s2 = cfg s" "high_water s2 = high_water s"
      using rate_ok_keeps [of now ?s1] r by simp_all
    have fresh: "is_fresh s2 q = is_fresh s q" for q by (simp add: is_fresh_def keep)
    note unf = handle_packet_def r Inr Let_def fold_event_eq fresh keep
    show thesis
    proof (cases ok)
      case False
      with limited [OF len Inr] small show thesis by (simp add: unf)
    next
      case ok: True
      show thesis
      proof (cases "is_fresh s (sequence (header pkt))")
        case False
        with stale [OF len Inr] small ok show thesis by (simp add: unf)
      next
        case fr: True
        obtain st' d where ap: "apply_event (state s) (event pkt) = (st', d)" by fastforce
        show thesis
        proof (cases "implausible (cfg s) (event pkt)")
          case True
          with jump [OF len Inr] small ok fr show thesis by (simp add: unf)
        next
          case False
          with applied [OF len Inr] small ok fr ap show thesis by (simp add: unf)
        qed
      qed
    qed
  qed
qed

lemma handle_packet_in_sync:
  assumes "in_sync s"
  shows "in_sync (snd (handle_packet driver now bs s))"
proof (cases rule: handle_packet_cases [of bs driver now s])
  case (applied pkt)
  let ?u = "snd (rate_ok now (s\<lparr>last_packet_at := now, released := False\<rparr>))
               \<lparr>high_water := Some (sequence (header pkt))\<rparr>"
  have u: "in_sync ?u" by (rule in_sync_cong [OF assms]) simp_all
  have "in_sync (apply_diff driver (snd (apply_event (state s) (event pkt)))
      (?u\<lparr>state := fst (apply_event (state s) (event pkt))\<rparr>))"
    by (rule apply_diff_in_sync [OF u]) (simp add: apply_event_refines)
  with applied show ?thesis by simp
qed (auto intro: in_sync_cong [OF assms])

lemma new_in_sync: "in_sync (new_session c now)"
  by (simp add: in_sync_def new_session_def desk_os_def pad_os_def nothing_held_def)
    (simp add: input_default_def)

lemma tick_in_sync: "in_sync s \<Longrightarrow> in_sync (tick_watchdog driver now s)"
  by (auto simp: tick_watchdog_def intro: in_sync_cong [OF release_all_in_sync])

lemma reach_in_sync: "reach driver c s \<Longrightarrow> in_sync s"
  by (induction rule: reach.induct)
    (auto intro: new_in_sync handle_packet_in_sync tick_in_sync release_all_in_sync)

lemma reach_cfg: "reach driver c s \<Longrightarrow> cfg s = c"
proof (induction rule: reach.induct)
  case (reach_packet s now bs)
  then show ?case by (cases rule: handle_packet_cases [of bs driver now s]) simp_all
qed (simp_all add: new_session_def tick_watchdog_def release_all_def split_beta Let_def)

text \<open>Released sessions hold nothing; an explicit release or an expired heartbeat leads there.\<close>

lemma reach_released_quiet: "reach driver c s \<Longrightarrow> released s \<Longrightarrow> quiet s"
proof (induction rule: reach.induct)
  case (reach_new now)
  then show ?case by (simp add: quiet_def new_session_def desk_os_def pad_os_def nothing_held_def)
next
  case (reach_packet s now bs)
  show ?case
  proof (cases rule: handle_packet_cases [of bs driver now s])
    case oversize
    with reach_packet show ?thesis by (simp add: quiet_def desk_os_def pad_os_def)
  qed (use reach_packet in simp_all)
next
  case (reach_tick s now)
  have "quiet (release_all driver s)" using release_all_quiet reach_in_sync reach_tick.hyps by blast
  with reach_tick show ?case
    by (simp add: tick_watchdog_def quiet_def desk_os_def pad_os_def split: if_splits)
next
  case (reach_release s)
  then show ?case using release_all_quiet reach_in_sync by blast
qed

section \<open>The token bucket\<close>

lemma f64_mono: "x \<le> y \<Longrightarrow> f64_of x \<le> f64_of y"
  unfolding f64_of_def by (rule fround_mono) simp_all

lemma rate_ok_tokens:
  assumes "token_ok s" "packet_burst (cfg s) \<le> u32_max"
  shows "token_ok (snd (rate_ok now s))"
proof -
  let ?b = "f64_nat (packet_burst (cfg s))"
  have b: "?b = of_nat (packet_burst (cfg s))"
    using assms(2) by (intro f64_nat_exact) (simp add: u32_max_def)
  have el: "0 \<le> as_secs_f64 n" for n
    unfolding as_secs_f64_def f64_add_def f64_nat_def f64_of_def
    by (intro fround_nonneg add_nonneg_nonneg divide_nonneg_nonneg) simp_all
  let ?t = "min (f64_add (tokens s) (f64_mul (as_secs_f64 (now - tokens_refilled_at s))
      (f64_nat (max_packets_per_sec (cfg s))))) ?b"
  have t0: "0 \<le> ?t"
    using assms(1) el b unfolding token_ok_def f64_add_def f64_mul_def f64_nat_def
    by (auto intro!: fround_nonneg add_nonneg_nonneg mult_nonneg_nonneg simp: min_def)
  have sub: "0 \<le> f64_sub ?t 1 \<and> f64_sub ?t 1 \<le> ?b" if "1 \<le> ?t"
  proof -
    have "f64_sub ?t 1 \<le> f64_sub ?b 0"
      unfolding f64_sub_def by (rule fround_mono) simp_all
    also have "f64_sub ?b 0 = ?b" using f64_sub_nat [of 0 "packet_burst (cfg s)"] assms(2) b
      by (simp add: u32_max_def)
    finally show ?thesis using that unfolding f64_sub_def by (auto intro!: fround_nonneg)
  qed
  show ?thesis
    unfolding rate_ok_def Let_def token_ok_def using t0 sub by (auto simp del: min_less_iff_conj)
qed

lemma reach_token_ok:
  "reach driver c s \<Longrightarrow> packet_burst c \<le> u32_max \<Longrightarrow> token_ok s"
proof (induction rule: reach.induct)
  case (reach_new now)
  then show ?case
    unfolding token_ok_def new_session_def f64_nat_def by (auto intro: fround_nonneg)
next
  case (reach_packet s now bs)
  let ?s1 = "s\<lparr>last_packet_at := now, released := False\<rparr>"
  have "token_ok ?s1" using reach_packet by (simp add: token_ok_def)
  then have "token_ok (snd (rate_ok now ?s1))"
    by (rule rate_ok_tokens) (use reach_cfg reach_packet in auto)
  with reach_packet show ?case
    by (cases rule: handle_packet_cases [of bs driver now s]) (simp_all add: token_ok_def)
next
  case (reach_tick s now)
  then show ?case by (simp add: token_ok_def tick_watchdog_def release_all_def split_beta Let_def)
next
  case (reach_release s)
  then show ?case by (simp add: token_ok_def release_all_def split_beta Let_def)
qed

text \<open>How many of \<open>k\<close> packets at one instant the bucket lets through.\<close>

fun admitted_at :: "nat \<Rightarrow> nat \<Rightarrow> InputSession \<Rightarrow> nat" where
  "admitted_at now 0 s = 0"
| "admitted_at now (Suc k) s =
     (let (ok, s') = rate_ok now s in (if ok then 1 else 0) + admitted_at now k s')"

lemma rate_ok_same_instant:
  assumes "tokens s = of_nat n" "tokens_refilled_at s = now" "n \<le> packet_burst (cfg s)"
    "packet_burst (cfg s) \<le> u32_max"
  shows "rate_ok now s = (0 < n, s\<lparr>tokens := of_nat (n - 1)\<rparr>)"
proof -
  have b: "f64_nat (packet_burst (cfg s)) = of_nat (packet_burst (cfg s))"
    using assms(4) by (intro f64_nat_exact) (simp add: u32_max_def)
  have n: "f64_nat n = of_nat n"
    using assms(3,4) by (intro f64_nat_exact) (simp add: u32_max_def)
  have z: "as_secs_f64 0 = 0"
    by (simp add: as_secs_f64_def f64_add_def f64_nat_def f64_of_def)
  have t: "min (f64_add (tokens s) (f64_mul (as_secs_f64 (now - tokens_refilled_at s))
      (f64_nat (max_packets_per_sec (cfg s))))) (f64_nat (packet_burst (cfg s))) = of_nat n"
    using assms n unfolding b by (simp add: z f64_mul_def f64_add_def f64_nat_def)
  have sub: "f64_sub (of_nat n) 1 = of_nat (n - 1)" if "0 < n"
    using f64_sub_nat [of 1 n] that assms(3,4) by (simp add: u32_max_def)
  show ?thesis
    unfolding rate_ok_def Let_def t using assms(1,2) sub by (cases n) auto
qed

lemma admitted_at_min:
  assumes "tokens s = of_nat n" "tokens_refilled_at s = now" "n \<le> packet_burst (cfg s)"
    "packet_burst (cfg s) \<le> u32_max"
  shows "admitted_at now k s = min k n"
  using assms
proof (induction k arbitrary: s n)
  case (Suc k)
  have "admitted_at now k (s\<lparr>tokens := of_nat (n - 1)\<rparr>) = min k (n - 1)"
    by (rule Suc.IH) (use Suc.prems in auto)
  then show ?case using rate_ok_same_instant [OF Suc.prems] by (auto simp: Let_def)
qed simp

section \<open>Properties\<close>

definition demo_config :: InputConfig where
  "demo_config = \<lparr>watchdog_ms = 250, enable_virtual_hid = True, max_packets_per_sec = 2000,
                  packet_burst = 400, max_mouse_delta = 4000\<rparr>"

definition demo_session :: InputSession where
  "demo_session = new_session demo_config 0"

definition press_w :: bytes where
  "press_w = encode (new_packet 1 0 0 (Key 17 True 0))"

definition move_right :: bytes where
  "move_right = encode (new_packet 7 0 0 (MouseMove 5 0 0 0))"

text \<open>C18. Whatever event arrives, executing the computed actions on an operating system that holds
  exactly what the host believes leads to exactly what the host believes afterwards, and every
  key, button and motion action among them changes something at the time it runs.\<close>

theorem input_event_refines:
  "performs (snd (apply_event st ev)) (view st) = view (fst (apply_event st ev))
   \<and> effective (snd (apply_event st ev)) (view st)"
  using apply_event_refines apply_event_effective by simp

text \<open>C1. In every reachable input session the keys and buttons left down by all calls made to the
  desktop back end are the ones in the session's state, and the virtual pad, once plugged in,
  shows the state's pad report (and nothing is plugged in before the first report).\<close>

theorem input_session_in_sync:
  assumes "reach driver c s"
  shows "desk_os s = view (state s)
    \<and> os_pad (pad_os s) = (if pad_open s then st_gamepad (state s) else None)"
  using reach_in_sync [OF assms] by (simp add: in_sync_def)

lemma input_session_in_sync_witness:
  "os_keys (desk_os (snd (handle_packet True 0 press_w demo_session))) = {17}
   \<and> desk_os (snd (handle_packet True 0 press_w demo_session))
       = view (state (snd (handle_packet True 0 press_w demo_session)))"
proof -
  have r: "reach True demo_config (snd (handle_packet True 0 press_w demo_session))"
    unfolding demo_session_def by (intro reach.intros)
  have "st_held_keys (state (snd (handle_packet True 0 press_w demo_session))) = {17}"
    by code_simp
  with input_session_in_sync [OF r] show ?thesis by (simp add: view_def)
qed

text \<open>C6. Dead-man release: in every reachable session, a watchdog tick once the heartbeat has been
  silent for the configured time leaves no key, no button and no pad report held, at the
  operating system or in the state; an earlier tick changes nothing.\<close>

theorem input_watchdog_releases:
  assumes "reach driver c s"
  shows "(watchdog_ms c * 1000000 \<le> now - last_packet_at s \<longrightarrow> quiet (tick_watchdog driver now s))
    \<and> (now - last_packet_at s < watchdog_ms c * 1000000 \<longrightarrow> tick_watchdog driver now s = s)"
proof (intro conjI impI)
  have c: "watchdog_timeout s = watchdog_ms c * 1000000"
    by (simp add: watchdog_timeout_def reach_cfg [OF assms])
  show "tick_watchdog driver now s = s" if "now - last_packet_at s < watchdog_ms c * 1000000"
    using that c by (simp add: tick_watchdog_def)
  assume "watchdog_ms c * 1000000 \<le> now - last_packet_at s"
  then have t: "tick_watchdog driver now s = s \<and> released s
      \<or> tick_watchdog driver now s = (release_all driver s)\<lparr>released := True\<rparr>"
    using c by (auto simp: tick_watchdog_def)
  have "quiet (release_all driver s)" using release_all_quiet reach_in_sync assms by blast
  then show "quiet (tick_watchdog driver now s)"
    using t reach_released_quiet [OF assms] by (auto simp: quiet_def desk_os_def pad_os_def)
qed

lemma input_watchdog_releases_witness:
  "\<not> quiet (snd (handle_packet True 0 press_w demo_session))
   \<and> tick_watchdog True 249999999 (snd (handle_packet True 0 press_w demo_session))
       = snd (handle_packet True 0 press_w demo_session)
   \<and> quiet (tick_watchdog True 250000000 (snd (handle_packet True 0 press_w demo_session)))"
proof -
  let ?s = "snd (handle_packet True 0 press_w demo_session)"
  have r: "reach True demo_config ?s"
    unfolding demo_session_def by (intro reach.intros)
  have l: "last_packet_at ?s = 0" by code_simp
  have k: "17 \<in> st_held_keys (state ?s)" by code_simp
  then have "\<not> quiet ?s" by (auto simp: quiet_def input_default_def)
  moreover have "quiet (tick_watchdog True 250000000 ?s)"
    using input_watchdog_releases [OF r, of 250000000] by (simp add: l demo_config_def)
  moreover have "tick_watchdog True 249999999 ?s = ?s"
    using input_watchdog_releases [OF r, of 249999999] by (simp add: l demo_config_def)
  ultimately show ?thesis by simp
qed

text \<open>An oversized or undecodable packet is rejected without touching what is held, the calls made,
  the sequence gate, the token bucket or the heartbeat time.\<close>

theorem input_garbage_is_inert:
  assumes "length bs > MAX_PACKET_BYTES \<or> (\<exists>e. decode bs = Inl e)"
    and "handle_packet driver now bs s = (r, t)"
  shows "state t = state s \<and> sent t = sent s \<and> high_water t = high_water s
    \<and> tokens t = tokens s \<and> last_packet_at t = last_packet_at s \<and> released t = released s"
  by (cases rule: handle_packet_cases [of bs driver now s]) (use assms in auto)

lemma input_garbage_is_inert_witness:
  "length (take 19 press_w) = 19
   \<and> state (snd (handle_packet True 0 (take 19 press_w) demo_session)) = state demo_session
   \<and> last_packet_at (snd (handle_packet True 0 (take 19 press_w) demo_session)) = 0"
proof -
  have "decode (take 19 press_w) = Inl (Truncated 20 19)" by code_simp
  then have "length (take 19 press_w) > MAX_PACKET_BYTES \<or> (\<exists>e. decode (take 19 press_w) = Inl e)"
    by blast
  from input_garbage_is_inert [OF this, of True 0 demo_session
      "fst (handle_packet True 0 (take 19 press_w) demo_session)"]
  have "state (snd (handle_packet True 0 (take 19 press_w) demo_session)) = state demo_session
    \<and> last_packet_at (snd (handle_packet True 0 (take 19 press_w) demo_session)) = last_packet_at demo_session"
    by simp
  moreover have "length (take 19 press_w) = 19" "last_packet_at demo_session = 0" by code_simp+
  ultimately show ?thesis by simp
qed

text \<open>Rate limit: the bucket never holds more than the burst nor less than nothing, and of
  \<open>k\<close> packets checked at the instant a session starts exactly the first \<open>packet_burst\<close> pass.\<close>

theorem input_burst_bound:
  assumes "packet_burst c \<le> u32_max"
  shows "(reach driver c s \<longrightarrow> 0 \<le> tokens s \<and> tokens s \<le> of_nat (packet_burst c))
    \<and> admitted_at now k (new_session c now) = min k (packet_burst c)"
proof (intro conjI impI)
  have b: "f64_nat (packet_burst c) = of_nat (packet_burst c)"
    using assms by (intro f64_nat_exact) (simp add: u32_max_def)
  show "0 \<le> tokens s" "tokens s \<le> of_nat (packet_burst c)" if "reach driver c s"
    using reach_token_ok [OF that assms] b by (simp_all add: token_ok_def reach_cfg [OF that])
  show "admitted_at now k (new_session c now) = min k (packet_burst c)"
    by (rule admitted_at_min) (simp_all add: new_session_def b assms)
qed

lemma input_burst_bound_witness:
  "admitted_at 77 1000 (new_session demo_config 77) = 400
   \<and> tokens (snd (handle_packet True 0 press_w demo_session)) \<le> 400"
proof -
  have b: "packet_burst demo_config \<le> u32_max" by code_simp
  have r: "reach True demo_config (snd (handle_packet True 0 press_w demo_session))"
    unfolding demo_session_def by (intro reach.intros)
  show ?thesis
    using input_burst_bound [OF b, of True _ 77 1000] r
    by (simp add: demo_config_def)
qed

text \<open>The sequence gate compares with \<open>wrapping_sub < u32::MAX / 2\<close>, which a repeated sequence
  satisfies: a packet delivered twice in a row passes the gate twice, and a relative mouse motion
  is then injected twice.\<close>

theorem input_duplicate_passes_gate:
  "is_fresh (s\<lparr>high_water := Some q\<rparr>) q
   \<and> sent (snd (handle_packet True 0 move_right (snd (handle_packet True 0 move_right demo_session))))
       = [Desk [AMouseMove 5 0], Desk [AMouseMove 5 0]]"
proof -
  have "sent (snd (handle_packet True 0 move_right (snd (handle_packet True 0 move_right demo_session))))
       = [Desk [AMouseMove 5 0], Desk [AMouseMove 5 0]]" by code_simp
  then show ?thesis by (simp add: is_fresh_def)
qed

end
