(* ===== verification/Signaling.thy ===== *)
theory Signaling
  imports HostConfig Floats
begin

text \<open>
  The signaling vocabulary (\<open>crates/protocol/src/signaling.rs\<close>) and the encoder policy
  (\<open>crates/host/src/media/encoder_policy.rs\<close>): codecs, requested modes, the negotiated session
  configuration, typed errors and messages; the encoder element and property tables and the
  bitrate table. JSON encoding is serde's and not modelled.
\<close>

section \<open>Messages\<close>

definition SIGNALING_PROTOCOL_VERSION :: nat where "SIGNALING_PROTOCOL_VERSION = 2"

fun mime_type :: "VideoCodec \<Rightarrow> string" where
  "mime_type H264 = ''video/H264''"
| "mime_type H265 = ''video/H265''"

record RtpCodecCapability =
  rc_mime_type :: string
  clock_rate :: nat
  channels :: "nat option"
  sdp_fmtp_line :: "string option"

record DecodeHint =
  dh_codec :: VideoCodec
  dh_width :: nat
  dh_height :: nat
  dh_framerate :: nat
  dh_supported :: bool
  dh_smooth :: bool
  dh_power_efficient :: bool

datatype StreamTarget = Desktop | Game string

record RequestedMode =
  rm_width :: nat
  rm_height :: nat
  rm_fps :: nat
  rm_preset :: QualityPreset
  rm_codec_preference :: "VideoCodec option"
  rm_max_bitrate_kbps :: "nat option"
  rm_stream_target :: StreamTarget

record ClientFeatures =
  secure_context :: bool
  jitter_buffer_target :: bool
  keyboard_lock :: bool
  pointer_lock :: bool
  pointer_lock_unadjusted_movement :: bool
  request_video_frame_callback :: bool
  cf_gamepad :: bool

record InputCapabilities =
  ic_keyboard :: bool
  ic_mouse :: bool
  ic_gamepad :: bool
  ic_backend :: string

record SessionConfig =
  sc_codec :: VideoCodec
  sc_width :: nat
  sc_height :: nat
  sc_fps :: nat
  sc_preset :: QualityPreset
  sc_start_kbps :: nat
  sc_max_kbps :: nat
  sc_min_kbps :: nat
  sc_jitter_ms :: nat
  sc_input :: InputCapabilities
  sc_encoder_backend :: string
  sc_ice_servers :: "string list"
  sc_stream_target :: StreamTarget

record IceCandidate =
  ice_candidate :: string
  sdp_mid :: "string option"
  sdp_mline_index :: "nat option"

datatype SignalErrorCode =
    ProtocolVersion
  | Busy
  | NoHardwareEncoder
  | NoCommonCodec
  | CaptureUnavailable
  | NegotiationFailed
  | Unauthorized
  | Internal

record SignalError =
  se_code :: SignalErrorCode
  se_message :: string

text \<open>The once-a-second report; the type parameter keeps it opaque here, where it is only passed on.\<close>

datatype 't SignalMessage =
    ClientHello nat string RequestedMode
  | ClientCapabilities "RtpCodecCapability list" "RtpCodecCapability list" "DecodeHint list" ClientFeatures
  | SessionConfigMsg SessionConfig
  | Offer string
  | Answer string
  | Ice IceCandidate
  | AuthChallenge string
  | AuthResponse string string
  | SessionReady
  | ErrorMsg SignalError
  | WtVideoInfo string nat string
  | WtVideoInfoRequest
  | Ping nat
  | Pong nat
  | Telemetry 't
  | Bye

definition error_msg :: "SignalErrorCode \<Rightarrow> string \<Rightarrow> 't SignalMessage" where
  "error_msg code m = ErrorMsg \<lparr>se_code = code, se_message = m\<rparr>"

section \<open>Encoder policy\<close>

datatype GpuVendor = Nvidia | Amd | Intel | OtherGpu

datatype EncProp = PBool bool | PUint nat | PInt int | PEnum string

fun show_nat :: "nat \<Rightarrow> string" where
  "show_nat n = (if n < 10 then [char_of (48 + n)] else show_nat (n div 10) @ [char_of (48 + n mod 10)])"

declare show_nat.simps [simp del]

fun to_prop_string :: "EncProp \<Rightarrow> string" where
  "to_prop_string (PBool b) = (if b then ''true'' else ''false'')"
| "to_prop_string (PUint u) = show_nat u"
| "to_prop_string (PInt i) = (if i < 0 then ''-'' @ show_nat (nat (- i)) else show_nat (nat i))"
| "to_prop_string (PEnum s) = s"

fun element_for :: "GpuVendor \<Rightarrow> VideoCodec \<Rightarrow> string option" where
  "element_for Nvidia H264 = Some ''nvd3d11h264enc''"
| "element_for Nvidia H265 = Some ''nvd3d11h265enc''"
| "element_for Amd H264 = Some ''amfh264enc''"
| "element_for Amd H265 = Some ''amfh265enc''"
| "element_for Intel H264 = Some ''qsvh264enc''"
| "element_for Intel H265 = Some ''qsvh265enc''"
| "element_for OtherGpu H264 = Some ''mfh264enc''"
| "element_for OtherGpu H265 = Some ''mfh265enc''"

fun low_latency_properties :: "GpuVendor \<Rightarrow> VideoCodec \<Rightarrow> nat \<Rightarrow> (string \<times> EncProp) list" where
  "low_latency_properties Nvidia _ kbps =
     [(''zerolatency'', PBool True), (''bframes'', PUint 0), (''b-adapt'', PBool False),
      (''rc-lookahead'', PUint 0), (''spatial-aq'', PBool False), (''temporal-aq'', PBool False),
      (''gop-size'', PInt 0x3FFFFFFF), (''rc-mode'', PEnum ''cbr''),
      (''multi-pass'', PEnum ''disabled''), (''tune'', PEnum ''ultra-low-latency''),
      (''preset'', PEnum ''p1''), (''aud'', PBool False), (''repeat-sequence-header'', PBool True),
      (''bitrate'', PUint kbps), (''max-bitrate'', PUint kbps)]"
| "low_latency_properties Amd _ kbps =
     [(''usage'', PEnum ''ultra-low-latency''), (''bframes'', PUint 0),
      (''preanalysis'', PBool False), (''rate-control'', PEnum ''cbr''),
      (''bitrate'', PUint kbps), (''max-bitrate'', PUint kbps)]"
| "low_latency_properties Intel _ kbps =
     [(''b-frames'', PUint 0), (''low-latency'', PBool True), (''target-usage'', PUint 7),
      (''rate-control'', PEnum ''cbr''), (''bitrate'', PUint kbps), (''max-bitrate'', PUint kbps)]"
| "low_latency_properties OtherGpu _ kbps =
     [(''low-latency'', PBool True), (''rc-mode'', PEnum ''cbr''), (''bitrate'', PUint kbps)]"

text \<open>Start and ceiling for the listed modes; \<open>None\<close> for the others, which scale by pixel rate.\<close>

definition listed_mode :: "VideoCodec \<Rightarrow> nat \<Rightarrow> nat \<Rightarrow> (nat \<times> nat) option" where
  "listed_mode c h f =
     (if h = 1080 then
        (case c of H264 \<Rightarrow> Some (if f \<le> 60 then (20000, 35000) else (30000, 50000))
         | H265 \<Rightarrow> Some (if f \<le> 60 then (14000, 25000) else (22000, 35000)))
      else if h = 1440 then
        (case c of H264 \<Rightarrow> Some (if f \<le> 60 then (30000, 50000) else (50000, 85000))
         | H265 \<Rightarrow> Some (if f \<le> 60 then (22000, 35000) else (35000, 60000)))
      else None)"

definition pixel_scale :: "nat \<Rightarrow> nat \<Rightarrow> nat \<Rightarrow> f32" where
  "pixel_scale w h f =
     f32_div (f32_mul (f32_mul (f32_nat w) (f32_nat h)) (f32_nat (max f 1)))
             (f32_mul (f32_mul 1920 1080) 60)"

definition scaled_kbps :: "VideoCodec \<Rightarrow> nat \<Rightarrow> nat \<Rightarrow> nat \<Rightarrow> nat" where
  "scaled_kbps c w h f = to_u32 (f32_mul (if c = H264 then 20000 else 14000) (pixel_scale w h f))"

definition bitrate_kbps :: "VideoCodec \<Rightarrow> nat \<Rightarrow> nat \<Rightarrow> nat \<Rightarrow> nat \<times> nat \<times> nat" where
  "bitrate_kbps c w h f =
     (let (start, mx) =
        (case listed_mode c h f of
           Some p \<Rightarrow> p
         | None \<Rightarrow> (let s = scaled_kbps c w h f
                    in (max s 4000, to_u32 (f32_mul (f32_nat s) (f32_of (17 / 10))))))
      in (start, mx, max (start div 5) 2000))"

definition jitter_buffer_target_ms :: "QualityPreset \<Rightarrow> nat" where
  "jitter_buffer_target_ms p = 0"

section \<open>Lemmas\<close>

text \<open>
  Every encoder is set to constant bitrate at the requested rate, and no table turns on B-frames
  or lookahead.
\<close>

lemma low_latency_bitrate:
  "(''bitrate'', PUint k) \<in> set (low_latency_properties v c k)
   \<and> (v \<noteq> OtherGpu \<longrightarrow> (''max-bitrate'', PUint k) \<in> set (low_latency_properties v c k))"
  by (cases v) simp_all

lemma low_latency_no_reorder:
  "(n, p) \<in> set (low_latency_properties v c k) \<Longrightarrow>
     n \<in> {''bframes'', ''b-frames'', ''rc-lookahead''} \<Longrightarrow> p = PUint 0"
  by (cases v) auto

lemma low_latency_distinct: "distinct (map fst (low_latency_properties v c k))"
  by (cases v) simp_all

lemma element_for_total: "\<exists>e. element_for v c = Some e"
  by (cases v; cases c) simp_all

lemma element_for_inj:
  "element_for v c = element_for v' c' \<Longrightarrow> v = v' \<and> c = c'"
  by (cases v; cases c; cases v'; cases c') simp_all

lemma f32_mul_mono: "0 \<le> a \<Longrightarrow> a \<le> b \<Longrightarrow> 0 \<le> c \<Longrightarrow> c \<le> d \<Longrightarrow> f32_mul a c \<le> f32_mul b d"
  unfolding f32_mul_def by (rule fround_mono) (auto intro: mult_mono)

lemma f32_nat_mono: "a \<le> b \<Longrightarrow> f32_nat a \<le> f32_nat b"
  unfolding f32_nat_def by (rule fround_mono) simp_all

lemma f32_nonneg: "0 \<le> f32_nat n" "0 \<le> a \<Longrightarrow> 0 \<le> b \<Longrightarrow> 0 \<le> f32_mul a b"
  "0 \<le> a \<Longrightarrow> 0 \<le> b \<Longrightarrow> 0 \<le> f32_div a b"
  unfolding f32_nat_def f32_mul_def f32_div_def by (auto intro!: fround_nonneg)

lemma pixel_scale_mono:
  "w \<le> w' \<Longrightarrow> h \<le> h' \<Longrightarrow> f \<le> f' \<Longrightarrow> pixel_scale w h f \<le> pixel_scale w' h' f'"
  unfolding pixel_scale_def f32_div_def
  by (rule fround_mono)
    (auto intro!: divide_right_mono f32_mul_mono f32_nat_mono f32_nonneg max.mono)

lemma pixel_scale_nonneg: "0 \<le> pixel_scale w h f"
  unfolding pixel_scale_def by (intro f32_nonneg) simp_all

lemma scaled_kbps_mono:
  "w \<le> w' \<Longrightarrow> h \<le> h' \<Longrightarrow> f \<le> f' \<Longrightarrow> scaled_kbps c w h f \<le> scaled_kbps c w' h' f'"
  unfolding scaled_kbps_def
  by (auto intro!: to_u32_mono f32_mul_mono pixel_scale_mono pixel_scale_nonneg)

lemma scaled_kbps_least: "388 \<le> scaled_kbps c 640 360 15"
proof (cases c)
  case H264
  show ?thesis unfolding H264 by code_simp
next
  case H265
  show ?thesis unfolding H265 by code_simp
qed

lemma scaled_kbps_most: "scaled_kbps c 3840 2160 240 \<le> 320000"
proof (cases c)
  case H264
  show ?thesis unfolding H264 by code_simp
next
  case H265
  show ?thesis unfolding H265 by code_simp
qed

end
