(* ===== verification/Negotiation.thy ===== *)
theory Negotiation
  imports Signaling
begin

text \<open>
  Mode negotiation (\<open>crates/host/src/http/signal.rs\<close>, from \<open>preview_mode\<close> on): what a preview may
  ask for, the clamp every requested mode goes through, the codec choice and the session
  configuration that comes out. The name of the input back end, which the platform decides, is
  the parameter \<open>backend\<close>.
\<close>

section \<open>Operations\<close>

text \<open>
  \<open>f64::min(960 / w, 540 / h)\<close>: a zero dimension divides to infinity, which is never the minimum
  (not both are zero where the scale is computed).
\<close>

definition preview_scale :: "nat \<Rightarrow> nat \<Rightarrow> f64" where
  "preview_scale w h =
     (let rw = f64_of (960 / f64_nat w); rh = f64_of (540 / f64_nat h)
      in if w = 0 then rh else if h = 0 then rw else min rw rh)"

definition even_down :: "nat \<Rightarrow> nat" where "even_down n = n - n mod 2"

definition preview_mode :: "RequestedMode \<Rightarrow> RequestedMode" where
  "preview_mode m =
     (let m1 = (if rm_width m > 960 \<or> rm_height m > 540
                then let s = preview_scale (rm_width m) (rm_height m) in
                     m\<lparr>rm_width := even_down (to_u32 (f64_mul (f64_nat (rm_width m)) s)),
                       rm_height := even_down (to_u32 (f64_mul (f64_nat (rm_height m)) s))\<rparr>
                else m)
      in m1\<lparr>rm_fps := min (rm_fps m1) 30,
            rm_max_bitrate_kbps :=
              Some (min (case rm_max_bitrate_kbps m1 of Some b \<Rightarrow> b | None \<Rightarrow> 2500) 2500),
            rm_stream_target := Desktop\<rparr>)"

definition clamp_mode :: "nat \<Rightarrow> nat \<Rightarrow> nat \<Rightarrow> nat \<times> nat \<times> nat" where
  "clamp_mode w h fps =
     (even_down (clampN w 640 3840), even_down (clampN h 360 2160), clampN fps 15 240)"

fun replace_first :: "string \<Rightarrow> string \<Rightarrow> string \<Rightarrow> string" where
  "replace_first p r [] = (if p = [] then r else [])"
| "replace_first p r (c # cs) =
     (if starts_with (c # cs) p then r @ drop (length p) (c # cs) else c # replace_first p r cs)"

definition browser_ice_servers :: "NetworkConfig \<Rightarrow> string list" where
  "browser_ice_servers n =
     (if strict_lan n then [] else map (replace_first ''stun://'' ''stun:'') (stun_servers n))"

definition build_config ::
  "Config \<Rightarrow> string \<Rightarrow> nat \<Rightarrow> nat \<Rightarrow> nat \<Rightarrow> QualityPreset \<Rightarrow> VideoCodec \<Rightarrow> string \<Rightarrow> nat option
   \<Rightarrow> StreamTarget \<Rightarrow> SessionConfig" where
  "build_config c backend w h fps preset codec enc override target =
     (let (policy_start, policy_max, _) = bitrate_kbps codec w h fps;
          mx = (case override of Some b \<Rightarrow> clampN b 2000 120000 | None \<Rightarrow> policy_max);
          start = min (min policy_start mx) 6000
      in \<lparr>sc_codec = codec, sc_width = w, sc_height = h, sc_fps = fps, sc_preset = preset,
          sc_start_kbps = start, sc_max_kbps = mx, sc_min_kbps = 600,
          sc_jitter_ms = jitter_buffer_target_ms preset,
          sc_input = \<lparr>ic_keyboard = True, ic_mouse = True,
                      ic_gamepad = enable_virtual_hid (c_input c), ic_backend = backend\<rparr>,
          sc_encoder_backend = enc, sc_ice_servers = browser_ice_servers (c_network c),
          sc_stream_target = target\<rparr>)"

definition provisional_config :: "Config \<Rightarrow> string \<Rightarrow> RequestedMode \<Rightarrow> SessionConfig" where
  "provisional_config c backend m =
     (let (w, h, fps) = clamp_mode (rm_width m) (rm_height m) (rm_fps m)
      in build_config c backend w h fps (rm_preset m) (preferred_offer_codec c) ''pending''
           (rm_max_bitrate_kbps m) (rm_stream_target m))"

definition client_has :: "RtpCodecCapability list \<Rightarrow> string \<Rightarrow> bool" where
  "client_has codecs mime = (\<exists>k \<in> set codecs. eq_nocase (rc_mime_type k) mime)"

definition decodes :: "DecodeHint list \<Rightarrow> VideoCodec \<Rightarrow> bool" where
  "decodes hints codec \<longleftrightarrow> hints = [] \<or> (\<exists>h \<in> set hints. dh_codec h = codec \<and> dh_supported h)"

definition choose_codec :: "RtpCodecCapability list \<Rightarrow> DecodeHint list \<Rightarrow> VideoCodec option" where
  "choose_codec codecs hints =
     (if client_has codecs ''video/H265'' \<and> decodes hints H265 then Some H265
      else if client_has codecs ''video/H264'' \<and> decodes hints H264 then Some H264
      else None)"

definition choose_config ::
  "Config \<Rightarrow> string \<Rightarrow> SessionConfig option \<Rightarrow> RtpCodecCapability list \<Rightarrow> DecodeHint list
   \<Rightarrow> SessionConfig option" where
  "choose_config c backend active codecs hints =
     (case choose_codec codecs hints of None \<Rightarrow> None
      | Some codec \<Rightarrow>
          (let base = (case active of Some b \<Rightarrow> b
                 | None \<Rightarrow> build_config c backend (default_width (c_media c)) (default_height (c_media c))
                             (default_fps (c_media c)) (default_preset (c_media c)) codec ''hardware''
                             None Desktop);
               req = (if sc_encoder_backend base = ''pending'' then Some (sc_max_kbps base) else None)
           in Some (build_config c backend (sc_width base) (sc_height base) (sc_fps base)
                      (sc_preset base) codec ''hardware'' req (sc_stream_target base))))"

definition classify_media_error :: "string \<Rightarrow> SignalErrorCode" where
  "classify_media_error e =
     (let l = lower e in
      if contains_str l ''encoder'' \<or> contains_str l ''nvenc'' \<or> contains_str l ''registry''
      then NoHardwareEncoder
      else if contains_str l ''capture'' \<or> contains_str l ''d3d11'' \<or> contains_str l ''dxgi''
      then CaptureUnavailable
      else Internal)"

section \<open>Lemmas\<close>

definition mode_served :: "SessionConfig \<Rightarrow> bool" where
  "mode_served s \<longleftrightarrow>
     640 \<le> sc_width s \<and> sc_width s \<le> 3840 \<and> even (sc_width s)
     \<and> 360 \<le> sc_height s \<and> sc_height s \<le> 2160 \<and> even (sc_height s)
     \<and> 15 \<le> sc_fps s \<and> sc_fps s \<le> 240"

definition rates_ordered :: "SessionConfig \<Rightarrow> bool" where
  "rates_ordered s \<longleftrightarrow>
     sc_min_kbps s \<le> sc_start_kbps s \<and> sc_start_kbps s \<le> sc_max_kbps s
     \<and> sc_start_kbps s \<le> 6000 \<and> sc_max_kbps s \<le> 544000"

lemma even_down_bounds: "even (even_down n)" "even_down n \<le> n" "even a \<Longrightarrow> a \<le> n \<Longrightarrow> a \<le> even_down n"
  by (auto simp: even_down_def) presburger+

lemma clamp_mode_bounds:
  assumes "clamp_mode w h f = (w', h', f')"
  shows "640 \<le> w' \<and> w' \<le> 3840 \<and> even w' \<and> 360 \<le> h' \<and> h' \<le> 2160 \<and> even h' \<and> 15 \<le> f' \<and> f' \<le> 240"
proof -
  have w: "640 \<le> clampN w 640 3840" "clampN w 640 3840 \<le> 3840"
    and h: "360 \<le> clampN h 360 2160" "clampN h 360 2160 \<le> 2160"
    and f: "15 \<le> clampN f 15 240" "clampN f 15 240 \<le> 240"
    by (auto simp: clampN_def)
  from assms have "w' = even_down (clampN w 640 3840)" "h' = even_down (clampN h 360 2160)" "f' = clampN f 15 240"
    by (auto simp: clamp_mode_def)
  then show ?thesis
    using w h f even_down_bounds(1,2) even_down_bounds(3) [of 640] even_down_bounds(3) [of 360]
      le_trans [OF even_down_bounds(2)] by auto
qed

lemma clamp_mode_exact:
  assumes "640 \<le> w" "w \<le> 3840" "even w" "360 \<le> h" "h \<le> 2160" "even h" "15 \<le> f" "f \<le> 240"
  shows "clamp_mode w h f = (w, h, f)"
  using assms by (simp add: clamp_mode_def clampN_def even_down_def even_iff_mod_2_eq_zero)

lemma times_1_7:
  "a \<le> b \<Longrightarrow> to_u32 (f32_mul (f32_nat a) (f32_of (17 / 10))) \<le> to_u32 (f32_mul (f32_nat b) (f32_of (17 / 10)))"
proof -
  have "0 \<le> f32_of (17 / 10)" unfolding f32_of_def by (rule fround_nonneg) simp_all
  then show "a \<le> b \<Longrightarrow> ?thesis" by (auto intro!: to_u32_mono f32_mul_mono f32_nat_mono f32_nonneg)
qed

lemma max_388: "600 \<le> to_u32 (f32_mul (f32_nat 388) (f32_of (17 / 10)))"
  by code_simp

lemma max_320000: "to_u32 (f32_mul (f32_nat 320000) (f32_of (17 / 10))) \<le> 544000"
  by code_simp

lemma policy_bounds:
  assumes "640 \<le> w" "w \<le> 3840" "360 \<le> h" "h \<le> 2160" "15 \<le> f" "f \<le> 240"
    and "bitrate_kbps codec w h f = (st, mx, fl)"
  shows "600 \<le> mx \<and> mx \<le> 544000 \<and> 4000 \<le> st"
proof (cases "listed_mode codec h f")
  case None
  let ?s = "scaled_kbps codec w h f"
  have "scaled_kbps codec 640 360 15 \<le> ?s" by (rule scaled_kbps_mono) (use assms in auto)
  moreover have "?s \<le> scaled_kbps codec 3840 2160 240" by (rule scaled_kbps_mono) (use assms in auto)
  ultimately have "388 \<le> ?s" "?s \<le> 320000"
    using scaled_kbps_least [of codec] scaled_kbps_most [of codec] by linarith+
  then have "600 \<le> to_u32 (f32_mul (f32_nat ?s) (f32_of (17 / 10)))"
    "to_u32 (f32_mul (f32_nat ?s) (f32_of (17 / 10))) \<le> 544000"
    using times_1_7 [of 388 ?s] times_1_7 [of ?s 320000] max_388 max_320000 by linarith+
  then show ?thesis using assms(7) None by (auto simp: bitrate_kbps_def Let_def)
next
  case (Some p)
  then show ?thesis using assms(7)
    by (auto simp: bitrate_kbps_def listed_mode_def split: VideoCodec.splits if_splits)
qed

lemma build_config_fields:
  "sc_width (build_config c b w h f p k e ov t) = w"
  "sc_height (build_config c b w h f p k e ov t) = h"
  "sc_fps (build_config c b w h f p k e ov t) = f"
  "sc_codec (build_config c b w h f p k e ov t) = k"
  "sc_encoder_backend (build_config c b w h f p k e ov t) = e"
  "sc_stream_target (build_config c b w h f p k e ov t) = t"
  "sc_min_kbps (build_config c b w h f p k e ov t) = 600"
  "sc_max_kbps (build_config c b w h f p k e ov t) =
     (case ov of Some x \<Rightarrow> clampN x 2000 120000 | None \<Rightarrow> fst (snd (bitrate_kbps k w h f)))"
  by (simp_all add: build_config_def split_beta Let_def)

lemma build_config_rates:
  assumes "640 \<le> w" "w \<le> 3840" "360 \<le> h" "h \<le> 2160" "15 \<le> f" "f \<le> 240"
  shows "rates_ordered (build_config c b w h f p k e ov t)"
proof -
  obtain st mx fl where pol: "bitrate_kbps k w h f = (st, mx, fl)" by (metis prod_cases3)
  have pb: "600 \<le> mx \<and> mx \<le> 544000 \<and> 4000 \<le> st" by (rule policy_bounds [OF assms pol])
  show ?thesis
    using pb by (cases ov) (auto simp: rates_ordered_def build_config_def pol Let_def clampN_def)
qed

lemma provisional_served:
  "mode_served (provisional_config c b m) \<and> rates_ordered (provisional_config c b m)"
proof -
  obtain w h f where cm: "clamp_mode (rm_width m) (rm_height m) (rm_fps m) = (w, h, f)"
    by (metis prod_cases3)
  show ?thesis
    using clamp_mode_bounds [OF cm]
    by (simp add: provisional_config_def cm mode_served_def build_config_fields build_config_rates)
qed

lemma choose_config_served:
  assumes "choose_config c b (Some base) codecs hints = Some s" "mode_served base"
  shows "mode_served s \<and> rates_ordered s"
  using assms
  by (auto simp: choose_config_def Let_def mode_served_def build_config_fields build_config_rates
      split: option.splits)

lemma choose_config_codec:
  assumes "choose_config c b active codecs hints = Some s"
  shows "client_has codecs (mime_type (sc_codec s)) \<and> decodes hints (sc_codec s)
    \<and> sc_encoder_backend s = ''hardware''"
  using assms
  by (auto simp: choose_config_def choose_codec_def Let_def build_config_fields split: option.splits if_splits)

lemma choose_config_none:
  "choose_config c b active codecs hints = None \<longleftrightarrow>
     (\<forall>k. \<not> (client_has codecs (mime_type k) \<and> decodes hints k))"
  by (auto simp: choose_config_def choose_codec_def Let_def split: option.splits if_splits)
    (metis VideoCodec.exhaust mime_type.simps)+

section \<open>Previews\<close>

lemma f64_scaled_le:
  assumes "0 < w" "w \<le> u32_max" "0 \<le> s" "s \<le> f64_of (of_nat k / f64_nat w)" "0 < k" "k \<le> 1000"
  shows "to_u32 (f64_mul (f64_nat w) s) \<le> k"
proof -
  have w: "f64_nat w = of_nat w" using assms(2) by (intro f64_nat_exact) (simp add: u32_max_def)
  have k: "f64_nat (2 * k + 1) = of_nat (2 * k + 1)" using assms(6) by (intro f64_nat_exact) simp
  let ?q = "of_nat k / of_nat w :: rat"
  have q: "0 < ?q" using assms(1,5) by simp
  have "s \<le> ?q * (1 + 1 / 2 ^ 53)"
    using assms(4) fround_le_rel [OF q, of 53] unfolding w f64_of_def by linarith
  then have "of_nat w * s \<le> of_nat w * (?q * (1 + 1 / 2 ^ 53))" by (intro mult_left_mono) auto
  also have "\<dots> = of_nat k * (1 + 1 / 2 ^ 53)" using assms(1) by simp
  finally have prod: "of_nat w * s \<le> of_nat k * (1 + 1 / 2 ^ 53)" .
  show ?thesis
  proof (cases "of_nat w * s = 0")
    case True
    then have "f64_mul (f64_nat w) s = 0" unfolding f64_mul_def w by (simp only: True fround_0)
    then show ?thesis by (simp add: to_u32_def)
  next
    case False
    have "0 \<le> of_nat w * s" by (rule mult_nonneg_nonneg) (use assms(3) in simp_all)
    with False have pos: "0 < of_nat w * s" by linarith
    have "f64_mul (f64_nat w) s \<le> of_nat w * s * (1 + 1 / 2 ^ 53)"
      using fround_le_rel [OF pos, of 53] by (simp add: f64_mul_def w)
    also have "\<dots> \<le> of_nat k * (1 + 1 / 2 ^ 53) * (1 + 1 / 2 ^ 53)"
      by (rule mult_right_mono [OF prod]) simp
    also have "\<dots> < of_nat k + 1" using assms(6) by (simp add: field_simps)
    finally have lt: "f64_mul (f64_nat w) s < of_nat k + 1" .
    have "\<lfloor>f64_mul (f64_nat w) s\<rfloor> < int k + 1"
      by (rule floor_less_iff [THEN iffD2]) (use lt in simp)
    then show ?thesis by (auto simp: to_u32_def)
  qed
qed

lemma preview_scale_nonneg: "0 \<le> preview_scale w h"
proof -
  have "0 \<le> f64_of (960 / f64_nat w)" "0 \<le> f64_of (540 / f64_nat h)"
    unfolding f64_of_def f64_nat_def by (auto intro!: fround_nonneg divide_nonneg_nonneg)
  then show ?thesis by (simp add: preview_scale_def Let_def)
qed

lemma preview_width:
  assumes "w \<le> u32_max"
  shows "to_u32 (f64_mul (f64_nat w) (preview_scale w h)) \<le> 960"
proof (cases "w = 0")
  case True
  then show ?thesis by (simp add: f64_nat_def f64_mul_def to_u32_def)
next
  case False
  then have "preview_scale w h \<le> f64_of (of_nat 960 / f64_nat w)"
    by (auto simp: preview_scale_def Let_def)
  then show ?thesis using False assms preview_scale_nonneg by (intro f64_scaled_le) auto
qed

lemma preview_height:
  assumes "h \<le> u32_max"
  shows "to_u32 (f64_mul (f64_nat h) (preview_scale w h)) \<le> 540"
proof (cases "h = 0")
  case True
  then show ?thesis by (simp add: f64_nat_def f64_mul_def to_u32_def)
next
  case False
  then have "preview_scale w h \<le> f64_of (of_nat 540 / f64_nat h)"
    by (auto simp: preview_scale_def Let_def)
  then show ?thesis using False assms preview_scale_nonneg by (intro f64_scaled_le) auto
qed

lemma preview_mode_bounds:
  assumes "rm_width m \<le> u32_max" "rm_height m \<le> u32_max"
  shows "rm_width (preview_mode m) \<le> 960 \<and> rm_height (preview_mode m) \<le> 540
    \<and> rm_fps (preview_mode m) \<le> 30 \<and> rm_stream_target (preview_mode m) = Desktop
    \<and> (\<exists>b \<le> 2500. rm_max_bitrate_kbps (preview_mode m) = Some b)"
  using le_trans [OF even_down_bounds(2) preview_width [OF assms(1)]]
    le_trans [OF even_down_bounds(2) preview_height [OF assms(2)]]
  by (auto simp: preview_mode_def Let_def)

lemma clamp_mode_preview:
  assumes "w \<le> 960" "h \<le> 540" "f \<le> 30" "clamp_mode w h f = (w', h', f')"
  shows "w' \<le> 960 \<and> h' \<le> 540 \<and> f' \<le> 30"
proof -
  have "w' = even_down (clampN w 640 3840)" "h' = even_down (clampN h 360 2160)" "f' = clampN f 15 240"
    using assms(4) by (auto simp: clamp_mode_def)
  moreover have "clampN w 640 3840 \<le> 960" "clampN h 360 2160 \<le> 540" "clampN f 15 240 \<le> 30"
    using assms by (auto simp: clampN_def)
  ultimately show ?thesis using le_trans [OF even_down_bounds(2)] by blast
qed

section \<open>Properties\<close>

text \<open>C27. What a client is offered after asking for any mode: if it can decode nothing the host encodes,
  there is no configuration; otherwise the configuration keeps an even mode between 640x360 and
  3840x2160 at 15 to 240 frames a second, its rates are ordered and bounded, its codec is one the
  client has and decodes, and the encoder is the hardware one.\<close>
theorem negotiated_config_served:
  "(case choose_config c b (Some (provisional_config c b m)) codecs hints of
      None \<Rightarrow> \<not> (\<exists>k. client_has codecs (mime_type k) \<and> decodes hints k)
    | Some s \<Rightarrow> mode_served s \<and> rates_ordered s
        \<and> client_has codecs (mime_type (sc_codec s)) \<and> decodes hints (sc_codec s)
        \<and> sc_encoder_backend s = ''hardware'')"
proof (cases "choose_config c b (Some (provisional_config c b m)) codecs hints")
  case None
  then show ?thesis using choose_config_none [of c b "Some (provisional_config c b m)" codecs hints] by auto
next
  case (Some s)
  have "mode_served (provisional_config c b m)" using provisional_served by blast
  from choose_config_served [OF Some this] choose_config_codec [OF Some] show ?thesis by (simp add: Some)
qed

end
