(* ===== verification/Slots.thy ===== *)
theory Slots
  imports InPhasePrelude
begin

text \<open>
  The contract of a slot that only one party holds at a time and that the newest claim takes over:
  a claim makes its ticket the only owner, closing with a ticket that does not own the slot changes
  nothing, closing with the owning one frees it. The player slot of the session manager and the
  video slot of the WebTransport server both provide it.
\<close>

locale owned_slot =
  fixes claim_as :: "'s \<Rightarrow> nat \<times> 's"
    and owner :: "nat \<Rightarrow> 's \<Rightarrow> bool"
    and close :: "nat \<Rightarrow> 's \<Rightarrow> 's"
    and good :: "'s \<Rightarrow> bool"
    and issued :: "'s \<Rightarrow> nat"
  assumes claim_owner: "good s \<Longrightarrow> claim_as s = (t, s') \<Longrightarrow> owner t s' \<and> good s' \<and> issued s' = t \<and> issued s < t"
    and owner_issued: "good s \<Longrightarrow> owner t s \<Longrightarrow> t = issued s"
    and close_other: "good s \<Longrightarrow> \<not> owner t s \<Longrightarrow> close t s = s"
    and close_owner: "good s \<Longrightarrow> owner t s \<Longrightarrow> \<not> owner t (close t s) \<and> good (close t s) \<and> issued (close t s) = issued s"
begin

lemma owner_unique: "good s \<Longrightarrow> owner t s \<Longrightarrow> owner u s \<Longrightarrow> t = u"
  using owner_issued by blast

lemma displaced_close:
  assumes "good s" "t \<le> issued s" "claim_as s = (u, s')"
  shows "close t s' = s' \<and> owner u s'"
  using assms claim_owner [OF assms(1,3)] owner_issued [of s' t] close_other [of s' t] by fastforce

fun close_all :: "nat list \<Rightarrow> 's \<Rightarrow> 's" where
  "close_all [] s = s"
| "close_all (t # ts) s = close_all ts (close t s)"

lemma late_closes:
  assumes "good s" "\<forall>t \<in> set ts. t \<le> issued s" "claim_as s = (u, s')"
  shows "close_all ts s' = s'"
  using assms(2)
proof (induction ts)
  case (Cons t ts)
  then show ?case using displaced_close [OF assms(1) _ assms(3), of t] by simp
qed simp

end

end
