(* ===== verification/SessionMgr.thy ===== *)
theory SessionMgr
  imports InputHost Negotiation Slots
begin

text \<open>
  The one-player session (\<open>crates/host/src/session/mod.rs\<close>) and the part of the media session
  its life cycle touches (\<open>crates/host/src/media/mod.rs\<close>). One lock guards the slot, so every
  method is one step; \<open>claim\<close> and \<open>end_link\<close> take the lock more than once and are split where
  they release it. What leaves the slot is recorded in \<open>ended\<close>. Building and starting the
  capture pipeline is GStreamer's; its outcome is a parameter.
\<close>

section \<open>The media session\<close>

datatype MediaSignal =
    MOffer string
  | MAnswer string
  | MIce IceCandidate
  | MReady
  | MFailed SignalError

fun to_signal :: "MediaSignal \<Rightarrow> 't SignalMessage option" where
  "to_signal (MOffer s) = Some (Offer s)"
| "to_signal (MAnswer s) = Some (Answer s)"
| "to_signal (MIce c) = Some (Ice c)"
| "to_signal MReady = Some SessionReady"
| "to_signal (MFailed e) = Some (ErrorMsg e)"

text \<open>The sinks are channels; only whether one is wired matters. \<open>pipe\<close>: built, and whether started.\<close>

record MediaSession =
  signal_tx :: bool
  ready_pending :: bool
  input_tx :: bool
  control_tx :: bool
  wt_offered :: "nat option"
  pipe :: "bool option"

definition media_new :: MediaSession where
  "media_new = \<lparr>signal_tx = False, ready_pending = False, input_tx = False, control_tx = False,
                wt_offered = None, pipe = None\<rparr>"

definition set_signal_sink :: "MediaSession \<Rightarrow> MediaSignal list \<times> MediaSession" where
  "set_signal_sink m =
     (if ready_pending m then [MReady] else [], m\<lparr>ready_pending := False, signal_tx := True\<rparr>)"

definition signal_ready :: "MediaSession \<Rightarrow> MediaSignal list \<times> MediaSession" where
  "signal_ready m = (if signal_tx m then ([MReady], m) else ([], m\<lparr>ready_pending := True\<rparr>))"

definition set_input_sink :: "MediaSession \<Rightarrow> MediaSession" where
  "set_input_sink m = m\<lparr>input_tx := True\<rparr>"

definition set_control_sink :: "MediaSession \<Rightarrow> MediaSession" where
  "set_control_sink m = m\<lparr>control_tx := True\<rparr>"

definition set_wt_transport :: "nat option \<Rightarrow> MediaSession \<Rightarrow> MediaSession" where
  "set_wt_transport wt m = m\<lparr>wt_offered := wt\<rparr>"

definition configure :: "string + unit \<Rightarrow> MediaSession \<Rightarrow> (string + unit) \<times> MediaSession" where
  "configure built m =
     (if \<not> signal_tx m then (Inl ''set_signal_sink() must be called before configure()'', m)
      else case built of Inl e \<Rightarrow> (Inl e, m) | Inr _ \<Rightarrow> (Inr (), m\<lparr>pipe := Some False\<rparr>))"

definition media_start :: "string + unit \<Rightarrow> MediaSession \<Rightarrow> (string + unit) \<times> MediaSession" where
  "media_start started m =
     (case pipe m of None \<Rightarrow> (Inl ''configure() not called'', m)
      | Some _ \<Rightarrow> (case started of Inl e \<Rightarrow> (Inl e, m) | Inr _ \<Rightarrow> (Inr (), m\<lparr>pipe := Some True\<rparr>)))"

definition media_stop :: "MediaSession \<Rightarrow> MediaSession" where
  "media_stop m = m\<lparr>pipe := None\<rparr>"

section \<open>The slot\<close>

datatype SessionState = Idle | Paired | Negotiating | Playing | Reconnecting | Stopping

fun label :: "SessionState \<Rightarrow> string" where
  "label Idle = ''Available''"
| "label Paired = ''Connecting''"
| "label Negotiating = ''Connecting''"
| "label Playing = ''Playing''"
| "label Reconnecting = ''Recovering''"
| "label Stopping = ''Available''"

definition can_transition_to :: "SessionState \<Rightarrow> SessionState \<Rightarrow> bool" where
  "can_transition_to a b \<longleftrightarrow>
     (a, b) \<in> {(Idle, Paired), (Paired, Negotiating), (Paired, Stopping), (Negotiating, Playing),
               (Negotiating, Stopping), (Playing, Reconnecting), (Playing, Stopping),
               (Reconnecting, Playing), (Reconnecting, Stopping), (Stopping, Idle)}"

datatype StartRejected = SlotBusy

record PeerInfo =
  browser :: string
  client_ip :: string
  connected_since_unix :: nat

record PlayerSession =
  peer :: PeerInfo
  media :: MediaSession
  input :: InputSession
  config :: "SessionConfig option"
  controller_id :: "string option"
  input_armed :: bool
  media_ready :: bool
  preview :: bool

text \<open>How a player left: shut down by \<open>STOPPING\<close>, or overwritten (Rust drops the value).\<close>

datatype Ending = ShutDown PlayerSession | Overwritten PlayerSession

record SessionManager =
  m_cfg :: Config
  ticket :: nat
  sstate :: SessionState
  player :: "PlayerSession option"
  audio_dev :: "string option"
  wt_slot :: "nat option"
  byes :: nat
  notified :: nat
  ended :: "Ending list"

definition manager_new :: "Config \<Rightarrow> SessionManager" where
  "manager_new c =
     \<lparr>m_cfg = c, ticket = 0, sstate = Idle, player = None,
      audio_dev = audio_capture_device (c_media c), wt_slot = None, byes = 0, notified = 0, ended = []\<rparr>"

definition set_wt_slot :: "nat option \<Rightarrow> SessionManager \<Rightarrow> SessionManager" where
  "set_wt_slot w s = s\<lparr>wt_slot := w\<rparr>"

definition audio_device :: "SessionManager \<Rightarrow> string option" where
  "audio_device s = (case audio_dev s of None \<Rightarrow> None | Some d \<Rightarrow> non_empty d)"

definition set_audio_device :: "string option \<Rightarrow> SessionManager \<Rightarrow> SessionManager" where
  "set_audio_device d s = s\<lparr>audio_dev := (case d of None \<Rightarrow> None | Some x \<Rightarrow> non_empty x)\<rparr>"

definition has_preview :: "SessionManager \<Rightarrow> bool" where
  "has_preview s = (case player s of None \<Rightarrow> False | Some p \<Rightarrow> preview p)"

definition public_state :: "SessionManager \<Rightarrow> SessionState" where
  "public_state s = (if has_preview s then Idle else sstate s)"

definition is_busy :: "SessionManager \<Rightarrow> bool" where
  "is_busy s \<longleftrightarrow> \<not> has_preview s \<and> sstate s \<noteq> Idle \<and> sstate s \<noteq> Stopping"

definition peer_info :: "SessionManager \<Rightarrow> PeerInfo option" where
  "peer_info s = (case player s of None \<Rightarrow> None | Some p \<Rightarrow> if preview p then None else Some (peer p))"

definition active_config :: "SessionManager \<Rightarrow> SessionConfig option" where
  "active_config s = (case player s of None \<Rightarrow> None | Some p \<Rightarrow> config p)"

definition force_state :: "SessionState \<Rightarrow> SessionManager \<Rightarrow> SessionManager" where
  "force_state next s = (if sstate s \<noteq> next then s\<lparr>sstate := next\<rparr> else s)"

definition shutdown :: "bool \<Rightarrow> PlayerSession \<Rightarrow> PlayerSession" where
  "shutdown driver p = p\<lparr>input := release_all driver (input p), media := media_stop (media p)\<rparr>"

text \<open>The destructors of the input and media sessions.\<close>

definition drop_player :: "bool \<Rightarrow> PlayerSession \<Rightarrow> PlayerSession" where
  "drop_player driver p = p\<lparr>input := drop_session driver (input p), media := media_stop (media p)\<rparr>"

definition with_player :: "(PlayerSession \<Rightarrow> PlayerSession) \<Rightarrow> SessionManager \<Rightarrow> SessionManager" where
  "with_player f s = s\<lparr>player := map_option f (player s)\<rparr>"

definition transition :: "bool \<Rightarrow> SessionState \<Rightarrow> SessionManager \<Rightarrow> bool \<times> SessionManager" where
  "transition driver next s =
     (if \<not> can_transition_to (sstate s) next then (False, s)
      else
        let s1 = (if next = Stopping then with_player (shutdown driver) s else s);
            s2 = force_state next s1;
            s3 = (if next = Stopping
                  then force_state Idle
                         (s2\<lparr>player := None,
                             ended := ended s2 @ (case player s2 of None \<Rightarrow> [] | Some p \<Rightarrow> [ShutDown p])\<rparr>)
                  else s2);
            s4 = (if next = Idle \<and> sstate s3 = Idle then s3\<lparr>notified := notified s3 + 1\<rparr> else s3)
        in (True, s4))"

fun walk_down :: "bool \<Rightarrow> SessionState list \<Rightarrow> SessionManager \<Rightarrow> SessionManager" where
  "walk_down driver [] s = s"
| "walk_down driver (x # xs) s =
     (if sstate s = x then snd (transition driver Stopping s) else walk_down driver xs s)"

definition force_disconnect :: "bool \<Rightarrow> SessionManager \<Rightarrow> SessionManager" where
  "force_disconnect driver s =
     (let s1 = (if player s \<noteq> None then s\<lparr>byes := byes s + 1\<rparr> else s)
      in walk_down driver [Playing, Negotiating, Paired, Reconnecting] s1)"

definition reclaim_needed :: "SessionManager \<Rightarrow> bool" where
  "reclaim_needed s \<longleftrightarrow> player s \<noteq> None \<or> sstate s \<noteq> Idle"

definition slot_free :: "SessionManager \<Rightarrow> bool" where
  "slot_free s \<longleftrightarrow> player s = None \<and> sstate s = Idle"

text \<open>Up to the settlement wait. \<open>Inr True\<close>: the claimant now waits for the slot to be free.\<close>

definition claim_begin :: "bool \<Rightarrow> bool \<Rightarrow> SessionManager \<Rightarrow> (StartRejected + bool) \<times> SessionManager" where
  "claim_begin driver prev s =
     (if prev \<and> reclaim_needed s then (Inl SlotBusy, s)
      else if reclaim_needed s then (Inr True, force_disconnect driver s)
      else (Inr False, s))"

definition claim_install ::
  "bool \<Rightarrow> nat \<Rightarrow> PeerInfo \<Rightarrow> bool \<Rightarrow> SessionManager \<Rightarrow> nat \<times> SessionManager" where
  "claim_install driver now who prev s =
     (let p = \<lparr>peer = who, media = set_wt_transport (wt_slot s) media_new,
               input = new_session (c_input (m_cfg s)) now, config = None, controller_id = None,
               input_armed = False, media_ready = False, preview = prev\<rparr>;
          s1 = s\<lparr>player := Some p,
                 ended := ended s @ (case player s of None \<Rightarrow> []
                                     | Some old \<Rightarrow> [Overwritten (drop_player driver old)])\<rparr>;
          s2 = force_state Paired s1;
          s3 = s2\<lparr>ticket := ticket s2 + 1\<rparr>
      in (ticket s3, s3))"

text \<open>A claim that nothing else interleaves with: if the slot does not settle, the deadline passes.\<close>

definition claim ::
  "bool \<Rightarrow> nat \<Rightarrow> PeerInfo \<Rightarrow> bool \<Rightarrow> SessionManager \<Rightarrow> (StartRejected + nat) \<times> SessionManager" where
  "claim driver now who prev s =
     (case claim_begin driver prev s of
        (Inl e, s1) \<Rightarrow> (Inl e, s1)
      | (Inr wait, s1) \<Rightarrow>
          if wait \<and> \<not> slot_free s1 then (Inl SlotBusy, s1)
          else (let (t, s2) = claim_install driver now who prev s1 in (Inr t, s2)))"

definition end_link_check :: "nat \<Rightarrow> SessionManager \<Rightarrow> bool" where
  "end_link_check t s \<longleftrightarrow> ticket s = t"

definition end_link :: "bool \<Rightarrow> nat \<Rightarrow> SessionManager \<Rightarrow> SessionManager" where
  "end_link driver t s =
     (if end_link_check t s then snd (transition driver Stopping s) else s)"

definition owns :: "nat \<Rightarrow> SessionManager \<Rightarrow> bool" where
  "owns t s \<longleftrightarrow> ticket s = t \<and> player s \<noteq> None"

definition set_controller :: "string \<Rightarrow> SessionManager \<Rightarrow> SessionManager" where
  "set_controller i s = with_player (\<lambda>p. p\<lparr>controller_id := Some i\<rparr>) s"

definition is_input_armed :: "SessionManager \<Rightarrow> bool" where
  "is_input_armed s = (case player s of None \<Rightarrow> False | Some p \<Rightarrow> input_armed p)"

definition mark_ready :: "SessionManager \<Rightarrow> bool \<times> SessionManager" where
  "mark_ready s =
     (case player s of None \<Rightarrow> (False, s)
      | Some p \<Rightarrow>
          if media_ready p then (False, s)
          else
            let p1 = p\<lparr>media_ready := True\<rparr>;
                p2 = (if preview p1 then p1 else p1\<lparr>input_armed := True\<rparr>)
            in (True, s\<lparr>player := Some p2\<rparr>))"

section \<open>The signaling link's pumps\<close>

text \<open>
  \<open>drive\<close> in \<open>http/signal.rs\<close>: a media event moves the state machine and arms input; a packet is
  applied only while input is armed; the host's timer ticks the watchdog.
\<close>

definition pump_media :: "bool \<Rightarrow> MediaSignal \<Rightarrow> SessionManager \<Rightarrow> 't SignalMessage list \<times> SessionManager" where
  "pump_media driver m s =
     (let s1 = (case m of
            MReady \<Rightarrow> (if sstate s \<in> {Paired, Negotiating, Reconnecting}
                      then snd (transition driver Playing s) else s)
          | MFailed _ \<Rightarrow> snd (transition driver Stopping s)
          | _ \<Rightarrow> s)
      in if m = MReady
         then (let (first, s2) = mark_ready s1 in (if first then [SessionReady] else [], s2))
         else ((case to_signal m of None \<Rightarrow> [] | Some x \<Rightarrow> [x]), s1))"

definition pump_input :: "bool \<Rightarrow> nat \<Rightarrow> bytes \<Rightarrow> SessionManager \<Rightarrow> SessionManager" where
  "pump_input driver now bs s =
     with_player (\<lambda>p. if \<not> input_armed p then p
                      else p\<lparr>input := snd (handle_packet driver now bs (input p))\<rparr>) s"

definition pump_watchdog :: "bool \<Rightarrow> nat \<Rightarrow> SessionManager \<Rightarrow> SessionManager" where
  "pump_watchdog driver now s = with_player (\<lambda>p. p\<lparr>input := tick_watchdog driver now (input p)\<rparr>) s"

text \<open>
  \<open>handle_message\<close>: what a link that still owns the session does with one message. \<open>capture\<close>
  is the capture check's answer where no monitor is configured, \<open>built\<close> and \<open>started\<close> the
  pipeline's (a panic while building is an \<open>Inl\<close> too). The first result is whether the link goes
  on, the second what it sends, the third what the media session emits.
\<close>

definition start_media ::
  "string + unit \<Rightarrow> string + unit \<Rightarrow> SessionConfig \<Rightarrow> PlayerSession
   \<Rightarrow> (string + unit) \<times> MediaSignal list \<times> PlayerSession" where
  "start_media built started sc p =
     (let (sig, m1) = set_signal_sink (media p);
          (r1, m2) = configure built m1
      in case r1 of
           Inl e \<Rightarrow> (Inl e, sig, p\<lparr>config := Some sc, media := m2\<rparr>)
         | Inr _ \<Rightarrow> (let (r2, m3) = media_start started m2 in (r2, sig, p\<lparr>config := Some sc, media := m3\<rparr>)))"

definition handle_capabilities ::
  "bool \<Rightarrow> string \<Rightarrow> string + unit \<Rightarrow> string + unit \<Rightarrow> string + unit
   \<Rightarrow> RtpCodecCapability list \<Rightarrow> DecodeHint list \<Rightarrow> SessionManager
   \<Rightarrow> bool \<times> 't SignalMessage list \<times> MediaSignal list \<times> SessionManager" where
  "handle_capabilities driver backend capture built started codecs hints s =
     (case choose_config (m_cfg s) backend (active_config s) codecs hints of
        None \<Rightarrow> (False, [error_msg NoCommonCodec ''host and browser share no usable video codec''], [], s)
      | Some sc \<Rightarrow>
          (case (if monitor_index (c_capture (m_cfg s)) = None then capture else Inr ()) of
             Inl why \<Rightarrow> (False, [error_msg CaptureUnavailable why], [], snd (transition driver Stopping s))
           | Inr _ \<Rightarrow>
               (case player s of
                  None \<Rightarrow> (False, [], [], s)
                | Some p \<Rightarrow>
                    (case start_media built started sc p of
                       (Inr _, sig, p') \<Rightarrow>
                         (True, [SessionConfigMsg sc], sig,
                          snd (transition driver Negotiating (s\<lparr>player := Some p'\<rparr>)))
                     | (Inl e, sig, p') \<Rightarrow>
                         (False, [error_msg (classify_media_error e) e], sig,
                          snd (transition driver Stopping (s\<lparr>player := Some p'\<rparr>)))))))"

definition handle_message ::
  "bool \<Rightarrow> string \<Rightarrow> string + unit \<Rightarrow> string + unit \<Rightarrow> string + unit \<Rightarrow> 't SignalMessage \<Rightarrow> SessionManager
   \<Rightarrow> bool \<times> 't SignalMessage list \<times> MediaSignal list \<times> SessionManager" where
  "handle_message driver backend capture built started msg s =
     (case msg of
        ClientHello v _ m \<Rightarrow>
          if v \<noteq> SIGNALING_PROTOCOL_VERSION
          then (False, [error_msg ProtocolVersion
                         (''host speaks signaling v'' @ show_nat SIGNALING_PROTOCOL_VERSION
                          @ '', client sent v'' @ show_nat v @ '' - reload the page'')], [], s)
          else (True, [], [], with_player (\<lambda>p. p\<lparr>config := Some (provisional_config (m_cfg s) backend m)\<rparr>) s)
      | ClientCapabilities codecs _ hints _ \<Rightarrow>
          handle_capabilities driver backend capture built started codecs hints s
      | Ping t \<Rightarrow> (True, [Pong t], [], s)
      | Bye \<Rightarrow> (False, [], [], s)
      | _ \<Rightarrow> (True, [], [], s))"

text \<open>
  The inbound loop of one link: a preview's hello is cut down first; a link that no longer owns
  the session is closed without acting; a message that ends the link is followed by \<open>end_link\<close>.
  \<open>advert\<close> is \<open>wt_advertisement\<close>: the dial offer, where a WT transport is bound.
\<close>

definition restrict_preview :: "bool \<Rightarrow> 't SignalMessage \<Rightarrow> 't SignalMessage" where
  "restrict_preview prev msg =
     (case msg of ClientHello v b m \<Rightarrow> ClientHello v b (if prev then preview_mode m else m) | m \<Rightarrow> m)"

definition link_message ::
  "bool \<Rightarrow> string \<Rightarrow> string + unit \<Rightarrow> string + unit \<Rightarrow> string + unit \<Rightarrow> 't SignalMessage option \<Rightarrow> bool
   \<Rightarrow> nat \<Rightarrow> 't SignalMessage \<Rightarrow> SessionManager \<Rightarrow> bool \<times> 't SignalMessage list \<times> SessionManager" where
  "link_message driver backend capture built started advert prev t msg s =
     (if msg = WtVideoInfoRequest
      then (True, if owns t s then (case advert of Some i \<Rightarrow> [i] | None \<Rightarrow> []) else [], s)
      else if \<not> owns t s then (False, [], end_link driver t s)
      else
        let (go, out, _, s') = handle_message driver backend capture built started (restrict_preview prev msg) s
        in (go, out, if go then s' else end_link driver t s'))"

section \<open>Slot invariants\<close>

definition slot_inv :: "bool \<Rightarrow> SessionManager \<Rightarrow> bool" where
  "slot_inv driver s \<longleftrightarrow>
     (player s = None \<longleftrightarrow> sstate s = Idle) \<and> sstate s \<noteq> Stopping
     \<and> (\<forall>p. player s = Some p \<longrightarrow>
          reach driver (c_input (m_cfg s)) (input p)
          \<and> (input_armed p \<longrightarrow> media_ready p \<and> \<not> preview p)
          \<and> (\<not> input_armed p \<longrightarrow> released (input p) \<and> sent (input p) = []))"

definition ending_clean :: "Ending \<Rightarrow> bool" where
  "ending_clean e =
     (case e of ShutDown p \<Rightarrow> quiet (input p) \<and> released (input p) \<and> pipe (media p) = None
      | Overwritten p \<Rightarrow> quiet (input p) \<and> released (input p) \<and> pipe (media p) = None)"

lemma with_player_fields [simp]:
  "sstate (with_player f s) = sstate s" "ticket (with_player f s) = ticket s"
  "m_cfg (with_player f s) = m_cfg s" "ended (with_player f s) = ended s"
  "player (with_player f s) = map_option f (player s)"
  by (simp_all add: with_player_def)

lemma force_state_fields [simp]:
  "sstate (force_state x s) = x" "player (force_state x s) = player s"
  "ticket (force_state x s) = ticket s" "m_cfg (force_state x s) = m_cfg s"
  "ended (force_state x s) = ended s"
  by (simp_all add: force_state_def)

lemma transition_stopping:
  assumes "sstate s \<in> {Paired, Negotiating, Playing, Reconnecting}"
  shows "fst (transition driver Stopping s)
    \<and> player (snd (transition driver Stopping s)) = None
    \<and> sstate (snd (transition driver Stopping s)) = Idle
    \<and> ticket (snd (transition driver Stopping s)) = ticket s
    \<and> m_cfg (snd (transition driver Stopping s)) = m_cfg s
    \<and> ended (snd (transition driver Stopping s)) =
        ended s @ (case player s of None \<Rightarrow> [] | Some p \<Rightarrow> [ShutDown (shutdown driver p)])"
  using assms by (auto simp: transition_def can_transition_to_def Let_def split: option.splits)

lemma transition_other:
  assumes "next \<noteq> Stopping" "can_transition_to (sstate s) next"
  shows "fst (transition driver next s)
    \<and> player (snd (transition driver next s)) = player s
    \<and> sstate (snd (transition driver next s)) = next
    \<and> ticket (snd (transition driver next s)) = ticket s
    \<and> m_cfg (snd (transition driver next s)) = m_cfg s
    \<and> ended (snd (transition driver next s)) = ended s"
  using assms by (auto simp: transition_def Let_def)

lemma transition_refused:
  "\<not> can_transition_to (sstate s) next \<Longrightarrow> transition driver next s = (False, s)"
  by (simp add: transition_def)

lemma reach_drop_quiet:
  assumes "reach driver c i"
  shows "quiet (drop_session driver i) \<and> released (drop_session driver i)"
  using assms release_all_quiet [OF reach_in_sync] reach_released_quiet
  by (simp add: drop_session_def)

lemma shutdown_clean:
  "reach driver c (input p) \<Longrightarrow> ending_clean (ShutDown (shutdown driver p))"
  using release_all_quiet [OF reach_in_sync]
  by (simp add: ending_clean_def shutdown_def media_stop_def)

lemma drop_clean:
  "reach driver c (input p) \<Longrightarrow> ending_clean (Overwritten (drop_player driver p))"
  using reach_drop_quiet by (simp add: ending_clean_def drop_player_def media_stop_def)

text \<open>What every method keeps: the invariant, and that whatever left the slot left it clean.\<close>

definition slot_ok :: "bool \<Rightarrow> SessionManager \<Rightarrow> bool" where
  "slot_ok driver s \<longleftrightarrow> slot_inv driver s \<and> (\<forall>e \<in> set (ended s). ending_clean e)"

lemma slot_ok_I:
  assumes "player s = None \<longleftrightarrow> sstate s = Idle" "sstate s \<noteq> Stopping"
    and "\<And>p. player s = Some p \<Longrightarrow> reach driver (c_input (m_cfg s)) (input p)
          \<and> (input_armed p \<longrightarrow> media_ready p \<and> \<not> preview p)
          \<and> (\<not> input_armed p \<longrightarrow> released (input p) \<and> sent (input p) = [])"
    and "\<And>e. e \<in> set (ended s) \<Longrightarrow> ending_clean e"
  shows "slot_ok driver s"
  using assms by (simp add: slot_ok_def slot_inv_def)

lemma slot_okD:
  assumes "slot_ok driver s"
  shows "player s = None \<longleftrightarrow> sstate s = Idle" "sstate s \<noteq> Stopping"
    and "player s = Some p \<Longrightarrow> reach driver (c_input (m_cfg s)) (input p)"
    and "player s = Some p \<Longrightarrow> input_armed p \<Longrightarrow> media_ready p \<and> \<not> preview p"
    and "player s = Some p \<Longrightarrow> \<not> input_armed p \<Longrightarrow> released (input p) \<and> sent (input p) = []"
    and "e \<in> set (ended s) \<Longrightarrow> ending_clean e"
  using assms by (auto simp: slot_ok_def slot_inv_def)

lemma active_states: "sstate s \<noteq> Idle \<Longrightarrow> sstate s \<noteq> Stopping
    \<Longrightarrow> sstate s \<in> {Paired, Negotiating, Playing, Reconnecting}"
  by (cases "sstate s") auto

lemma stop_ok:
  assumes ok: "slot_ok driver s"
  shows "slot_ok driver (snd (transition driver Stopping s))
    \<and> player (snd (transition driver Stopping s)) = None
    \<and> sstate (snd (transition driver Stopping s)) = Idle
    \<and> ticket (snd (transition driver Stopping s)) = ticket s"
proof (cases "sstate s = Idle")
  case True
  with ok show ?thesis
    using transition_refused [of s Stopping driver] slot_okD(1) [OF ok] by (simp add: can_transition_to_def)
next
  case False
  then have act: "sstate s \<in> {Paired, Negotiating, Playing, Reconnecting}"
    using slot_okD(2) [OF ok] active_states by blast
  note tr = transition_stopping [OF act, of driver]
  have "slot_ok driver (snd (transition driver Stopping s))"
    by (rule slot_ok_I)
      (use tr slot_okD(6) [OF ok] shutdown_clean slot_okD(3) [OF ok] in \<open>auto split: option.splits\<close>)
  with tr show ?thesis by simp
qed

lemma transition_ok:
  assumes ok: "slot_ok driver s" and "next \<noteq> Paired" "next \<noteq> Idle"
  shows "slot_ok driver (snd (transition driver next s))"
proof (cases "next = Stopping")
  case False
  show ?thesis
  proof (cases "can_transition_to (sstate s) next")
    case True
    note tr = transition_other [OF False True, of driver]
    have "sstate s \<noteq> Idle" using True assms(2) by (auto simp: can_transition_to_def)
    then have "player s \<noteq> None" using slot_okD(1) [OF ok] by simp
    then show ?thesis
      by (intro slot_ok_I) (use tr assms slot_okD [OF ok] False in auto)
  qed (simp add: transition_refused ok)
qed (use stop_ok [OF ok] in simp)

lemma walk_down_eq:
  "walk_down driver xs s = (if sstate s \<in> set xs then snd (transition driver Stopping s) else s)"
  by (induction xs) auto

lemma slot_ok_byes: "slot_ok driver (s\<lparr>byes := n\<rparr>) = slot_ok driver s"
  by (simp add: slot_ok_def slot_inv_def)

lemma force_disconnect_ok:
  assumes ok: "slot_ok driver s"
  shows "slot_ok driver (force_disconnect driver s) \<and> slot_free (force_disconnect driver s)
    \<and> ticket (force_disconnect driver s) = ticket s"
proof -
  define s1 where "s1 = (if player s \<noteq> None then s\<lparr>byes := byes s + 1\<rparr> else s)"
  have s1: "slot_ok driver s1" "sstate s1 = sstate s" "ticket s1 = ticket s" "player s1 = player s"
    using ok by (auto simp: s1_def slot_ok_byes)
  have fd: "force_disconnect driver s =
      (if sstate s1 \<in> {Playing, Negotiating, Paired, Reconnecting} then snd (transition driver Stopping s1) else s1)"
    unfolding force_disconnect_def Let_def s1_def [symmetric] walk_down_eq by simp
  show ?thesis
  proof (cases "sstate s1 = Idle")
    case True
    then show ?thesis using s1 slot_okD(1) [OF ok] by (simp add: fd slot_free_def)
  next
    case False
    then have "sstate s1 \<in> {Playing, Negotiating, Paired, Reconnecting}"
      using active_states [of s1] slot_okD(2) [OF s1(1)] by blast
    then show ?thesis using stop_ok [OF s1(1)] s1(3) by (simp add: fd slot_free_def)
  qed
qed

lemma new_player_ok: "reach driver c (new_session c now)" "sent (new_session c now) = []"
  "released (new_session c now)"
  by (rule reach_new) (simp_all add: new_session_def)

lemma tick_released: "released i \<Longrightarrow> tick_watchdog driver now i = i"
  by (simp add: tick_watchdog_def)

lemma claim_install_ok:
  assumes ok: "slot_ok driver s"
  shows "slot_ok driver (snd (claim_install driver now who prev s))"
  by (rule slot_ok_I)
    (use slot_okD [OF ok] drop_clean new_player_ok
      in \<open>auto simp: claim_install_def Let_def split: option.splits\<close>)

lemma claim_install_result:
  "claim_install driver now who prev s = (t, s') \<Longrightarrow>
     t = ticket s + 1 \<and> ticket s' = t \<and> sstate s' = Paired
     \<and> (\<exists>p. player s' = Some p \<and> peer p = who \<and> preview p = prev \<and> \<not> input_armed p
            \<and> \<not> media_ready p \<and> state (input p) = input_default \<and> wt_offered (media p) = wt_slot s)"
  by (auto simp: claim_install_def Let_def new_session_def set_wt_transport_def force_state_def)

lemma with_player_ok:
  assumes ok: "slot_ok driver s"
    and f: "\<And>p. player s = Some p \<Longrightarrow> reach driver (c_input (m_cfg s)) (input (f p))
          \<and> (input_armed (f p) \<longrightarrow> media_ready (f p) \<and> \<not> preview (f p))
          \<and> (\<not> input_armed (f p) \<longrightarrow> released (input (f p)) \<and> sent (input (f p)) = [])"
  shows "slot_ok driver (with_player f s)"
  by (rule slot_ok_I) (use slot_okD [OF ok] f in auto)

lemma pump_input_ok: "slot_ok driver s \<Longrightarrow> slot_ok driver (pump_input driver now bs s)"
  unfolding pump_input_def
  by (rule with_player_ok) (auto dest: slot_okD intro: reach_packet)

lemma pump_watchdog_ok: "slot_ok driver s \<Longrightarrow> slot_ok driver (pump_watchdog driver now s)"
  unfolding pump_watchdog_def
  by (rule with_player_ok)
    (auto dest: slot_okD intro: reach_tick simp: tick_released)

lemma set_controller_ok: "slot_ok driver s \<Longrightarrow> slot_ok driver (set_controller i s)"
  unfolding set_controller_def by (rule with_player_ok) (auto dest: slot_okD)

lemma mark_ready_ok: "slot_ok driver s \<Longrightarrow> slot_ok driver (snd (mark_ready s))"
  by (rule slot_ok_I) (auto simp: mark_ready_def Let_def dest: slot_okD split: option.splits if_splits)

lemma end_link_ok: "slot_ok driver s \<Longrightarrow> slot_ok driver (end_link driver t s)"
  by (simp add: end_link_def stop_ok)

lemma pump_media_ok: "slot_ok driver s \<Longrightarrow> slot_ok driver (snd (pump_media driver m s))"
  by (auto simp: pump_media_def Let_def split_beta split: MediaSignal.splits
      intro!: mark_ready_ok transition_ok)

lemma start_media_keeps:
  "start_media built started sc p = (r, sig, p') \<Longrightarrow>
     input p' = input p \<and> input_armed p' = input_armed p \<and> media_ready p' = media_ready p
     \<and> preview p' = preview p \<and> config p' = Some sc"
  by (auto simp: start_media_def Let_def split_beta split: sum.splits)

lemma replace_player_ok:
  assumes "slot_ok driver s" "player s = Some p"
    and "input p' = input p" "input_armed p' = input_armed p" "media_ready p' = media_ready p"
      "preview p' = preview p"
  shows "slot_ok driver (s\<lparr>player := Some p'\<rparr>)"
  by (rule slot_ok_I) (use assms slot_okD [OF assms(1)] in auto)

lemma handle_capabilities_ok:
  assumes "slot_ok driver s"
  shows "slot_ok driver (snd (snd (snd (handle_capabilities driver b capture built started codecs hints s))))"
  using assms
  by (auto simp: handle_capabilities_def stop_ok split: option.splits sum.splits prod.splits
      intro!: transition_ok dest!: start_media_keeps intro: replace_player_ok)

lemma handle_message_ok:
  assumes "slot_ok driver s"
  shows "slot_ok driver (snd (snd (snd (handle_message driver b capture built started msg s))))"
  using assms
  by (cases msg) (auto simp: handle_message_def handle_capabilities_ok intro!: with_player_ok dest: slot_okD)

section \<open>Interleavings\<close>

text \<open>
  The methods from any number of links and timers in any order, with \<open>claim\<close> and \<open>end_link\<close>
  interrupted where they release the lock: \<open>claims\<close> are the claimants between their check and
  their install (and whether they wait for the slot), \<open>ends\<close> the tickets whose closing links have
  passed the ownership check.
\<close>

record World =
  mgr :: SessionManager
  claims :: "(bool \<times> bool) list"
  ends :: "nat list"

inductive step :: "bool \<Rightarrow> World \<Rightarrow> World \<Rightarrow> bool" for driver :: bool where
  step_begin: "claim_begin driver prev (mgr w) = (Inr wait, s') \<Longrightarrow>
     step driver w (w\<lparr>mgr := s', claims := claims w @ [(prev, wait)]\<rparr>)"
| step_install: "(prev, wait) \<in> set (claims w) \<Longrightarrow> wait \<longrightarrow> slot_free (mgr w) \<Longrightarrow>
     step driver w (w\<lparr>mgr := snd (claim_install driver now who prev (mgr w)),
                      claims := remove1 (prev, wait) (claims w)\<rparr>)"
| step_end_check: "end_link_check t (mgr w) \<Longrightarrow> step driver w (w\<lparr>ends := ends w @ [t]\<rparr>)"
| step_end_stop: "t \<in> set (ends w) \<Longrightarrow>
     step driver w (w\<lparr>mgr := snd (transition driver Stopping (mgr w)), ends := remove1 t (ends w)\<rparr>)"
| step_media: "step driver w
     (w\<lparr>mgr := snd (pump_media driver m (mgr w) :: unit SignalMessage list \<times> SessionManager)\<rparr>)"
| step_input: "step driver w (w\<lparr>mgr := pump_input driver now bs (mgr w)\<rparr>)"
| step_watchdog: "step driver w (w\<lparr>mgr := pump_watchdog driver now (mgr w)\<rparr>)"
| step_message: "step driver w
     (w\<lparr>mgr := snd (snd (snd (handle_message driver b capture built started (msg :: unit SignalMessage) (mgr w))))\<rparr>)"
| step_controller: "step driver w (w\<lparr>mgr := set_controller i (mgr w)\<rparr>)"
| step_force: "step driver w (w\<lparr>mgr := force_disconnect driver (mgr w)\<rparr>)"
| step_stop: "step driver w (w\<lparr>mgr := snd (transition driver Stopping (mgr w))\<rparr>)"

inductive runs :: "bool \<Rightarrow> Config \<Rightarrow> World \<Rightarrow> bool" for driver :: bool and c :: Config where
  runs_start: "runs driver c \<lparr>mgr = manager_new c, claims = [], ends = []\<rparr>"
| runs_step: "runs driver c w \<Longrightarrow> step driver w w' \<Longrightarrow> runs driver c w'"

inductive_cases step_elim: "step driver w w'"

lemma manager_new_ok: "slot_ok driver (manager_new c)"
  by (rule slot_ok_I) (simp_all add: manager_new_def)

lemma claim_begin_ok:
  assumes "slot_ok driver s"
  shows "slot_ok driver (snd (claim_begin driver prev s))"
  using assms force_disconnect_ok by (auto simp: claim_begin_def)

lemma step_ok:
  assumes "step driver w w'" "slot_ok driver (mgr w)"
  shows "slot_ok driver (mgr w')"
  using assms
proof (induction rule: step.induct)
  case (step_begin prev w wait s')
  then show ?case using claim_begin_ok [of driver "mgr w" prev] by simp
qed (simp_all add: claim_install_ok stop_ok pump_media_ok pump_input_ok pump_watchdog_ok
      handle_message_ok set_controller_ok force_disconnect_ok)

lemma runs_ok: "runs driver c w \<Longrightarrow> slot_ok driver (mgr w)"
  by (induction rule: runs.induct) (auto intro: manager_new_ok step_ok)

section \<open>Owning the slot\<close>

definition claim_player :: "bool \<Rightarrow> nat \<Rightarrow> PeerInfo \<Rightarrow> SessionManager \<Rightarrow> nat \<times> SessionManager" where
  "claim_player driver now who s =
     (case claim driver now who False s of (Inr t, s') \<Rightarrow> (t, s') | (Inl _, s') \<Rightarrow> (0, s'))"

lemma claim_player_eq:
  assumes ok: "slot_ok driver s"
  shows "\<exists>s1. slot_ok driver s1 \<and> slot_free s1 \<and> ticket s1 = ticket s
    \<and> claim driver now who False s =
        (Inr (ticket s + 1), snd (claim_install driver now who False s1))
    \<and> s1 = (if reclaim_needed s then force_disconnect driver s else s)"
proof (cases "reclaim_needed s")
  case True
  then show ?thesis
    using force_disconnect_ok [OF ok]
    by (auto simp: claim_def claim_begin_def Let_def split_beta claim_install_def)
next
  case False
  then show ?thesis
    using ok by (auto simp: claim_def claim_begin_def Let_def split_beta claim_install_def
        reclaim_needed_def slot_free_def)
qed

lemma claim_player_owner:
  assumes ok: "slot_ok driver s" and c: "claim_player driver now who s = (t, s')"
  shows "owns t s' \<and> slot_ok driver s' \<and> ticket s' = t \<and> ticket s < t"
proof -
  obtain s1 where s1: "slot_ok driver s1" "ticket s1 = ticket s"
    and cl: "claim driver now who False s = (Inr (ticket s + 1), snd (claim_install driver now who False s1))"
    using claim_player_eq [OF ok] by metis
  obtain u s2 where ci: "claim_install driver now who False s1 = (u, s2)" by fastforce
  have "s' = s2" "t = ticket s + 1" using c cl ci by (auto simp: claim_player_def)
  then show ?thesis
    using claim_install_result [OF ci] claim_install_ok [OF s1(1), of now who False] ci s1(2)
    by (auto simp: owns_def)
qed

interpretation player_slot: owned_slot "claim_player driver now who" owns "end_link driver" "slot_ok driver" ticket
  for driver now who
proof unfold_locales
  fix s t s'
  assume "slot_ok driver s" "claim_player driver now who s = (t, s')"
  then show "owns t s' \<and> slot_ok driver s' \<and> ticket s' = t \<and> ticket s < t"
    by (rule claim_player_owner)
next
  fix s t
  assume ok: "slot_ok driver s"
  show "owns t s \<Longrightarrow> t = ticket s" by (simp add: owns_def)
  show "end_link driver t s = s" if "\<not> owns t s"
  proof (cases "ticket s = t")
    case True
    then have "sstate s = Idle" using that slot_okD(1) [OF ok] by (simp add: owns_def)
    then show ?thesis
      using transition_refused [of s Stopping driver] by (simp add: end_link_def can_transition_to_def)
  qed (simp add: end_link_def end_link_check_def)
  show "\<not> owns t (end_link driver t s) \<and> slot_ok driver (end_link driver t s)
      \<and> ticket (end_link driver t s) = ticket s" if "owns t s"
    using that stop_ok [OF ok] by (simp add: end_link_def end_link_check_def owns_def)
qed

section \<open>Properties\<close>

definition demo_peer :: PeerInfo where
  "demo_peer = \<lparr>browser = ''b'', client_ip = ''ip'', connected_since_unix = 0\<rparr>"

definition one_player :: SessionManager where
  "one_player = snd (claim True 0 demo_peer False (manager_new default_config))"

lemma one_player_ok: "slot_ok True one_player" "ticket one_player = 1" "owns 1 one_player"
proof -
  have "claim_player True 0 demo_peer (manager_new default_config) = (1, one_player)"
    by (simp add: claim_player_def one_player_def claim_def claim_begin_def manager_new_def
        reclaim_needed_def Let_def claim_install_def force_state_def)
  from claim_player_owner [OF manager_new_ok this]
  show "slot_ok True one_player" "ticket one_player = 1" "owns 1 one_player" by simp_all
qed

text \<open>C3. Under every interleaving of links, timers, claims and closes the slot holds a player exactly
  when the state is not Idle, Stopping is never observable, input is armed only for a real player
  whose media path is up, a preview has injected nothing, and every player that ever left the slot
  had all its input released and its capture pipeline torn down.\<close>

theorem session_slot_safe:
  assumes "runs driver c w"
  shows "(player (mgr w) = None \<longleftrightarrow> sstate (mgr w) = Idle) \<and> sstate (mgr w) \<noteq> Stopping
    \<and> (\<forall>p. player (mgr w) = Some p \<longrightarrow>
          (input_armed p \<longrightarrow> media_ready p \<and> \<not> preview p) \<and> (preview p \<longrightarrow> sent (input p) = []))
    \<and> (\<forall>e \<in> set (ended (mgr w)). ending_clean e)"
  using slot_okD [OF runs_ok [OF assms]] by blast

lemma session_slot_safe_witness:
  "ended (force_disconnect True one_player) \<noteq> [] \<and>
   list_all ending_clean (ended (force_disconnect True one_player))"
proof -
  let ?w0 = "\<lparr>mgr = manager_new default_config, claims = [], ends = []\<rparr>"
  let ?w1 = "?w0\<lparr>mgr := manager_new default_config, claims := [(False, False)]\<rparr>"
  let ?i = "snd (claim_install True 0 demo_peer False (manager_new default_config))"
  have eq: "one_player = ?i"
    by (simp add: one_player_def claim_def claim_begin_def manager_new_def reclaim_needed_def Let_def
        split_beta)
  have "runs True default_config ?w0" by (rule runs_start)
  moreover have "step True ?w0 ?w1"
    using step_begin [of True False ?w0 False "manager_new default_config"]
    by (simp add: claim_begin_def manager_new_def reclaim_needed_def)
  ultimately have "runs True default_config ?w1" by (rule runs_step)
  moreover have "step True ?w1 (?w1\<lparr>mgr := one_player, claims := []\<rparr>)"
    using step_install [of False False ?w1 True 0 demo_peer] by (simp add: eq)
  ultimately have "runs True default_config (?w1\<lparr>mgr := one_player, claims := []\<rparr>)" by (rule runs_step)
  from runs_step [OF this step_force]
  have r: "runs True default_config
     (?w1\<lparr>mgr := force_disconnect True one_player, claims := []\<rparr>)" by simp
  have "sstate one_player = Paired" "player one_player \<noteq> None" "ended one_player = []"
    by (simp_all add: eq claim_install_def Let_def manager_new_def force_state_def)
  then have "ended (force_disconnect True one_player) \<noteq> []"
    using transition_stopping [of "one_player\<lparr>byes := byes one_player + 1\<rparr>" True]
    by (auto simp: force_disconnect_def Let_def)
  with session_slot_safe [OF r] show ?thesis by (simp add: list_all_iff)
qed

text \<open>The newest player wins, a preview only ever takes a free slot: without interference a real
  claim always succeeds with a fresh ticket and the displaced player, if any, is shut down first;
  a preview's claim succeeds on a free slot and otherwise leaves everything as it was.\<close>

theorem session_newest_wins:
  assumes ok: "slot_ok driver s"
  shows "(\<exists>s'. claim driver now who False s = (Inr (ticket s + 1), s') \<and> owns (ticket s + 1) s'
            \<and> ended s' = ended s @ (case player s of None \<Rightarrow> [] | Some p \<Rightarrow> [ShutDown (shutdown driver p)]))
    \<and> (if slot_free s then \<exists>s'. claim driver now who True s = (Inr (ticket s + 1), s')
       else claim driver now who True s = (Inl SlotBusy, s))"
proof
  obtain s1 where s1: "slot_ok driver s1" "slot_free s1" "ticket s1 = ticket s"
    and cl: "claim driver now who False s = (Inr (ticket s + 1), snd (claim_install driver now who False s1))"
    and eq: "s1 = (if reclaim_needed s then force_disconnect driver s else s)"
    using claim_player_eq [OF ok] by metis
  have "ended s1 = ended s @ (case player s of None \<Rightarrow> [] | Some p \<Rightarrow> [ShutDown (shutdown driver p)])"
  proof (cases "sstate s = Idle")
    case True
    then show ?thesis using eq slot_okD(1) [OF ok] by (simp add: reclaim_needed_def)
  next
    case False
    then have act: "sstate s \<in> {Paired, Negotiating, Playing, Reconnecting}"
      using slot_okD(2) [OF ok] active_states by blast
    then show ?thesis
      using eq False slot_okD(1) [OF ok]
        transition_stopping [of "s\<lparr>byes := byes s + 1\<rparr>" driver]
      by (auto simp: reclaim_needed_def force_disconnect_def walk_down_eq Let_def split: option.splits)
  qed
  moreover obtain u s2 where ci: "claim_install driver now who False s1 = (u, s2)" by fastforce
  moreover have "ended s2 = ended s1" using ci s1(2)
    by (auto simp: claim_install_def Let_def slot_free_def force_state_def)
  ultimately show "\<exists>s'. claim driver now who False s = (Inr (ticket s + 1), s') \<and> owns (ticket s + 1) s'
            \<and> ended s' = ended s @ (case player s of None \<Rightarrow> [] | Some p \<Rightarrow> [ShutDown (shutdown driver p)])"
    using cl claim_install_result [OF ci] s1(3) by (auto simp: owns_def)
next
  show "if slot_free s then \<exists>s'. claim driver now who True s = (Inr (ticket s + 1), s')
       else claim driver now who True s = (Inl SlotBusy, s)"
    by (auto simp: claim_def claim_begin_def reclaim_needed_def slot_free_def Let_def split_beta
        claim_install_def force_state_def)
qed

lemma session_newest_wins_witness:
  "(\<exists>s'. claim True 9 demo_peer False one_player = (Inr 2, s') \<and> length (ended s') = 1)
   \<and> claim True 9 demo_peer True one_player = (Inl SlotBusy, one_player)"
proof -
  have e: "ended one_player = []" "player one_player \<noteq> None"
    by (simp_all add: one_player_def claim_def claim_begin_def manager_new_def reclaim_needed_def Let_def
        split_beta claim_install_def force_state_def)
  then have "\<not> slot_free one_player" by (simp add: slot_free_def)
  then show ?thesis
    using session_newest_wins [OF one_player_ok(1), of 9 demo_peer] one_player_ok(2) e
    by (auto split: option.splits)
qed

text \<open>The late close of a displaced link leaves its successor's session untouched.\<close>

theorem session_late_close_harmless:
  assumes "slot_ok driver s" "t \<le> ticket s" "claim driver now who False s = (Inr u, s')"
  shows "end_link driver t s' = s' \<and> owns u s'"
  using player_slot.displaced_close [OF assms(1,2), of now who u s'] assms(3)
  by (simp add: claim_player_def)

lemma session_late_close_harmless_witness:
  "\<exists>s'. claim True 9 demo_peer False one_player = (Inr 2, s') \<and> end_link True 1 s' = s' \<and> owns 2 s'"
proof -
  obtain s' where c: "claim True 9 demo_peer False one_player = (Inr (ticket one_player + 1), s')"
    using claim_player_eq [OF one_player_ok(1)] by metis
  have "1 \<le> ticket one_player" by (simp add: one_player_ok)
  from session_late_close_harmless [OF one_player_ok(1) this c] c show ?thesis
    by (auto simp: one_player_ok numeral_2_eq_2)
qed

text \<open>The ownership check of \<open>end_link\<close> and its teardown are two separate critical sections: from
  any point where the closing link still owned the session, a successor can claim in between, and
  the late teardown then ends the successor's session.\<close>

theorem session_end_link_race:
  assumes "slot_ok driver s" "owns t s"
  shows "\<exists>s'. end_link_check t s \<and> claim driver now who False s = (Inr (t + 1), s')
     \<and> \<not> owns t s' \<and> owns (t + 1) s' \<and> player (snd (transition driver Stopping s')) = None"
proof -
  have t: "ticket s = t" using assms(2) by (simp add: owns_def)
  obtain s' where c: "claim driver now who False s = (Inr (t + 1), s')"
    using claim_player_eq [OF assms(1)] t by metis
  then have "claim_player driver now who s = (t + 1, s')" by (simp add: claim_player_def)
  from claim_player_owner [OF assms(1) this]
  have "owns (t + 1) s'" "slot_ok driver s'" "ticket s' = t + 1" by simp_all
  then show ?thesis using c t stop_ok by (auto simp: end_link_check_def owns_def)
qed

lemma session_end_link_race_witness:
  "\<exists>s'. claim True 9 demo_peer False one_player = (Inr 2, s')
     \<and> player (snd (transition True Stopping s')) = None"
  using session_end_link_race [OF one_player_ok(1,3), of 9 demo_peer] by auto

text \<open>A media \<open>Ready\<close> that arrives while the session is Paired arms input but cannot move the state
  machine: the state stays Paired, the negotiation that follows leaves it Negotiating, and the
  ready event is not delivered a second time.\<close>

theorem session_early_ready_is_lost:
  assumes "sstate s = Paired" "player s = Some p" "\<not> media_ready p" "\<not> preview p"
  shows "\<exists>s'. pump_media driver MReady s = ([SessionReady], s') \<and> sstate s' = Paired \<and> is_input_armed s'
    \<and> sstate (snd (transition driver Negotiating s')) = Negotiating
    \<and> fst (mark_ready (snd (transition driver Negotiating s'))) = False"
  using assms
  by (simp add: pump_media_def transition_def can_transition_to_def mark_ready_def Let_def
      is_input_armed_def force_state_def)

lemma session_early_ready_is_lost_witness:
  "\<exists>s'. pump_media True MReady one_player = ([SessionReady :: unit SignalMessage], s') \<and> sstate s' = Paired"
proof -
  obtain p where p: "sstate one_player = Paired" "player one_player = Some p" "\<not> media_ready p" "\<not> preview p"
    by (simp add: one_player_def claim_def claim_begin_def manager_new_def reclaim_needed_def Let_def
        split_beta claim_install_def force_state_def)
  from session_early_ready_is_lost [OF p, of True] show ?thesis by blast
qed

end
