(* ===== verification/Stores.thy ===== *)
theory Stores
  imports RustText
begin

text \<open>
  Keyed stores. A hash map whose entries the code iterates is an association list with distinct
  keys, in iteration order (which an insert may change, so nothing proved depends on it); the operations are \<open>get\<close>, \<open>insert\<close>, \<open>remove\<close> and \<open>retain\<close>. A sort by a
  comparison, and the contract of a store that is capped: an insert keeps at most \<open>cap\<close> entries,
  and what was just inserted is there.
\<close>

definition kv_get :: "'k \<Rightarrow> ('k \<times> 'v) list \<Rightarrow> 'v option" where "kv_get k m = map_of m k"

definition kv_del :: "'k \<Rightarrow> ('k \<times> 'v) list \<Rightarrow> ('k \<times> 'v) list" where
  "kv_del k m = filter (\<lambda>e. fst e \<noteq> k) m"

definition kv_put :: "'k \<Rightarrow> 'v \<Rightarrow> ('k \<times> 'v) list \<Rightarrow> ('k \<times> 'v) list" where
  "kv_put k v m = kv_del k m @ [(k, v)]"

definition keys_of :: "('k \<times> 'v) list \<Rightarrow> 'k set" where "keys_of m = fst ` set m"

definition wf_kv :: "('k \<times> 'v) list \<Rightarrow> bool" where "wf_kv m \<longleftrightarrow> distinct (map fst m)"

lemma keys_simps [simp]:
  "keys_of [] = {}" "keys_of (e # m) = insert (fst e) (keys_of m)"
  "keys_of (m @ n) = keys_of m \<union> keys_of n" "finite (keys_of m)"
  by (auto simp: keys_of_def)

lemma keys_del [simp]: "keys_of (kv_del k m) = keys_of m - {k}"
  by (auto simp: keys_of_def kv_del_def)

lemma keys_put [simp]: "keys_of (kv_put k v m) = insert k (keys_of m)"
  by (auto simp: kv_put_def)

lemma keys_filter: "keys_of (filter P m) \<subseteq> keys_of m"
  by (auto simp: keys_of_def)

lemma get_none_iff: "kv_get k m = None \<longleftrightarrow> k \<notin> keys_of m"
  by (simp add: kv_get_def keys_of_def map_of_eq_None_iff)

lemma get_some_key: "kv_get k m = Some v \<Longrightarrow> k \<in> keys_of m"
  using get_none_iff [of k m] by force

lemma get_del [simp]: "kv_get k (kv_del j m) = (if k = j then None else kv_get k m)"
  by (induction m) (auto simp: kv_get_def kv_del_def)

lemma get_put [simp]: "kv_get k (kv_put j v m) = (if k = j then Some v else kv_get k m)"
proof -
  have "map_of (xs @ [(j, v)]) k = (case map_of xs k of Some w \<Rightarrow> Some w | None \<Rightarrow> if k = j then Some v else None)" for xs
    by (induction xs) auto
  then show ?thesis
    using get_del [of k j m] by (auto simp: kv_put_def kv_get_def split: option.splits)
qed

lemma wf_del [simp]: "wf_kv m \<Longrightarrow> wf_kv (kv_del k m)"
  by (simp add: wf_kv_def kv_del_def distinct_map_filter)

lemma wf_filter [simp]: "wf_kv m \<Longrightarrow> wf_kv (filter P m)"
  by (simp add: wf_kv_def distinct_map_filter)

lemma wf_put [simp]: "wf_kv m \<Longrightarrow> wf_kv (kv_put k v m)"
  using wf_del [of m k] by (auto simp: wf_kv_def kv_put_def kv_del_def)

lemma wf_nil [simp]: "wf_kv []" by (simp add: wf_kv_def)

lemma wf_card: "wf_kv m \<Longrightarrow> card (keys_of m) = length m"
  using distinct_card [of "map fst m"] by (simp add: wf_kv_def keys_of_def)

lemma length_del_le: "length (kv_del k m) \<le> length m"
  by (simp add: kv_del_def)

lemma length_put_le: "length (kv_put k v m) \<le> Suc (length m)"
  by (simp add: kv_put_def length_del_le)

text \<open>Insertion sort by a comparison (\<open>sort_by\<close>, \<open>sort_unstable_by\<close> on totally ordered data).\<close>

fun insert_by :: "('a \<Rightarrow> 'a \<Rightarrow> bool) \<Rightarrow> 'a \<Rightarrow> 'a list \<Rightarrow> 'a list" where
  "insert_by le x [] = [x]"
| "insert_by le x (y # ys) = (if le x y then x # y # ys else y # insert_by le x ys)"

definition sort_by :: "('a \<Rightarrow> 'a \<Rightarrow> bool) \<Rightarrow> 'a list \<Rightarrow> 'a list" where
  "sort_by le xs = foldr (insert_by le) xs []"

lemma set_insert_by [simp]: "set (insert_by le x xs) = insert x (set xs)"
  by (induction xs) auto

lemma set_sort_by [simp]: "set (sort_by le xs) = set xs"
  by (induction xs) (auto simp: sort_by_def)

lemma length_insert_by [simp]: "length (insert_by le x xs) = Suc (length xs)"
  by (induction xs) auto

lemma length_sort_by [simp]: "length (sort_by le xs) = length xs"
  by (induction xs) (auto simp: sort_by_def)

lemma distinct_insert_by: "distinct (insert_by le x xs) \<longleftrightarrow> x \<notin> set xs \<and> distinct xs"
  by (induction xs) auto

lemma distinct_sort_by [simp]: "distinct (sort_by le xs) = distinct xs"
proof (induction xs)
  case (Cons x xs)
  have s: "set (foldr (insert_by le) xs []) = set xs" using set_sort_by [of le xs] by (simp add: sort_by_def)
  with Cons show ?case by (simp add: sort_by_def distinct_insert_by s)
qed (simp add: sort_by_def)

lemma sorted_insert_by:
  assumes total: "\<And>a b. le a b \<or> le b a" and trans: "\<And>a b c. le a b \<Longrightarrow> le b c \<Longrightarrow> le a c"
  shows "sorted_wrt le xs \<Longrightarrow> sorted_wrt le (insert_by le x xs)"
proof (induction xs)
  case (Cons y ys)
  then show ?case using total trans by (auto; metis)
qed simp

lemma sorted_sort_by:
  assumes "\<And>a b. le a b \<or> le b a" and "\<And>a b c. le a b \<Longrightarrow> le b c \<Longrightarrow> le a c"
  shows "sorted_wrt le (sort_by le xs)"
  by (induction xs) (auto simp: sort_by_def intro: sorted_insert_by [OF assms])

lemma set_take_diff_drop:
  assumes "distinct xs"
  shows "set (take n xs) = set xs - set (drop n xs)"
proof -
  have "set xs = set (take n xs) \<union> set (drop n xs)"
    by (metis append_take_drop_id set_append)
  moreover have "set (take n xs) \<inter> set (drop n xs) = {}"
    using set_take_disj_set_drop_if_distinct [OF assms, of n n] by simp
  ultimately show ?thesis by blast
qed

section \<open>Capped stores\<close>

locale capped_store =
  fixes entries :: "'s \<Rightarrow> 'k set"
    and key :: "'a \<Rightarrow> 'k"
    and put :: "'a \<Rightarrow> 's \<Rightarrow> 's"
    and cap :: nat
    and good :: "'s \<Rightarrow> bool"
  assumes put_bound: "good s \<Longrightarrow> card (entries s) \<le> cap \<Longrightarrow> card (entries (put a s)) \<le> cap"
    and put_there: "good s \<Longrightarrow> key a \<in> entries (put a s)"
    and put_subset: "good s \<Longrightarrow> entries (put a s) \<subseteq> insert (key a) (entries s)"
    and put_good: "good s \<Longrightarrow> good (put a s)"
begin

lemma puts_bound:
  "good s \<Longrightarrow> card (entries s) \<le> cap \<Longrightarrow> card (entries (fold put xs s)) \<le> cap \<and> good (fold put xs s)"
  by (induction xs arbitrary: s) (auto simp: put_bound put_good)

lemma puts_subset: "good s \<Longrightarrow> entries (fold put xs s) \<subseteq> key ` set xs \<union> entries s"
proof (induction xs arbitrary: s)
  case (Cons a xs)
  have "entries (fold put xs (put a s)) \<subseteq> key ` set xs \<union> entries (put a s)"
    by (rule Cons.IH) (rule put_good [OF Cons.prems])
  moreover have "entries (put a s) \<subseteq> insert (key a) (entries s)" by (rule put_subset [OF Cons.prems])
  ultimately show ?case by auto
qed simp

lemma last_put_there: "good s \<Longrightarrow> key a \<in> entries (fold put (xs @ [a]) s)"
proof -
  assume "good s"
  then have "good (fold put xs s)" by (induction xs arbitrary: s) (auto simp: put_good)
  then show ?thesis by (simp add: put_there)
qed

end

end
