(* ===== verification/Credentials.thy ===== *)
theory Credentials
  imports Stores
begin

text \<open>
  What admits a device: the host's identity container and hexadecimal form
  (\<open>identity/mod.rs\<close>), one-time dial tokens (\<open>media/wt/tokens.rs\<close>), one-time invitations
  (\<open>identity/pairing_invite.rs\<close>), the controller list (\<open>identity/acl.rs\<close>) and the device
  challenge's enrolment rules (\<open>verify_and_maybe_enroll\<close> in \<open>http/signal.rs\<close>). Clocks and random
  bytes are parameters; so are HKDF, base64, Ed25519 and the data protection API, which are
  libraries'.
\<close>

section \<open>Hexadecimal\<close>

definition hex_digit :: "nat \<Rightarrow> char" where
  "hex_digit n = (if n < 10 then char_of (48 + n) else char_of (87 + n))"

definition hex :: "bytes \<Rightarrow> string" where
  "hex bs = concat (map (\<lambda>b. [hex_digit (unat b div 16), hex_digit (unat b mod 16)]) bs)"

definition to_digit16 :: "char \<Rightarrow> nat option" where
  "to_digit16 c =
     (let n = of_char c :: nat in
      if 48 \<le> n \<and> n \<le> 57 then Some (n - 48)
      else if 97 \<le> n \<and> n \<le> 102 then Some (n - 87)
      else if 65 \<le> n \<and> n \<le> 70 then Some (n - 55) else None)"

fun unhex :: "string \<Rightarrow> bytes option" where
  "unhex [] = Some []"
| "unhex [c] = None"
| "unhex (a # b # cs) =
     (case (to_digit16 a, to_digit16 b) of
        (Some hi, Some lo) \<Rightarrow>
          (case unhex cs of None \<Rightarrow> None | Some r \<Rightarrow> Some (of_nat (hi * 16 + lo) # r))
      | _ \<Rightarrow> None)"

lemma to_digit16_hex_digit: "n < 16 \<Longrightarrow> to_digit16 (hex_digit n) = Some n"
  by (auto simp: to_digit16_def hex_digit_def Let_def)

lemma unhex_hex: "unhex (hex bs) = Some bs"
proof (induction bs)
  case (Cons b bs)
  have "unat b < 256" using unat_bound [of b] by simp
  then have d: "unat b div 16 < 16" "unat b mod 16 < 16" by simp_all
  have "unhex (hex (b # bs)) = Some (of_nat (unat b div 16 * 16 + unat b mod 16) # bs)"
    using Cons by (simp add: hex_def to_digit16_hex_digit d)
  then show ?case by simp
qed (simp add: hex_def)

lemma length_hex: "length (hex bs) = 2 * length bs"
  by (induction bs) (simp_all add: hex_def)

lemma unhex_length: "unhex s = Some bs \<Longrightarrow> length s = 2 * length bs"
  by (induction s arbitrary: bs rule: unhex.induct) (auto split: option.splits)

section \<open>The identity file\<close>

definition MAGIC :: bytes where "MAGIC = [0x49, 0x4E, 0x50, 0x48]"
definition FORMAT_V1_NOISE :: u8 where "FORMAT_V1_NOISE = 1"
definition FORMAT_V2 :: u8 where "FORMAT_V2 = 2"
definition FORMATTED_V2_LEN :: nat where "FORMATTED_V2_LEN = 37"

text \<open>The identity is its 32-byte seed; the length of the container comes with it.\<close>

definition identity_parse :: "bytes \<Rightarrow> (bytes \<times> nat) option" where
  "identity_parse plain =
     (if length plain = 32 then Some (plain, 32)
      else if length plain < 37 \<or> take 4 plain \<noteq> MAGIC then None
      else
        let tag = plain ! 4;
            want = (if tag = FORMAT_V2 then Some 37 else if tag = FORMAT_V1_NOISE then Some 69 else None)
        in if want = Some (length plain) then Some (take 32 (drop 5 plain), length plain) else None)"

definition identity_plain :: "bytes \<Rightarrow> bytes" where
  "identity_plain seed = MAGIC @ [FORMAT_V2] @ seed"

datatype IdentityError = Unlocking | Unreadable | Reading | Protecting

text \<open>
  \<open>file\<close>: the bytes on disk (\<open>None\<close>: not there, \<open>Some (Inl ())\<close>: unreadable); \<open>unwrap\<close> and \<open>wrap\<close>
  the at-rest protection; \<open>rnd\<close> the fresh seed. Result: the seed, and the file afterwards.
\<close>

definition load_or_create_at ::
  "(bytes \<Rightarrow> bytes option) \<Rightarrow> (bytes \<Rightarrow> bytes option) \<Rightarrow> bytes \<Rightarrow> (unit + bytes) option
   \<Rightarrow> IdentityError + bytes \<times> (unit + bytes) option" where
  "load_or_create_at unwrap wrap rnd file =
     (case file of
        Some (Inl _) \<Rightarrow> Inl Reading
      | Some (Inr blob) \<Rightarrow>
          (case unwrap blob of None \<Rightarrow> Inl Unlocking
           | Some plain \<Rightarrow>
               (case identity_parse plain of None \<Rightarrow> Inl Unreadable
                | Some (seed, n) \<Rightarrow>
                    if n \<noteq> FORMATTED_V2_LEN
                    then (case wrap (identity_plain seed) of None \<Rightarrow> Inl Protecting
                          | Some b \<Rightarrow> Inr (seed, Some (Inr b)))
                    else Inr (seed, file)))
      | None \<Rightarrow>
          (case wrap (identity_plain rnd) of None \<Rightarrow> Inl Protecting
           | Some b \<Rightarrow> Inr (rnd, Some (Inr b))))"

lemma identity_parse_plain: "length seed = 32 \<Longrightarrow> identity_parse (identity_plain seed) = Some (seed, 37)"
  by (simp add: identity_parse_def identity_plain_def MAGIC_def FORMAT_V2_def)

lemma identity_parse_seed_length: "identity_parse plain = Some (seed, n) \<Longrightarrow> length seed = 32 \<and> n = length plain"
  by (auto simp: identity_parse_def Let_def split: if_splits)

lemma identity_reload:
  assumes "load_or_create_at unwrap wrap rnd file = Inr (seed, file')" "length rnd = 32"
    and wrap: "\<And>p b. wrap p = Some b \<Longrightarrow> unwrap b = Some p"
  shows "load_or_create_at unwrap wrap rnd' file' = Inr (seed, file') \<and> length seed = 32"
  using assms(1,2) identity_parse_seed_length
  by (auto simp: load_or_create_at_def FORMATTED_V2_LEN_def identity_parse_plain dest!: wrap
      split: option.splits sum.splits if_splits)

section \<open>Dial tokens\<close>

definition MAX_LIVE_TOKENS :: nat where "MAX_LIVE_TOKENS = 32"

type_synonym TokenStore = "(string \<times> nat) list"

fun soonest :: "('k \<times> nat) list \<Rightarrow> 'k option" where
  "soonest [] = None"
| "soonest [e] = Some (fst e)"
| "soonest (e # f # m) = soonest ((if snd f < snd e then f else e) # m)"

definition token_issue :: "nat \<Rightarrow> nat \<Rightarrow> bytes \<Rightarrow> TokenStore \<Rightarrow> string \<times> TokenStore" where
  "token_issue now ttl rnd s =
     (let token = hex rnd;
          s1 = filter (\<lambda>e. now < snd e) s;
          s2 = (if MAX_LIVE_TOKENS \<le> length s1
                then (case soonest s1 of Some old \<Rightarrow> kv_del old s1 | None \<Rightarrow> s1) else s1)
      in (token, kv_put token (now + ttl) s2))"

definition token_consume :: "nat \<Rightarrow> string \<Rightarrow> TokenStore \<Rightarrow> bool \<times> TokenStore" where
  "token_consume now token s =
     ((case kv_get token s of Some e \<Rightarrow> now < e | None \<Rightarrow> False), kv_del token s)"

lemma soonest_in: "m \<noteq> [] \<Longrightarrow> \<exists>k. soonest m = Some k \<and> k \<in> keys_of m"
proof (induction m rule: soonest.induct)
  case (3 e f m)
  then obtain k where "soonest ((if snd f < snd e then f else e) # m) = Some k"
    "k \<in> keys_of ((if snd f < snd e then f else e) # m)" by blast
  then show ?case by (auto split: if_splits)
qed auto

lemma length_del_key: "wf_kv m \<Longrightarrow> k \<in> keys_of m \<Longrightarrow> Suc (length (kv_del k m)) = length m"
  using wf_card [of m] wf_card [of "kv_del k m"] card_Suc_Diff1 [of "keys_of m" k] by simp

lemma token_issue_bound:
  assumes "wf_kv s" "length s \<le> MAX_LIVE_TOKENS"
  shows "length (snd (token_issue now ttl rnd s)) \<le> MAX_LIVE_TOKENS"
proof -
  define s1 where "s1 = filter (\<lambda>e. now < snd e) s"
  have s1: "wf_kv s1" "length s1 \<le> MAX_LIVE_TOKENS"
    using assms le_trans [OF length_filter_le [of "\<lambda>e. now < snd e" s] assms(2)] by (simp_all add: s1_def)
  show ?thesis
  proof (cases "MAX_LIVE_TOKENS \<le> length s1")
    case True
    then have "s1 \<noteq> []" by (auto simp: MAX_LIVE_TOKENS_def)
    then obtain k where k: "soonest s1 = Some k" "k \<in> keys_of s1" using soonest_in by blast
    then show ?thesis
      using length_del_key [OF s1(1) k(2)] s1(2) True
        length_put_le [of "hex rnd" "now + ttl" "kv_del k s1"]
      by (simp add: token_issue_def Let_def s1_def [symmetric])
  next
    case False
    then show ?thesis
      using length_put_le [of "hex rnd" "now + ttl" s1]
      by (simp add: token_issue_def Let_def s1_def [symmetric])
  qed
qed

lemma token_issue_wf: "wf_kv s \<Longrightarrow> wf_kv (snd (token_issue now ttl rnd s))"
  by (simp add: token_issue_def Let_def split: option.split)

lemma token_issue_keys:
  "hex rnd \<in> keys_of (snd (token_issue now ttl rnd s))"
  "keys_of (snd (token_issue now ttl rnd s)) \<subseteq> insert (hex rnd) (keys_of s)"
  using keys_filter [of "\<lambda>e. now < snd e" s]
  by (auto simp: token_issue_def Let_def split: option.split)

interpretation dial_tokens: capped_store keys_of "\<lambda>(now, ttl, rnd). hex rnd"
  "\<lambda>(now, ttl, rnd) s. snd (token_issue now ttl rnd s)" MAX_LIVE_TOKENS wf_kv
proof unfold_locales
  fix s :: TokenStore and a :: "nat \<times> nat \<times> bytes"
  assume wf: "wf_kv s"
  obtain now ttl rnd where a: "a = (now, ttl, rnd)" by (metis prod_cases3)
  let ?t = "snd (token_issue now ttl rnd s)"
  have wf': "wf_kv ?t" using wf by (rule token_issue_wf)
  show "wf_kv ((\<lambda>(now, ttl, rnd) s. snd (token_issue now ttl rnd s)) a s)"
    using wf' by (simp add: a)
  show "(\<lambda>(now, ttl, rnd). hex rnd) a \<in> keys_of ((\<lambda>(now, ttl, rnd) s. snd (token_issue now ttl rnd s)) a s)"
    "keys_of ((\<lambda>(now, ttl, rnd) s. snd (token_issue now ttl rnd s)) a s)
       \<subseteq> insert ((\<lambda>(now, ttl, rnd). hex rnd) a) (keys_of s)"
    using token_issue_keys by (simp_all add: a)
  show "card (keys_of s) \<le> MAX_LIVE_TOKENS \<Longrightarrow>
      card (keys_of ((\<lambda>(now, ttl, rnd) s. snd (token_issue now ttl rnd s)) a s)) \<le> MAX_LIVE_TOKENS"
    using token_issue_bound [OF wf, of now ttl rnd] wf_card [OF wf] wf_card [OF wf'] by (simp add: a)
qed

lemma token_consume_once:
  "fst (token_consume now token s) \<longleftrightarrow> (\<exists>e. kv_get token s = Some e \<and> now < e)"
  "\<not> fst (token_consume now' token (snd (token_consume now token s)))"
  by (auto simp: token_consume_def split: option.splits)

lemma token_issue_consume:
  assumes "token_issue now ttl rnd s = (token, s')"
  shows "fst (token_consume now' token s') \<longleftrightarrow> now' < now + ttl"
  using assms by (auto simp: token_issue_def token_consume_def Let_def)

section \<open>Invitations\<close>

definition DEFAULT_TTL_SECS :: nat where "DEFAULT_TTL_SECS = 120"
definition MAX_LIVE_INVITES :: nat where "MAX_LIVE_INVITES = 8"
definition B32 :: string where "B32 = ''ABCDEFGHJKMNPQRSTUVWXYZ23456789''"

record Invite =
  i_id :: string
  i_secret :: bytes
  i_short_code :: string
  i_created :: nat
  i_not_after :: nat
  i_needs_approval :: bool
  i_approved :: bool
  i_used :: bool

definition invite_expired :: "nat \<Rightarrow> Invite \<Rightarrow> bool" where "invite_expired now i \<longleftrightarrow> i_not_after i < now"
definition invite_live :: "nat \<Rightarrow> Invite \<Rightarrow> bool" where
  "invite_live now i \<longleftrightarrow> \<not> i_used i \<and> \<not> invite_expired now i"

record InviteView =
  v_id :: string
  v_secret :: string
  v_short_code :: string
  v_not_after :: nat
  v_needs_approval :: bool
  v_approved :: bool
  v_used :: bool

datatype ConsumeError = NotFound | Expired | AlreadyUsed | NeedsApproval

fun consume_error_str :: "ConsumeError \<Rightarrow> string" where
  "consume_error_str NotFound = ''invite not found''"
| "consume_error_str Expired = ''invite expired''"
| "consume_error_str AlreadyUsed = ''invite already used''"
| "consume_error_str NeedsApproval = ''waiting for approval on the PC''"

definition view_of :: "string \<Rightarrow> Invite \<Rightarrow> InviteView" where
  "view_of secret i =
     \<lparr>v_id = i_id i, v_secret = secret, v_short_code = i_short_code i, v_not_after = i_not_after i,
      v_needs_approval = i_needs_approval i, v_approved = i_approved i, v_used = i_used i\<rparr>"

text \<open>\<open>hkdf\<close>: nine bytes expanded from the secret under the label of the source.\<close>

definition short_code_from :: "(bytes \<Rightarrow> bytes) \<Rightarrow> bytes \<Rightarrow> string" where
  "short_code_from hkdf secret = map (\<lambda>b. B32 ! (unat b mod length B32)) (hkdf secret)"

definition invite_create ::
  "(bytes \<Rightarrow> bytes) \<Rightarrow> (bytes \<Rightarrow> string) \<Rightarrow> nat \<Rightarrow> bytes \<Rightarrow> bytes \<Rightarrow> bool \<Rightarrow> Invite list
   \<Rightarrow> InviteView \<times> Invite list" where
  "invite_create hkdf b64 now idb secret needs s =
     (let s1 = filter (invite_live now) s;
          s2 = (if MAX_LIVE_INVITES \<le> length s1 then tl s1 else s1);
          i = \<lparr>i_id = hex idb, i_secret = secret, i_short_code = short_code_from hkdf secret,
               i_created = now, i_not_after = now + DEFAULT_TTL_SECS, i_needs_approval = needs,
               i_approved = False, i_used = False\<rparr>
      in (view_of (b64 secret) i, s2 @ [i]))"

definition invite_pending :: "(bytes \<Rightarrow> string) \<Rightarrow> nat \<Rightarrow> Invite list \<Rightarrow> InviteView list" where
  "invite_pending b64 now s =
     map (\<lambda>i. view_of (b64 (i_secret i)) i)
       (filter (\<lambda>i. invite_live now i \<or> (i_used i \<and> now < i_created i + 30)) s)"

fun update_first :: "('a \<Rightarrow> bool) \<Rightarrow> ('a \<Rightarrow> 'a) \<Rightarrow> 'a list \<Rightarrow> 'a list option" where
  "update_first P f [] = None"
| "update_first P f (x # xs) = (if P x then Some (f x # xs) else map_option ((#) x) (update_first P f xs))"

definition invite_approve :: "nat \<Rightarrow> string \<Rightarrow> Invite list \<Rightarrow> bool \<times> Invite list" where
  "invite_approve now ident s =
     (case update_first (\<lambda>i. i_id i = ident \<and> invite_live now i) (\<lambda>i. i\<lparr>i_approved := True\<rparr>) s of
        Some s' \<Rightarrow> (True, s') | None \<Rightarrow> (False, s))"

definition invite_status :: "string \<Rightarrow> Invite list \<Rightarrow> InviteView option" where
  "invite_status ident s = map_option (view_of []) (find (\<lambda>i. i_id i = ident) s)"

text \<open>
  \<open>unb64\<close> decodes URL-safe base64 to exactly 32 bytes, or fails; comparing secrets in constant
  time is equality.
\<close>

definition invite_matches :: "(string \<Rightarrow> bytes option) \<Rightarrow> string \<Rightarrow> Invite \<Rightarrow> bool" where
  "invite_matches unb64 given i \<longleftrightarrow>
     (let token = trim_str given in
      i_short_code i = upper token \<or> (case unb64 token of Some x \<Rightarrow> x = i_secret i | None \<Rightarrow> False))"

definition invite_consume ::
  "(string \<Rightarrow> bytes option) \<Rightarrow> nat \<Rightarrow> string \<Rightarrow> Invite list \<Rightarrow> (ConsumeError + unit) \<times> Invite list" where
  "invite_consume unb64 now given s =
     (case find (invite_matches unb64 given) s of
        None \<Rightarrow> (Inl NotFound, s)
      | Some i \<Rightarrow>
          if invite_expired now i then (Inl Expired, s)
          else if i_used i then (Inl AlreadyUsed, s)
          else if i_needs_approval i \<and> \<not> i_approved i then (Inl NeedsApproval, s)
          else (Inr (), the (update_first (invite_matches unb64 given) (\<lambda>i. i\<lparr>i_used := True\<rparr>) s)))"

lemma update_first_find:
  "update_first P f s = None \<longleftrightarrow> find P s = None"
  by (induction s) auto

lemma find_update_first:
  assumes "update_first P f s = Some s'" "find P s = Some i" "\<And>x. P (f x) = P x"
  shows "find P s' = Some (f i)"
  using assms(1,2) by (induction s arbitrary: s') (auto simp: assms(3) split: if_splits)

lemma length_update_first: "update_first P f s = Some s' \<Longrightarrow> length s' = length s"
  by (induction s arbitrary: s') (auto split: if_splits)

lemma invite_consume_ok:
  assumes "invite_consume unb64 now given s = (Inr (), s')"
  obtains i where "find (invite_matches unb64 given) s = Some i" "invite_live now i"
    "i_needs_approval i \<longrightarrow> i_approved i"
    "find (invite_matches unb64 given) s' = Some (i\<lparr>i_used := True\<rparr>)"
proof -
  from assms obtain i where i: "find (invite_matches unb64 given) s = Some i" "invite_live now i"
    "i_needs_approval i \<longrightarrow> i_approved i"
    and s': "s' = the (update_first (invite_matches unb64 given) (\<lambda>i. i\<lparr>i_used := True\<rparr>) s)"
    by (auto simp: invite_consume_def invite_live_def split: option.splits if_splits)
  then have up: "update_first (invite_matches unb64 given) (\<lambda>i. i\<lparr>i_used := True\<rparr>) s = Some s'"
    using update_first_find [of "invite_matches unb64 given" "\<lambda>i. i\<lparr>i_used := True\<rparr>" s] by auto
  have keep: "invite_matches unb64 given (x\<lparr>i_used := True\<rparr>) = invite_matches unb64 given x" for x
    by (simp add: invite_matches_def split: option.split)
  show thesis by (rule that [OF i find_update_first [OF up i(1) keep]])
qed

lemma invite_consume_once:
  assumes "invite_consume unb64 now given s = (Inr (), s')"
  shows "\<exists>e. invite_consume unb64 now' given s' = (Inl e, s') \<and> e \<in> {Expired, AlreadyUsed}"
proof -
  from assms obtain i where "find (invite_matches unb64 given) s' = Some (i\<lparr>i_used := True\<rparr>)"
    by (rule invite_consume_ok)
  then show ?thesis by (auto simp: invite_consume_def)
qed

interpretation invites: capped_store "\<lambda>s. i_id ` set s" "\<lambda>(now, idb, secret, needs). hex idb"
  "\<lambda>(now, idb, secret, needs) s. snd (invite_create hkdf b64 now idb secret needs s)"
  MAX_LIVE_INVITES "\<lambda>s. length s \<le> MAX_LIVE_INVITES"
  for hkdf b64
proof unfold_locales
  fix s :: "Invite list" and a :: "nat \<times> bytes \<times> bytes \<times> bool"
  obtain now idb secret needs where a: "a = (now, idb, secret, needs)" by (metis prod_cases4)
  define s1 where "s1 = filter (invite_live now) s"
  define s2 where "s2 = (if MAX_LIVE_INVITES \<le> length s1 then tl s1 else s1)"
  let ?put = "\<lambda>(now, idb, secret, needs) s. snd (invite_create hkdf b64 now idb secret needs s)"
  have "set (tl s1) \<subseteq> set s1" by (cases s1) auto
  then have sub: "set s2 \<subseteq> set s" by (auto simp: s1_def s2_def)
  have "\<exists>i. ?put a s = s2 @ [i] \<and> i_id i = hex idb"
    by (simp add: a invite_create_def Let_def s1_def s2_def)
  then obtain i where put: "?put a s = s2 @ [i]" "i_id i = hex idb" by blast
  show "(\<lambda>(now, idb, secret, needs). hex idb) a \<in> i_id ` set (?put a s)"
    unfolding put using put(2) by (simp add: a)
  show "i_id ` set (?put a s) \<subseteq> insert ((\<lambda>(now, idb, secret, needs). hex idb) a) (i_id ` set s)"
    unfolding put using put(2) sub by (auto simp: a)
  assume "length s \<le> MAX_LIVE_INVITES"
  then have "length s1 \<le> MAX_LIVE_INVITES"
    using le_trans [OF length_filter_le [of "invite_live now" s]] by (simp add: s1_def)
  then have len: "length (?put a s) \<le> MAX_LIVE_INVITES"
    unfolding put by (auto simp: s2_def MAX_LIVE_INVITES_def)
  then show "length (?put a s) \<le> MAX_LIVE_INVITES" .
  show "card (i_id ` set (?put a s)) \<le> MAX_LIVE_INVITES"
    using le_trans [OF card_image_le [of "set (?put a s)" i_id] le_trans [OF card_length len]] by simp
qed

section \<open>The controller list\<close>

record Controller =
  k_id :: string
  k_name :: string
  k_added :: nat
  k_last_seen :: nat
  k_revoked :: bool

text \<open>The list in memory and the copy last written to disk (writing is assumed to succeed).\<close>

record Acl =
  acl_list :: "Controller list"
  acl_disk :: "Controller list"

definition acl_load :: "Controller list option \<Rightarrow> Acl" where
  "acl_load file = (let l = (case file of Some l \<Rightarrow> l | None \<Rightarrow> []) in \<lparr>acl_list = l, acl_disk = l\<rparr>)"

definition acl_is_first :: "Acl \<Rightarrow> bool" where "acl_is_first a = (\<forall>c \<in> set (acl_list a). k_revoked c)"

definition acl_is_authorized :: "string \<Rightarrow> Acl \<Rightarrow> bool" where
  "acl_is_authorized i a = (\<exists>c \<in> set (acl_list a). k_id c = i \<and> \<not> k_revoked c)"

definition acl_get :: "string \<Rightarrow> Acl \<Rightarrow> Controller option" where
  "acl_get i a = find (\<lambda>c. \<not> k_revoked c \<and> eq_nocase (k_id c) i) (acl_list a)"

definition acl_store :: "Controller list \<Rightarrow> Acl \<Rightarrow> Acl" where
  "acl_store l a = a\<lparr>acl_list := l, acl_disk := l\<rparr>"

definition acl_add :: "nat \<Rightarrow> string \<Rightarrow> string \<Rightarrow> Acl \<Rightarrow> Acl" where
  "acl_add now i name a =
     acl_store
       (case update_first (\<lambda>c. k_id c = i)
               (\<lambda>c. c\<lparr>k_name := name, k_revoked := False, k_last_seen := now\<rparr>) (acl_list a) of
          Some l \<Rightarrow> l
        | None \<Rightarrow> acl_list a @ [\<lparr>k_id = i, k_name = name, k_added = now, k_last_seen = now, k_revoked = False\<rparr>]) a"

definition acl_touch :: "nat \<Rightarrow> string \<Rightarrow> Acl \<Rightarrow> Acl" where
  "acl_touch now i a =
     (case update_first (\<lambda>c. k_id c = i) (\<lambda>c. c\<lparr>k_last_seen := now\<rparr>) (acl_list a) of
        Some l \<Rightarrow> acl_store l a | None \<Rightarrow> a)"

definition revoke_hits :: "string \<Rightarrow> Acl \<Rightarrow> nat list" where
  "revoke_hits p a =
     filter (\<lambda>j. let c = acl_list a ! j in \<not> k_revoked c \<and> (k_id c = p \<or> starts_with (k_id c) p))
       [0..<length (acl_list a)]"

definition acl_revoke :: "string \<Rightarrow> Acl \<Rightarrow> string option \<times> Acl" where
  "acl_revoke p a =
     (case revoke_hits p a of
        [j] \<Rightarrow> (Some (k_id (acl_list a ! j)),
                acl_store ((acl_list a)[j := (acl_list a ! j)\<lparr>k_revoked := True\<rparr>]) a)
      | _ \<Rightarrow> (None, a))"

definition acl_revoke_all :: "Acl \<Rightarrow> Acl" where
  "acl_revoke_all a = acl_store (map (\<lambda>c. c\<lparr>k_revoked := True\<rparr>) (acl_list a)) a"

definition wf_acl :: "Acl \<Rightarrow> bool" where
  "wf_acl a \<longleftrightarrow> distinct (map k_id (acl_list a)) \<and> acl_disk a = acl_list a"

lemma update_first_map:
  "update_first P f s = Some s' \<Longrightarrow> (\<And>x. g (f x) = g x) \<Longrightarrow> map g s' = map g s"
  by (induction s arbitrary: s') (auto split: if_splits)

lemma update_first_hit: "update_first P f s = Some s' \<Longrightarrow> \<exists>x \<in> set s. P x \<and> f x \<in> set s'"
  by (induction s arbitrary: s') (auto split: if_splits)

lemma acl_add_wf: "wf_acl a \<Longrightarrow> wf_acl (acl_add now i name a)"
  using update_first_find [of "\<lambda>c. k_id c = i" _ "acl_list a"]
  by (auto simp: wf_acl_def acl_add_def acl_store_def find_None_iff dest!: update_first_map [where g = k_id]
      split: option.splits)

lemma acl_touch_wf: "wf_acl a \<Longrightarrow> wf_acl (acl_touch now i a)"
  by (auto simp: wf_acl_def acl_touch_def acl_store_def dest!: update_first_map [where g = k_id]
      split: option.splits)

lemma acl_revoke_wf: "wf_acl a \<Longrightarrow> wf_acl (snd (acl_revoke p a))"
  by (auto simp: wf_acl_def acl_revoke_def acl_store_def map_update split: list.splits)
    (metis list_update_id map_update select_convs(1))?

lemma acl_revoke_all_wf: "wf_acl a \<Longrightarrow> wf_acl (acl_revoke_all a)"
  by (simp add: wf_acl_def acl_revoke_all_def acl_store_def comp_def)

lemma wf_acl_unique: "wf_acl a \<Longrightarrow> c \<in> set (acl_list a) \<Longrightarrow> d \<in> set (acl_list a) \<Longrightarrow> k_id c = k_id d \<Longrightarrow> c = d"
  by (auto simp: wf_acl_def distinct_map dest: inj_onD)

lemma acl_add_authorizes: "acl_is_authorized i (acl_add now i name a)"
proof (cases "update_first (\<lambda>c. k_id c = i) (\<lambda>c. c\<lparr>k_name := name, k_revoked := False, k_last_seen := now\<rparr>) (acl_list a)")
  case (Some l)
  have "\<exists>c \<in> set l. k_id c = i \<and> \<not> k_revoked c"
  proof -
    obtain x where "k_id x = i" "x\<lparr>k_name := name, k_revoked := False, k_last_seen := now\<rparr> \<in> set l"
      using update_first_hit [OF Some] by blast
    then show ?thesis
      by (intro bexI [of _ "x\<lparr>k_name := name, k_revoked := False, k_last_seen := now\<rparr>"]) simp_all
  qed
  with Some show ?thesis by (auto simp: acl_is_authorized_def acl_add_def acl_store_def)
qed (auto simp: acl_is_authorized_def acl_add_def acl_store_def)

section \<open>The device challenge\<close>

record EnrolPolicy =
  bound :: "string list"
  may_enrol :: bool
  checked :: bool

text \<open>
  \<open>sig_ok\<close> answers for the library calls: the decoded key is a valid point, the signature decodes
  to 64 bytes and verifies over the nonce.
\<close>

definition verify_and_maybe_enroll ::
  "(bytes \<Rightarrow> bytes \<Rightarrow> string \<Rightarrow> bool) \<Rightarrow> nat \<Rightarrow> EnrolPolicy \<Rightarrow> string \<Rightarrow> bytes \<Rightarrow> string \<Rightarrow> Acl
   \<Rightarrow> Controller option \<times> Acl" where
  "verify_and_maybe_enroll sig_ok now pol cid nonce sig a =
     (case unhex cid of None \<Rightarrow> (None, a)
      | Some pk \<Rightarrow>
          if length pk \<noteq> 32 \<or> \<not> sig_ok pk nonce sig then (None, a)
          else
            let i = lower cid in
            (case acl_get i a of
               Some c \<Rightarrow>
                 if checked pol \<and> \<not> may_enrol pol \<and> bound pol \<noteq> [] \<and> \<not> (\<exists>b \<in> set (bound pol). eq_nocase b i)
                 then (None, a) else (Some c, a)
             | None \<Rightarrow>
                 if \<exists>c \<in> set (acl_list a). eq_nocase (k_id c) i \<and> k_revoked c then (None, a)
                 else if \<not> may_enrol pol then (None, a)
                 else (let a' = acl_add now i ''Home Screen app'' a in (acl_get i a', a'))))"

definition verify_device ::
  "(bytes \<Rightarrow> bytes \<Rightarrow> string \<Rightarrow> bool) \<Rightarrow> nat \<Rightarrow> string option \<Rightarrow> bool \<Rightarrow> (string \<Rightarrow> string list)
   \<Rightarrow> string \<Rightarrow> bytes \<Rightarrow> string \<Rightarrow> Acl \<Rightarrow> Controller option \<times> Acl" where
  "verify_device sig_ok now session lan session_controllers cid nonce sig a =
     verify_and_maybe_enroll sig_ok now
       \<lparr>bound = (case session of Some s \<Rightarrow> session_controllers s | None \<Rightarrow> []),
        may_enrol = lan \<or> session = None, checked = session \<noteq> None\<rparr> cid nonce sig a"

lemma acl_get_some:
  "acl_get i a = Some c \<Longrightarrow> c \<in> set (acl_list a) \<and> \<not> k_revoked c \<and> eq_nocase (k_id c) i"
  by (auto simp: acl_get_def find_Some_iff)

lemma verify_accepts:
  assumes "verify_and_maybe_enroll sig_ok now pol cid nonce sig a = (Some c, a')"
  shows "(\<exists>pk. unhex cid = Some pk \<and> length pk = 32 \<and> sig_ok pk nonce sig)
    \<and> c \<in> set (acl_list a') \<and> \<not> k_revoked c \<and> eq_nocase (k_id c) cid
    \<and> (a' = a \<or> may_enrol pol \<and> a' = acl_add now (lower cid) ''Home Screen app'' a
          \<and> (\<forall>d \<in> set (acl_list a). \<not> eq_nocase (k_id d) cid))"
proof -
  obtain pk where pk: "unhex cid = Some pk" "length pk = 32" "sig_ok pk nonce sig"
    using assms by (auto simp: verify_and_maybe_enroll_def split: option.splits if_splits)
  show ?thesis
  proof (cases "acl_get (lower cid) a")
    case (Some d)
    with assms pk acl_get_some [OF Some] show ?thesis
      by (auto simp: verify_and_maybe_enroll_def Let_def split: if_splits)
  next
    case None
    with assms pk have a': "a' = acl_add now (lower cid) ''Home Screen app'' a" "acl_get (lower cid) a' = Some c"
      "may_enrol pol" "\<not> (\<exists>c \<in> set (acl_list a). eq_nocase (k_id c) (lower cid) \<and> k_revoked c)"
      by (auto simp: verify_and_maybe_enroll_def Let_def split: if_splits)
    with None acl_get_some [OF a'(2)] pk show ?thesis
      by (auto simp: acl_get_def find_None_iff)
  qed
qed

lemma acl_revoke_spec:
  assumes "acl_revoke p a = (Some i, a')" "wf_acl a"
  shows "\<not> acl_is_authorized i a' \<and> starts_with i p \<and> acl_disk a' = acl_list a'
    \<and> (\<exists>c \<in> set (acl_list a'). k_id c = i \<and> k_revoked c)
    \<and> (\<forall>c \<in> set (acl_list a). k_id c \<noteq> i \<longrightarrow> c \<in> set (acl_list a'))
    \<and> map k_id (acl_list a') = map k_id (acl_list a)"
proof -
  let ?l = "acl_list a"
  from assms(1) obtain j where hits: "revoke_hits p a = [j]" and i: "i = k_id (?l ! j)"
    and a': "a' = acl_store (?l[j := (?l ! j)\<lparr>k_revoked := True\<rparr>]) a"
    by (auto simp: acl_revoke_def split: list.splits)
  then have "j \<in> set (revoke_hits p a)" by simp
  then have j: "j < length ?l" "k_id (?l ! j) = p \<or> starts_with (k_id (?l ! j)) p"
    by (auto simp: revoke_hits_def Let_def)
  have l': "acl_list a' = ?l[j := (?l ! j)\<lparr>k_revoked := True\<rparr>]" by (simp add: a' acl_store_def)
  have only: "m = j" if "m < length ?l" "k_id (?l ! m) = i" for m
    using assms(2) that j(1) i by (auto simp: wf_acl_def distinct_conv_nth)
  have "\<not> acl_is_authorized i a'"
  proof
    assume "acl_is_authorized i a'"
    then obtain x where x: "x \<in> set (acl_list a')" "k_id x = i" "\<not> k_revoked x"
      unfolding acl_is_authorized_def by blast
    then obtain m where "m < length (acl_list a')" "acl_list a' ! m = x" by (auto simp only: in_set_conv_nth)
    with x have m: "m < length ?l" "k_id (acl_list a' ! m) = i" "\<not> k_revoked (acl_list a' ! m)"
      by (simp_all add: l')
    show False
    proof (cases "m = j")
      case True
      with m j(1) show False by (simp add: l')
    next
      case False
      then have "acl_list a' ! m = ?l ! m" by (simp add: l')
      with m only [of m] False show False by simp
    qed
  qed
  moreover have "\<exists>c \<in> set (acl_list a'). k_id c = i \<and> k_revoked c"
    using set_update_memI [OF j(1), of "(?l ! j)\<lparr>k_revoked := True\<rparr>"] i
    by (intro bexI [of _ "(?l ! j)\<lparr>k_revoked := True\<rparr>"]) (simp_all add: l')
  moreover have "c \<in> set (acl_list a')" if "c \<in> set ?l" "k_id c \<noteq> i" for c
  proof -
    obtain m where m: "m < length ?l" "?l ! m = c" using \<open>c \<in> set ?l\<close> by (auto simp: in_set_conv_nth)
    then have "m \<noteq> j" using that(2) i by auto
    with m have "acl_list a' ! m = c" "m < length (acl_list a')" by (simp_all add: l')
    then show ?thesis by (auto simp: in_set_conv_nth)
  qed
  moreover have "map k_id (acl_list a') = map k_id ?l"
    using j(1) by (simp add: l' map_update list_update_same_conv)
  moreover have "starts_with i p" using j(2) i starts_with_refl [of i] by auto
  moreover have "acl_disk a' = acl_list a'" by (simp add: a' acl_store_def)
  ultimately show ?thesis by blast
qed

section \<open>Properties\<close>

text \<open>C5. A dial token is good exactly until its time to live is over, exactly once, whatever else was
  issued before; and no sequence of requests makes the store hold more than its cap.\<close>

theorem dial_token_one_shot:
  assumes "wf_kv s" "length s \<le> MAX_LIVE_TOKENS" "token_issue now ttl rnd s = (token, s')"
  shows "(fst (token_consume t1 token s') \<longleftrightarrow> t1 < now + ttl)
    \<and> \<not> fst (token_consume t2 token (snd (token_consume t1 token s')))
    \<and> length (fold (\<lambda>(now, ttl, rnd) s. snd (token_issue now ttl rnd s)) reqs s') \<le> MAX_LIVE_TOKENS"
proof -
  have s': "wf_kv s'" "length s' \<le> MAX_LIVE_TOKENS"
    using token_issue_wf [OF assms(1), of now ttl rnd] token_issue_bound [OF assms(1,2), of now ttl rnd]
      assms(3) by simp_all
  from dial_tokens.puts_bound [OF s'(1), of reqs] s'(2) wf_card [OF s'(1)]
  have "length (fold (\<lambda>(now, ttl, rnd) s. snd (token_issue now ttl rnd s)) reqs s') \<le> MAX_LIVE_TOKENS"
    by (auto simp: wf_card)
  then show ?thesis using token_issue_consume [OF assms(3), of t1] token_consume_once(2) by blast
qed

lemma dial_token_one_shot_witness:
  "fst (token_consume 59 ''0aff'' (snd (token_issue 0 60 [10, 255] [])))
   \<and> \<not> fst (token_consume 60 ''0aff'' (snd (token_issue 0 60 [10, 255] [])))"
proof -
  have "hex [10, 255] = ''0aff''" by code_simp
  then have "token_issue 0 60 [10, 255] [] = (''0aff'', snd (token_issue 0 60 [10, 255] []))"
    by (simp add: token_issue_def Let_def)
  from dial_token_one_shot [OF wf_nil _ this, of 59] dial_token_one_shot [OF wf_nil _ this, of 60]
  show ?thesis by simp
qed

text \<open>An invitation is accepted at most once, only before it expires, and where it needs the
  owner's approval only after that approval.\<close>

theorem invite_one_shot:
  assumes "invite_consume unb64 now given s = (Inr (), s')"
  shows "(\<exists>i \<in> set s. invite_matches unb64 given i \<and> now \<le> i_not_after i \<and> \<not> i_used i
            \<and> (i_needs_approval i \<longrightarrow> i_approved i))
    \<and> (\<exists>e. invite_consume unb64 now' given s' = (Inl e, s') \<and> e \<in> {Expired, AlreadyUsed})"
proof
  from assms obtain i where i: "find (invite_matches unb64 given) s = Some i" "invite_live now i"
    "i_needs_approval i \<longrightarrow> i_approved i" by (rule invite_consume_ok)
  then have "i \<in> set s" "invite_matches unb64 given i" by (auto simp: find_Some_iff)
  with i show "\<exists>i \<in> set s. invite_matches unb64 given i \<and> now \<le> i_not_after i \<and> \<not> i_used i
            \<and> (i_needs_approval i \<longrightarrow> i_approved i)"
    by (auto simp: invite_live_def invite_expired_def intro!: bexI [of _ i])
qed (rule invite_consume_once [OF assms])

definition demo_invites :: "Invite list" where
  "demo_invites =
     snd (invite_approve 5 ''07'' (snd (invite_create (\<lambda>_. [0, 1, 2]) (\<lambda>_. []) 0 [7] [9] True [])))"

lemma invite_one_shot_witness:
  "\<exists>s' e. invite_consume (\<lambda>_. None) 6 '' abc '' demo_invites = (Inr (), s')
     \<and> invite_consume (\<lambda>_. None) 7 '' abc '' s' = (Inl e, s')"
proof -
  let ?c = "invite_consume (\<lambda>_. None) 6 '' abc '' demo_invites"
  have "fst ?c = Inr ()" by code_simp
  then have "?c = (Inr (), snd ?c)" by (metis prod.collapse)
  with invite_one_shot [OF this, of 7] show ?thesis by blast
qed

text \<open>C19. The device challenge admits only a holder of a 32-byte key whose signature over the nonce
  verifies; the admitted controller is active and listed under that key; the list changes only by
  enrolling a key never listed before, and only where enrolment is allowed.\<close>

theorem device_challenge_sound:
  assumes "verify_and_maybe_enroll sig_ok now pol cid nonce sig a = (Some c, a')"
  shows "(\<exists>pk. unhex cid = Some pk \<and> length pk = 32 \<and> sig_ok pk nonce sig)
    \<and> c \<in> set (acl_list a') \<and> \<not> k_revoked c \<and> eq_nocase (k_id c) cid
    \<and> (a' = a \<or> may_enrol pol \<and> a' = acl_add now (lower cid) ''Home Screen app'' a
          \<and> (\<forall>d \<in> set (acl_list a). \<not> eq_nocase (k_id d) cid))"
  by (rule verify_accepts [OF assms])

lemma device_challenge_sound_witness:
  "\<exists>c a'. verify_and_maybe_enroll (\<lambda>pk nonce sig. sig = ''ok'') 5
       \<lparr>bound = [], may_enrol = True, checked = True\<rparr> (hex (replicate 32 0xAB)) [1] ''ok''
       \<lparr>acl_list = [], acl_disk = []\<rparr> = (Some c, a') \<and> \<not> k_revoked c \<and> c \<in> set (acl_list a')"
proof -
  let ?v = "verify_and_maybe_enroll (\<lambda>pk nonce sig. sig = ''ok'') 5
       \<lparr>bound = [], may_enrol = True, checked = True\<rparr> (hex (replicate 32 0xAB)) [1] ''ok''
       \<lparr>acl_list = [], acl_disk = []\<rparr>"
  have "fst ?v \<noteq> None"
    by (simp add: verify_and_maybe_enroll_def unhex_hex acl_get_def acl_add_def acl_store_def Let_def
        del: replicate.simps)
  then obtain c a' where v: "?v = (Some c, a')" by (metis not_None_eq prod.collapse)
  from device_challenge_sound [OF v] v show ?thesis by blast
qed

text \<open>Revoking a controller sticks: it is no longer authorized, every other entry is unchanged, and
  the device challenge refuses its key from then on.\<close>

theorem revoked_device_stays_out:
  assumes "acl_revoke p a = (Some i, a')" "wf_acl a" "\<forall>c \<in> set (acl_list a). lower (k_id c) = k_id c"
  shows "\<not> acl_is_authorized i a' \<and> (\<forall>c \<in> set (acl_list a). k_id c \<noteq> i \<longrightarrow> c \<in> set (acl_list a'))
    \<and> (eq_nocase cid i \<longrightarrow> verify_and_maybe_enroll sig_ok now pol cid nonce sig a' = (None, a'))"
proof (intro conjI impI)
  note sp = acl_revoke_spec [OF assms(1,2)]
  then show "\<not> acl_is_authorized i a'" "\<forall>c \<in> set (acl_list a). k_id c \<noteq> i \<longrightarrow> c \<in> set (acl_list a')" by auto
  assume cid: "eq_nocase cid i"
  have "set (map k_id (acl_list a')) = set (map k_id (acl_list a))" using sp by simp
  then have low: "lower (k_id c) = k_id c" if "c \<in> set (acl_list a')" for c
    using that assms(3) by (metis (no_types, lifting) imageE image_eqI list.set_map)
  obtain d where d: "d \<in> set (acl_list a')" "k_id d = i" "k_revoked d" using sp by blast
  have none: "acl_get (lower cid) a' = None"
  proof (rule ccontr)
    assume "acl_get (lower cid) a' \<noteq> None"
    then obtain c where c: "c \<in> set (acl_list a')" "\<not> k_revoked c" "eq_nocase (k_id c) cid"
      using acl_get_some [of "lower cid" a'] by auto
    then have "k_id c = i" using low [OF c(1)] low [OF d(1)] cid d(2) by (simp add: eq_nocase_def)
    with c sp show False by (auto simp: acl_is_authorized_def)
  qed
  have "eq_nocase (k_id d) (lower cid)" using d(2) cid by (simp add: eq_nocase_def)
  then show "verify_and_maybe_enroll sig_ok now pol cid nonce sig a' = (None, a')"
    using none d by (auto simp: verify_and_maybe_enroll_def Let_def split: option.split)
qed

lemma revoked_device_stays_out_witness:
  "\<exists>a'. acl_revoke ''a'' (acl_add 0 ''ab'' ''pad'' \<lparr>acl_list = [], acl_disk = []\<rparr>) = (Some ''ab'', a')
     \<and> \<not> acl_is_authorized ''ab'' a'
     \<and> verify_and_maybe_enroll (\<lambda>_ _ _. True) 9 \<lparr>bound = [], may_enrol = True, checked = True\<rparr>
           ''AB'' [] [] a' = (None, a')"
proof -
  let ?a = "acl_add 0 ''ab'' ''pad'' \<lparr>acl_list = [], acl_disk = []\<rparr>"
  have wf: "wf_acl ?a" by (simp add: wf_acl_def acl_add_def acl_store_def)
  have l: "\<forall>c \<in> set (acl_list ?a). lower (k_id c) = k_id c" by code_simp
  have "fst (acl_revoke ''a'' ?a) = Some ''ab''" by code_simp
  then obtain a' where r: "acl_revoke ''a'' ?a = (Some ''ab'', a')" by (metis prod.collapse)
  have "eq_nocase ''AB'' ''ab''" by code_simp
  with revoked_device_stays_out [OF r wf l] r show ?thesis by blast
qed

end
