(* ===== verification/Pairing.thy ===== *)
theory Pairing
  imports Stores HostConfig "HOL-Library.Code_Target_Nat"
begin

text \<open>
  PIN pairing and session cookies (\<open>crates/host/src/pairing/mod.rs\<close>): the PIN and its life time,
  attempt windows, the lockout, the capped session store, the device keys bound to a session, and
  what is written to disk. A handler gets the monotonic clock in nanoseconds (\<open>now\<close>), the wall
  clock in seconds (\<open>wall\<close>) and the random values it draws.
\<close>

section \<open>State\<close>

datatype PairError = BadPin | RateLimited nat | Locked

record Attempts =
  count :: nat
  window_start :: nat

record SessionFile =
  f_tokens :: "(string \<times> nat) list"
  f_pin :: "string option"
  f_pin_issued_unix :: "nat option"
  f_pin_failures :: nat
  f_bindings :: "(string \<times> string list) list"

definition MAX_SESSIONS :: nat where "MAX_SESSIONS = 256"
definition MAX_KEYS_PER_SESSION :: nat where "MAX_KEYS_PER_SESSION = 4"

text \<open>\<open>disk\<close> is the file of the store path; \<open>stores\<close> whether there is a path at all.\<close>

record PairingState =
  pc :: PairingConfig
  pin :: string
  pin_issued :: nat
  sessions :: "(string \<times> nat) list"
  stores :: bool
  disk :: "SessionFile option"
  global :: Attempts
  per_ip :: "IpAddr \<Rightarrow> Attempts option"
  pin_failures :: nat
  bindings :: "(string \<times> string list) list"

definition second :: nat where "second = 1000000000"

fun show_digits :: "nat \<Rightarrow> nat \<Rightarrow> string" where
  "show_digits 0 n = []"
| "show_digits (Suc k) n = show_digits k (n div 10) @ [char_of (48 + n mod 10)]"

text \<open>\<open>format!("{n:06}")\<close> of a number drawn below a million.\<close>

definition random_pin :: "nat \<Rightarrow> string" where "random_pin r = show_digits 6 (r mod 1000000)"

section \<open>Operations on the state\<close>

definition locked :: "PairingState \<Rightarrow> bool" where
  "locked s \<longleftrightarrow> 0 < lockout_after (pc s) \<and> lockout_after (pc s) \<le> pin_failures s"

definition persist :: "nat \<Rightarrow> nat \<Rightarrow> PairingState \<Rightarrow> PairingState" where
  "persist now wall s =
     (let b = filter (\<lambda>e. fst e \<in> keys_of (sessions s)) (bindings s);
          s1 = s\<lparr>bindings := b\<rparr>
      in if \<not> stores s1 then s1
         else s1\<lparr>disk := Some
              \<lparr>f_tokens = sessions s1, f_pin = Some (pin s1),
               f_pin_issued_unix = Some (wall - (now - pin_issued s1) div second),
               f_pin_failures = pin_failures s1, f_bindings = b\<rparr>\<rparr>)"

definition rotate_if_expired :: "nat \<Rightarrow> nat \<Rightarrow> nat \<Rightarrow> PairingState \<Rightarrow> PairingState" where
  "rotate_if_expired now wall rp s =
     (if pin_ttl_secs (pc s) = 0 then s
      else if pin_ttl_secs (pc s) * second \<le> now - pin_issued s
      then persist now wall (s\<lparr>pin := random_pin rp, pin_issued := now\<rparr>)
      else s)"

definition newer_first :: "nat \<times> string \<Rightarrow> nat \<times> string \<Rightarrow> bool" where
  "newer_first a b \<longleftrightarrow> fst b < fst a \<or> (fst a = fst b \<and> string_le (snd a) (snd b))"

definition prune_to :: "nat \<Rightarrow> nat \<Rightarrow> PairingState \<Rightarrow> PairingState" where
  "prune_to wall cap s =
     (let ttl = session_ttl_secs (pc s);
          live = (if 0 < ttl then filter (\<lambda>e. wall - snd e < ttl) (sessions s) else sessions s)
      in if length live \<le> cap then s\<lparr>sessions := live\<rparr>
         else
           let by_age = sort_by newer_first (map (\<lambda>e. (snd e, fst e)) live);
               doomed = set (map snd (drop cap by_age))
           in s\<lparr>sessions := filter (\<lambda>e. fst e \<notin> doomed) live\<rparr>)"

definition insert_session :: "nat \<Rightarrow> string \<Rightarrow> PairingState \<Rightarrow> PairingState" where
  "insert_session wall sid s =
     (let s1 = prune_to wall (MAX_SESSIONS - 1) s
      in s1\<lparr>sessions := kv_put sid wall (sessions s1)\<rparr>)"

definition fresh_window :: "nat \<Rightarrow> nat \<Rightarrow> Attempts \<Rightarrow> Attempts" where
  "fresh_window now window a =
     (if window \<le> now - window_start a then \<lparr>count = 0, window_start = now\<rparr> else a)"

definition window_ns :: "PairingState \<Rightarrow> nat" where
  "window_ns s = rate_window_secs (pc s) * second"

text \<open>The global window is looked at first; where it refuses, the source's is not touched.\<close>

definition rate_limited :: "nat \<Rightarrow> IpAddr \<Rightarrow> PairingState \<Rightarrow> nat option \<times> PairingState" where
  "rate_limited now source s =
     (let w = window_ns s;
          g = fresh_window now w (global s);
          s1 = s\<lparr>global := g\<rparr>
      in if max_attempts (pc s) \<le> count g then (Some (w - (now - window_start g)), s1)
         else
           (case per_ip s1 source of
              None \<Rightarrow> (None, s1)
            | Some a0 \<Rightarrow>
                (let a = fresh_window now w a0; s2 = s1\<lparr>per_ip := (per_ip s1)(source \<mapsto> a)\<rparr>
                 in if max_attempts (pc s) \<le> count a then (Some (w - (now - window_start a)), s2)
                    else (None, s2))))"

definition bump :: "nat \<Rightarrow> nat \<Rightarrow> Attempts \<Rightarrow> Attempts" where
  "bump now w a = (let b = fresh_window now w a in b\<lparr>count := count b + 1\<rparr>)"

definition record_failure :: "nat \<Rightarrow> IpAddr \<Rightarrow> PairingState \<Rightarrow> PairingState" where
  "record_failure now source s =
     (let w = window_ns s;
          a = (case per_ip s source of Some a \<Rightarrow> a | None \<Rightarrow> \<lparr>count = 0, window_start = now\<rparr>)
      in s\<lparr>global := bump now w (global s), per_ip := (per_ip s)(source \<mapsto> bump now w a)\<rparr>)"

text \<open>Equal length, and the exclusive ors of the bytes folded together give zero.\<close>

definition pin_matches :: "string \<Rightarrow> string \<Rightarrow> bool" where
  "pin_matches attempt p \<longleftrightarrow>
     length attempt = length p
     \<and> fold (\<lambda>(a, b) acc. acc OR (of_char a XOR of_char b)) (zip attempt p) (0 :: u8) = 0"

section \<open>The manager's methods\<close>

definition current_pin :: "nat \<Rightarrow> nat \<Rightarrow> nat \<Rightarrow> PairingState \<Rightarrow> (string \<times> nat option) \<times> PairingState" where
  "current_pin now wall rp s =
     (let s1 = rotate_if_expired now wall rp s
      in ((pin s1, if 0 < pin_ttl_secs (pc s1)
                   then Some (pin_ttl_secs (pc s1) * second - (now - pin_issued s1)) else None), s1))"

definition rotate_pin :: "nat \<Rightarrow> nat \<Rightarrow> nat \<Rightarrow> PairingState \<Rightarrow> string \<times> PairingState" where
  "rotate_pin now wall rp s =
     (let s1 = persist now wall (s\<lparr>pin := random_pin rp, pin_issued := now, pin_failures := 0\<rparr>)
      in (pin s1, s1))"

definition pin_guard :: "PairingState \<Rightarrow> nat \<times> bool" where
  "pin_guard s = (pin_failures s, locked s)"

text \<open>\<open>rp\<close> is drawn where the PIN has expired, \<open>rp'\<close> where it rotates on success, \<open>sid\<close> the new token.\<close>

definition try_pair ::
  "nat \<Rightarrow> nat \<Rightarrow> nat \<Rightarrow> nat \<Rightarrow> string \<Rightarrow> IpAddr \<Rightarrow> string \<Rightarrow> PairingState
   \<Rightarrow> (PairError + string) \<times> PairingState" where
  "try_pair now wall rp rp' sid ip attempt s =
     (let source = rate_limit_key ip;
          s1 = rotate_if_expired now wall rp s
      in if locked s1 then (Inl Locked, s1)
         else
           (case rate_limited now source s1 of
              (Some r, s2) \<Rightarrow> (Inl (RateLimited r), s2)
            | (None, s2) \<Rightarrow>
                if \<not> pin_matches attempt (pin s2) then
                  (let s3 = record_failure now source s2;
                       s4 = persist now wall (s3\<lparr>pin_failures := min (pin_failures s3 + 1) u32_max\<rparr>)
                   in (Inl (if locked s4 then Locked else BadPin), s4))
                else
                  (let s3 = s2\<lparr>per_ip := (per_ip s2)(source := None), pin_failures := 0\<rparr>;
                       s4 = (if rotate_pin_on_pair (pc s3)
                             then s3\<lparr>pin := random_pin rp', pin_issued := now\<rparr> else s3);
                       s5 = persist now wall (insert_session wall sid s4)
                   in (Inr sid, s5))))"

definition mint_session :: "nat \<Rightarrow> nat \<Rightarrow> nat \<Rightarrow> string \<Rightarrow> PairingState \<Rightarrow> string \<times> PairingState" where
  "mint_session now wall rp sid s =
     (let s1 = insert_session wall sid s;
          s2 = (if rotate_pin_on_pair (pc s1) then s1\<lparr>pin := random_pin rp, pin_issued := now\<rparr> else s1)
      in (sid, persist now wall s2))"

definition validate_session :: "nat \<Rightarrow> nat \<Rightarrow> string \<Rightarrow> PairingState \<Rightarrow> string option \<times> PairingState" where
  "validate_session now wall sid s =
     (case kv_get sid (sessions s) of
        None \<Rightarrow> (None, s)
      | Some created \<Rightarrow>
          if session_ttl_secs (pc s) = 0 \<or> wall - created < session_ttl_secs (pc s) then (Some sid, s)
          else (None, persist now wall (s\<lparr>sessions := kv_del sid (sessions s)\<rparr>)))"

definition revoke_session :: "nat \<Rightarrow> nat \<Rightarrow> string \<Rightarrow> PairingState \<Rightarrow> PairingState" where
  "revoke_session now wall sid s =
     (if sid \<in> keys_of (sessions s)
      then persist now wall (s\<lparr>sessions := kv_del sid (sessions s)\<rparr>) else s)"

definition revoke_all_sessions :: "nat \<Rightarrow> nat \<Rightarrow> PairingState \<Rightarrow> PairingState" where
  "revoke_all_sessions now wall s = persist now wall (s\<lparr>sessions := []\<rparr>)"

definition session_controllers :: "string \<Rightarrow> PairingState \<Rightarrow> string list" where
  "session_controllers sid s = (case kv_get sid (bindings s) of Some ks \<Rightarrow> ks | None \<Rightarrow> [])"

definition bind_controller :: "nat \<Rightarrow> nat \<Rightarrow> string \<Rightarrow> string \<Rightarrow> PairingState \<Rightarrow> PairingState" where
  "bind_controller now wall sid controller s =
     (if sid \<notin> keys_of (sessions s) then s
      else
        let keys = session_controllers sid s; i = lower controller
        in if i \<in> set keys then s
           else
             let keys1 = keys @ [i];
                 keys2 = (if MAX_KEYS_PER_SESSION < length keys1 then tl keys1 else keys1)
             in persist now wall (s\<lparr>bindings := kv_put sid keys2 (bindings s)\<rparr>))"

definition revoke_controller_sessions :: "nat \<Rightarrow> nat \<Rightarrow> string \<Rightarrow> PairingState \<Rightarrow> nat \<times> PairingState" where
  "revoke_controller_sessions now wall controller s =
     (let doomed = map fst (filter (\<lambda>e. lower controller \<in> set (snd e)) (bindings s));
          s1 = s\<lparr>sessions := filter (\<lambda>e. fst e \<notin> set doomed) (sessions s)\<rparr>
      in (length doomed, if doomed \<noteq> [] then persist now wall s1 else s1))"

definition session_count :: "PairingState \<Rightarrow> nat" where "session_count s = length (sessions s)"

text \<open>Start-up: restore the stored PIN unless it outlived its time to live; prune; write if changed.\<close>

definition pairing_new :: "nat \<Rightarrow> nat \<Rightarrow> nat \<Rightarrow> PairingConfig \<Rightarrow> SessionFile option \<Rightarrow> PairingState" where
  "pairing_new now wall rp c file =
     (let st = (case (persist_sessions c, file) of (True, Some f) \<Rightarrow> f
                | _ \<Rightarrow> \<lparr>f_tokens = [], f_pin = None, f_pin_issued_unix = None, f_pin_failures = 0, f_bindings = []\<rparr>);
          age = (case f_pin_issued_unix st of Some t \<Rightarrow> Some (wall - t) | None \<Rightarrow> None);
          expired = (if pin_ttl_secs c = 0 then False
                     else (case age of Some a \<Rightarrow> pin_ttl_secs c \<le> a | None \<Rightarrow> True));
          (p, issued, is_fresh) =
            (case f_pin st of
               Some p \<Rightarrow> if \<not> expired
                 then (p, (case age of Some a \<Rightarrow> if a * second \<le> now then now - a * second else now
                                     | None \<Rightarrow> now), False)
                 else (random_pin rp, now, True)
             | None \<Rightarrow> (random_pin rp, now, True));
          s = \<lparr>pc = c, pin = p, pin_issued = issued, sessions = f_tokens st, stores = persist_sessions c,
               disk = (if persist_sessions c then file else None),
               global = \<lparr>count = 0, window_start = now\<rparr>, per_ip = Map.empty,
               pin_failures = f_pin_failures st, bindings = f_bindings st\<rparr>;
          s1 = prune_to wall MAX_SESSIONS s
      in if is_fresh \<or> length (sessions s1) \<noteq> length (sessions s) then persist now wall s1 else s1)"

section \<open>The PIN comparison\<close>

lemma of_char_u8: "(of_char a :: u8) = of_char b \<longleftrightarrow> a = b"
proof
  assume eq: "(of_char a :: u8) = of_char b"
  have "unat (of_char c :: u8) = (of_char c :: nat)" for c
  proof -
    have "(of_char c :: u8) = of_nat (of_char c)" by (simp add: of_char_def)
    moreover have "(of_char c :: nat) < 256" by simp
    ultimately show ?thesis by (simp only: unat_of_nat_u8) simp
  qed
  then have "(of_char a :: nat) = of_char b" using eq by metis
  then show "a = b" by simp
qed simp

lemma or_zero: "(a :: u8) OR b = 0 \<longleftrightarrow> a = 0 \<and> b = 0"
  by (auto simp: bit_eq_iff bit_or_iff)

lemma xor_zero: "(a :: u8) XOR b = 0 \<longleftrightarrow> a = b"
  by (auto simp: bit_eq_iff bit_xor_iff)

lemma fold_xor_zero:
  "fold (\<lambda>(a, b) acc. acc OR (of_char a XOR of_char b)) ps (z :: u8) = 0 \<longleftrightarrow>
     z = 0 \<and> (\<forall>(a, b) \<in> set ps. a = b)"
proof (induction ps arbitrary: z)
  case (Cons p ps)
  obtain a b where p: "p = (a, b)" by (cases p)
  show ?case using Cons.IH by (simp add: p or_zero xor_zero of_char_u8 conj_assoc)
qed simp

lemma pin_matches_iff: "pin_matches attempt p \<longleftrightarrow> attempt = p"
proof -
  have "(\<forall>(a, b) \<in> set (zip xs ys). a = b) \<longleftrightarrow> xs = ys" if "length xs = length ys" for xs ys :: string
    using that by (induction xs ys rule: list_induct2) auto
  from this [of attempt p] show ?thesis
    by (cases "length attempt = length p") (auto simp: pin_matches_def fold_xor_zero)
qed

lemma length_random_pin: "length (random_pin r) = 6"
proof -
  have "length (show_digits k n) = k" for k n by (induction k n rule: show_digits.induct) auto
  then show ?thesis by (simp add: random_pin_def)
qed

section \<open>Pruning\<close>

lemma prune_to_live:
  "keys_of (sessions (prune_to wall cap s)) \<subseteq> keys_of (sessions s)"
  "pc (prune_to wall cap s) = pc s" "bindings (prune_to wall cap s) = bindings s"
  "pin_failures (prune_to wall cap s) = pin_failures s" "disk (prune_to wall cap s) = disk s"
  "stores (prune_to wall cap s) = stores s" "global (prune_to wall cap s) = global s"
  by (auto simp: prune_to_def Let_def keys_of_def)

lemma string_le_total: "string_le a b \<or> string_le b a"
  by (induction a b rule: string_le.induct) (auto simp: Let_def)

lemma string_le_trans: "string_le a b \<Longrightarrow> string_le b c \<Longrightarrow> string_le a c"
proof (induction a b arbitrary: c rule: string_le.induct)
  case (3 x xs y ys)
  then show ?case by (cases c) (auto simp: Let_def)
qed (auto elim: string_le.elims)

lemma newer_first_total: "newer_first a b \<or> newer_first b a"
  using string_le_total by (auto simp: newer_first_def)

lemma newer_first_trans: "newer_first a b \<Longrightarrow> newer_first b c \<Longrightarrow> newer_first a c"
  using string_le_trans by (auto simp: newer_first_def)

lemma prune_to_spec:
  assumes wf: "wf_kv (sessions s)"
  shows "wf_kv (sessions (prune_to wall cap s)) \<and> length (sessions (prune_to wall cap s)) \<le> cap
    \<and> (length (sessions s) \<le> cap \<and> session_ttl_secs (pc s) = 0 \<longrightarrow> prune_to wall cap s = s)"
proof -
  define live where "live = (if 0 < session_ttl_secs (pc s)
    then filter (\<lambda>e. wall - snd e < session_ttl_secs (pc s)) (sessions s) else sessions s)"
  have wl: "wf_kv live" using wf by (simp add: live_def)
  define by_age where "by_age = sort_by newer_first (map (\<lambda>e. (snd e, fst e)) live)"
  have len: "length by_age = length live" by (simp add: by_age_def)
  have inj: "inj_on snd (set by_age)"
  proof -
    have "distinct (map fst live)" using wl by (simp add: wf_kv_def)
    then have "inj_on fst (set live)" by (simp add: distinct_map)
    then show ?thesis by (auto simp: by_age_def inj_on_def)
  qed
  have "distinct live" using wl by (simp add: wf_kv_def distinct_map)
  then have "distinct (map (\<lambda>e. (snd e, fst e)) live)"
    by (simp add: distinct_map inj_on_def prod_eq_iff)
  then have d: "distinct (map snd by_age)" using inj by (simp add: distinct_map by_age_def)
  have keys: "set (map snd by_age) = keys_of live" by (force simp: by_age_def keys_of_def)
  define doomed where "doomed = set (map snd (drop cap by_age))"
  have "set (map snd (take cap by_age)) = keys_of live - doomed"
    using set_take_diff_drop [OF d, of cap] keys by (simp add: doomed_def take_map drop_map)
  moreover have "keys_of (filter (\<lambda>e. fst e \<notin> doomed) live) = keys_of live - doomed"
    by (auto simp: keys_of_def)
  ultimately have "card (keys_of (filter (\<lambda>e. fst e \<notin> doomed) live)) \<le> cap"
    using card_length [of "map snd (take cap by_age)"] by simp
  then have "length (filter (\<lambda>e. fst e \<notin> doomed) live) \<le> cap"
    using wf_card [OF wf_filter [OF wl]] by metis
  moreover have "sessions (prune_to wall cap s) =
      (if length live \<le> cap then live else filter (\<lambda>e. fst e \<notin> doomed) live)"
    by (simp add: prune_to_def Let_def live_def [symmetric] by_age_def [symmetric] doomed_def)
  moreover have "length (sessions s) \<le> cap \<and> session_ttl_secs (pc s) = 0 \<longrightarrow> prune_to wall cap s = s"
    by (simp add: prune_to_def)
  ultimately show ?thesis using wl by auto
qed

section \<open>The store invariant\<close>

definition pairing_inv :: "PairingState \<Rightarrow> bool" where
  "pairing_inv s \<longleftrightarrow>
     wf_kv (sessions s) \<and> length (sessions s) \<le> MAX_SESSIONS
     \<and> wf_kv (bindings s) \<and> keys_of (bindings s) \<subseteq> keys_of (sessions s)
     \<and> (\<forall>e \<in> set (bindings s). length (snd e) \<le> MAX_KEYS_PER_SESSION)"

text \<open>What the last write recorded: the failures count in force.\<close>

definition disk_current :: "PairingState \<Rightarrow> bool" where
  "disk_current s \<longleftrightarrow> (stores s \<longrightarrow> (\<exists>f. disk s = Some f \<and> f_pin_failures f = pin_failures s))"

lemma persist_fields [simp]:
  "sessions (persist now wall s) = sessions s" "pin (persist now wall s) = pin s"
  "pc (persist now wall s) = pc s" "pin_failures (persist now wall s) = pin_failures s"
  "global (persist now wall s) = global s" "per_ip (persist now wall s) = per_ip s"
  "stores (persist now wall s) = stores s" "pin_issued (persist now wall s) = pin_issued s"
  by (simp_all add: persist_def Let_def)

lemma persist_bindings:
  "bindings (persist now wall s) = filter (\<lambda>e. fst e \<in> keys_of (sessions s)) (bindings s)"
  by (simp add: persist_def Let_def)

lemma persist_disk: "disk_current (persist now wall s)"
  by (simp add: disk_current_def persist_def Let_def)

text \<open>Everything but the subset is established by writing; the rest has to hold before.\<close>

lemma persist_inv:
  assumes "wf_kv (sessions s)" "length (sessions s) \<le> MAX_SESSIONS" "wf_kv (bindings s)"
    "\<forall>e \<in> set (bindings s). length (snd e) \<le> MAX_KEYS_PER_SESSION"
  shows "pairing_inv (persist now wall s)"
  using assms by (auto simp: pairing_inv_def persist_bindings keys_of_def)

lemma pairing_invD:
  "pairing_inv s \<Longrightarrow> wf_kv (sessions s)" "pairing_inv s \<Longrightarrow> length (sessions s) \<le> MAX_SESSIONS"
  "pairing_inv s \<Longrightarrow> wf_kv (bindings s)"
  "pairing_inv s \<Longrightarrow> \<forall>e \<in> set (bindings s). length (snd e) \<le> MAX_KEYS_PER_SESSION"
  "pairing_inv s \<Longrightarrow> keys_of (bindings s) \<subseteq> keys_of (sessions s)"
  by (auto simp: pairing_inv_def)

lemma insert_session_spec:
  assumes "wf_kv (sessions s)"
  shows "wf_kv (sessions (insert_session wall sid s)) \<and> length (sessions (insert_session wall sid s)) \<le> MAX_SESSIONS
    \<and> kv_get sid (sessions (insert_session wall sid s)) = Some wall
    \<and> keys_of (sessions (insert_session wall sid s)) \<subseteq> insert sid (keys_of (sessions s))
    \<and> bindings (insert_session wall sid s) = bindings s \<and> pc (insert_session wall sid s) = pc s
    \<and> pin_failures (insert_session wall sid s) = pin_failures s"
  using prune_to_spec [OF assms, of wall "MAX_SESSIONS - 1"] prune_to_live [of wall "MAX_SESSIONS - 1" s]
    length_put_le [of sid wall "sessions (prune_to wall (MAX_SESSIONS - 1) s)"]
  by (auto simp: insert_session_def Let_def MAX_SESSIONS_def)

interpretation cookie_store: capped_store "\<lambda>s. keys_of (sessions s)" snd
  "\<lambda>(wall, sid). insert_session wall sid" MAX_SESSIONS "\<lambda>s. wf_kv (sessions s)"
proof unfold_locales
  fix s :: PairingState and a :: "nat \<times> string"
  assume wf: "wf_kv (sessions s)"
  obtain wall sid where a: "a = (wall, sid)" by (cases a)
  note sp = insert_session_spec [OF wf, of wall sid]
  let ?t = "(\<lambda>(wall, sid). insert_session wall sid) a s"
  have t: "?t = insert_session wall sid s" by (simp add: a)
  show "wf_kv (sessions ?t)" using sp by (simp add: t)
  show "snd a \<in> keys_of (sessions ?t)" using sp get_some_key by (fastforce simp: t a)
  show "keys_of (sessions ?t) \<subseteq> insert (snd a) (keys_of (sessions s))" using sp by (simp add: t a)
  show "card (keys_of (sessions ?t)) \<le> MAX_SESSIONS" using sp wf_card by (metis t)
qed

lemma rotate_if_expired_keeps [simp]:
  "sessions (rotate_if_expired now wall rp s) = sessions s"
  "pc (rotate_if_expired now wall rp s) = pc s"
  "pin_failures (rotate_if_expired now wall rp s) = pin_failures s"
  "global (rotate_if_expired now wall rp s) = global s"
  "per_ip (rotate_if_expired now wall rp s) = per_ip s"
  by (simp_all add: rotate_if_expired_def)

lemma rotate_if_expired_inv: "pairing_inv s \<Longrightarrow> pairing_inv (rotate_if_expired now wall rp s)"
  using pairing_invD [of s] by (simp add: rotate_if_expired_def persist_inv)

lemma rate_limited_keeps:
  "rate_limited now ip s = (r, s') \<Longrightarrow>
     sessions s' = sessions s \<and> pc s' = pc s \<and> pin s' = pin s \<and> pin_failures s' = pin_failures s
     \<and> bindings s' = bindings s \<and> disk s' = disk s \<and> stores s' = stores s
     \<and> global s' = fresh_window now (window_ns s) (global s)"
  by (auto simp: rate_limited_def Let_def split: option.splits if_splits)

lemma pairing_inv_cong:
  "pairing_inv s \<Longrightarrow> sessions t = sessions s \<Longrightarrow> bindings t = bindings s \<Longrightarrow> pairing_inv t"
  by (simp add: pairing_inv_def)

text \<open>The attempt in cases: refused unseen, a wrong PIN, or the right one.\<close>

definition reaches_compare :: "nat \<Rightarrow> nat \<Rightarrow> nat \<Rightarrow> IpAddr \<Rightarrow> PairingState \<Rightarrow> bool" where
  "reaches_compare now wall rp ip s \<longleftrightarrow>
     \<not> locked (rotate_if_expired now wall rp s)
     \<and> fst (rate_limited now (rate_limit_key ip) (rotate_if_expired now wall rp s)) = None"

lemma try_pair_cases:
  obtains (refused) e t where "\<not> reaches_compare now wall rp ip s" "try_pair now wall rp rp' sid ip g s = (Inl e, t)"
      "e \<noteq> BadPin" "sessions t = sessions s" "pin_failures t = pin_failures s" "pc t = pc s"
      "bindings t = bindings (rotate_if_expired now wall rp s)"
      "global t = global s \<or> global t = fresh_window now (window_ns s) (global s)"
      "locked s \<longrightarrow> e = Locked"
  | (wrong) e t where "reaches_compare now wall rp ip s" "g \<noteq> pin (rotate_if_expired now wall rp s)"
      "try_pair now wall rp rp' sid ip g s = (Inl e, t)" "sessions t = sessions s" "pc t = pc s"
      "pin_failures t = min (pin_failures s + 1) u32_max"
      "bindings t = filter (\<lambda>x. fst x \<in> keys_of (sessions s)) (bindings (rotate_if_expired now wall rp s))"
      "global t = bump now (window_ns s) (fresh_window now (window_ns s) (global s))"
      "disk_current t" "\<not> locked s" "count (fresh_window now (window_ns s) (global s)) < max_attempts (pc s)"
  | (right) t u where "reaches_compare now wall rp ip s" "g = pin (rotate_if_expired now wall rp s)"
      "try_pair now wall rp rp' sid ip g s = (Inr sid, t)" "pc t = pc s"
      "t = persist now wall (insert_session wall sid u)" "sessions u = sessions s"
      "bindings u = bindings (rotate_if_expired now wall rp s)" "pin_failures u = 0" "pc u = pc s"
proof -
  let ?s1 = "rotate_if_expired now wall rp s" and ?src = "rate_limit_key ip"
  have lk: "locked ?s1 = locked s" by (simp add: locked_def)
  have w: "window_ns ?s1 = window_ns s" by (simp add: window_ns_def)
  obtain r s2 where rl: "rate_limited now ?src ?s1 = (r, s2)" by fastforce
  note keep = rate_limited_keeps [OF rl]
  show thesis
  proof (cases "locked ?s1")
    case True
    then show thesis
      using refused [of Locked ?s1] lk by (simp add: try_pair_def Let_def reaches_compare_def)
  next
    case unlocked: False
    show thesis
    proof (cases r)
      case (Some q)
      then show thesis
        using refused [of "RateLimited q" s2] unlocked rl keep lk w
        by (simp add: try_pair_def Let_def reaches_compare_def)
    next
      case None
      have rc: "reaches_compare now wall rp ip s" using unlocked rl None by (simp add: reaches_compare_def)
      have cnt: "count (fresh_window now (window_ns s) (global s)) < max_attempts (pc s)"
        using rl None w by (auto simp: rate_limited_def Let_def split: if_splits)
      show thesis
      proof (cases "pin_matches g (pin s2)")
        case False
        let ?s3 = "record_failure now ?src s2"
        let ?s4 = "persist now wall (?s3\<lparr>pin_failures := min (pin_failures ?s3 + 1) u32_max\<rparr>)"
        have rf: "sessions ?s3 = sessions s2" "pc ?s3 = pc s2" "pin_failures ?s3 = pin_failures s2"
          "bindings ?s3 = bindings s2" "global ?s3 = bump now (window_ns s2) (global s2)"
          by (simp_all add: record_failure_def Let_def)
        have w2: "window_ns s2 = window_ns s" using keep by (simp add: window_ns_def)
        show thesis
          by (rule wrong [of "if locked ?s4 then Locked else BadPin" ?s4])
            (use False unlocked rl None keep lk rc cnt w w2 in
              \<open>simp_all add: try_pair_def Let_def pin_matches_iff rf persist_bindings persist_disk\<close>)
      next
        case True
        let ?s3 = "s2\<lparr>per_ip := (per_ip s2)(?src := None), pin_failures := 0\<rparr>"
        let ?s4 = "if rotate_pin_on_pair (pc ?s3) then ?s3\<lparr>pin := random_pin rp', pin_issued := now\<rparr> else ?s3"
        show thesis
          by (rule right [of "persist now wall (insert_session wall sid ?s4)" ?s4])
            (use True unlocked rl None keep rc in
              \<open>auto simp: try_pair_def Let_def pin_matches_iff insert_session_def prune_to_live\<close>)
      qed
    qed
  qed
qed

lemma bindings_cut:
  "pairing_inv s \<Longrightarrow> sessions t = sessions s \<Longrightarrow> bindings t = filter P (bindings s) \<Longrightarrow> pairing_inv t"
  by (auto simp: pairing_inv_def keys_of_def)

lemma insert_persist_inv:
  assumes "pairing_inv u"
  shows "pairing_inv (persist now wall (insert_session wall sid u))"
  using insert_session_spec [of u wall sid] pairing_invD [OF assms] by (intro persist_inv) auto

lemma try_pair_inv:
  assumes "pairing_inv s"
  shows "pairing_inv (snd (try_pair now wall rp rp' sid ip g s))"
proof -
  note r = rotate_if_expired_inv [OF assms, of now wall rp]
  show ?thesis
  proof (cases rule: try_pair_cases [of now wall rp ip s rp' sid g])
    case (refused e t)
    then show ?thesis using pairing_inv_cong [OF r] by simp
  next
    case (wrong e t)
    then show ?thesis using bindings_cut [OF r] by simp
  next
    case (right t u)
    have "pairing_inv u" using pairing_inv_cong [OF r] right by simp
    then show ?thesis using insert_persist_inv right by simp
  qed
qed

lemma mint_session_inv: "pairing_inv s \<Longrightarrow> pairing_inv (snd (mint_session now wall rp sid s))"
  using insert_session_spec [of s wall sid] pairing_invD [of s]
  by (simp add: mint_session_def Let_def persist_inv)

lemma validate_session_inv: "pairing_inv s \<Longrightarrow> pairing_inv (snd (validate_session now wall sid s))"
  using pairing_invD [of s] le_trans [OF length_del_le [of sid "sessions s"]]
  by (auto simp: validate_session_def split: option.split intro!: persist_inv)

lemma revoke_session_inv: "pairing_inv s \<Longrightarrow> pairing_inv (revoke_session now wall sid s)"
  using pairing_invD [of s] le_trans [OF length_del_le [of sid "sessions s"]]
  by (simp add: revoke_session_def persist_inv)

lemma revoke_all_inv: "pairing_inv s \<Longrightarrow> pairing_inv (revoke_all_sessions now wall s)"
  using pairing_invD [of s] by (simp add: revoke_all_sessions_def persist_inv)

lemma rotate_pin_inv: "pairing_inv s \<Longrightarrow> pairing_inv (snd (rotate_pin now wall rp s))"
  using pairing_invD [of s] by (simp add: rotate_pin_def Let_def persist_inv)

lemma current_pin_inv: "pairing_inv s \<Longrightarrow> pairing_inv (snd (current_pin now wall rp s))"
  by (simp add: current_pin_def Let_def rotate_if_expired_inv)

lemma kv_get_in: "kv_get k m = Some v \<Longrightarrow> (k, v) \<in> set m"
  by (simp add: kv_get_def map_of_SomeD)

lemma bind_controller_inv:
  assumes "pairing_inv s"
  shows "pairing_inv (bind_controller now wall sid c s)"
proof -
  let ?ks = "session_controllers sid s"
  have len: "length ?ks \<le> MAX_KEYS_PER_SESSION"
    using pairing_invD(4) [OF assms] kv_get_in [of sid "bindings s"]
    by (force simp: session_controllers_def split: option.split)
  let ?new = "if MAX_KEYS_PER_SESSION < length (?ks @ [lower c]) then tl (?ks @ [lower c]) else ?ks @ [lower c]"
  have new: "length ?new \<le> MAX_KEYS_PER_SESSION" using len by auto
  have "\<forall>e \<in> set (kv_put sid ?new (bindings s)). length (snd e) \<le> MAX_KEYS_PER_SESSION"
    using new pairing_invD(4) [OF assms] unfolding kv_put_def kv_del_def by auto
  then show ?thesis
    using pairing_invD [OF assms] assms unfolding bind_controller_def Let_def
    by (auto simp del: length_append intro!: persist_inv)
qed

lemma revoke_controller_inv:
  assumes "pairing_inv s"
  shows "pairing_inv (snd (revoke_controller_sessions now wall c s))"
proof -
  have "length (filter P (sessions s)) \<le> MAX_SESSIONS" for P
    using le_trans [OF length_filter_le pairing_invD(2) [OF assms]] .
  then show ?thesis
    using pairing_invD [OF assms] assms
    by (auto simp: revoke_controller_sessions_def Let_def intro!: persist_inv)
      (simp add: pairing_inv_cong)?
qed

lemma revoke_controller_spec:
  assumes "lower c \<in> set (session_controllers sid s)"
  shows "sid \<notin> keys_of (sessions (snd (revoke_controller_sessions now wall c s)))"
proof -
  obtain ks where ks: "kv_get sid (bindings s) = Some ks" "lower c \<in> set ks"
    using assms by (cases "kv_get sid (bindings s)") (auto simp: session_controllers_def)
  then have "(sid, ks) \<in> set (bindings s)" by (simp add: kv_get_in)
  with ks(2) have doomed: "sid \<in> set (map fst (filter (\<lambda>e. lower c \<in> set (snd e)) (bindings s)))" by force
  then have "map fst (filter (\<lambda>e. lower c \<in> set (snd e)) (bindings s)) \<noteq> []"
    by (metis list.set(1) empty_iff)
  then have eq: "sessions (snd (revoke_controller_sessions now wall c s)) =
      filter (\<lambda>e. fst e \<notin> set (map fst (filter (\<lambda>e. lower c \<in> set (snd e)) (bindings s)))) (sessions s)"
    by (simp add: revoke_controller_sessions_def Let_def)
  have "sid \<notin> keys_of (filter (\<lambda>e. fst e \<notin> D) (sessions s))" if "sid \<in> D" for D
    using that by (auto simp: keys_of_def)
  from this [OF doomed] show ?thesis by (simp only: eq not_False_eq_True)
qed

text \<open>The methods in any order.\<close>

datatype PairingOp =
    OpPair nat nat nat nat string IpAddr string
  | OpMint nat nat nat string
  | OpValidate nat nat string
  | OpRevoke nat nat string
  | OpRevokeAll nat nat
  | OpBind nat nat string string
  | OpRevokeKey nat nat string
  | OpRotate nat nat nat
  | OpShow nat nat nat

fun run_op :: "PairingOp \<Rightarrow> PairingState \<Rightarrow> PairingState" where
  "run_op (OpPair now wall rp rp' sid ip g) s = snd (try_pair now wall rp rp' sid ip g s)"
| "run_op (OpMint now wall rp sid) s = snd (mint_session now wall rp sid s)"
| "run_op (OpValidate now wall sid) s = snd (validate_session now wall sid s)"
| "run_op (OpRevoke now wall sid) s = revoke_session now wall sid s"
| "run_op (OpRevokeAll now wall) s = revoke_all_sessions now wall s"
| "run_op (OpBind now wall sid c) s = bind_controller now wall sid c s"
| "run_op (OpRevokeKey now wall c) s = snd (revoke_controller_sessions now wall c s)"
| "run_op (OpRotate now wall rp) s = snd (rotate_pin now wall rp s)"
| "run_op (OpShow now wall rp) s = snd (current_pin now wall rp s)"

lemmas op_invs = try_pair_inv mint_session_inv validate_session_inv revoke_session_inv revoke_all_inv
  bind_controller_inv revoke_controller_inv rotate_pin_inv current_pin_inv

lemma run_op_inv: "pairing_inv s \<Longrightarrow> pairing_inv (run_op x s)"
  by (cases x) (simp_all add: op_invs)

lemma run_ops_inv: "pairing_inv s \<Longrightarrow> pairing_inv (fold run_op xs s)"
  by (induction xs arbitrary: s) (auto intro: run_op_inv)

section \<open>Bounded guessing\<close>

record guess =
  g_now :: nat
  g_wall :: nat
  g_rp :: nat
  g_rp2 :: nat
  g_sid :: string
  g_ip :: IpAddr
  g_pin :: string

definition guess_once :: "guess \<Rightarrow> PairingState \<Rightarrow> (PairError + string) \<times> PairingState" where
  "guess_once g s = try_pair (g_now g) (g_wall g) (g_rp g) (g_rp2 g) (g_sid g) (g_ip g) (g_pin g) s"

text \<open>How many of the attempts are compared with a PIN, and whether every one of them fails.\<close>

fun compared :: "guess list \<Rightarrow> PairingState \<Rightarrow> nat" where
  "compared [] s = 0"
| "compared (g # gs) s =
     (if reaches_compare (g_now g) (g_wall g) (g_rp g) (g_ip g) s then 1 else 0)
     + compared gs (snd (guess_once g s))"

fun all_fail :: "guess list \<Rightarrow> PairingState \<Rightarrow> bool" where
  "all_fail [] s = True"
| "all_fail (g # gs) s = (isl (fst (guess_once g s)) \<and> all_fail gs (snd (guess_once g s)))"

lemma lockout_bound:
  assumes "0 < lockout_after (pc s)" "lockout_after (pc s) \<le> u32_max" "all_fail gs s"
  shows "compared gs s \<le> lockout_after (pc s) - pin_failures s"
  using assms
proof (induction gs arbitrary: s)
  case (Cons g gs)
  show ?case
  proof (cases rule: try_pair_cases [of "g_now g" "g_wall g" "g_rp g" "g_ip g" s "g_rp2 g" "g_sid g" "g_pin g"])
    case (refused e t)
    have "compared gs t \<le> lockout_after (pc t) - pin_failures t"
      by (rule Cons.IH) (use Cons.prems refused in \<open>auto simp: guess_once_def\<close>)
    then show ?thesis using refused by (simp add: guess_once_def)
  next
    case (wrong e t)
    have "compared gs t \<le> lockout_after (pc t) - pin_failures t"
      by (rule Cons.IH) (use Cons.prems wrong in \<open>auto simp: guess_once_def\<close>)
    moreover have "pin_failures s < lockout_after (pc s)"
      using wrong(10) Cons.prems(1) by (auto simp: locked_def)
    ultimately show ?thesis using wrong Cons.prems(2) by (simp add: guess_once_def)
  next
    case (right t u)
    then show ?thesis using Cons.prems by (simp add: guess_once_def)
  qed
qed simp

lemma fresh_window_in: "now - window_start a < w \<Longrightarrow> fresh_window now w a = a"
  by (simp add: fresh_window_def)

lemma rate_bound:
  assumes "\<forall>g \<in> set gs. g_now g - window_start (global s) < window_ns s" "all_fail gs s"
  shows "compared gs s \<le> max_attempts (pc s) - count (global s)"
  using assms
proof (induction gs arbitrary: s)
  case (Cons g gs)
  have fw: "fresh_window (g_now g) (window_ns s) (global s) = global s"
    using Cons.prems(1) by (intro fresh_window_in) simp
  show ?case
  proof (cases rule: try_pair_cases [of "g_now g" "g_wall g" "g_rp g" "g_ip g" s "g_rp2 g" "g_sid g" "g_pin g"])
    case (refused e t)
    then have "global t = global s" "window_ns t = window_ns s" using fw by (auto simp: window_ns_def)
    moreover have "compared gs t \<le> max_attempts (pc t) - count (global t)"
      by (rule Cons.IH) (use Cons.prems refused calculation in \<open>auto simp: guess_once_def\<close>)
    ultimately show ?thesis using refused by (simp add: guess_once_def)
  next
    case (wrong e t)
    then have g: "global t = (global s)\<lparr>count := count (global s) + 1\<rparr>" "window_ns t = window_ns s"
      using fw by (simp_all add: bump_def Let_def window_ns_def)
    then have ws: "window_start (global t) = window_start (global s)" by simp
    have "compared gs t \<le> max_attempts (pc t) - count (global t)"
    proof (rule Cons.IH)
      show "\<forall>x \<in> set gs. g_now x - window_start (global t) < window_ns t"
        unfolding ws g(2) using Cons.prems(1) by simp
      show "all_fail gs t" using Cons.prems(2) wrong(3) by (simp add: guess_once_def)
    qed
    then show ?thesis using wrong(1,3,5,11) unfolding g(1) fw by (simp add: guess_once_def)
  next
    case (right t u)
    then show ?thesis using Cons.prems by (simp add: guess_once_def)
  qed
qed simp

section \<open>Properties\<close>

definition demo_pairing :: PairingState where
  "demo_pairing = pairing_new 0 1000 123456 (default_pairing\<lparr>lockout_after := 2\<rparr>) None"

lemma demo_pairing_facts:
  "pairing_inv demo_pairing" "pc demo_pairing = default_pairing\<lparr>lockout_after := 2\<rparr>"
  "pin demo_pairing = ''123456''" "pin_failures demo_pairing = 0"
  "global demo_pairing = \<lparr>count = 0, window_start = 0\<rparr>"
proof -
  have p: "random_pin 123456 = ''123456''" by code_simp
  show "pairing_inv demo_pairing" "pc demo_pairing = default_pairing\<lparr>lockout_after := 2\<rparr>"
    "pin demo_pairing = ''123456''" "pin_failures demo_pairing = 0"
    "global demo_pairing = \<lparr>count = 0, window_start = 0\<rparr>"
    by (simp_all add: demo_pairing_def pairing_new_def default_pairing_def Let_def p prune_to_def
        pairing_inv_def persist_bindings)
qed

definition wrong_guess :: "nat \<Rightarrow> guess" where
  "wrong_guess t = \<lparr>g_now = t, g_wall = 1000, g_rp = 0, g_rp2 = 0, g_sid = ''s'', g_ip = V4 7, g_pin = ''000000''\<rparr>"

text \<open>C20. Whatever is called in whatever order, the cookie store stays within its cap with one entry per
  token, device keys are bound only to sessions that exist, and no session remembers more than
  four of them.\<close>

theorem pairing_store_invariant:
  assumes "pairing_inv s"
  shows "pairing_inv (fold run_op ops s) \<and> session_count (fold run_op ops s) \<le> MAX_SESSIONS"
  using run_ops_inv [OF assms, of ops] pairing_invD(2) by (simp add: session_count_def)

lemma pairing_store_invariant_witness:
  "pairing_inv (fold run_op [OpMint 1 1000 5 ''tok'', OpBind 2 1000 ''tok'' ''AB'', OpRevokeKey 3 1000 ''ab''] demo_pairing)"
  using pairing_store_invariant [OF demo_pairing_facts(1)] by blast


lemma demo_guesses_fail:
  "all_fail [wrong_guess 1, wrong_guess 2, wrong_guess 3] demo_pairing"
  "compared [wrong_guess 1, wrong_guess 2, wrong_guess 3] demo_pairing = 2"
  by code_simp+


text \<open>Within one attempt window at most \<open>max_attempts\<close> wrong PINs are compared, whatever the
  addresses they come from.\<close>

theorem pin_rate_limit:
  assumes "\<forall>g \<in> set gs. g_now g - window_start (global s) < window_ns s" "all_fail gs s"
  shows "compared gs s \<le> max_attempts (pc s) - count (global s)"
  by (rule rate_bound [OF assms])

lemma pin_rate_limit_witness:
  "compared [wrong_guess 1, wrong_guess 2, wrong_guess 3] demo_pairing \<le> 5"
proof -
  have "\<forall>g \<in> set [wrong_guess 1, wrong_guess 2, wrong_guess 3].
      g_now g - window_start (global demo_pairing) < window_ns demo_pairing"
    by (simp add: demo_pairing_facts wrong_guess_def window_ns_def default_pairing_def second_def)
  from pin_rate_limit [OF this demo_guesses_fail(1)] show ?thesis
    by (simp add: demo_pairing_facts default_pairing_def)
qed

text \<open>A locked host stays locked: every attempt is refused and changes neither sessions nor the
  count of failures, the lock survives a restart from the file, and only the owner's new PIN
  lifts it.\<close>

theorem pin_lock_is_permanent:
  assumes "locked s"
  shows "(\<exists>t. try_pair now wall rp rp' sid ip g s = (Inl Locked, t) \<and> locked t \<and> sessions t = sessions s
      \<and> pin_failures t = pin_failures s)
    \<and> (disk_current s \<and> stores s \<and> persist_sessions (pc s) \<longrightarrow>
        locked (pairing_new now' wall' rp'' (pc s) (disk s)))
    \<and> \<not> locked (snd (rotate_pin now wall rp s))"
proof (intro conjI impI)
  show "\<exists>t. try_pair now wall rp rp' sid ip g s = (Inl Locked, t) \<and> locked t \<and> sessions t = sessions s
      \<and> pin_failures t = pin_failures s"
    using assms
    by (cases rule: try_pair_cases [of now wall rp ip s rp' sid g])
      (auto simp: locked_def reaches_compare_def)
  have "pc (pairing_new n w r c f) = c" for n w r c f
    by (simp add: pairing_new_def Let_def split_beta prune_to_live)
  moreover have "pin_failures (pairing_new n w r c (Some f)) = f_pin_failures f" if "persist_sessions c" for n w r c f
    using that by (simp add: pairing_new_def Let_def split_beta prune_to_live)
  ultimately show "locked (pairing_new now' wall' rp'' (pc s) (disk s))"
    if "disk_current s \<and> stores s \<and> persist_sessions (pc s)"
    using assms that by (auto simp: locked_def disk_current_def)
  show "\<not> locked (snd (rotate_pin now wall rp s))"
    by (auto simp: locked_def rotate_pin_def Let_def)
qed

lemma pin_lock_is_permanent_witness:
  "fst (try_pair 9 1000 0 0 ''t'' (V4 8) ''123456''
      (snd (guess_once (wrong_guess 2) (snd (guess_once (wrong_guess 1) demo_pairing))))) = Inl Locked"
proof -
  have "locked (snd (guess_once (wrong_guess 2) (snd (guess_once (wrong_guess 1) demo_pairing))))"
    by code_simp
  from pin_lock_is_permanent [OF this, THEN conjunct1, of 9 1000 0 0 "''t''" "V4 8" "''123456''"]
  show ?thesis by (metis fst_conv)
qed

text \<open>Pairing succeeds only with the PIN in force; it hands out a session that validates at once,
  clears the failures and leaves at most the new token in the store that was not there before.\<close>

theorem pairing_success:
  assumes "try_pair now wall rp rp' sid ip g s = (Inr t, s')" "pairing_inv s"
  shows "t = sid \<and> g = pin (rotate_if_expired now wall rp s) \<and> \<not> locked s
    \<and> fst (validate_session now' wall sid s') = Some sid \<and> pin_failures s' = 0
    \<and> keys_of (sessions s') \<subseteq> insert sid (keys_of (sessions s))"
proof (cases rule: try_pair_cases [of now wall rp ip s rp' sid g])
  case (right v u)
  have wf: "wf_kv (sessions u)" using right(6) pairing_invD(1) [OF assms(2)] by simp
  note sp = insert_session_spec [OF wf, of wall sid]
  have "\<not> locked s" using right(1) by (simp add: reaches_compare_def locked_def)
  then show ?thesis using right sp assms(1) by (auto simp: validate_session_def)
qed (use assms in auto)

lemma pairing_success_witness:
  "\<exists>s'. try_pair 5 1000 0 7 ''tok'' (V4 7) ''123456'' demo_pairing = (Inr ''tok'', s')
     \<and> fst (validate_session 6 1000 ''tok'' s') = Some ''tok''"
proof -
  have "fst (try_pair 5 1000 0 7 ''tok'' (V4 7) ''123456'' demo_pairing) = Inr ''tok''" by code_simp
  then obtain s' where s': "try_pair 5 1000 0 7 ''tok'' (V4 7) ''123456'' demo_pairing = (Inr ''tok'', s')"
    by (metis prod.collapse)
  from pairing_success [OF s' demo_pairing_facts(1), of 6] s' show ?thesis by auto
qed

text \<open>Revoking a device's key revokes every session that key is bound to.\<close>

theorem revoking_key_revokes_sessions:
  assumes "lower c \<in> set (session_controllers sid s)"
  shows "fst (validate_session now' wall' sid (snd (revoke_controller_sessions now wall c s))) = None"
  using revoke_controller_spec [OF assms, of now wall, folded get_none_iff]
  by (simp add: validate_session_def)

lemma revoking_key_revokes_sessions_witness:
  "fst (validate_session 9 1000 ''tok''
      (snd (revoke_controller_sessions 8 1000 ''Ab'' (bind_controller 7 1000 ''tok'' ''AB''
         (snd (mint_session 6 1000 5 ''tok'' demo_pairing)))))) = None"
proof -
  have "lower ''Ab'' \<in> set (session_controllers ''tok'' (bind_controller 7 1000 ''tok'' ''AB''
         (snd (mint_session 6 1000 5 ''tok'' demo_pairing))))" by code_simp
  from revoking_key_revokes_sessions [OF this] show ?thesis .
qed

end
