(* ===== verification/Bitrate.thy ===== *)
theory Bitrate
  imports Floats InPhasePrelude
begin

text \<open>
  The adaptive bitrate controller (\<open>crates/host/src/media/bitrate.rs\<close>) and the fixed congestion
  window it relies on (\<open>media/wt/congestion.rs\<close>). Rates are \<open>u32\<close> kilobits per second, the
  arithmetic on them is \<open>f32\<close> with its rounding, and a decimal constant is the \<open>f32\<close> nearest to
  it. \<open>bstep\<close> is one report, with the branches and early returns in the source's order; the
  branch taken on a tick without objection is \<open>clean_tick\<close>.
\<close>

section \<open>The congestion window\<close>

definition REALTIME_WINDOW_BYTES :: nat where "REALTIME_WINDOW_BYTES = 4 * 1024 * 1024"

record RealtimeWindow =
  rw_window :: nat

definition window_build :: "nat \<Rightarrow> RealtimeWindow" where "window_build w = \<lparr>rw_window = w\<rparr>"

datatype WindowEvent = CongestionEvent bool nat | MtuUpdate nat

definition window_event :: "WindowEvent \<Rightarrow> RealtimeWindow \<Rightarrow> RealtimeWindow" where
  "window_event ev w = (case ev of CongestionEvent _ _ \<Rightarrow> w | MtuUpdate _ \<Rightarrow> w)"

lemma window_fixed: "fold window_event evs w = w"
  by (induction evs) (auto simp: window_event_def split: WindowEvent.split)

section \<open>State\<close>

definition dec :: "int \<Rightarrow> int \<Rightarrow> f32" where "dec n d = f32_of (of_int n / of_int d)"

definition WT_PACE_TO_CEILING :: f32 where "WT_PACE_TO_CEILING = dec 7368 1000"
definition WT_PACED_CEILING_KBPS :: nat where "WT_PACED_CEILING_KBPS = 28000"

record Feedback =
  lost_delta :: nat
  recv_kbps :: f32
  decoded_fps :: f32
  target_fps :: nat
  rtt_ms :: f32
  rtp_backlog_ms :: f32
  have_client :: bool
  client_lat_p95_ms :: f32
  v4_datagram_carrier :: bool
  v4_pace_pps :: nat
  inferred_loss_frac :: "f32 option"

record BitrateController =
  kbps :: nat
  bfloor :: nat
  bceiling :: nat
  cooldown :: nat
  warmup :: nat
  clean_streak :: nat
  lossy_streak :: nat
  soft_ceiling :: "f32 option"
  ceiling_from_delay :: bool

definition controller_new :: "nat \<Rightarrow> nat \<Rightarrow> nat \<Rightarrow> BitrateController" where
  "controller_new start lo hi =
     (let c = max hi lo in
      \<lparr>kbps = clampN start lo c, bfloor = lo, bceiling = c, cooldown = 0, warmup = 4,
       clean_streak = 0, lossy_streak = 0, soft_ceiling = None, ceiling_from_delay = False\<rparr>)"

section \<open>Cuts\<close>

definition first_objection_of_episode :: "BitrateController \<Rightarrow> bool" where
  "first_objection_of_episode b \<longleftrightarrow> soft_ceiling b = None \<or> 0 < clean_streak b"

definition mark_loss_ceiling :: "BitrateController \<Rightarrow> BitrateController" where
  "mark_loss_ceiling b =
     (let b1 = (if first_objection_of_episode b then b\<lparr>soft_ceiling := Some (f32_nat (kbps b))\<rparr> else b)
      in b1\<lparr>clean_streak := 0, ceiling_from_delay := False\<rparr>)"

definition mark_delay_ceiling :: "BitrateController \<Rightarrow> BitrateController" where
  "mark_delay_ceiling b =
     (let start = first_objection_of_episode b; b1 = mark_loss_ceiling b
      in if start then b1\<lparr>ceiling_from_delay := True\<rparr> else b1)"

definition decrease_to :: "nat \<Rightarrow> BitrateController \<Rightarrow> BitrateController" where
  "decrease_to target b = b\<lparr>kbps := min (max target (bfloor b)) (kbps b)\<rparr>"

definition scaled :: "f32 \<Rightarrow> BitrateController \<Rightarrow> nat" where
  "scaled x b = to_u32 (f32_mul (f32_nat (kbps b)) x)"

definition cut :: "nat \<Rightarrow> nat \<Rightarrow> BitrateController \<Rightarrow> BitrateController" where
  "cut target cool b = (decrease_to target b)\<lparr>cooldown := cool, clean_streak := 0\<rparr>"

section \<open>Climbing\<close>

definition paced_ceiling :: "Feedback \<Rightarrow> nat" where
  "paced_ceiling fb =
     (if 0 < v4_pace_pps fb then to_u32 (f32_mul (f32_nat (v4_pace_pps fb)) WT_PACE_TO_CEILING)
      else WT_PACED_CEILING_KBPS)"

definition decoding :: "Feedback \<Rightarrow> BitrateController \<Rightarrow> bool" where
  "decoding fb b \<longleftrightarrow>
     0 < decoded_fps fb
     \<and> (f32_mul (f32_nat (target_fps fb)) (dec 1 2) \<le> decoded_fps fb
        \<or> recv_kbps fb < f32_mul (f32_nat (kbps b)) (dec 2 10))"

text \<open>The remembered ceiling drifts up, and is forgotten after long enough a clean stretch.\<close>

definition relax :: "Feedback \<Rightarrow> BitrateController \<Rightarrow> BitrateController" where
  "relax fb b =
     (case soft_ceiling b of
        None \<Rightarrow> b
      | Some sc \<Rightarrow>
          let creep = (if ceiling_from_delay b
                       then (if client_lat_p95_ms fb \<le> 50 then dec 102 100 else 1)
                       else dec 103 100);
              relaxed = f32_mul sc creep;
              b1 = b\<lparr>soft_ceiling := (if f32_nat (bceiling b) \<le> relaxed then None else Some relaxed)\<rparr>;
              b2 = (if 45 \<le> clean_streak b1 \<and> ceiling_from_delay b1
                    then b1\<lparr>soft_ceiling := None, ceiling_from_delay := False\<rparr> else b1)
          in if 30 \<le> clean_streak b2 \<and> \<not> ceiling_from_delay b2 then b2\<lparr>soft_ceiling := None\<rparr> else b2)"

definition probe_cap :: "Feedback \<Rightarrow> BitrateController \<Rightarrow> nat" where
  "probe_cap fb b =
     (let p = clampN (case soft_ceiling b of Some sc \<Rightarrow> to_u32 (f32_mul sc (dec 9 10)) | None \<Rightarrow> bceiling b)
                (bfloor b) (bceiling b)
      in if v4_datagram_carrier fb then min p (max (paced_ceiling fb) (bfloor b)) else p)"

definition may_climb :: "Feedback \<Rightarrow> BitrateController \<Rightarrow> bool" where
  "may_climb fb b \<longleftrightarrow>
     cooldown b = 0 \<and> decoding fb b \<and> kbps b < bceiling b \<and> rtp_backlog_ms fb < 25
     \<and> 0 \<le> client_lat_p95_ms fb \<and> client_lat_p95_ms fb \<le> 100
     \<and> \<not> (case inferred_loss_frac fb of Some l \<Rightarrow> dec 2 100 \<le> l | None \<Rightarrow> False)"

definition climb :: "Feedback \<Rightarrow> BitrateController \<Rightarrow> BitrateController" where
  "climb fb b =
     (let cap = probe_cap fb b; low_rtt = 1 < rtt_ms fb \<and> rtt_ms fb < 40
      in if kbps b < cap then
           (if low_rtt \<and> 2 \<le> clean_streak b
            then b\<lparr>kbps := min (sat_mul32 (kbps b) 13 div 10) cap\<rparr>
            else if 3 \<le> clean_streak b
            then b\<lparr>kbps := min (wrap_add32 (kbps b) (max (kbps b div 5) 200)) cap\<rparr>
            else b)
         else b)"

text \<open>
  The climb condition reads whether the client is decoding from before the ceiling relaxes, but
  nothing it reads is changed by that.
\<close>

definition clean_tick :: "Feedback \<Rightarrow> BitrateController \<Rightarrow> BitrateController" where
  "clean_tick fb b =
     (let b1 = relax fb (b\<lparr>clean_streak := sat_inc8 (clean_streak b)\<rparr>)
      in if may_climb fb b1 then climb fb b1 else b1)"

section \<open>One report\<close>

definition loss_frac :: "Feedback \<Rightarrow> f32" where
  "loss_frac fb =
     (let recv_pps = max (f32_div (f32_div (f32_mul (recv_kbps fb) 1000) 8) 1100) 0;
          denom = f32_add (f32_nat (lost_delta fb)) recv_pps
      in case inferred_loss_frac fb of
           Some m \<Rightarrow> m
         | None \<Rightarrow> if 1 < denom then f32_div (f32_nat (lost_delta fb)) denom else 0)"

definition route_failing :: "Feedback \<Rightarrow> bool" where
  "route_failing fb \<longleftrightarrow>
     0 < target_fps fb \<and> decoded_fps fb < f32_mul (f32_nat (target_fps fb)) (dec 7 10)"

definition tail_tick :: "Feedback \<Rightarrow> BitrateController \<Rightarrow> BitrateController" where
  "tail_tick fb b =
     (if 0 < cooldown b then b
      else
        let severe = 250 < client_lat_p95_ms fb; b1 = mark_delay_ceiling b
        in cut (scaled (if severe then dec 6 10 else dec 7 10) b1) (if severe then 4 else 2) b1)"

definition loss_tick :: "Feedback \<Rightarrow> BitrateController \<Rightarrow> BitrateController" where
  "loss_tick fb b0 =
     (let lf = loss_frac fb;
          b = b0\<lparr>lossy_streak := (if dec 10 100 < lf then sat_inc8 (lossy_streak b0) else 0)\<rparr>
      in if warmup b = 0 \<and> route_failing fb \<and> dec 10 100 < lf \<and> 2 \<le> lossy_streak b then
           (let delivered = to_u32 (f32_mul (recv_kbps fb) (dec 85 100));
                target = min (kbps b div 2) (max delivered (bfloor b))
            in cut target 5 (mark_loss_ceiling b))
         else if warmup b = 0 \<and> dec 3 100 < lf \<and> route_failing fb then
           (let b1 = mark_loss_ceiling b in cut (scaled (dec 75 100) b1) 3 b1)
         else if warmup b = 0 \<and> 100 < rtp_backlog_ms fb then cut (scaled (dec 85 100) b) 2 b
         else clean_tick fb b)"

definition pace_limit :: "Feedback \<Rightarrow> BitrateController \<Rightarrow> BitrateController" where
  "pace_limit fb b =
     (if v4_datagram_carrier fb then b\<lparr>kbps := min (kbps b) (max (paced_ceiling fb) (bfloor b))\<rparr> else b)"

definition bstep :: "Feedback \<Rightarrow> BitrateController \<Rightarrow> BitrateController" where
  "bstep fb b0 =
     (let b1 = b0\<lparr>cooldown := cooldown b0 - 1\<rparr>
      in if 250 < rtp_backlog_ms fb then cut (scaled (dec 6 10) b1) 4 b1
         else
           let b2 = b1\<lparr>warmup := warmup b1 - 1\<rparr>
           in if \<not> have_client fb then b2
              else if 0 \<le> client_lat_p95_ms fb \<and> 120 < client_lat_p95_ms fb then tail_tick fb b2
              else pace_limit fb (loss_tick fb b2))"

section \<open>Lemmas\<close>

definition rate_ok_inv :: "BitrateController \<Rightarrow> bool" where
  "rate_ok_inv b \<longleftrightarrow> bfloor b \<le> kbps b \<and> kbps b \<le> bceiling b"

text \<open>What a tick may do to the state: the bounds stay, and so does the place between them.\<close>

definition steps_to :: "BitrateController \<Rightarrow> BitrateController \<Rightarrow> bool" where
  "steps_to b b' \<longleftrightarrow> bfloor b' = bfloor b \<and> bceiling b' = bceiling b
     \<and> (rate_ok_inv b \<longrightarrow> rate_ok_inv b')"

lemma steps_to_refl: "steps_to b b" by (simp add: steps_to_def)

lemma steps_to_trans: "steps_to a b \<Longrightarrow> steps_to b c \<Longrightarrow> steps_to a c"
  by (simp add: steps_to_def)

lemma mark_loss_fields [simp]:
  "kbps (mark_loss_ceiling b) = kbps b" "bfloor (mark_loss_ceiling b) = bfloor b"
  "bceiling (mark_loss_ceiling b) = bceiling b" "cooldown (mark_loss_ceiling b) = cooldown b"
  "warmup (mark_loss_ceiling b) = warmup b" "lossy_streak (mark_loss_ceiling b) = lossy_streak b"
  by (simp_all add: mark_loss_ceiling_def Let_def)

lemma mark_delay_fields [simp]:
  "kbps (mark_delay_ceiling b) = kbps b" "bfloor (mark_delay_ceiling b) = bfloor b"
  "bceiling (mark_delay_ceiling b) = bceiling b" "warmup (mark_delay_ceiling b) = warmup b"
  by (simp_all add: mark_delay_ceiling_def Let_def)

lemma cut_fields [simp]:
  "kbps (cut t n b) = min (max t (bfloor b)) (kbps b)" "bfloor (cut t n b) = bfloor b"
  "bceiling (cut t n b) = bceiling b" "cooldown (cut t n b) = n" "clean_streak (cut t n b) = 0"
  "warmup (cut t n b) = warmup b" "soft_ceiling (cut t n b) = soft_ceiling b"
  "ceiling_from_delay (cut t n b) = ceiling_from_delay b"
  by (simp_all add: cut_def decrease_to_def)

lemma relax_fields [simp]:
  "kbps (relax fb b) = kbps b" "bfloor (relax fb b) = bfloor b" "bceiling (relax fb b) = bceiling b"
  "cooldown (relax fb b) = cooldown b" "clean_streak (relax fb b) = clean_streak b"
  "warmup (relax fb b) = warmup b"
  by (simp_all add: relax_def Let_def split: option.split)

lemma cut_steps: "steps_to b (cut t n b)"
  by (auto simp: steps_to_def rate_ok_inv_def)

lemma probe_cap_bounds:
  "bfloor b \<le> bceiling b \<Longrightarrow> bfloor b \<le> probe_cap fb b \<and> probe_cap fb b \<le> bceiling b"
  using clampN_bounds [of "bfloor b" "bceiling b"] by (auto simp: probe_cap_def Let_def min_le_iff_disj)

lemma climb_fields [simp]:
  "bfloor (climb fb b) = bfloor b" "bceiling (climb fb b) = bceiling b"
  "cooldown (climb fb b) = cooldown b" "soft_ceiling (climb fb b) = soft_ceiling b"
  by (simp_all add: climb_def Let_def)

text \<open>
  A climb only climbs: with the ceiling below a thirteenth of the \<open>u32\<close> range neither the
  multiplication saturates nor the addition wraps.
\<close>

definition small_ceiling :: "BitrateController \<Rightarrow> bool" where
  "small_ceiling b \<longleftrightarrow> bceiling b \<le> u32_max div 13"

lemma climb_rate:
  assumes "kbps b \<le> bceiling b" "small_ceiling b" "bfloor b \<le> bceiling b"
  shows "kbps b \<le> kbps (climb fb b) \<and> kbps (climb fb b) \<le> max (kbps b) (probe_cap fb b)
    \<and> kbps (climb fb b) \<le> kbps b + max (3 * kbps b div 10) (max (kbps b div 5) 200)"
proof -
  have k: "kbps b \<le> 330382099" using assms(1,2) by (simp add: small_ceiling_def u32_max_def)
  then have "sat_mul32 (kbps b) 13 = kbps b * 13" by (simp add: sat_mul32_def u32_max_def)
  moreover have "wrap_add32 (kbps b) (max (kbps b div 5) 200) = kbps b + max (kbps b div 5) 200"
    using k by (simp add: wrap_add32_def)
  moreover have "kbps b * 13 div 10 = kbps b + 3 * kbps b div 10" by presburger
  ultimately have "kbps (climb fb b) \<in> {kbps b, min (kbps b + 3 * kbps b div 10) (probe_cap fb b),
      min (kbps b + max (kbps b div 5) 200) (probe_cap fb b)}
    \<and> (kbps (climb fb b) \<noteq> kbps b \<longrightarrow> kbps b < probe_cap fb b)"
    by (simp add: climb_def Let_def)
  then show ?thesis by (auto simp: min_def max_def split: if_splits)
qed

lemma climb_steps:
  assumes "small_ceiling b"
  shows "steps_to b (climb fb b)"
proof -
  have "rate_ok_inv (climb fb b)" if "rate_ok_inv b"
  proof -
    have f: "bfloor b \<le> bceiling b" using that by (simp add: rate_ok_inv_def)
    show ?thesis
      using climb_rate [of b fb] probe_cap_bounds [OF f, of fb] that assms f by (auto simp: rate_ok_inv_def)
  qed
  then show ?thesis by (simp add: steps_to_def)
qed

lemma relax_steps: "steps_to b (relax fb b)"
  by (simp add: steps_to_def rate_ok_inv_def)

lemma small_update [simp]:
  "small_ceiling (b\<lparr>clean_streak := n\<rparr>) = small_ceiling b" "small_ceiling (b\<lparr>lossy_streak := n\<rparr>) = small_ceiling b"
  "small_ceiling (b\<lparr>cooldown := n\<rparr>) = small_ceiling b" "small_ceiling (b\<lparr>warmup := n\<rparr>) = small_ceiling b"
  by (simp_all add: small_ceiling_def)

lemma steps_to_update:
  "steps_to b (b\<lparr>clean_streak := n\<rparr>)" "steps_to b (b\<lparr>lossy_streak := n\<rparr>)"
  "steps_to b (b\<lparr>cooldown := n\<rparr>)" "steps_to b (b\<lparr>warmup := n\<rparr>)"
  "steps_to b (mark_loss_ceiling b)" "steps_to b (mark_delay_ceiling b)"
  by (simp_all add: steps_to_def rate_ok_inv_def)

lemma steps_to_ceiling: "steps_to b b' \<Longrightarrow> small_ceiling b' \<longleftrightarrow> small_ceiling b"
  by (simp add: steps_to_def small_ceiling_def)

lemma clean_tick_steps: "small_ceiling b \<Longrightarrow> steps_to b (clean_tick fb b)"
proof -
  assume s: "small_ceiling b"
  define b1 where "b1 = relax fb (b\<lparr>clean_streak := sat_inc8 (clean_streak b)\<rparr>)"
  have 1: "steps_to b b1"
    unfolding b1_def by (rule steps_to_trans [OF steps_to_update(1) relax_steps])
  have "steps_to b1 (climb fb b1)"
    by (rule climb_steps) (simp add: steps_to_ceiling [OF 1] s)
  then show ?thesis
    using 1 steps_to_trans [OF 1] by (simp add: clean_tick_def Let_def b1_def [symmetric])
qed

lemma steps_to_from [simp]:
  "steps_to (b\<lparr>clean_streak := n\<rparr>) x = steps_to b x" "steps_to (b\<lparr>lossy_streak := n\<rparr>) x = steps_to b x"
  "steps_to (b\<lparr>cooldown := n\<rparr>) x = steps_to b x" "steps_to (b\<lparr>warmup := n\<rparr>) x = steps_to b x"
  "steps_to (mark_loss_ceiling b) x = steps_to b x" "steps_to (mark_delay_ceiling b) x = steps_to b x"
  by (simp_all add: steps_to_def rate_ok_inv_def)

lemma cut_any:
  "steps_to b (cut t n b)" "steps_to b (cut t n (mark_loss_ceiling b))"
  "steps_to b (cut t n (mark_delay_ceiling b))"
  "steps_to b (cut t n (mark_loss_ceiling (b\<lparr>lossy_streak := l\<rparr>)))"
  "steps_to b (cut t n (b\<lparr>lossy_streak := l\<rparr>))" "steps_to b (cut t n (b\<lparr>cooldown := c\<rparr>))"
  by (auto simp: steps_to_def rate_ok_inv_def)

lemma loss_tick_steps: "small_ceiling b \<Longrightarrow> steps_to b (loss_tick fb b)"
  using clean_tick_steps [of "b\<lparr>lossy_streak := n\<rparr>" fb for n]
  by (simp add: loss_tick_def Let_def cut_any)

lemma tail_tick_steps: "steps_to b (tail_tick fb b)"
  by (simp add: tail_tick_def Let_def cut_any steps_to_refl)

lemma pace_limit_steps: "steps_to b (pace_limit fb b)"
  by (auto simp: steps_to_def pace_limit_def rate_ok_inv_def)

lemma bstep_steps:
  assumes "small_ceiling b"
  shows "steps_to b (bstep fb b)"
proof -
  define b2 where "b2 = b\<lparr>cooldown := cooldown b - 1, warmup := warmup b - 1\<rparr>"
  have 2: "steps_to b b2" "small_ceiling b2"
    using assms by (simp_all add: b2_def steps_to_def rate_ok_inv_def)
  have 3: "steps_to b (pace_limit fb (loss_tick fb b2))" "steps_to b (tail_tick fb b2)"
    by (auto intro: steps_to_trans [OF steps_to_trans [OF 2(1) loss_tick_steps] pace_limit_steps]
        steps_to_trans [OF 2(1) tail_tick_steps] 2(2))
  have e: "bstep fb b = (if 250 < rtp_backlog_ms fb
      then cut (scaled (dec 6 10) (b\<lparr>cooldown := cooldown b - 1\<rparr>)) 4 (b\<lparr>cooldown := cooldown b - 1\<rparr>)
      else if \<not> have_client fb then b2
      else if 0 \<le> client_lat_p95_ms fb \<and> 120 < client_lat_p95_ms fb then tail_tick fb b2
      else pace_limit fb (loss_tick fb b2))"
    by (simp add: bstep_def Let_def b2_def)
  show ?thesis unfolding e using 2(1) 3 cut_any(6) by simp
qed

lemma bsteps_steps: "small_ceiling b \<Longrightarrow> steps_to b (fold bstep fbs b)"
proof (induction fbs arbitrary: b)
  case (Cons fb fbs)
  have 1: "steps_to b (bstep fb b)" by (rule bstep_steps [OF Cons.prems])
  have "steps_to (bstep fb b) (fold bstep fbs (bstep fb b))"
    by (rule Cons.IH) (simp add: steps_to_ceiling [OF 1] Cons.prems)
  then show ?case using steps_to_trans [OF 1] by simp
qed (simp add: steps_to_refl)

lemma controller_new_ok: "rate_ok_inv (controller_new start lo hi)"
  using clampN_bounds [of lo "max hi lo" start]
  by (simp add: controller_new_def Let_def rate_ok_inv_def)

lemma controller_new_fields [simp]:
  "bfloor (controller_new start lo hi) = lo" "bceiling (controller_new start lo hi) = max hi lo"
  by (simp_all add: controller_new_def Let_def)

text \<open>Only the clean branch raises the rate.\<close>

lemma cut_le: "kbps (cut t n b) \<le> kbps b" by simp

lemma pace_limit_le: "kbps (pace_limit fb b) \<le> kbps b" by (simp add: pace_limit_def)

lemma tail_tick_le: "kbps (tail_tick fb b) \<le> kbps b"
  by (simp add: tail_tick_def Let_def)

lemma clean_tick_rate:
  assumes "kbps b < kbps (clean_tick fb b)" "small_ceiling b" "rate_ok_inv b"
  shows "cooldown b = 0 \<and> decoding fb b \<and> rtp_backlog_ms fb < 25 \<and> 0 \<le> client_lat_p95_ms fb
    \<and> client_lat_p95_ms fb \<le> 100 \<and> (\<forall>l. inferred_loss_frac fb = Some l \<longrightarrow> l < dec 2 100)
    \<and> kbps (clean_tick fb b) \<le> kbps b + max (3 * kbps b div 10) (max (kbps b div 5) 200)"
proof -
  define b1 where "b1 = relax fb (b\<lparr>clean_streak := sat_inc8 (clean_streak b)\<rparr>)"
  have f: "kbps b1 = kbps b" "cooldown b1 = cooldown b" "bfloor b1 = bfloor b" "bceiling b1 = bceiling b"
    by (simp_all add: b1_def)
  have m: "may_climb fb b1" and e: "clean_tick fb b = climb fb b1"
    using assms(1) f(1) by (auto simp: clean_tick_def Let_def b1_def [symmetric] split: if_splits)
  have "kbps (climb fb b1) \<le> kbps b1 + max (3 * kbps b1 div 10) (max (kbps b1 div 5) 200)"
    using climb_rate [of b1 fb] assms(2,3) f by (auto simp: rate_ok_inv_def small_ceiling_def)
  moreover have "decoding fb b1 = decoding fb b" by (simp add: decoding_def f)
  ultimately show ?thesis
    using m by (auto simp: e f may_climb_def not_le split: option.splits)
qed

lemma lossy_update:
  "warmup (b\<lparr>lossy_streak := n\<rparr>) = warmup b" "lossy_streak (b\<lparr>lossy_streak := n\<rparr>) = n" by simp_all

lemma loss_tick_cases:
  fixes fb b
  defines "n \<equiv> (if dec 10 100 < loss_frac fb then sat_inc8 (lossy_streak b) else 0)"
  obtains (clean) "loss_tick fb b = clean_tick fb (b\<lparr>lossy_streak := n\<rparr>)"
  | (backed) t c where "warmup b = 0" "100 < rtp_backlog_ms fb" "loss_tick fb b = cut t c (b\<lparr>lossy_streak := n\<rparr>)"
  | (lossy) t c where "warmup b = 0" "dec 3 100 < loss_frac fb" "route_failing fb"
      "loss_tick fb b = cut t c (mark_loss_ceiling (b\<lparr>lossy_streak := n\<rparr>))"
proof -
  have "dec 3 100 \<le> dec 10 100"
    unfolding dec_def f32_of_def by (rule fround_mono) simp_all
  then have lt: "dec 3 100 < loss_frac fb" if "dec 10 100 < loss_frac fb"
    using that by linarith
  define c1 where "c1 \<longleftrightarrow> warmup b = 0 \<and> route_failing fb \<and> dec 10 100 < loss_frac fb \<and> 2 \<le> n"
  define c2 where "c2 \<longleftrightarrow> warmup b = 0 \<and> dec 3 100 < loss_frac fb \<and> route_failing fb"
  define c3 where "c3 \<longleftrightarrow> warmup b = 0 \<and> 100 < rtp_backlog_ms fb"
  have sub: "c1 \<Longrightarrow> c2" using lt by (simp add: c1_def c2_def)
  have "loss_tick fb b = (let b0 = b\<lparr>lossy_streak := n\<rparr> in
      if c1 then cut (min (kbps b0 div 2) (max (to_u32 (f32_mul (recv_kbps fb) (dec 85 100))) (bfloor b0))) 5
                   (mark_loss_ceiling b0)
      else if c2 then cut (scaled (dec 75 100) (mark_loss_ceiling b0)) 3 (mark_loss_ceiling b0)
      else if c3 then cut (scaled (dec 85 100) b0) 2 b0
      else clean_tick fb b0)"
    unfolding loss_tick_def Let_def n_def [symmetric] c1_def c2_def c3_def
    by (simp only: lossy_update)
  note e = this [unfolded Let_def]
  consider "c2" | "\<not> c2" "c3" | "\<not> c2" "\<not> c3" by blast
  then show thesis
  proof cases
    case 1
    then show thesis using lossy e unfolding c2_def [symmetric] by (cases c1) (auto simp: c2_def)
  next
    case 2
    have "\<not> c1" using 2 sub by blast
    then show thesis using backed e 2 by (simp add: c3_def)
  next
    case 3
    have "\<not> c1" using 3 sub by blast
    then show thesis using clean e 3 by simp
  qed
qed

lemma loss_tick_rise:
  assumes "kbps b < kbps (loss_tick fb b)"
  shows "\<exists>n. loss_tick fb b = clean_tick fb (b\<lparr>lossy_streak := n\<rparr>)"
  using assms by (cases rule: loss_tick_cases [where fb=fb and b=b]) auto

lemma decoding_fields [simp]:
  "decoding fb (b\<lparr>lossy_streak := n\<rparr>) = decoding fb b" "decoding fb (b\<lparr>cooldown := n\<rparr>) = decoding fb b"
  "decoding fb (b\<lparr>warmup := n\<rparr>) = decoding fb b"
  by (simp_all add: decoding_def)

lemma bstep_cases:
  obtains (backlog) "250 < rtp_backlog_ms fb"
      "bstep fb b = cut (scaled (dec 6 10) (b\<lparr>cooldown := cooldown b - 1\<rparr>)) 4 (b\<lparr>cooldown := cooldown b - 1\<rparr>)"
  | (no_client) "\<not> 250 < rtp_backlog_ms fb" "\<not> have_client fb"
      "bstep fb b = b\<lparr>cooldown := cooldown b - 1, warmup := warmup b - 1\<rparr>"
  | (tail) "\<not> 250 < rtp_backlog_ms fb" "have_client fb" "120 < client_lat_p95_ms fb"
      "bstep fb b = tail_tick fb (b\<lparr>cooldown := cooldown b - 1, warmup := warmup b - 1\<rparr>)"
  | (loss) "\<not> 250 < rtp_backlog_ms fb" "have_client fb" "client_lat_p95_ms fb \<le> 120"
      "bstep fb b = pace_limit fb (loss_tick fb (b\<lparr>cooldown := cooldown b - 1, warmup := warmup b - 1\<rparr>))"
proof (cases "250 < rtp_backlog_ms fb \<or> \<not> have_client fb \<or> 120 < client_lat_p95_ms fb")
  case True
  then show thesis using backlog no_client tail
    by (cases "250 < rtp_backlog_ms fb"; cases "have_client fb") (simp_all add: bstep_def Let_def)
next
  case False
  then show thesis using loss by (simp add: bstep_def Let_def not_less)
qed

lemma bstep_rise:
  assumes "kbps b < kbps (bstep fb b)" "small_ceiling b" "rate_ok_inv b"
  shows "have_client fb \<and> cooldown b \<le> 1 \<and> decoding fb b \<and> rtp_backlog_ms fb < 25
    \<and> 0 \<le> client_lat_p95_ms fb \<and> client_lat_p95_ms fb \<le> 100
    \<and> (\<forall>l. inferred_loss_frac fb = Some l \<longrightarrow> l < dec 2 100)
    \<and> kbps (bstep fb b) \<le> kbps b + max (3 * kbps b div 10) (max (kbps b div 5) 200)"
proof (cases rule: bstep_cases [of fb b])
  case tail then show ?thesis using assms(1) tail_tick_le [of fb "b\<lparr>cooldown := cooldown b - 1, warmup := warmup b - 1\<rparr>"] by simp
next
  case loss
  define b2 where "b2 = b\<lparr>cooldown := cooldown b - 1, warmup := warmup b - 1\<rparr>"
  have le: "kbps (bstep fb b) \<le> kbps (loss_tick fb b2)"
    using pace_limit_le [of fb "loss_tick fb b2"] loss(4) by (simp add: b2_def)
  have "kbps b2 < kbps (loss_tick fb b2)" using le assms(1) by (simp add: b2_def)
  then obtain n where n: "loss_tick fb b2 = clean_tick fb (b2\<lparr>lossy_streak := n\<rparr>)"
    using loss_tick_rise by blast
  have f: "kbps (b2\<lparr>lossy_streak := n\<rparr>) = kbps b" "cooldown (b2\<lparr>lossy_streak := n\<rparr>) = cooldown b - 1"
    "decoding fb b2 = decoding fb b" by (simp_all add: b2_def)
  have ok: "small_ceiling (b2\<lparr>lossy_streak := n\<rparr>)" "rate_ok_inv (b2\<lparr>lossy_streak := n\<rparr>)"
    using assms(2,3) by (simp_all add: b2_def rate_ok_inv_def small_ceiling_def)
  have "kbps (b2\<lparr>lossy_streak := n\<rparr>) < kbps (clean_tick fb (b2\<lparr>lossy_streak := n\<rparr>))"
    using le assms(1) by (simp add: f(1) n)
  from clean_tick_rate [OF this ok] show ?thesis
    using loss(2) le by (simp add: f n)
qed (use assms(1) in simp_all)

lemma clean_tick_ge:
  assumes "small_ceiling b" "rate_ok_inv b"
  shows "kbps b \<le> kbps (clean_tick fb b)"
proof -
  define b1 where "b1 = relax fb (b\<lparr>clean_streak := sat_inc8 (clean_streak b)\<rparr>)"
  have f: "kbps b1 = kbps b" "bfloor b1 = bfloor b" "bceiling b1 = bceiling b" by (simp_all add: b1_def)
  have "kbps b1 \<le> kbps (climb fb b1)"
    using climb_rate [of b1 fb] assms f by (auto simp: rate_ok_inv_def small_ceiling_def)
  then show ?thesis by (simp add: clean_tick_def Let_def b1_def [symmetric] f)
qed

lemma loss_tick_drop:
  assumes "kbps (loss_tick fb b) < kbps b" "small_ceiling b" "rate_ok_inv b"
  shows "warmup b = 0 \<and> (100 < rtp_backlog_ms fb \<or> dec 3 100 < loss_frac fb \<and> route_failing fb)"
proof (cases rule: loss_tick_cases [where fb=fb and b=b])
  case clean
  define c where "c = b\<lparr>lossy_streak := (if dec 10 100 < loss_frac fb then sat_inc8 (lossy_streak b) else 0)\<rparr>"
  have "small_ceiling c" "rate_ok_inv c" "kbps c = kbps b"
    using assms(2,3) by (simp_all add: c_def rate_ok_inv_def)
  from clean_tick_ge [OF this(1,2), of fb] this(3) show ?thesis
    using assms(1) clean by (simp add: c_def)
qed simp_all

lemma bstep_drop:
  assumes "kbps (bstep fb b) < kbps b" "small_ceiling b" "rate_ok_inv b"
  shows "100 < rtp_backlog_ms fb
    \<or> have_client fb \<and> (120 < client_lat_p95_ms fb \<and> cooldown b \<le> 1
        \<or> warmup b \<le> 1 \<and> dec 3 100 < loss_frac fb \<and> route_failing fb
        \<or> v4_datagram_carrier fb \<and> kbps (bstep fb b) = max (paced_ceiling fb) (bfloor b))"
proof (cases rule: bstep_cases [of fb b])
  case tail
  then have "cooldown b \<le> 1"
    using assms(1) by (simp add: tail_tick_def split: if_splits)
  then show ?thesis using tail by simp
next
  case loss
  define b2 where "b2 = b\<lparr>cooldown := cooldown b - 1, warmup := warmup b - 1\<rparr>"
  have ok: "small_ceiling b2" "rate_ok_inv b2" and f: "kbps b2 = kbps b" "warmup b2 = warmup b - 1"
    "bfloor b2 = bfloor b"
    using assms(2,3) by (simp_all add: b2_def rate_ok_inv_def small_ceiling_def)
  have s: "bfloor (loss_tick fb b2) = bfloor b"
    using loss_tick_steps [OF ok(1), of fb] f by (simp add: steps_to_def)
  have e: "bstep fb b = pace_limit fb (loss_tick fb b2)" using loss(4) by (simp add: b2_def)
  show ?thesis
  proof (cases "kbps (loss_tick fb b2) < kbps b2")
    case True
    then show ?thesis using loss_tick_drop [OF True ok] loss(2) f by auto
  next
    case False
    then have "v4_datagram_carrier fb" "kbps (bstep fb b) = max (paced_ceiling fb) (bfloor b)"
      using assms(1) f s unfolding e by (auto simp: pace_limit_def min_def split: if_splits)
    then show ?thesis using loss(2) by simp
  qed
qed (use assms(1) in simp_all)

section \<open>Properties\<close>

text \<open>Whatever a client reports and in whatever order, the encoder target stays between the
  floor and the ceiling the session negotiated (for a ceiling below a thirteenth of the
  \<open>u32\<close> range, where the climb cannot overflow).\<close>
theorem bitrate_within_bounds:
  assumes "max hi lo \<le> u32_max div 13"
  shows "kbps (fold bstep fbs (controller_new start lo hi)) \<in> {lo .. max hi lo}"
proof -
  have "steps_to (controller_new start lo hi) (fold bstep fbs (controller_new start lo hi))"
    by (rule bsteps_steps) (use assms in \<open>simp add: small_ceiling_def\<close>)
  then show ?thesis using controller_new_ok [of start lo hi] by (simp add: steps_to_def rate_ok_inv_def)
qed

definition good_tick :: Feedback where
  "good_tick = \<lparr>lost_delta = 0, recv_kbps = 5000, decoded_fps = 60, target_fps = 60, rtt_ms = 5,
     rtp_backlog_ms = 0, have_client = True, client_lat_p95_ms = 10, v4_datagram_carrier = False,
     v4_pace_pps = 0, inferred_loss_frac = None\<rparr>"

definition slow_tick :: Feedback where "slow_tick = good_tick\<lparr>client_lat_p95_ms := 200\<rparr>"

lemma bitrate_within_bounds_witness:
  "kbps (fold bstep [good_tick, slow_tick, good_tick] (controller_new 8000 600 80000)) \<in> {600 .. 80000}"
  using bitrate_within_bounds [of 80000 600 "[good_tick, slow_tick, good_tick]" 8000]
  by (simp add: u32_max_def)


definition climbing :: BitrateController where
  "climbing = (controller_new 8000 600 80000)\<lparr>warmup := 0, clean_streak := 5\<rparr>"

lemma climbing_climbs: "kbps (bstep good_tick climbing) = 10400"
  by code_simp


text \<open>C24. The rate goes down only on evidence: a send queue above 100 ms, a tail delay above 120 ms
  outside a cooldown, more than 3 % loss while the decoder is starved (never while it keeps up, and
  never in the warm-up), or the pace of the datagram carrier.\<close>
theorem bitrate_cuts_on_evidence:
  assumes "kbps (bstep fb b) < kbps b" "small_ceiling b" "rate_ok_inv b"
  shows "100 < rtp_backlog_ms fb
    \<or> have_client fb \<and> (120 < client_lat_p95_ms fb \<and> cooldown b \<le> 1
        \<or> warmup b \<le> 1 \<and> dec 3 100 < loss_frac fb \<and> route_failing fb
        \<or> v4_datagram_carrier fb \<and> kbps (bstep fb b) = max (paced_ceiling fb) (bfloor b))"
  by (rule bstep_drop [OF assms])

lemma slow_cuts: "kbps (bstep slow_tick climbing) = 5600"
  by code_simp

lemma bitrate_cuts_on_evidence_witness:
  "kbps (bstep slow_tick climbing) < kbps climbing \<and> 120 < client_lat_p95_ms slow_tick"
proof -
  have k: "kbps (bstep slow_tick climbing) < kbps climbing"
    by (simp add: slow_cuts) (simp add: climbing_def controller_new_def Let_def clampN_def)
  have "small_ceiling climbing" "rate_ok_inv climbing" by code_simp+
  then show ?thesis using bitrate_cuts_on_evidence [OF k] k
    by (auto simp: slow_tick_def good_tick_def route_failing_def f32_mul_def)
qed

text \<open>One stretch of high tail delay: the first report cuts and remembers the rate as a
  bandwidth estimate (\<open>ceiling_from_delay\<close>), the next is held by the cooldown, and the third cuts
  again and forgets that the ceiling came from delay, though the remembered ceiling itself is kept.\<close>
theorem bitrate_second_delay_cut:
  assumes "have_client fb" "120 < client_lat_p95_ms fb" "client_lat_p95_ms fb \<le> 250"
    "rtp_backlog_ms fb \<le> 250" "cooldown b \<le> 1" "soft_ceiling b = None"
  shows "ceiling_from_delay (bstep fb b) \<and> kbps (bstep fb (bstep fb b)) = kbps (bstep fb b)
    \<and> soft_ceiling (bstep fb (bstep fb (bstep fb b))) = Some (f32_nat (kbps b))
    \<and> \<not> ceiling_from_delay (bstep fb (bstep fb (bstep fb b)))"
proof -
  have t: "bstep fb c = tail_tick fb (c\<lparr>cooldown := cooldown c - 1, warmup := warmup c - 1\<rparr>)" for c
    using assms(1-4) by (simp add: bstep_def Let_def)
  have h: "tail_tick fb c = (if 0 < cooldown c then c
      else cut (scaled (dec 7 10) (mark_delay_ceiling c)) 2 (mark_delay_ceiling c))" for c
    using assms(3) by (simp add: tail_tick_def Let_def not_less)
  show ?thesis using assms(5,6)
    by (simp add: t h mark_delay_ceiling_def mark_loss_ceiling_def first_objection_of_episode_def Let_def)
qed

lemma bitrate_second_delay_cut_witness:
  "\<not> ceiling_from_delay (bstep slow_tick (bstep slow_tick (bstep slow_tick climbing)))"
  using bitrate_second_delay_cut [of slow_tick climbing]
  by (simp add: slow_tick_def good_tick_def climbing_def controller_new_def Let_def)

end
