(* ===== verification/FrameSender.thy ===== *)
theory FrameSender
  imports WtWire Floats Bitrate "HOL-Library.Sublist"
begin

text \<open>
  The WebTransport frame sender (\<open>crates/host/src/media/wt/transport.rs\<close>): the latest-value frame
  queue, the injection pace, the fragment send order, the re-send cache and the task that turns one
  encoded frame into datagrams or into a write on the client's video channel. The QUIC connection is
  a parameter: what it answers to each datagram, its datagram limit and the outcome of a stream
  write come in with the event. Instants are nanoseconds, wall-clock readings microseconds.
\<close>

section \<open>Constants\<close>

definition WT_PACE_PPS :: f32 where "WT_PACE_PPS = 3800"
definition WORKER_PACE_PPS :: f32 where "WORKER_PACE_PPS = 18000"
definition DEFAULT_MAX_QUEUED_FRAMES :: nat where "DEFAULT_MAX_QUEUED_FRAMES = 8"
definition FRAME_SPREAD :: f32 where "FRAME_SPREAD = dec 9 10"
definition MAX_FRAME_PACE_PPS :: f32 where "MAX_FRAME_PACE_PPS = 100000"
definition FRAME_STREAM_TIMEOUT :: nat where "FRAME_STREAM_TIMEOUT = 120"
definition KEY_STREAM_TIMEOUT :: nat where "KEY_STREAM_TIMEOUT = 500"
definition DELTA_FRESHNESS :: nat where "DELTA_FRESHNESS = 150 * 1000000"
definition KEY_FRESHNESS :: nat where "KEY_FRESHNESS = 500 * 1000000"
definition KEY_DATAGRAM_MAX_BYTES :: nat where "KEY_DATAGRAM_MAX_BYTES = 12000"
definition RESEND_FRAMES :: nat where "RESEND_FRAMES = 150"
definition RESEND_MAX_FRAGMENTS :: nat where "RESEND_MAX_FRAGMENTS = 16384"
definition WT_AUDIO_TAG :: u8 where "WT_AUDIO_TAG = 65"

section \<open>The frame queue\<close>

record OutboundFrame =
  o_frame_no :: u32
  o_capture_us :: u64
  o_key :: bool
  o_payload :: bytes
  o_captured_at :: nat
  o_enq_us :: nat
  o_capture_host_us :: nat

record FrameQueue =
  fq_items :: "OutboundFrame list"
  fq_cap :: nat
  fq_evicted :: nat

definition queue_new :: "nat \<Rightarrow> FrameQueue" where
  "queue_new c = \<lparr>fq_items = [], fq_cap = max c 1, fq_evicted = 0\<rparr>"

text \<open>A full queue loses its oldest frame that is not a keyframe, or its oldest frame.\<close>

definition evict :: "OutboundFrame list \<Rightarrow> OutboundFrame list" where
  "evict fs = (case List.extract (\<lambda>f. \<not> o_key f) fs of Some (a, _, b) \<Rightarrow> a @ b | None \<Rightarrow> tl fs)"

definition queue_push :: "OutboundFrame \<Rightarrow> FrameQueue \<Rightarrow> FrameQueue" where
  "queue_push f q =
     (if fq_cap q \<le> length (fq_items q)
      then q\<lparr>fq_items := evict (fq_items q) @ [f], fq_evicted := fq_evicted q + 1\<rparr>
      else q\<lparr>fq_items := fq_items q @ [f]\<rparr>)"

definition queue_pop :: "FrameQueue \<Rightarrow> (OutboundFrame \<times> FrameQueue) option" where
  "queue_pop q = (case fq_items q of [] \<Rightarrow> None | f # fs \<Rightarrow> Some (f, q\<lparr>fq_items := fs\<rparr>))"

text \<open>\<open>send_frame\<close>: stamp the frame and queue it; the result is always \<open>true\<close>.\<close>

definition send_frame :: "nat \<Rightarrow> nat \<Rightarrow> OutboundFrame \<Rightarrow> FrameQueue \<Rightarrow> bool \<times> FrameQueue" where
  "send_frame now now_us fr q =
     (True, queue_push (fr\<lparr>o_enq_us := now_us,
        o_capture_host_us := now_us - (now - o_captured_at fr) div 1000\<rparr>) q)"

definition next_frame_no :: "u32 \<Rightarrow> u32 \<times> u32" where "next_frame_no n = (n, n + 1)"

definition audio_datagram :: "bytes \<Rightarrow> u64 \<Rightarrow> u32 \<Rightarrow> bytes \<times> u32" where
  "audio_datagram body pts_us seq = ([WT_AUDIO_TAG] @ u32_be seq @ u64_be pts_us @ body, seq + 1)"

section \<open>The pace\<close>

definition clamp_f32 :: "f32 \<Rightarrow> f32 \<Rightarrow> f32 \<Rightarrow> f32" where
  "clamp_f32 x lo hi = (if x < lo then lo else if hi < x then hi else x)"

definition frame_pace_pps :: "f32 \<Rightarrow> nat \<Rightarrow> f32 \<Rightarrow> nat \<Rightarrow> f32" where
  "frame_pace_pps base_pps datagrams interval_s backlog =
     (let spread_s = f32_div (f32_mul interval_s FRAME_SPREAD) (f32_nat (1 + backlog))
      in clamp_f32 (f32_div (f32_nat datagrams) (max spread_s (dec 1 10000)))
           base_pps (max MAX_FRAME_PACE_PPS base_pps))"

definition pace_burst :: "f32 \<Rightarrow> f32" where
  "pace_burst pps = (if WT_PACE_PPS < pps then 32 else 64)"

section \<open>The send order\<close>

definition fragment_send_order :: "nat \<Rightarrow> nat list" where
  "fragment_send_order frag_cnt =
     (if frag_cnt = 0 then []
      else concat (map (\<lambda>off. filter (\<lambda>idx. idx < frag_cnt)
              (map (\<lambda>g. g * FRAGMENT_GROUP + off) [0..<div_ceil frag_cnt FRAGMENT_GROUP]))
            [0..<FRAGMENT_GROUP]))"

section \<open>Shared state\<close>

datatype WtHostMessage =
    RouteWarning string
  | VideoConfig (vc_codec: string) (vc_width: nat) (vc_height: nat) (vc_fps: nat)
      (vc_start_bitrate_kbps: nat) (vc_description_b64: "string option") (vc_epoch: nat)
  | Pong nat nat
  | ErrorMsg string string

record Shared =
  sh_video_sink :: "nat option"
  sh_write_stall_ms :: nat
  sh_timeline :: "nat list list"
  sh_datagram_video :: bool
  sh_key_by_datagram :: bool
  sh_resend :: "(u32 \<times> u16 \<times> bytes) list"
  sh_frame_anchor :: "(nat \<times> nat) option"
  sh_pace_pps :: nat
  sh_nack_dropped :: nat
  sh_nack_missed :: nat
  sh_datagrams_sent :: nat

section \<open>Datagrams\<close>

text \<open>What the connection answers to one datagram, and the answers it will give in order.\<close>

datatype SendResult = SendOk | TooLarge | Refused

text \<open>
  The progress of one frame: pace tokens, the coming iterations of the wait loop (time since the last
  one, and the audio packet that arrives while it sleeps, if one does), the number of datagrams
  offered so far and those that were accepted.
\<close>

record Wire =
  w_tokens :: f32
  w_ticks :: "(f32 \<times> bytes option) list"
  w_offered :: nat
  w_out :: "bytes list"

definition try_send_datagram :: "(nat \<Rightarrow> SendResult) \<Rightarrow> bytes \<Rightarrow> Wire \<Rightarrow> bool \<times> Wire" where
  "try_send_datagram net d w =
     (let w1 = w\<lparr>w_offered := w_offered w + 1\<rparr>
      in case net (w_offered w) of
           SendOk \<Rightarrow> (True, w1\<lparr>w_out := w_out w @ [d]\<rparr>)
         | TooLarge \<Rightarrow> (True, w1)
         | Refused \<Rightarrow> (False, w1))"

text \<open>
  Waiting for a token: refill from the time since the last look, and while there is less than one
  token sleep or pass an audio packet on. No tick left means the loop is still waiting.
\<close>

fun pace_wait :: "(nat \<Rightarrow> SendResult) \<Rightarrow> f32 \<Rightarrow> (f32 \<times> bytes option) list \<Rightarrow> Wire \<Rightarrow> Wire option" where
  "pace_wait net pps [] w = None"
| "pace_wait net pps ((elapsed, audio) # ticks) w =
     (let t = min (f32_add (w_tokens w) (f32_mul elapsed pps)) (pace_burst pps)
      in if 1 \<le> t then Some (w\<lparr>w_tokens := f32_add t (-1), w_ticks := ticks\<rparr>)
         else pace_wait net pps ticks
                (case audio of
                   Some d \<Rightarrow> snd (try_send_datagram net d (w\<lparr>w_tokens := t\<rparr>))
                 | None \<Rightarrow> w\<lparr>w_tokens := t\<rparr>))"

definition send_paced :: "(nat \<Rightarrow> SendResult) \<Rightarrow> f32 \<Rightarrow> bytes \<Rightarrow> Wire \<Rightarrow> (bool \<times> Wire) option" where
  "send_paced net pps d w = map_option (try_send_datagram net d) (pace_wait net pps (w_ticks w) w)"

section \<open>Fragments of a frame\<close>

definition frag_budget :: "nat option \<Rightarrow> nat" where
  "frag_budget m = max (case m of Some m \<Rightarrow> m - (WT_FRAGMENT_HEADER_LEN + 64) | None \<Rightarrow> 1082) 256"

definition frag_count :: "nat \<Rightarrow> nat \<Rightarrow> u16" where
  "frag_count budget len = of_nat (max (div_ceil len budget) 1)"

definition frag_slice :: "nat \<Rightarrow> bytes \<Rightarrow> nat \<Rightarrow> bytes" where
  "frag_slice budget p i = take (min ((i + 1) * budget) (length p) - i * budget) (drop (i * budget) p)"

definition data_fragment :: "OutboundFrame \<Rightarrow> nat \<Rightarrow> u16 \<Rightarrow> nat \<Rightarrow> WtFragment" where
  "data_fragment fr budget cnt idx =
     \<lparr>fg_frame_no = o_frame_no fr, fg_frag_idx = of_nat idx, fg_frag_cnt = cnt,
      fg_capture_us = o_capture_us fr, fg_key = o_key fr, fg_parity = 0,
      fg_payload = frag_slice budget (o_payload fr) idx\<rparr>"

text \<open>The re-send cache holds 150 frames, and no more than 16384 fragments.\<close>

fun trim_resend :: "u32 \<Rightarrow> (u32 \<times> u16 \<times> bytes) list \<Rightarrow> (u32 \<times> u16 \<times> bytes) list" where
  "trim_resend no [] = []"
| "trim_resend no (e # es) =
     (if RESEND_MAX_FRAGMENTS < length (e # es) \<or> RESEND_FRAMES < unat no - unat (fst e)
      then trim_resend no es else e # es)"

definition cache_fragment :: "u32 \<Rightarrow> u16 \<Rightarrow> bytes \<Rightarrow> (u32 \<times> u16 \<times> bytes) list \<Rightarrow> (u32 \<times> u16 \<times> bytes) list" where
  "cache_fragment no idx enc cache = trim_resend no (cache @ [(no, idx, enc)])"

fun send_data :: "(nat \<Rightarrow> SendResult) \<Rightarrow> f32 \<Rightarrow> nat \<Rightarrow> u16 \<Rightarrow> OutboundFrame \<Rightarrow> nat list
    \<Rightarrow> (u32 \<times> u16 \<times> bytes) list \<times> Wire \<Rightarrow> (bool \<times> (u32 \<times> u16 \<times> bytes) list \<times> Wire) option" where
  "send_data net pps budget cnt fr [] (cache, w) = Some (True, cache, w)"
| "send_data net pps budget cnt fr (i # is) (cache, w) =
     (let enc = fragment_encode (data_fragment fr budget cnt i);
          cache1 = cache_fragment (o_frame_no fr) (of_nat i) enc cache
      in case send_paced net pps enc w of
           None \<Rightarrow> None
         | Some (True, w1) \<Rightarrow> send_data net pps budget cnt fr is (cache1, w1)
         | Some (False, w1) \<Rightarrow> Some (False, cache1, w1))"

definition parity_fragment :: "OutboundFrame \<Rightarrow> u16 \<Rightarrow> bool \<Rightarrow> nat \<times> u8 \<times> bytes \<Rightarrow> WtFragment" where
  "parity_fragment fr cnt two_rows x =
     (case x of (rnd, row, acc) \<Rightarrow>
       \<lparr>fg_frame_no = o_frame_no fr, fg_frag_idx = of_nat (rnd div (if two_rows then 2 else 1)),
        fg_frag_cnt = cnt, fg_capture_us = o_capture_us fr, fg_key = o_key fr, fg_parity = row,
        fg_payload = acc\<rparr>)"

fun send_parity :: "(nat \<Rightarrow> SendResult) \<Rightarrow> f32 \<Rightarrow> bytes list \<Rightarrow> Wire \<Rightarrow> Wire option" where
  "send_parity net pps [] w = Some w"
| "send_parity net pps (d # ds) w =
     (case send_paced net pps d w of
        None \<Rightarrow> None
      | Some (True, w1) \<Rightarrow> send_parity net pps ds w1
      | Some (False, w1) \<Rightarrow> Some w1)"

definition data_frags :: "nat \<Rightarrow> u16 \<Rightarrow> bytes \<Rightarrow> bytes list" where
  "data_frags budget cnt p = map (frag_slice budget p) [0..<unat cnt]"

definition parity_datagrams :: "OutboundFrame \<Rightarrow> nat \<Rightarrow> u16 \<Rightarrow> bytes list" where
  "parity_datagrams fr budget cnt =
     (let two_rows = wants_two_parity_rows (o_key fr) cnt
      in map (\<lambda>x. fragment_encode (parity_fragment fr cnt two_rows x))
           (enumerate 0 (fragment_parity (data_frags budget cnt (o_payload fr)) two_rows)))"

section \<open>The sender task\<close>

record FrameSender =
  fs_live :: "nat option"
  fs_stream :: "nat option"
  fs_sent :: nat
  fs_stalled :: nat
  fs_expired :: nat
  fs_evicted_last :: nat
  fs_tokens :: f32
  fs_interval :: f32
  fs_last_capture :: "u64 option"
  fs_stall_window :: nat
  fs_key_fresh :: nat
  fs_key_cached :: nat
  fs_last_report :: nat

definition sender_new :: "nat \<Rightarrow> FrameQueue \<Rightarrow> FrameSender" where
  "sender_new now q =
     \<lparr>fs_live = None, fs_stream = None, fs_sent = 0, fs_stalled = 0, fs_expired = 0,
      fs_evicted_last = fq_evicted q, fs_tokens = 64, fs_interval = f32_div 1 60,
      fs_last_capture = None, fs_stall_window = 0, fs_key_fresh = 0, fs_key_cached = 0,
      fs_last_report = now\<rparr>"

text \<open>
  A stream write finishes or fails after so many milliseconds, or never. The sender abandons it at
  its timeout.
\<close>

datatype WriteResult = WriteOk nat | WriteErr nat | WriteHangs
datatype SenderOut = Datagram bytes | StreamWrite nat bytes | StreamReset nat

record FrameEnv =
  fe_now :: nat
  fe_pop_us :: nat
  fe_done_us :: nat
  fe_backlog :: nat
  fe_max_datagram :: "nat option"
  fe_net :: "nat \<Rightarrow> SendResult"
  fe_ticks :: "(f32 \<times> bytes option) list"
  fe_write :: WriteResult

definition timeline_entry :: "FrameEnv \<Rightarrow> OutboundFrame \<Rightarrow> nat \<Rightarrow> nat list" where
  "timeline_entry env fr write_us =
     [unat (o_frame_no fr), o_capture_host_us fr, o_enq_us fr, fe_pop_us env, write_us]"

definition note_interval :: "OutboundFrame \<Rightarrow> FrameSender \<Rightarrow> FrameSender" where
  "note_interval fr st =
     (case fs_last_capture st of
        None \<Rightarrow> st
      | Some prev \<Rightarrow>
          let d = f32_div (f32_nat (unat (o_capture_us fr) - unat prev)) 1000000
          in if dec 2 1000 < d \<and> d < dec 1 10
             then st\<lparr>fs_interval := f32_add (f32_mul (dec 9 10) (fs_interval st)) (f32_mul (dec 1 10) d)\<rparr>
             else st)\<lparr>fs_last_capture := Some (o_capture_us fr)\<rparr>"

text \<open>The datagram carrier: data fragments in send order, then the parity rows.\<close>

definition datagram_carrier ::
  "FrameEnv \<Rightarrow> OutboundFrame \<Rightarrow> FrameSender \<Rightarrow> Shared \<Rightarrow> (FrameSender \<times> Shared \<times> SenderOut list) option" where
  "datagram_carrier env fr st sh =
     (let budget = frag_budget (fe_max_datagram env);
          cnt = frag_count budget (length (o_payload fr));
          rows = (if wants_two_parity_rows (o_key fr) cnt then 2 else 1);
          pps = frame_pace_pps (f32_nat (sh_pace_pps sh)) (unat cnt + div_ceil (unat cnt) 8 * rows)
                  (fs_interval st) (fe_backlog env);
          w0 = \<lparr>w_tokens = fs_tokens st, w_ticks = fe_ticks env, w_offered = 0, w_out = []\<rparr>;
          finish = (\<lambda>ok cache w st.
            (st\<lparr>fs_tokens := w_tokens w\<rparr>,
             sh\<lparr>sh_resend := cache, sh_datagrams_sent := sh_datagrams_sent sh + length (w_out w),
                sh_timeline := sh_timeline sh @ [timeline_entry env fr (if ok then fe_done_us env else 0)]\<rparr>,
             map Datagram (w_out w)))
      in case send_data (fe_net env) pps budget cnt fr (fragment_send_order (unat cnt)) (sh_resend sh, w0) of
           None \<Rightarrow> None
         | Some (True, cache, w) \<Rightarrow>
             map_option (\<lambda>w1. finish True cache w1 (st\<lparr>fs_sent := sat_add32 (fs_sent st) 1\<rparr>))
               (send_parity (fe_net env) pps (parity_datagrams fr budget cnt) w)
         | Some (False, cache, w) \<Rightarrow>
             Some (finish False cache w
               (st\<lparr>fs_stalled := sat_add32 (fs_stalled st) 1, fs_stall_window := max (fs_stall_window st) 300\<rparr>)))"

text \<open>The stream a frame goes on: a keyframe prefers a fresh channel, a delta keeps the cached one.\<close>

definition pick_stream :: "OutboundFrame \<Rightarrow> FrameSender \<Rightarrow> Shared \<Rightarrow> FrameSender \<times> Shared" where
  "pick_stream fr st sh =
     (if o_key fr then
        (case sh_video_sink sh of
           Some s \<Rightarrow> (st\<lparr>fs_stream := Some s, fs_key_fresh := sat_add32 (fs_key_fresh st) 1\<rparr>,
                      sh\<lparr>sh_video_sink := None\<rparr>)
         | None \<Rightarrow> (st\<lparr>fs_key_cached := sat_add32 (fs_key_cached st) 1\<rparr>, sh))
      else if fs_stream st = None then
        (st\<lparr>fs_stream := sh_video_sink sh\<rparr>, sh\<lparr>sh_video_sink := None\<rparr>)
      else (st, sh))"

definition write_timeout :: "OutboundFrame \<Rightarrow> nat" where
  "write_timeout fr = (if o_key fr then KEY_STREAM_TIMEOUT else FRAME_STREAM_TIMEOUT)"

definition stream_write ::
  "FrameEnv \<Rightarrow> OutboundFrame \<Rightarrow> nat \<Rightarrow> FrameSender \<Rightarrow> FrameSender \<times> nat \<times> SenderOut list" where
  "stream_write env fr s st =
     (let timed_out = (st\<lparr>fs_stream := None, fs_stalled := sat_add32 (fs_stalled st) 1\<rparr>, 0, [StreamReset s])
      in case fe_write env of
           WriteOk ms \<Rightarrow>
             (if ms \<le> write_timeout fr
              then (st\<lparr>fs_stall_window := max (fs_stall_window st) ms\<rparr>, fe_done_us env,
                    [StreamWrite s (frame_encode \<lparr>WtFrame.frame_no = o_frame_no fr, capture_us = o_capture_us fr,
                       key = o_key fr, payload = o_payload fr\<rparr>)])
              else timed_out)
         | WriteErr ms \<Rightarrow>
             (if ms \<le> write_timeout fr then (st\<lparr>fs_stream := None\<rparr>, 0, []) else timed_out)
         | WriteHangs \<Rightarrow> timed_out)"

definition stream_carrier ::
  "FrameEnv \<Rightarrow> OutboundFrame \<Rightarrow> FrameSender \<Rightarrow> Shared \<Rightarrow> FrameSender \<times> Shared \<times> SenderOut list" where
  "stream_carrier env fr st sh =
     (let (st1, sh1) = pick_stream fr st sh
      in case fs_stream st1 of
           None \<Rightarrow> (st1\<lparr>fs_stalled := sat_add32 (fs_stalled st1) 1\<rparr>, sh1, [])
         | Some s \<Rightarrow>
             let (st2, write_us, out) = stream_write env fr s (st1\<lparr>fs_sent := sat_add32 (fs_sent st1) 1\<rparr>)
             in (st2, sh1\<lparr>sh_timeline := sh_timeline sh1 @ [timeline_entry env fr write_us]\<rparr>, out))"

definition freshness :: "OutboundFrame \<Rightarrow> nat" where
  "freshness fr = (if o_key fr then KEY_FRESHNESS else DELTA_FRESHNESS)"

definition sender_frame ::
  "FrameEnv \<Rightarrow> OutboundFrame \<Rightarrow> FrameSender \<Rightarrow> Shared \<Rightarrow> (FrameSender \<times> Shared \<times> SenderOut list) option" where
  "sender_frame env fr st sh =
     (if freshness fr < fe_now env - o_captured_at fr
      then Some (st\<lparr>fs_expired := sat_add32 (fs_expired st) 1\<rparr>, sh, [])
      else
        let st1 = note_interval fr st;
            sh1 = sh\<lparr>sh_frame_anchor := Some (fe_now env, unat (o_capture_us fr))\<rparr>;
            key_repair = (o_key fr \<and> length (o_payload fr) \<le> KEY_DATAGRAM_MAX_BYTES \<and> sh_key_by_datagram sh1);
            sh2 = (if o_key fr then sh1\<lparr>sh_key_by_datagram := False\<rparr> else sh1)
        in if sh_datagram_video sh2 \<and> (\<not> o_key fr \<or> key_repair) then
             (if fs_live st1 = None then Some (st1, sh2, [])
              else case datagram_carrier env fr st1 sh2 of
                     None \<Rightarrow> None
                   | Some (st3, sh3, out) \<Rightarrow>
                       if o_key fr
                       then let (st4, sh4, out2) = stream_carrier env fr st3 sh3 in Some (st4, sh4, out @ out2)
                       else Some (st3, sh3, out))
           else Some (stream_carrier env fr st1 sh2))"

text \<open>The once-a-second report publishes the worst write stall and starts the next window.\<close>

definition sender_report :: "nat \<Rightarrow> nat \<Rightarrow> FrameSender \<Rightarrow> Shared \<Rightarrow> FrameSender \<times> Shared" where
  "sender_report now evicted_total st sh =
     (if 1000000000 \<le> now - fs_last_report st
      then (st\<lparr>fs_evicted_last := evicted_total, fs_key_cached := 0, fs_key_fresh := 0, fs_sent := 0,
               fs_stalled := 0, fs_expired := 0, fs_stall_window := 0, fs_last_report := now\<rparr>,
            sh\<lparr>sh_nack_dropped := 0, sh_nack_missed := 0, sh_write_stall_ms := fs_stall_window st\<rparr>)
      else (st, sh))"

text \<open>The other arms of the task's \<open>select!\<close>.\<close>

definition sender_audio :: "SendResult \<Rightarrow> bytes \<Rightarrow> FrameSender \<Rightarrow> Shared \<Rightarrow> Shared \<times> SenderOut list" where
  "sender_audio r d st sh =
     (if fs_live st \<noteq> None \<and> r = SendOk
      then (sh\<lparr>sh_datagrams_sent := sh_datagrams_sent sh + 1\<rparr>, [Datagram d]) else (sh, []))"

definition sender_live_changed :: "nat option \<Rightarrow> FrameSender \<Rightarrow> FrameSender" where
  "sender_live_changed conn st = st\<lparr>fs_live := conn, fs_stream := None\<rparr>"

definition timeline_snapshot :: "'a Shared_scheme \<Rightarrow> nat list list \<times> 'a Shared_scheme" where
  "timeline_snapshot sh =
     (let tl = drop (length (sh_timeline sh) - 4096) (sh_timeline sh) in (tl, sh\<lparr>sh_timeline := tl\<rparr>))"

section \<open>Lemmas on the queue\<close>

lemma evict_cases:
  obtains (delta) a x b where "fs = a @ x # b" "\<not> o_key x" "\<forall>y \<in> set a. o_key y" "evict fs = a @ b"
  | (keys) "\<forall>y \<in> set fs. o_key y" "evict fs = tl fs"
proof (cases "List.extract (\<lambda>f. \<not> o_key f) fs")
  case None
  then have "\<forall>y \<in> set fs. o_key y" by (simp add: extract_None_iff)
  with None show thesis by (intro keys) (simp_all add: evict_def)
next
  case (Some t)
  obtain a x b where t: "t = (a, x, b)" by (cases t) auto
  have "evict fs = a @ b" using Some t by (simp add: evict_def)
  moreover have "fs = a @ x # b" "\<not> o_key x" "\<forall>y \<in> set a. o_key y"
    using Some t by (auto simp: extract_Some_iff)
  ultimately show thesis using delta by blast
qed

lemma evict_subseq: "subseq (evict fs) fs"
proof (cases rule: evict_cases [of fs])
  case (delta a x b)
  have "subseq (a @ b) (a @ x # b)" by (intro list_emb_append_mono) auto
  then show ?thesis using delta by simp
next
  case keys
  then show ?thesis by (cases fs) (auto intro: list_emb_Cons)
qed

lemma evict_length: "fs \<noteq> [] \<Longrightarrow> length (evict fs) = length fs - 1"
  by (cases rule: evict_cases [of fs]) auto

lemma queue_push_fields [simp]: "fq_cap (queue_push f q) = fq_cap q"
  by (simp add: queue_push_def)

definition queue_ok :: "FrameQueue \<Rightarrow> bool" where
  "queue_ok q \<longleftrightarrow> 1 \<le> fq_cap q \<and> length (fq_items q) \<le> fq_cap q"

lemma queue_push_ok: "queue_ok q \<Longrightarrow> queue_ok (queue_push f q)"
  using evict_length [of "fq_items q"]
  by (cases "fq_items q = []") (auto simp: queue_ok_def queue_push_def)

lemma queue_push_items:
  "\<exists>kept. fq_items (queue_push f q) = kept @ [f] \<and> subseq kept (fq_items q)"
  using evict_subseq [of "fq_items q"] by (auto simp: queue_push_def)

lemma queue_pushes:
  assumes "queue_ok q"
  shows "queue_ok (fold queue_push fs q) \<and> fq_cap (fold queue_push fs q) = fq_cap q
    \<and> subseq (fq_items (fold queue_push fs q)) (fq_items q @ fs)
    \<and> (fs \<noteq> [] \<longrightarrow> fq_items (fold queue_push fs q) \<noteq> [] \<and> last (fq_items (fold queue_push fs q)) = last fs)"
proof (induction fs rule: rev_induct)
  case (snoc f fs)
  obtain kept where k: "fq_items (queue_push f (fold queue_push fs q)) = kept @ [f]"
      "subseq kept (fq_items (fold queue_push fs q))"
    using queue_push_items by blast
  then have "subseq kept (fq_items q @ fs)" using snoc by (meson subseq_order.trans)
  then have "subseq (kept @ [f]) ((fq_items q @ fs) @ [f])" by (intro list_emb_append_mono) auto
  then show ?case using snoc k(1) queue_push_ok by simp
qed (use assms in simp)

text \<open>The keyframes a push keeps.\<close>

lemma queue_push_keys:
  assumes "\<not> list_all o_key (fq_items q)"
  shows "filter o_key (fq_items (queue_push f q)) = filter o_key (fq_items q @ [f])"
proof (cases rule: evict_cases [of "fq_items q"])
  case (delta a x b)
  then show ?thesis by (auto simp: queue_push_def)
next
  case keys
  then show ?thesis using assms by (simp add: list_all_iff)
qed

section \<open>Lemmas on the send order\<close>

lemma filter_below_row:
  "off < 8 \<Longrightarrow> filter (\<lambda>idx. idx < n) (map (\<lambda>g. g * 8 + off) [0..<m]) =
    map (\<lambda>g. g * 8 + off) [0..<min m ((n + 7 - off) div 8)]"
proof (induction m)
  case (Suc m)
  have e: "m * 8 + off < n \<longleftrightarrow> m < (n + 7 - off) div 8"
    using Suc.prems by (simp add: Suc_le_eq [symmetric, of m] less_eq_div_iff_mult_less_eq del: Suc_le_eq; arith)
  show ?case
  proof (cases "m < (n + 7 - off) div 8")
    case True
    then have "min (Suc m) ((n + 7 - off) div 8) = Suc m" "min m ((n + 7 - off) div 8) = m" by simp_all
    with True e Suc show ?thesis by simp
  next
    case False
    then have "min (Suc m) ((n + 7 - off) div 8) = min m ((n + 7 - off) div 8)" by simp
    with False e Suc show ?thesis by simp
  qed
qed simp

lemma row_size:
  "off < 8 \<Longrightarrow> min (div_ceil n 8) ((n + 7 - off) div 8) = n div 8 + (if off < n mod 8 then 1 else 0)"
proof -
  assume o: "off < 8"
  define q r where "q = n div 8" and "r = n mod 8"
  have n: "n = q * 8 + r" "r < 8" by (simp_all add: q_def r_def)
  have s: "(q * 8 + s) div 8 = q + s div 8" for s :: nat by simp
  have small: "s div 8 = (if 8 \<le> s then 1 else 0)" if "s < 16" for s :: nat
    using that by (simp add: div_nat_eqI)
  have c: "div_ceil n 8 = q + (if r = 0 then 0 else 1)"
    using n by (simp add: div_ceil_def)
  have "n + 7 - off = q * 8 + (r + 7 - off)" using o n by simp
  then have "(n + 7 - off) div 8 = q + (if off < r then 1 else 0)"
    using small [of "r + 7 - off"] n(2) o s [of "r + 7 - off"] by auto
  then show ?thesis using c by (auto simp: q_def [symmetric] r_def [symmetric])
qed

lemma fragment_send_order_rows:
  "fragment_send_order n = concat (map (\<lambda>off. map (\<lambda>g. g * 8 + off)
     [0..<n div 8 + (if off < n mod 8 then 1 else 0)]) [0..<8])"
proof (cases "n = 0")
  case False
  have "filter (\<lambda>idx. idx < n) (map (\<lambda>g. g * 8 + off) [0..<div_ceil n 8]) =
      map (\<lambda>g. g * 8 + off) [0..<n div 8 + (if off < n mod 8 then 1 else 0)]" if "off \<in> set [0..<8]" for off
    using that filter_below_row [of off n "div_ceil n 8"] row_size [of off n] by simp
  then show ?thesis
    using False unfolding fragment_send_order_def FRAGMENT_GROUP_def
    by (simp only: if_False cong: map_cong)
next
  case True
  have "concat (map (\<lambda>x::nat. []) xs) = []" for xs :: "nat list" by (induction xs) auto
  with True show ?thesis by (simp add: fragment_send_order_def)
qed

lemma send_order_member:
  "off < 8 \<Longrightarrow> g < n div 8 + (if off < n mod 8 then 1 else 0) \<longleftrightarrow> g * 8 + off < n" for off g n :: nat
proof -
  assume o8: "off < 8"
  define q r where "q = n div 8" and "r = n mod 8"
  have n: "n = q * 8 + r" "r < 8" by (simp_all add: q_def r_def)
  show ?thesis using o8 n(2) by (simp add: q_def [symmetric] r_def [symmetric] n(1)) arith
qed

lemma fragment_send_order_set: "set (fragment_send_order n) = {..<n}"
proof (rule set_eqI)
  fix i
  define c where "c off = n div 8 + (if off < n mod 8 then 1 else 0)" for off
  have "i \<in> set (fragment_send_order n) \<longleftrightarrow> (\<exists>off<8. \<exists>g<c off. i = g * 8 + off)"
    unfolding fragment_send_order_rows c_def [symmetric] by (fastforce simp: image_iff)
  also have "\<dots> \<longleftrightarrow> i < n"
  proof
    assume "\<exists>off<8. \<exists>g<c off. i = g * 8 + off"
    then obtain off g where "off < 8" "g < c off" "i = g * 8 + off" by blast
    then show "i < n" using send_order_member [of off g n] by (simp add: c_def)
  next
    assume "i < n"
    then have "i div 8 < c (i mod 8)" using send_order_member [of "i mod 8" "i div 8" n] by (simp add: c_def)
    then show "\<exists>off<8. \<exists>g<c off. i = g * 8 + off"
      by (metis div_mult_mod_eq mod_less_divisor zero_less_numeral)
  qed
  finally show "i \<in> set (fragment_send_order n) \<longleftrightarrow> i \<in> {..<n}" by simp
qed

lemma distinct_rows: "distinct offs \<Longrightarrow> list_all (\<lambda>x. x < 8) offs \<Longrightarrow>
    distinct (concat (map (\<lambda>off. map (\<lambda>g. g * 8 + off) [0..<c off]) offs))" for offs :: "nat list"
proof (induction offs)
  case (Cons a offs)
  let ?row = "\<lambda>off. map (\<lambda>g. g * 8 + off) [0..<c off]"
  have "x mod 8 = a" if "x \<in> set (?row a)" for x using that Cons.prems by auto
  moreover have "x mod 8 \<in> set offs" if "x \<in> set (concat (map ?row offs))" for x
    using that Cons.prems by (auto simp: list_all_iff)
  ultimately have "set (?row a) \<inter> set (concat (map ?row offs)) = {}" using Cons.prems(1) by fastforce
  moreover have "distinct (?row a)" by (simp add: distinct_map inj_on_def)
  moreover have "distinct (concat (map ?row offs))" using Cons by simp
  ultimately show ?case by (simp only: list.map concat.simps distinct_append simp_thms)
qed simp

lemma fragment_send_order_distinct: "distinct (fragment_send_order n)"
  unfolding fragment_send_order_rows by (rule distinct_rows) (simp_all add: list_all_iff)

lemma fragment_send_order_length: "length (fragment_send_order n) = n"
  using distinct_card [OF fragment_send_order_distinct, of n] by (simp add: fragment_send_order_set)

lemma nth_concat_replicate:
  "k < m * c \<Longrightarrow> concat (replicate m [0..<c]) ! k = k mod c"
proof (induction m arbitrary: k)
  case (Suc m)
  show ?case
  proof (cases "k < c")
    case False
    then have "concat (replicate m [0..<c]) ! (k - c) = (k - c) mod c" using Suc by simp
    then show ?thesis using False by (simp add: nth_append le_mod_geq)
  qed (simp add: nth_append)
qed simp

lemma send_order_groups:
  assumes "n = 8 * q + r" "r < 8"
  shows "map (\<lambda>i. i div 8) (fragment_send_order n) =
    concat (replicate r [0..<q + 1]) @ concat (replicate (8 - r) [0..<q])"
proof -
  have d: "n div 8 = q" "n mod 8 = r" using assms by simp_all
  have row: "map (\<lambda>i. i div 8) (map (\<lambda>g. g * 8 + off) [0..<c]) = [0..<c]" if "off < 8" for off c :: nat
    using that by (simp add: o_def map_idI)
  have rows: "map (\<lambda>off. map (\<lambda>i. i div 8) (map (\<lambda>g. g * 8 + off) [0..<q + (if off < r then 1 else 0)])) [a..<b]
      = map (\<lambda>off. [0..<q + (if off < r then 1 else 0)]) [a..<b]" if "b \<le> 8" for a b
    using that by (intro map_cong refl row) simp
  have "[0..<8] = [0..<r] @ [r..<8]" using upt_add_eq_append [of 0 r "8 - r"] assms(2) by simp
  moreover have "map (\<lambda>off. [0..<q + (if off < r then 1 else 0)]) [0..<r] = replicate r [0..<q + 1]"
    by (rule nth_equalityI) simp_all
  moreover have "map (\<lambda>off. [0..<q + (if off < r then 1 else 0)]) [r..<8] = replicate (8 - r) [0..<q]"
    by (rule nth_equalityI) simp_all
  ultimately show ?thesis
    unfolding fragment_send_order_rows d map_concat map_map o_def
    using rows [of 8 0] by (simp add: o_def)
qed

text \<open>Two datagrams less than \<open>n div 8\<close> apart belong to different groups.\<close>

lemma send_order_apart:
  assumes "k1 < k2" "k2 < n" "k2 - k1 < n div 8"
  shows "fragment_send_order n ! k1 div 8 \<noteq> fragment_send_order n ! k2 div 8"
proof -
  define q r where "q = n div 8" and "r = n mod 8"
  have n: "n = 8 * q + r" "r < 8" by (simp_all add: q_def r_def)
  define G where "G = map (\<lambda>i. i div 8) (fragment_send_order n)"
  have g: "G = concat (replicate r [0..<q + 1]) @ concat (replicate (8 - r) [0..<q])"
    unfolding G_def by (rule send_order_groups [OF n])
  let ?R = "r * (q + 1)"
  have len: "length (concat (replicate r [0..<q + 1])) = ?R" by (induction r) simp_all
  have lo: "G ! k = k mod (q + 1)" if "k < ?R" for k
    unfolding g nth_append len using that by (simp only: if_True nth_concat_replicate)
  have hi: "G ! k = (k - ?R) mod q" if "?R \<le> k" "k < n" for k
  proof -
    have "k - ?R < (8 - r) * q" using that n by (simp add: diff_mult_distrib algebra_simps)
    then show ?thesis unfolding g nth_append len using that by (simp add: nth_concat_replicate)
  qed
  have d: "k2 - k1 < q" "0 < k2 - k1" using assms by (simp_all add: q_def)
  have apart: "a mod c \<noteq> b mod c" if "a < b" "b - a < c" for a b c :: nat
  proof
    assume "a mod c = b mod c"
    then have "c dvd b - a" using that(1) by (metis mod_eq_dvd_iff_nat less_imp_le)
    then show False using that by (auto dest: dvd_imp_le)
  qed
  have "G ! k1 \<noteq> G ! k2"
  proof (cases "?R \<le> k1")
    case True
    then have "k1 - ?R < k2 - ?R" "k2 - ?R - (k1 - ?R) < q" using assms d by simp_all
    then show ?thesis using True hi assms apart by simp
  next
    case False
    show ?thesis
    proof (cases "?R \<le> k2")
      case True
      define a where "a = ?R - k1"
      have a: "0 < a" "a < q + 1" "k1 = ?R - a" "a \<le> ?R" "k2 - ?R < q - a" using False True d by (auto simp: a_def)
      have "r \<noteq> 0" using a(1,4) by (cases "r = 0") simp_all
      then have "?R - a = (r - 1) * (q + 1) + (q + 1 - a)" using a(2) by (cases r) simp_all
      then have "k1 mod (q + 1) = (q + 1 - a) mod (q + 1)" unfolding a(3) by (simp only: mod_mult_self3)
      then have "k1 mod (q + 1) = q + 1 - a" using a(1) by simp
      moreover have "(k2 - ?R) mod q = k2 - ?R" using a(5) by simp
      ultimately show ?thesis using lo [of k1] hi [of k2] False True assms a(5) by simp
    next
      case r2: False
      then show ?thesis using lo [of k1] lo [of k2] False apart [OF assms(1), of "q + 1"] d by simp
    qed
  qed
  then show ?thesis using assms by (simp add: G_def fragment_send_order_length)
qed

section \<open>Lemmas on fragments\<close>

lemma frag_slice_take: "frag_slice b p i = take b (drop (i * b) p)"
  by (simp add: frag_slice_def min_def take_all_iff) 

lemma frag_slices: "concat (map (frag_slice b p) [0..<c]) = take (c * b) p"
proof (induction c)
  case (Suc c)
  have "take (Suc c * b) p = take (c * b) p @ take b (drop (c * b) p)"
    using take_add [of "c * b" b p] by (simp add: add.commute)
  with Suc show ?case by (simp add: frag_slice_take)
qed simp

lemma div_ceil_enough: "0 < b \<Longrightarrow> n \<le> div_ceil n b * b"
proof -
  assume b: "0 < b"
  show ?thesis
  proof (cases "n mod b = 0")
    case True
    then have "n div b * b = n" using div_mult_mod_eq [of n b] by linarith
    then show ?thesis by (simp add: div_ceil_def True)
  next
    case False
    have "n \<le> n div b * b + b" using div_mult_mod_eq [of n b] mod_less_divisor [OF b, of n] by linarith
    then show ?thesis using False by (simp add: div_ceil_def)
  qed
qed

definition frame_fragments :: "nat \<Rightarrow> bytes \<Rightarrow> nat" where
  "frame_fragments b p = max (div_ceil (length p) b) 1"

lemma frag_count_unat: "frame_fragments b p \<le> 65535 \<Longrightarrow> unat (frag_count b (length p)) = frame_fragments b p"
  by (simp add: frag_count_def frame_fragments_def unat_of_nat)

lemma frame_slices: "0 < b \<Longrightarrow> concat (map (frag_slice b p) [0..<frame_fragments b p]) = p"
proof -
  assume b: "0 < b"
  have "length p \<le> div_ceil (length p) b * b" by (rule div_ceil_enough [OF b])
  also have "\<dots> \<le> frame_fragments b p * b" by (simp add: frame_fragments_def)
  finally show ?thesis by (simp add: frag_slices)
qed

lemma frag_budget_pos: "256 \<le> frag_budget m" by (simp add: frag_budget_def)

lemma norm_data_fragment [simp]: "norm_fragment (data_fragment fr b c i) = data_fragment fr b c i"
  by (simp add: norm_fragment_def data_fragment_def)

lemma parity_values: "x \<in> set (fragment_parity frags two) \<Longrightarrow> fst x = 1 \<or> fst x = 2"
  by (auto simp: fragment_parity_def Let_def split_beta split: if_splits)

section \<open>Lemmas on the pace\<close>

lemma f32_one: "f32_of 1 = 1" by code_simp

lemma f32_add_ge1: "1 \<le> x + y \<Longrightarrow> 1 \<le> f32_add x y"
  unfolding f32_add_def using fround_mono [of 1 "x + y" 24] f32_one by (simp add: f32_of_def)

lemma millisecond_token: "dec 1 1000 \<le> e \<Longrightarrow> 3800 \<le> pps \<Longrightarrow> 1 \<le> f32_mul e pps"
proof -
  assume e: "dec 1 1000 \<le> e" "3800 \<le> pps"
  have d: "(0::rat) < dec 1 1000" "1 \<le> f32_mul (dec 1 1000) 3800" by code_simp+
  have "dec 1 1000 * 3800 \<le> e * pps" using e d(1) by (intro mult_mono) simp_all
  then have "f32_mul (dec 1 1000) 3800 \<le> f32_mul e pps" unfolding f32_mul_def by (rule fround_mono) simp
  with d(2) show ?thesis by simp
qed

lemma frame_pace_bounds:
  "base \<le> frame_pace_pps base n i b" "frame_pace_pps base n i b \<le> max 100000 base"
  by (auto simp: frame_pace_pps_def Let_def clamp_f32_def MAX_FRAME_PACE_PPS_def)

lemma pace_wait_quick:
  assumes "0 \<le> w_tokens w" "dec 1 1000 \<le> e" "3800 \<le> pps"
  shows "\<exists>t. 0 \<le> t \<and> pace_wait net pps ((e, a) # ticks) w = Some (w\<lparr>w_tokens := t, w_ticks := ticks\<rparr>)"
proof -
  have "1 \<le> f32_add (w_tokens w) (f32_mul e pps)"
    using assms(1) millisecond_token [OF assms(2,3)] by (intro f32_add_ge1) simp
  then have t: "1 \<le> min (f32_add (w_tokens w) (f32_mul e pps)) (pace_burst pps)"
    by (simp add: pace_burst_def)
  then have "0 \<le> f32_add (min (f32_add (w_tokens w) (f32_mul e pps)) (pace_burst pps)) (- 1)"
    unfolding f32_add_def by (intro fround_nonneg) simp_all
  with t show ?thesis by (auto simp: Let_def)
qed

definition steady_ticks :: "(f32 \<times> bytes option) list \<Rightarrow> bool" where
  "steady_ticks ts \<longleftrightarrow> list_all (\<lambda>t. dec 1 1000 \<le> fst t) ts"

lemma send_paced_ok:
  assumes "0 \<le> w_tokens w" "3800 \<le> pps" "steady_ticks (w_ticks w)" "w_ticks w \<noteq> []" "net (w_offered w) = SendOk"
  shows "\<exists>w'. send_paced net pps d w = Some (True, w') \<and> 0 \<le> w_tokens w' \<and> w_ticks w' = tl (w_ticks w)
    \<and> w_out w' = w_out w @ [d] \<and> w_offered w' = w_offered w + 1"
proof -
  obtain e a ts where t: "w_ticks w = (e, a) # ts" using assms(4) by (cases "w_ticks w") auto
  then have "dec 1 1000 \<le> e" using assms(3) by (simp add: steady_ticks_def)
  from pace_wait_quick [OF assms(1) this assms(2), of net a ts] obtain x
    where x: "0 \<le> x" "pace_wait net pps (w_ticks w) w = Some (w\<lparr>w_tokens := x, w_ticks := ts\<rparr>)"
    unfolding t by blast
  show ?thesis
    unfolding send_paced_def x(2) try_send_datagram_def using assms(5) x(1) by (simp add: t Let_def)
qed

lemma send_data_ok:
  assumes "0 \<le> w_tokens w" "3800 \<le> pps" "steady_ticks (w_ticks w)" "length is \<le> length (w_ticks w)"
    "net = (\<lambda>_. SendOk)"
  shows "\<exists>cache' w'. send_data net pps b cnt fr is (cache, w) = Some (True, cache', w')
    \<and> 0 \<le> w_tokens w' \<and> w_ticks w' = drop (length is) (w_ticks w)
    \<and> w_out w' = w_out w @ map (\<lambda>i. fragment_encode (data_fragment fr b cnt i)) is"
  using assms
proof (induction "is" arbitrary: cache w)
  case (Cons i "is")
  have "w_ticks w \<noteq> []" using Cons.prems(4) by auto
  then obtain w1 where w1: "send_paced net pps (fragment_encode (data_fragment fr b cnt i)) w = Some (True, w1)"
      "0 \<le> w_tokens w1" "w_ticks w1 = tl (w_ticks w)"
      "w_out w1 = w_out w @ [fragment_encode (data_fragment fr b cnt i)]"
    using send_paced_ok [of w pps net "fragment_encode (data_fragment fr b cnt i)"] Cons.prems by auto
  have "steady_ticks (w_ticks w1)" "length is \<le> length (w_ticks w1)"
    using Cons.prems w1(3) by (cases "w_ticks w"; simp add: steady_ticks_def)+
  from Cons.IH [OF w1(2) Cons.prems(2) this Cons.prems(5)] show ?case
    using w1 by (auto simp: Let_def drop_Suc)
qed simp

lemma send_parity_ok:
  assumes "0 \<le> w_tokens w" "3800 \<le> pps" "steady_ticks (w_ticks w)" "length ds \<le> length (w_ticks w)"
    "net = (\<lambda>_. SendOk)"
  shows "\<exists>w'. send_parity net pps ds w = Some w' \<and> w_out w' = w_out w @ ds"
  using assms
proof (induction ds arbitrary: w)
  case (Cons d ds)
  have "w_ticks w \<noteq> []" using Cons.prems(4) by auto
  then obtain w1 where w1: "send_paced net pps d w = Some (True, w1)"
      "0 \<le> w_tokens w1" "w_ticks w1 = tl (w_ticks w)" "w_out w1 = w_out w @ [d]"
    using send_paced_ok [of w pps net d] Cons.prems by auto
  have "steady_ticks (w_ticks w1)" "length ds \<le> length (w_ticks w1)"
    using Cons.prems w1(3) by (cases "w_ticks w"; simp add: steady_ticks_def)+
  from Cons.IH [OF w1(2) Cons.prems(2) this Cons.prems(5)] show ?case using w1 by auto
qed simp

section \<open>What a receiver reads back\<close>

definition decoded :: "bytes list \<Rightarrow> WtFragment list" where
  "decoded ds = concat (map (\<lambda>d. case fragment_decode d of Inr f \<Rightarrow> [f] | Inl _ \<Rightarrow> []) ds)"

definition reassemble :: "bytes list \<Rightarrow> bytes" where
  "reassemble ds = concat (map fg_payload (sort_key (\<lambda>f. unat (fg_frag_idx f))
     (filter (\<lambda>f. fg_parity f = 0) (decoded ds))))"

lemma decoded_encoded: "decoded (map fragment_encode fs) = map norm_fragment fs"
  by (induction fs) (simp_all add: decoded_def fragment_decode_encode)

lemma decoded_append: "decoded (xs @ ys) = decoded xs @ decoded ys"
  by (simp add: decoded_def)

lemma data_fragment_parity [simp]: "fg_parity (data_fragment fr b cnt i) = 0"
  by (simp add: data_fragment_def)

lemma parity_decoded:
  "filter (\<lambda>f. fg_parity f = 0) (decoded (parity_datagrams fr b cnt)) = []"
proof -
  let ?two = "wants_two_parity_rows (o_key fr) cnt"
  have "fg_parity (norm_fragment (parity_fragment fr cnt ?two x)) \<noteq> 0"
    if "x \<in> set (enumerate 0 (fragment_parity frags two))" for x frags two
  proof -
    have "snd x \<in> set (fragment_parity frags two)" using that nth_mem [of "fst x" "fragment_parity frags two"] by (simp add: in_set_enumerate_eq)
    then show ?thesis using parity_values [of "snd x" frags two]
      by (auto simp: parity_fragment_def norm_fragment_def split: prod.splits)
  qed
  then show ?thesis
    unfolding parity_datagrams_def Let_def
    by (auto simp: filter_empty_conv decoded_encoded [of "map f xs" for f xs, unfolded map_map o_def])
qed

lemma sort_fragments:
  assumes "set is = {..<n}" "distinct is" "n \<le> 65536"
  shows "sort_key (\<lambda>f. unat (fg_frag_idx f)) (map (data_fragment fr b cnt) is)
    = map (data_fragment fr b cnt) [0..<n]" (is "?L = ?R")
proof (rule map_sorted_distinct_set_unique [where f = "\<lambda>f. unat (fg_frag_idx f)"])
  have idx: "unat (fg_frag_idx (data_fragment fr b cnt i)) = i" if "i < n" for i
    using that assms(3) by (simp add: data_fragment_def unat_of_nat)
  have inj: "inj_on (\<lambda>i. unat (fg_frag_idx (data_fragment fr b cnt i))) {..<n}"
    by (rule inj_onI) (simp add: idx)
  have S: "set ?L = data_fragment fr b cnt ` {..<n}" "set ?R = data_fragment fr b cnt ` {..<n}"
    using assms(1) by (auto simp: atLeast0LessThan)
  show "inj_on (\<lambda>f. unat (fg_frag_idx f)) (set ?L \<union> set ?R)"
    unfolding S by (rule inj_onI) (auto simp: idx)
  show "sorted (map (\<lambda>f. unat (fg_frag_idx f)) ?L)" by (rule sorted_sort_key)
  have "map (\<lambda>f. unat (fg_frag_idx f)) ?R = [0..<n]" by (rule nth_equalityI) (simp_all add: idx)
  then show "sorted (map (\<lambda>f. unat (fg_frag_idx f)) ?R)" "distinct (map (\<lambda>f. unat (fg_frag_idx f)) ?R)"
    by simp_all
  have "distinct (map (\<lambda>f. unat (fg_frag_idx f)) (map (data_fragment fr b cnt) is))"
    using assms(2) inj by (simp add: distinct_map o_def assms(1))
  then show "distinct (map (\<lambda>f. unat (fg_frag_idx f)) ?L)"
    by (metis distinct_map distinct_sort set_sort)
  show "set ?L = set ?R" by (simp only: S)
qed

lemma reassemble_sent:
  assumes "frame_fragments b (o_payload fr) \<le> 65535" "0 < b" "cnt = frag_count b (length (o_payload fr))"
  shows "reassemble (map (\<lambda>i. fragment_encode (data_fragment fr b cnt i)) (fragment_send_order (unat cnt))
      @ parity_datagrams fr b cnt) = o_payload fr"
proof -
  let ?n = "frame_fragments b (o_payload fr)" and ?is = "fragment_send_order (unat cnt)"
  have n: "unat cnt = ?n" using frag_count_unat assms(1,3) by simp
  have "filter (\<lambda>f. fg_parity f = 0) (decoded (map (\<lambda>i. fragment_encode (data_fragment fr b cnt i)) ?is))
      = map (data_fragment fr b cnt) ?is"
    using decoded_encoded [of "map (data_fragment fr b cnt) ?is"]
    by (simp add: o_def filter_id_conv)
  then have "reassemble (map (\<lambda>i. fragment_encode (data_fragment fr b cnt i)) ?is @ parity_datagrams fr b cnt)
      = concat (map fg_payload (sort_key (\<lambda>f. unat (fg_frag_idx f)) (map (data_fragment fr b cnt) ?is)))"
    by (simp add: reassemble_def decoded_append parity_decoded)
  also have "\<dots> = concat (map fg_payload (map (data_fragment fr b cnt) [0..<?n]))"
    using sort_fragments [of ?is ?n fr b cnt] assms(1) n
    by (simp add: fragment_send_order_set fragment_send_order_distinct)
  also have "\<dots> = concat (map (frag_slice b (o_payload fr)) [0..<?n])"
    by (simp add: o_def data_fragment_def)
  also have "\<dots> = o_payload fr" by (rule frame_slices [OF assms(2)])
  finally show ?thesis .
qed

section \<open>One frame\<close>

definition on_time :: "FrameEnv \<Rightarrow> OutboundFrame \<Rightarrow> bool" where
  "on_time env fr \<longleftrightarrow> fe_now env - o_captured_at fr \<le> freshness fr"

definition frame_datagrams :: "FrameEnv \<Rightarrow> OutboundFrame \<Rightarrow> bytes list" where
  "frame_datagrams env fr =
     (let b = frag_budget (fe_max_datagram env); cnt = frag_count b (length (o_payload fr))
      in map (\<lambda>i. fragment_encode (data_fragment fr b cnt i)) (fragment_send_order (unat cnt))
         @ parity_datagrams fr b cnt)"

lemma note_interval_fields [simp]:
  "fs_tokens (note_interval fr st) = fs_tokens st" "fs_live (note_interval fr st) = fs_live st"
  "fs_stream (note_interval fr st) = fs_stream st" "fs_sent (note_interval fr st) = fs_sent st"
  "fs_stalled (note_interval fr st) = fs_stalled st" "fs_expired (note_interval fr st) = fs_expired st"
  by (simp_all add: note_interval_def Let_def split: option.split)

lemma f32_nat_ge: "3800 \<le> n \<Longrightarrow> 3800 \<le> f32_nat n"
proof -
  assume "3800 \<le> n"
  then have "f32_nat 3800 \<le> f32_nat n" unfolding f32_nat_def by (intro fround_mono) simp_all
  then show ?thesis using f32_nat_exact [of 3800] by simp
qed

lemma datagram_carrier_ok:
  assumes "fe_net env = (\<lambda>_. SendOk)" "steady_ticks (fe_ticks env)"
    "length (frame_datagrams env fr) \<le> length (fe_ticks env)" "3800 \<le> sh_pace_pps sh" "0 \<le> fs_tokens st"
  shows "\<exists>st' sh'. datagram_carrier env fr st sh = Some (st', sh', map Datagram (frame_datagrams env fr))
    \<and> fs_sent st' = sat_add32 (fs_sent st) 1 \<and> fs_stalled st' = fs_stalled st"
proof -
  define b where "b = frag_budget (fe_max_datagram env)"
  define cnt where "cnt = frag_count b (length (o_payload fr))"
  define rows where "rows = (if wants_two_parity_rows (o_key fr) cnt then 2 else 1 :: nat)"
  define pps where "pps = frame_pace_pps (f32_nat (sh_pace_pps sh)) (unat cnt + div_ceil (unat cnt) 8 * rows)
      (fs_interval st) (fe_backlog env)"
  define w0 where "w0 = \<lparr>w_tokens = fs_tokens st, w_ticks = fe_ticks env, w_offered = 0, w_out = []\<rparr>"
  let ?is = "fragment_send_order (unat cnt)" and ?enc = "\<lambda>i. fragment_encode (data_fragment fr b cnt i)"
  have ds: "frame_datagrams env fr = map ?enc ?is @ parity_datagrams fr b cnt"
    by (simp add: frame_datagrams_def Let_def b_def cnt_def)
  have pps: "3800 \<le> pps"
    using f32_nat_ge [OF assms(4)] frame_pace_bounds(1) unfolding pps_def by (rule order_trans)
  have len: "length ?is \<le> length (fe_ticks env)" "length (parity_datagrams fr b cnt) \<le> length (drop (length ?is) (fe_ticks env))"
    using assms(3) by (simp_all add: ds)
  obtain cache w where w: "send_data (fe_net env) pps b cnt fr ?is (sh_resend sh, w0) = Some (True, cache, w)"
      "0 \<le> w_tokens w" "w_ticks w = drop (length ?is) (fe_ticks env)" "w_out w = map ?enc ?is"
    using send_data_ok [of w0 pps ?is "fe_net env" b cnt fr "sh_resend sh"] assms pps len by (auto simp: w0_def)
  have "steady_ticks (w_ticks w)" using assms(2) w(3) by (auto simp: steady_ticks_def list_all_iff dest: in_set_dropD)
  then obtain w1 where w1: "send_parity (fe_net env) pps (parity_datagrams fr b cnt) w = Some w1"
      "w_out w1 = map ?enc ?is @ parity_datagrams fr b cnt"
    using send_parity_ok [of w pps "parity_datagrams fr b cnt" "fe_net env"] assms(1) pps len(2) w by auto
  show ?thesis
    unfolding datagram_carrier_def Let_def b_def [symmetric] cnt_def [symmetric]
      rows_def [symmetric] pps_def [symmetric] w0_def [symmetric] w(1)
    by (simp add: w1 ds)
qed

section \<open>Lemmas on the re-send cache\<close>

definition resend_ok :: "u32 \<Rightarrow> (u32 \<times> u16 \<times> bytes) list \<Rightarrow> bool" where
  "resend_ok no cache \<longleftrightarrow>
     sorted (map (unat \<circ> fst) cache) \<and> list_all (\<lambda>e. unat (fst e) \<le> unat no) cache"

lemma trim_resend_drop: "\<exists>k. trim_resend no es = drop k es"
proof (induction es)
  case (Cons e es)
  then obtain k where "trim_resend no es = drop k es" by blast
  then have "trim_resend no (e # es) = drop (Suc k) (e # es) \<or> trim_resend no (e # es) = drop 0 (e # es)" by simp
  then show ?case by blast
qed simp

lemma trim_resend_bound: "length (trim_resend no es) \<le> RESEND_MAX_FRAGMENTS"
  by (induction es) auto

lemma trim_resend_window:
  "sorted (map (unat \<circ> fst) es) \<Longrightarrow> e \<in> set (trim_resend no es) \<Longrightarrow> unat no - unat (fst e) \<le> RESEND_FRAMES"
proof (induction es)
  case (Cons x es)
  show ?case
  proof (cases "RESEND_MAX_FRAGMENTS < length (x # es) \<or> RESEND_FRAMES < unat no - unat (fst x)")
    case True
    then show ?thesis using Cons by simp
  next
    case False
    then have "unat (fst x) \<le> unat (fst e)" using Cons.prems by auto
    moreover have "unat no - unat (fst x) \<le> RESEND_FRAMES" using False by simp
    ultimately show ?thesis by linarith
  qed
qed simp

lemma resend_ok_drop: "resend_ok no cache \<Longrightarrow> resend_ok no (drop k cache)"
  by (auto simp: resend_ok_def list_all_iff drop_map [symmetric] sorted_wrt_drop dest: in_set_dropD)

lemma trim_resend_newest:
  assumes "fst e = no"
  shows "trim_resend no (es @ [e]) \<noteq> [] \<and> last (trim_resend no (es @ [e])) = e"
proof (induction es)
  case Nil
  then show ?case using assms by (simp add: RESEND_MAX_FRAGMENTS_def RESEND_FRAMES_def)
next
  case (Cons x es)
  then show ?case by simp
qed

lemma cache_fragment_ok:
  assumes "resend_ok no cache" "unat no \<le> unat no'"
  shows "resend_ok no' (cache_fragment no' idx enc cache)
    \<and> length (cache_fragment no' idx enc cache) \<le> RESEND_MAX_FRAGMENTS
    \<and> (\<forall>e \<in> set (cache_fragment no' idx enc cache). unat no' - unat (fst e) \<le> RESEND_FRAMES)
    \<and> (\<exists>k. cache_fragment no' idx enc cache = drop k (cache @ [(no', idx, enc)]))
    \<and> (no', idx, enc) \<in> set (cache_fragment no' idx enc cache)"
proof -
  have ok: "resend_ok no' (cache @ [(no', idx, enc)])"
    using assms by (auto simp: resend_ok_def list_all_iff sorted_append)
  obtain k where k: "trim_resend no' (cache @ [(no', idx, enc)]) = drop k (cache @ [(no', idx, enc)])"
    using trim_resend_drop by blast
  have "sorted (map (unat \<circ> fst) (cache @ [(no', idx, enc)]))" using ok by (simp add: resend_ok_def)
  note w = trim_resend_window [OF this]
  show ?thesis
    unfolding cache_fragment_def
    using resend_ok_drop [OF ok, of k] k trim_resend_bound w trim_resend_newest [of "(no', idx, enc)" no' cache]
    by (metis fst_conv last_in_set)
qed

section \<open>Lemmas on the carriers\<close>

lemma stream_carrier_out:
  assumes "stream_carrier env fr st sh = (st', sh', out)" "x \<in> set out"
  shows "case x of Datagram d \<Rightarrow> False
    | StreamWrite s b \<Rightarrow> b = frame_encode \<lparr>WtFrame.frame_no = o_frame_no fr, capture_us = o_capture_us fr,
                               key = o_key fr, payload = o_payload fr\<rparr>
    | StreamReset s \<Rightarrow> True"
proof -
  obtain st1 sh1 where p: "pick_stream fr st sh = (st1, sh1)" by (cases "pick_stream fr st sh")
  show ?thesis using assms
    by (cases "fs_stream st1"; cases "fe_write env")
      (auto simp: stream_carrier_def stream_write_def p Let_def split: if_splits)
qed

lemma stream_carrier_flag: "sh_key_by_datagram (fst (snd (stream_carrier env fr st sh))) = sh_key_by_datagram sh"
  by (auto simp: stream_carrier_def pick_stream_def Let_def split_beta split: option.split)

lemma datagram_carrier_out:
  assumes "datagram_carrier env fr st sh = Some (st', sh', out)"
  shows "(\<exists>ds. out = map Datagram ds) \<and> sh_key_by_datagram sh' = sh_key_by_datagram sh
    \<and> length (sh_timeline sh') = length (sh_timeline sh) + 1"
  using assms by (auto simp: datagram_carrier_def Let_def split: option.splits bool.splits)

lemma sender_frame_out:
  assumes "sender_frame env fr st sh = Some (st', sh', out)" "x \<in> set out"
  shows "on_time env fr \<and> (case x of
      Datagram d \<Rightarrow> sh_datagram_video sh
        \<and> \<not> (o_key fr \<and> \<not> (length (o_payload fr) \<le> KEY_DATAGRAM_MAX_BYTES \<and> sh_key_by_datagram sh))
    | StreamWrite s b \<Rightarrow> \<not> (sh_datagram_video sh \<and> \<not> o_key fr)
        \<and> b = frame_encode \<lparr>WtFrame.frame_no = o_frame_no fr, capture_us = o_capture_us fr,
                 key = o_key fr, payload = o_payload fr\<rparr>
    | StreamReset s \<Rightarrow> True)"
proof -
  have t: "on_time env fr" using assms by (cases "on_time env fr") (auto simp: sender_frame_def on_time_def)
  define repair where "repair \<longleftrightarrow> length (o_payload fr) \<le> KEY_DATAGRAM_MAX_BYTES \<and> sh_key_by_datagram sh"
  define st1 where "st1 = note_interval fr st"
  define sh1 where "sh1 = sh\<lparr>sh_frame_anchor := Some (fe_now env, unat (o_capture_us fr))\<rparr>"
  define sh2 where "sh2 = (if o_key fr then sh1\<lparr>sh_key_by_datagram := False\<rparr> else sh1)"
  have v: "sh_datagram_video sh2 = sh_datagram_video sh" "sh_key_by_datagram sh1 = sh_key_by_datagram sh"
    by (simp_all add: sh2_def sh1_def)
  have e: "sender_frame env fr st sh =
      (if sh_datagram_video sh \<and> (\<not> o_key fr \<or> repair) then
         (if fs_live st1 = None then Some (st1, sh2, [])
          else case datagram_carrier env fr st1 sh2 of None \<Rightarrow> None
            | Some (st3, sh3, out) \<Rightarrow>
                if o_key fr
                then let (st4, sh4, out2) = stream_carrier env fr st3 sh3 in Some (st4, sh4, out @ out2)
                else Some (st3, sh3, out))
       else Some (stream_carrier env fr st1 sh2))"
    using t v unfolding sender_frame_def Let_def on_time_def st1_def [symmetric] sh1_def [symmetric]
      sh2_def [symmetric] repair_def by auto
  show ?thesis
  proof (cases "sh_datagram_video sh \<and> (\<not> o_key fr \<or> repair)")
    case True
    then obtain st3 sh3 o1 where d: "datagram_carrier env fr st1 sh2 = Some (st3, sh3, o1)"
      using assms e by (auto split: if_splits option.splits)
    obtain ds where ds: "o1 = map Datagram ds" using datagram_carrier_out [OF d] by blast
    obtain st4 sh4 o2 where s: "stream_carrier env fr st3 sh3 = (st4, sh4, o2)" by (cases "stream_carrier env fr st3 sh3")
    have "x \<in> set o1 \<or> o_key fr \<and> x \<in> set o2"
      using assms e True by (auto simp: d s split: if_splits)
    then show ?thesis
      using t True ds stream_carrier_out [OF s, of x] by (auto simp: repair_def split: SenderOut.splits)
  next
    case False
    obtain st4 sh4 o2 where s: "stream_carrier env fr st1 sh2 = (st4, sh4, o2)" by (cases "stream_carrier env fr st1 sh2")
    have "sender_frame env fr st sh = Some (st4, sh4, o2)" unfolding e by (simp only: False if_False s)
    then have "x \<in> set o2" using assms by simp
    then show ?thesis
      using t False stream_carrier_out [OF s, of x] by (auto simp: repair_def split: SenderOut.splits)
  qed
qed


lemma fragment_window_distinct:
  "distinct (map (\<lambda>i. i div FRAGMENT_GROUP) (take (n div FRAGMENT_GROUP) (drop k (fragment_send_order n))))"
proof -
  let ?w = "take (n div FRAGMENT_GROUP) (drop k (fragment_send_order n))"
  have "?w ! i div FRAGMENT_GROUP \<noteq> ?w ! j div FRAGMENT_GROUP"
    if "i < j" "j < length ?w" for i j
  proof -
    have j: "j < n - k" "j < n div 8" using that by (simp_all add: FRAGMENT_GROUP_def fragment_send_order_length)
    then have "k \<le> length (fragment_send_order n)" by (simp add: fragment_send_order_length)
    then show ?thesis using j that(1) send_order_apart [of "k + i" "k + j" n] by (simp add: FRAGMENT_GROUP_def)
  qed
  then show ?thesis unfolding distinct_conv_nth by (auto simp: neq_iff)
qed

section \<open>Properties\<close>

text \<open>Latest value: whatever is pushed, the queue stays within its capacity, holds a subsequence
  of what was pushed in its order, and the newest frame is always in it, at the end.\<close>
theorem frame_queue_latest:
  "length (fq_items (fold queue_push fs (queue_new c))) \<le> max c 1
    \<and> subseq (fq_items (fold queue_push fs (queue_new c))) fs
    \<and> take 1 (rev (fq_items (fold queue_push fs (queue_new c)))) = take 1 (rev fs)"
proof -
  have ok: "queue_ok (queue_new c)" by (simp add: queue_ok_def queue_new_def)
  have f: "fq_cap (queue_new c) = max c 1" "fq_items (queue_new c) = []" by (simp_all add: queue_new_def)
  have newest: "take 1 (rev xs) = [last xs]" if "xs \<noteq> []" for xs :: "OutboundFrame list"
    using that by (cases xs rule: rev_cases) auto
  show ?thesis
    using queue_pushes [OF ok, of fs] f newest [of fs] newest [of "fq_items (fold queue_push fs (queue_new c))"]
    by (cases "fs = []") (auto simp: queue_ok_def)
qed

text \<open>What a full queue gives up: as long as it holds a frame that is not a keyframe every keyframe
  survives the push; but when only keyframes wait, the oldest of them goes, even for a delta.\<close>
theorem frame_queue_eviction:
  assumes "fq_cap q \<le> length (fq_items q)" "fq_items q \<noteq> []"
  shows "if list_all o_key (fq_items q)
    then fq_items (queue_push f q) = tl (fq_items q) @ [f]
    else filter o_key (fq_items (queue_push f q)) = filter o_key (fq_items q @ [f])"
proof (cases "list_all o_key (fq_items q)")
  case True
  then show ?thesis
    using assms by (cases rule: evict_cases [of "fq_items q"]) (auto simp: list_all_iff queue_push_def)
qed (simp add: queue_push_keys)

definition demo_frame :: "bool \<Rightarrow> bytes \<Rightarrow> OutboundFrame" where
  "demo_frame k p = \<lparr>o_frame_no = 7, o_capture_us = 1000, o_key = k, o_payload = p, o_captured_at = 0,
     o_enq_us = 0, o_capture_host_us = 0\<rparr>"

lemma frame_queue_eviction_witness:
  "fq_items (queue_push (demo_frame False [2]) \<lparr>fq_items = [demo_frame True [1]], fq_cap = 1, fq_evicted = 0\<rparr>)
    = [demo_frame False [2]]"
  using frame_queue_eviction [of "\<lparr>fq_items = [demo_frame True [1]], fq_cap = 1, fq_evicted = 0\<rparr>"
      "demo_frame False [2]"]
  by (simp add: demo_frame_def)

text \<open>The send order is a permutation of the frame's fragments, and any burst of at most
  \<open>n / 8\<close> consecutive datagrams hits each parity group at most once, so row-1 parity can repair it.\<close>
theorem fragment_order_spreads_bursts:
  "set (fragment_send_order n) = {..<n} \<and> distinct (fragment_send_order n)
    \<and> distinct (map (\<lambda>i. i div FRAGMENT_GROUP) (take (n div FRAGMENT_GROUP) (drop k (fragment_send_order n))))"
  by (simp add: fragment_send_order_set fragment_send_order_distinct fragment_window_distinct)

text \<open>The order does not spread a burst as wide as the number of groups: with nine fragments, two
  groups, the datagrams third and fourth in line both belong to the first group.\<close>
theorem fragment_order_short_group:
  "div_ceil 9 FRAGMENT_GROUP = 2
    \<and> map (\<lambda>i. i div FRAGMENT_GROUP) (take 2 (drop 2 (fragment_send_order 9))) = [0, 0]"
  by code_simp


definition demo_env :: FrameEnv where
  "demo_env = \<lparr>fe_now = 0, fe_pop_us = 0, fe_done_us = 0, fe_backlog = 0, fe_max_datagram = None,
     fe_net = (\<lambda>_. SendOk), fe_ticks = replicate 4 (dec 1 1000, None), fe_write = WriteOk 1\<rparr>"

definition demo_shared :: Shared where
  "demo_shared = \<lparr>sh_video_sink = None, sh_write_stall_ms = 0, sh_timeline = [], sh_datagram_video = True,
     sh_key_by_datagram = False, sh_resend = [], sh_frame_anchor = None, sh_pace_pps = 3800,
     sh_nack_dropped = 0, sh_nack_missed = 0, sh_datagrams_sent = 0\<rparr>"

definition demo_sender :: FrameSender where
  "demo_sender = (sender_new 0 (queue_new 8))\<lparr>fs_live := Some 1\<rparr>"

lemma demo_frame_facts:
  "length (frame_datagrams demo_env (demo_frame False [1, 2, 3])) = 2"
  "frame_fragments (frag_budget (fe_max_datagram demo_env)) (o_payload (demo_frame False [1, 2, 3])) = 1"
  by code_simp+


text \<open>C13. A burst is repaired without a re-send: lose any \<open>n / 8\<close> consecutive data datagrams of a
  frame of \<open>n\<close> fragments, and for each lost fragment the other members of its group are not among
  the lost and together with the group's row-1 parity give it back.\<close>
theorem burst_is_rebuilt:
  assumes "i \<in> set (take (unat cnt div FRAGMENT_GROUP) (drop k (fragment_send_order (unat cnt))))"
  shows "(\<forall>j \<in> set (take (unat cnt div FRAGMENT_GROUP) (drop k (fragment_send_order (unat cnt)))).
            j div FRAGMENT_GROUP = i div FRAGMENT_GROUP \<longrightarrow> j = i)
    \<and> take (length (frag_slice b p i))
        (rebuild (group_others (data_frags b cnt p) (i div FRAGMENT_GROUP) i)
          (strip_trailer (snd (fragment_parity (data_frags b cnt p) two
             ! row1_pos two (i div FRAGMENT_GROUP))))) = frag_slice b p i"
proof -
  let ?w = "take (unat cnt div FRAGMENT_GROUP) (drop k (fragment_send_order (unat cnt)))"
  have "inj_on (\<lambda>i. i div FRAGMENT_GROUP) (set ?w)"
    using fragment_window_distinct by (auto simp: distinct_map)
  then have one: "\<forall>j \<in> set ?w. j div FRAGMENT_GROUP = i div FRAGMENT_GROUP \<longrightarrow> j = i"
    using assms by (auto dest: inj_onD)
  have "i \<in> set (fragment_send_order (unat cnt))"
    using assms by (meson in_set_takeD in_set_dropD)
  then have i: "i < unat cnt" by (simp add: fragment_send_order_set)
  then have "data_frags b cnt p ! i = frag_slice b p i" "length (data_frags b cnt p) = unat cnt"
    by (simp_all add: data_frags_def)
  then show ?thesis
    using row1_rebuilds [of "i mod 8" "i div 8" "data_frags b cnt p" two] i one
    by (simp add: FRAGMENT_GROUP_def)
qed

lemma burst_is_rebuilt_witness:
  "take 256 (rebuild (group_others (data_frags 256 8 (replicate 2048 3)) 0 0)
      (strip_trailer (snd (fragment_parity (data_frags 256 8 (replicate 2048 3)) False ! 0)))) = replicate 256 3"
proof -
  have "0 \<in> set (take (unat (8 :: u16) div FRAGMENT_GROUP) (drop 0 (fragment_send_order (unat (8 :: u16)))))"
    by code_simp
  from burst_is_rebuilt [OF this, of 256 "replicate 2048 3" False] show ?thesis
    by (simp add: frag_slice_take row1_pos_def)
qed

text \<open>C25. What the sender may put on the wire: nothing of a frame past its freshness budget; a delta
  only on the carrier the client chose; a keyframe as datagrams only when the client asked and it
  is small; and what goes on a stream is exactly the encoded frame.\<close>
theorem frame_carriers:
  assumes "sender_frame env fr st sh = Some (st', sh', out)" "x \<in> set out"
  shows "on_time env fr \<and> (case x of
      Datagram d \<Rightarrow> sh_datagram_video sh
        \<and> \<not> (o_key fr \<and> \<not> (length (o_payload fr) \<le> KEY_DATAGRAM_MAX_BYTES \<and> sh_key_by_datagram sh))
    | StreamWrite s b \<Rightarrow> \<not> (sh_datagram_video sh \<and> \<not> o_key fr)
        \<and> b = frame_encode \<lparr>WtFrame.frame_no = o_frame_no fr, capture_us = o_capture_us fr,
                 key = o_key fr, payload = o_payload fr\<rparr>
    | StreamReset s \<Rightarrow> True)"
  by (rule sender_frame_out [OF assms])

lemma key_goes_on_channel:
  "\<exists>st' sh' b. sender_frame demo_env (demo_frame True [9]) demo_sender (demo_shared\<lparr>sh_video_sink := Some 3\<rparr>)
    = Some (st', sh', [StreamWrite 3 b])"
  by (simp add: sender_frame_def demo_env_def demo_shared_def demo_sender_def sender_new_def demo_frame_def
      freshness_def Let_def stream_carrier_def pick_stream_def stream_write_def write_timeout_def
      KEY_STREAM_TIMEOUT_def note_interval_def)

lemma frame_carriers_witness:
  "\<exists>st' sh' b. sender_frame demo_env (demo_frame True [9]) demo_sender (demo_shared\<lparr>sh_video_sink := Some 3\<rparr>)
      = Some (st', sh', [StreamWrite 3 b])
    \<and> b = frame_encode \<lparr>WtFrame.frame_no = 7, capture_us = 1000, key = True, payload = [9]\<rparr>"
proof -
  obtain st' sh' b where s: "sender_frame demo_env (demo_frame True [9]) demo_sender
      (demo_shared\<lparr>sh_video_sink := Some 3\<rparr>) = Some (st', sh', [StreamWrite 3 b])"
    using key_goes_on_channel by blast
  from frame_carriers [OF s, of "StreamWrite 3 b"] s show ?thesis by (simp add: demo_frame_def)
qed

text \<open>The re-send cache: caching a fragment of the current frame keeps the cache in frame order,
  within 16384 fragments and within 150 frames, drops only from the old end, and the new fragment
  is there to be asked for.\<close>
theorem resend_cache_window:
  assumes "resend_ok no cache" "unat no \<le> unat no'"
  shows "resend_ok no' (cache_fragment no' idx enc cache)
    \<and> length (cache_fragment no' idx enc cache) \<le> RESEND_MAX_FRAGMENTS
    \<and> (\<forall>e \<in> set (cache_fragment no' idx enc cache). unat no' - unat (fst e) \<le> RESEND_FRAMES)
    \<and> (\<exists>k. cache_fragment no' idx enc cache = drop k (cache @ [(no', idx, enc)]))
    \<and> (no', idx, enc) \<in> set (cache_fragment no' idx enc cache)"
  by (rule cache_fragment_ok [OF assms])

lemma resend_cache_window_witness:
  "length (cache_fragment 200 0 [1] [(10, 0, [2]), (100, 0, [3])]) \<le> RESEND_MAX_FRAGMENTS
    \<and> cache_fragment 200 0 [1] [(10, 0, [2]), (100, 0, [3])] = [(100, 0, [3]), (200, 0, [1])]"
proof -
  have "resend_ok 100 [(10, 0, [2]), (100, 0, [3])]" by (simp add: resend_ok_def)
  from resend_cache_window [OF this, of 200 0 "[1]"] show ?thesis
    by (simp add: cache_fragment_def RESEND_MAX_FRAGMENTS_def RESEND_FRAMES_def)
qed

end
