(* ===== verification/WtSession.thy ===== *)
theory WtSession
  imports FrameSender Credentials Slots
begin

text \<open>
  A WebTransport session on the host (\<open>crates/host/src/media/wt/session.rs\<close>): the line reader of
  the control stream, the loss window, authentication, every control message, and the hand-over of
  the single video slot between connections. Several sessions run at once, so opening and closing
  one is cut into the critical sections the code has (\<open>wt_step\<close>); the handler of a control message
  is one function. JSON and base64 are parameters; a session and its QUIC connection share a number.
\<close>

section \<open>Lines\<close>

text \<open>One complete line, without its newline and without a carriage return before it.\<close>

definition strip_cr :: "bytes \<Rightarrow> bytes" where
  "strip_cr l = (if l \<noteq> [] \<and> last l = 13 then butlast l else l)"

definition take_line :: "bytes \<Rightarrow> (bytes \<times> bytes) option" where
  "take_line buf =
     (if 10 \<in> set buf
      then Some (strip_cr (takeWhile (\<lambda>b. b \<noteq> 10) buf), tl (dropWhile (\<lambda>b. b \<noteq> 10) buf))
      else None)"

datatype ReadLine = Line bytes | Eof | LineTooLong

text \<open>
  Reading one line: from the retained bytes if they hold one, otherwise chunk after chunk until they
  do. The list of chunks is what the stream still delivers, its end the end of the stream.
\<close>

fun read_line :: "nat \<Rightarrow> bytes list \<Rightarrow> bytes \<Rightarrow> ReadLine \<times> bytes \<times> bytes list" where
  "read_line maxlen chunks buf =
     (case take_line buf of
        Some (l, tail) \<Rightarrow> (Line l, tail, chunks)
      | None \<Rightarrow>
          if maxlen < length buf then (LineTooLong, buf, chunks)
          else (case chunks of
                  c # cs \<Rightarrow> read_line maxlen cs (buf @ c)
                | [] \<Rightarrow> if buf = [] then (Eof, buf, []) else (Line buf, buf, [])))"

declare read_line.simps [simp del]

section \<open>The loss window\<close>

record LossSample =
  ls_tick :: "(nat \<times> nat \<times> nat) option"
  ls_window_ppt :: "nat option"

definition SPAN :: nat where "SPAN = 4"
definition MIN_TICK :: nat where "MIN_TICK = 500"

definition loss_ratio :: "nat \<Rightarrow> nat \<Rightarrow> nat \<times> nat \<Rightarrow> nat \<times> nat \<times> nat" where
  "loss_ratio snt sn b =
     (let ds = snt - fst b; dr = sn - snd b in (ds, dr, ((ds - dr) * 1000 div max ds 1) mod 4294967296))"

definition loss_push :: "nat \<Rightarrow> nat \<Rightarrow> (nat \<times> nat) list \<Rightarrow> LossSample \<times> (nat \<times> nat) list" where
  "loss_push snt sn samples =
     (let s1 = (if samples \<noteq> [] \<and> (snt < fst (last samples) \<or> sn < snd (last samples)) then [] else samples);
          s2 = s1 @ [(snt, sn)];
          s3 = drop (length s2 - (SPAN + 1)) s2;
          n = length s3;
          tick = (if 2 \<le> n then Some (loss_ratio snt sn (s3 ! (n - 2))) else None);
          whole = (if 2 \<le> n then Some (loss_ratio snt sn (s3 ! 0)) else None)
      in (\<lparr>ls_tick = (case tick of Some (ds, dr, ppt) \<Rightarrow> if MIN_TICK \<le> ds then Some (ppt, ds, dr) else None
                        | None \<Rightarrow> None),
           ls_window_ppt = (case whole of Some (ds, _, ppt) \<Rightarrow> if MIN_TICK \<le> ds then Some ppt else None
                        | None \<Rightarrow> None)\<rparr>, s3))"

section \<open>State\<close>

record ClientTelemetry =
  t_audio_opus_supported :: "bool option"
  t_worker :: bool
  t_datagrams_seen :: nat

datatype WtClientMessage =
    Auth string
  | KeyframeRequest
  | ConfigAck nat
  | WtTelemetry ClientTelemetry
  | Ping nat
  | InputMsg string
  | EnableDatagramVideo
  | DisableDatagramVideo
  | Nack u32 u16

datatype WtClientEvent = EvInput bytes | EvConnected | EvDisconnected | EvKeyframeRequest | EvTelemetry ClientTelemetry

definition NACK_WHOLE_FRAME :: u16 where "NACK_WHOLE_FRAME = 65535"
definition RATE_PER_SEC :: nat where "RATE_PER_SEC = 300"
definition PACE_MAX :: nat where "PACE_MAX = 18000"
definition PACE_FLOOR :: nat where "PACE_FLOOR = 3800"

text \<open>The transport state a session shares with the sender, and what only sessions use of it.\<close>

record WtShared = Shared +
  wt_tokens :: TokenStore
  wt_active :: "nat option"
  wt_next_id :: nat
  wt_live :: "nat option"
  wt_control_out :: "nat option"
  wt_video_config :: "WtHostMessage option"
  wt_events :: "WtClientEvent list"
  wt_closed :: "nat set"
  wt_last_keyreq :: nat
  wt_resend_tokens :: "nat \<times> nat"
  wt_inferred_loss :: nat
  wt_pace_max :: nat
  wt_lossy_windows :: nat
  wt_audio_opus :: int

definition emit :: "WtClientEvent \<Rightarrow> WtShared \<Rightarrow> WtShared" where
  "emit e sh = sh\<lparr>wt_events := wt_events sh @ [e]\<rparr>"

definition shared_new :: "nat \<Rightarrow> WtShared" where
  "shared_new now =
     \<lparr>sh_video_sink = None, sh_write_stall_ms = 0, sh_timeline = [], sh_datagram_video = False,
      sh_key_by_datagram = False, sh_resend = [], sh_frame_anchor = None, sh_pace_pps = PACE_FLOOR,
      sh_nack_dropped = 0, sh_nack_missed = 0, sh_datagrams_sent = 0,
      wt_tokens = [], wt_active = None, wt_next_id = 1, wt_live = None, wt_control_out = None,
      wt_video_config = None, wt_events = [], wt_closed = {}, wt_last_keyreq = now - 10000000000,
      wt_resend_tokens = (now, 0), wt_inferred_loss = u32_max, wt_pace_max = PACE_MAX,
      wt_lossy_windows = 0, wt_audio_opus = -1\<rparr>"

text \<open>What one control reader keeps of its own.\<close>

record CtlReader =
  cr_session :: nat
  cr_loss :: "(nat \<times> nat) list"
  cr_pace_fresh :: bool

definition reader_start :: "nat \<Rightarrow> CtlReader" where
  "reader_start sid = \<lparr>cr_session = sid, cr_loss = [], cr_pace_fresh = True\<rparr>"

text \<open>What handling a message puts on the wire: a control message back, or re-sent datagrams.\<close>

datatype CtlOut = Reply WtHostMessage | Resend bytes

section \<open>Keyframe requests\<close>

definition request_keyframe :: "nat \<Rightarrow> WtShared \<Rightarrow> bool \<times> WtShared" where
  "request_keyframe now sh =
     (if 1000 \<le> (now - wt_last_keyreq sh) div 1000000
      then (True, emit EvKeyframeRequest (sh\<lparr>wt_last_keyreq := now, sh_key_by_datagram := True\<rparr>))
      else (False, sh))"

section \<open>Telemetry\<close>

definition note_audio_probe :: "ClientTelemetry \<Rightarrow> WtShared \<Rightarrow> WtShared" where
  "note_audio_probe t sh =
     (case t_audio_opus_supported t of
        None \<Rightarrow> sh
      | Some ok \<Rightarrow>
          let v = (if ok then 1 else 0) in if wt_audio_opus sh \<noteq> v then sh\<lparr>wt_audio_opus := v\<rparr> else sh)"

definition max_pace_of :: "ClientTelemetry \<Rightarrow> nat" where
  "max_pace_of t = (if t_worker t then to_u32 WORKER_PACE_PPS else to_u32 WT_PACE_PPS)"

definition set_client_pace :: "nat \<Rightarrow> bool \<Rightarrow> WtShared \<Rightarrow> WtShared" where
  "set_client_pace max_pace fresh sh =
     (let sh1 = sh\<lparr>wt_pace_max := max_pace\<rparr>
      in if fresh \<or> sh_pace_pps sh1 = 0 \<or> max_pace < sh_pace_pps sh1
         then sh1\<lparr>sh_pace_pps := max_pace\<rparr> else sh1)"

definition creep_pace :: "nat \<Rightarrow> WtShared \<Rightarrow> WtShared" where
  "creep_pace max_pace sh =
     (if sh_pace_pps sh < max_pace
      then sh\<lparr>sh_pace_pps := min (sh_pace_pps sh + max_pace div 20) max_pace\<rparr> else sh)"

definition adapt_pace :: "nat \<Rightarrow> LossSample \<Rightarrow> WtShared \<Rightarrow> WtShared" where
  "adapt_pace max_pace sample sh =
     (let floor_pace = to_u32 WT_PACE_PPS; now_pace = sh_pace_pps sh
      in case ls_tick sample of
           None \<Rightarrow> creep_pace max_pace sh
         | Some (ppt, _, _) \<Rightarrow>
             if 90 \<le> ppt then
               (let lossy = sat_add32 (wt_lossy_windows sh) 1
                in if 2 \<le> lossy \<and> floor_pace < now_pace
                   then sh\<lparr>sh_pace_pps := max (now_pace * 3 div 4) floor_pace, wt_lossy_windows := 0\<rparr>
                   else sh\<lparr>wt_lossy_windows := lossy\<rparr>)
             else if ppt \<le> 10 then creep_pace max_pace (sh\<lparr>wt_lossy_windows := 0\<rparr>)
             else sh)"

definition on_telemetry :: "ClientTelemetry \<Rightarrow> CtlReader \<Rightarrow> WtShared \<Rightarrow> CtlReader \<times> WtShared" where
  "on_telemetry t cr sh =
     (if wt_active sh = Some (cr_session cr) then
        (let sh1 = note_audio_probe t sh;
             max_pace = max_pace_of t;
             sh2 = set_client_pace max_pace (cr_pace_fresh cr) sh1;
             (sample, samples) = loss_push (sh_datagrams_sent sh2) (t_datagrams_seen t) (cr_loss cr);
             sh3 = (case ls_window_ppt sample of Some w \<Rightarrow> sh2\<lparr>wt_inferred_loss := w\<rparr> | None \<Rightarrow> sh2);
             sh4 = adapt_pace max_pace sample sh3
         in (cr\<lparr>cr_pace_fresh := False, cr_loss := samples\<rparr>, emit (EvTelemetry t) sh4))
      else (cr, sh))"

definition inferred_loss :: "WtShared \<Rightarrow> f32 option" where
  "inferred_loss sh =
     (if wt_inferred_loss sh = u32_max then None else Some (f32_div (f32_nat (wt_inferred_loss sh)) 1000))"

section \<open>Re-sends\<close>

text \<open>
  The budget refills by whole tokens from the time since the last request, and the clock of the
  refill restarts with every request. \<open>as u32\<close> truncates and the products wrap.
\<close>

definition refill :: "nat \<Rightarrow> WtShared \<Rightarrow> WtShared" where
  "refill now sh =
     (let (since, tks) = wt_resend_tokens sh;
          refill_ms = ((now - since) div 1000000) mod 4294967296
      in sh\<lparr>wt_resend_tokens :=
           (now, min RATE_PER_SEC (wrap_add32 tks (wrap_mul32 refill_ms RATE_PER_SEC div 1000)))\<rparr>)"

definition budget :: "WtShared \<Rightarrow> nat" where "budget sh = snd (wt_resend_tokens sh)"

definition spend :: "WtShared \<Rightarrow> WtShared" where
  "spend sh = sh\<lparr>wt_resend_tokens := (fst (wt_resend_tokens sh), budget sh - 1)\<rparr>"

fun resend_rest :: "bytes list \<Rightarrow> WtShared \<Rightarrow> bytes list \<times> WtShared" where
  "resend_rest [] sh = ([], sh)"
| "resend_rest (d # ds) sh =
     (if budget sh = 0 then ([], sh\<lparr>sh_nack_dropped := sh_nack_dropped sh + 1\<rparr>)
      else let (out, sh1) = resend_rest ds (spend sh) in (d # out, sh1))"

definition cached_of :: "u32 \<Rightarrow> WtShared \<Rightarrow> bytes list" where
  "cached_of fr sh = map (snd \<circ> snd) (filter (\<lambda>e. fst e = fr) (sh_resend sh))"

definition cached_fragment :: "u32 \<Rightarrow> u16 \<Rightarrow> WtShared \<Rightarrow> bytes option" where
  "cached_fragment fr idx sh =
     map_option (snd \<circ> snd) (find (\<lambda>e. fst e = fr \<and> fst (snd e) = idx) (rev (sh_resend sh)))"

definition on_nack :: "nat \<Rightarrow> u32 \<Rightarrow> u16 \<Rightarrow> WtShared \<Rightarrow> bytes list \<times> WtShared" where
  "on_nack now fr idx sh0 =
     (if wt_live sh0 = None then ([], sh0)
      else
        let sh = refill now sh0
        in if budget sh = 0 then ([], sh\<lparr>sh_nack_dropped := sh_nack_dropped sh + 1\<rparr>)
           else
             let sh1 = spend sh
             in if idx = NACK_WHOLE_FRAME then
                  (case cached_of fr sh1 of
                     [] \<Rightarrow> ([], sh1)
                   | d # ds \<Rightarrow> let (out, sh2) = resend_rest ds sh1 in (d # out, sh2))
                else
                  (case cached_fragment fr idx sh1 of
                     Some d \<Rightarrow> ([d], sh1)
                   | None \<Rightarrow> ([], sh1\<lparr>sh_nack_missed := sh_nack_missed sh1 + 1\<rparr>)))"

section \<open>One control message\<close>

text \<open>The capture clock of the running pipeline, if there is one, answers a ping; else the last frame sent.\<close>

definition pong_time :: "nat option \<Rightarrow> nat \<Rightarrow> WtShared \<Rightarrow> nat" where
  "pong_time clk now sh =
     (case clk of
        Some t \<Rightarrow> t
      | None \<Rightarrow>
          (case sh_frame_anchor sh of
             Some (t0, c0) \<Rightarrow> if now - t0 < 2000000000 then c0 + (now - t0) div 1000 else 0
           | None \<Rightarrow> 0))"

definition on_message ::
  "(string \<Rightarrow> bytes option) \<Rightarrow> nat option \<Rightarrow> nat \<Rightarrow> WtClientMessage option \<Rightarrow> CtlReader \<Rightarrow> WtShared
    \<Rightarrow> CtlReader \<times> WtShared \<times> CtlOut list" where
  "on_message b64 clk now msg cr sh =
     (case msg of
        Some (InputMsg s) \<Rightarrow>
          (case b64 s of Some bs \<Rightarrow> (cr, emit (EvInput bs) sh, []) | None \<Rightarrow> (cr, sh, []))
      | Some KeyframeRequest \<Rightarrow> (cr, snd (request_keyframe now sh), [])
      | Some (ConfigAck _) \<Rightarrow> (cr, sh, [])
      | Some (WtTelemetry t) \<Rightarrow> (let (cr1, sh1) = on_telemetry t cr sh in (cr1, sh1, []))
      | Some (Ping at_us) \<Rightarrow> (cr, sh, [Reply (WtHostMessage.Pong at_us (pong_time clk now sh))])
      | Some EnableDatagramVideo \<Rightarrow> (cr, sh\<lparr>sh_datagram_video := True\<rparr>, [])
      | Some DisableDatagramVideo \<Rightarrow> (cr, sh\<lparr>sh_datagram_video := False\<rparr>, [])
      | Some (Nack fr idx) \<Rightarrow> (let (ds, sh1) = on_nack now fr idx sh in (cr, sh1, map Resend ds))
      | Some (Auth _) \<Rightarrow> (cr, sh, [])
      | None \<Rightarrow> (cr, sh, []))"

text \<open>A client datagram is input, unless the session has been displaced.\<close>

definition on_datagram :: "nat \<Rightarrow> bytes \<Rightarrow> WtShared \<Rightarrow> WtShared" where
  "on_datagram sid bs sh = (if wt_active sh = Some sid then emit (EvInput bs) sh else sh)"

text \<open>The framing of a dedicated client stream: packets of 1 to 2048 bytes behind a two-byte length.\<close>

fun stream_packets :: "nat \<Rightarrow> bytes \<Rightarrow> bytes list" where
  "stream_packets 0 bs = []"
| "stream_packets (Suc n) bs =
     (case bs of
        hi # lo # tail \<Rightarrow>
          let len = unat hi * 256 + unat lo
          in if len = 0 \<or> 2048 < len \<or> length tail < len then []
             else take len tail # stream_packets n (drop len tail)
      | _ \<Rightarrow> [])"

text \<open>
  The first packet decides: a JSON marker of type \<open>video_channel\<close> installs the stream as the sink
  (\<open>marker\<close> is what the JSON parser makes of it), any other JSON ends it, and everything else is input.
\<close>

definition on_client_stream :: "(bytes \<Rightarrow> bool) \<Rightarrow> nat \<Rightarrow> bytes \<Rightarrow> WtShared \<Rightarrow> WtShared" where
  "on_client_stream marker chan bs sh =
     (case stream_packets (length bs) bs of
        [] \<Rightarrow> sh
      | p # ps \<Rightarrow>
          if hd p = 123 then (if marker p then sh\<lparr>sh_video_sink := Some chan\<rparr> else sh)
          else fold (\<lambda>q. emit (EvInput q)) (p # ps) sh)"

section \<open>Opening and closing a session\<close>

text \<open>A dial is admitted by a one-time token in its first control message, and by nothing else.\<close>

definition authenticate :: "nat \<Rightarrow> WtClientMessage option \<Rightarrow> WtShared \<Rightarrow> bool \<times> WtShared" where
  "authenticate now msg sh =
     (case msg of
        Some (Auth token) \<Rightarrow> (let (ok, s) = token_consume now token (wt_tokens sh) in (ok, sh\<lparr>wt_tokens := s\<rparr>))
      | _ \<Rightarrow> (False, sh))"

definition take_slot :: "WtShared \<Rightarrow> nat \<times> WtShared" where
  "take_slot sh =
     (let sid = wt_next_id sh;
          old_conn = (if wt_active sh = None then None else wt_live sh);
          sh1 = sh\<lparr>sh_datagram_video := False, wt_next_id := sid + 1, wt_active := Some sid,
                  wt_closed := (case old_conn of Some c \<Rightarrow> insert c (wt_closed sh) | None \<Rightarrow> wt_closed sh)\<rparr>
      in (sid, emit EvConnected sh1))"

definition install_control :: "nat \<Rightarrow> WtShared \<Rightarrow> WtShared \<times> CtlOut list" where
  "install_control sid sh =
     (sh\<lparr>wt_control_out := Some sid\<rparr>, (case wt_video_config sh of Some c \<Rightarrow> [Reply c] | None \<Rightarrow> []))"

definition publish :: "nat \<Rightarrow> WtShared \<Rightarrow> WtShared" where
  "publish sid sh = sh\<lparr>wt_live := Some sid\<rparr>"

definition release_check :: "nat \<Rightarrow> WtShared \<Rightarrow> bool \<times> WtShared" where
  "release_check sid sh =
     (if wt_active sh = Some sid then (True, sh\<lparr>wt_active := None\<rparr>) else (False, sh))"

definition release_finish :: "WtShared \<Rightarrow> WtShared" where
  "release_finish sh = emit EvDisconnected (sh\<lparr>wt_live := None, wt_control_out := None\<rparr>)"

definition drop_client :: "WtShared \<Rightarrow> WtShared" where
  "drop_client sh =
     sh\<lparr>wt_active := None,
        wt_closed := (case wt_live sh of Some c \<Rightarrow> insert c (wt_closed sh) | None \<Rightarrow> wt_closed sh)\<rparr>"

definition open_session :: "WtShared \<Rightarrow> nat \<times> WtShared" where
  "open_session sh = (let (sid, sh1) = take_slot sh in (sid, publish sid (fst (install_control sid sh1))))"

definition close_session :: "nat \<Rightarrow> WtShared \<Rightarrow> WtShared" where
  "close_session sid sh = (case release_check sid sh of (True, s) \<Rightarrow> release_finish s | (False, s) \<Rightarrow> s)"

text \<open>Where the task of a session is, and the steps of all of them interleaved.\<close>

datatype WtPhase = Took | Installed | Published | Releasing | Gone

record WtWorld =
  ww_sh :: WtShared
  ww_phase :: "nat \<Rightarrow> WtPhase option"

inductive wt_step :: "(string \<Rightarrow> bytes option) \<Rightarrow> WtWorld \<Rightarrow> WtWorld \<Rightarrow> bool" for b64 where
  dial: "take_slot (ww_sh w) = (sid, sh) \<Longrightarrow>
    wt_step b64 w (w\<lparr>ww_sh := sh, ww_phase := (ww_phase w)(sid \<mapsto> Took)\<rparr>)"
| install: "ww_phase w sid = Some Took \<Longrightarrow>
    wt_step b64 w (w\<lparr>ww_sh := fst (install_control sid (ww_sh w)), ww_phase := (ww_phase w)(sid \<mapsto> Installed)\<rparr>)"
| publish: "ww_phase w sid = Some Installed \<Longrightarrow>
    wt_step b64 w (w\<lparr>ww_sh := publish sid (ww_sh w), ww_phase := (ww_phase w)(sid \<mapsto> Published)\<rparr>)"
| check: "ww_phase w sid = Some Published \<Longrightarrow> release_check sid (ww_sh w) = (ours, sh) \<Longrightarrow>
    wt_step b64 w (w\<lparr>ww_sh := sh, ww_phase := (ww_phase w)(sid \<mapsto> (if ours then Releasing else Gone))\<rparr>)"
| finish: "ww_phase w sid = Some Releasing \<Longrightarrow>
    wt_step b64 w (w\<lparr>ww_sh := release_finish (ww_sh w), ww_phase := (ww_phase w)(sid \<mapsto> Gone)\<rparr>)"
| message: "ww_phase w (cr_session cr) = Some p \<Longrightarrow> p \<noteq> Took \<Longrightarrow>
    on_message b64 clk now msg cr (ww_sh w) = (cr', sh, out) \<Longrightarrow> wt_step b64 w (w\<lparr>ww_sh := sh\<rparr>)"
| datagram: "ww_phase w sid = Some p \<Longrightarrow> wt_step b64 w (w\<lparr>ww_sh := on_datagram sid bs (ww_sh w)\<rparr>)"
| dropped: "wt_step b64 w (w\<lparr>ww_sh := drop_client (ww_sh w)\<rparr>)"

inductive wt_runs :: "(string \<Rightarrow> bytes option) \<Rightarrow> WtWorld \<Rightarrow> bool" for b64 where
  start: "wt_runs b64 \<lparr>ww_sh = shared_new now, ww_phase = Map.empty\<rparr>"
| step: "wt_runs b64 w \<Longrightarrow> wt_step b64 w w' \<Longrightarrow> wt_runs b64 w'"

inductive_cases wt_stepE: "wt_step b64 w w'"

section \<open>Lemmas on lines\<close>

definition clean_line :: "bytes \<Rightarrow> bool" where
  "clean_line l \<longleftrightarrow> 10 \<notin> set l \<and> (l = [] \<or> last l \<noteq> 13)"

lemma until_newline:
  "10 \<notin> set l \<Longrightarrow> takeWhile (\<lambda>b. b \<noteq> 10) (l @ 10 # r) = l \<and> dropWhile (\<lambda>b. b \<noteq> 10) (l @ 10 # r) = 10 # r"
  for l :: bytes
  by (induction l) auto

lemma take_line_some: "clean_line l \<Longrightarrow> take_line (l @ 10 # r) = Some (l, r)"
  using until_newline [of l r] by (auto simp: take_line_def clean_line_def strip_cr_def)

lemma take_line_none [simp]: "10 \<notin> set buf \<Longrightarrow> take_line buf = None"
  by (simp add: take_line_def)

lemma read_line_joined:
  assumes "buf @ concat chunks = l @ 10 # t" "clean_line l" "length l \<le> maxlen"
  shows "\<exists>buf' chunks'. read_line maxlen chunks buf = (Line l, buf', chunks') \<and> buf' @ concat chunks' = t"
  using assms
proof (induction chunks arbitrary: buf)
  case Nil
  then show ?case by (subst read_line.simps) (simp add: take_line_some)
next
  case (Cons c cs)
  have n: "10 \<notin> set l" using Cons.prems(2) by (simp add: clean_line_def)
  show ?case
  proof (cases "10 \<in> set buf")
    case True
    obtain us where "buf = l @ us \<and> us @ concat (c # cs) = 10 # t \<or> buf @ us = l"
      using Cons.prems(1) by (auto simp: append_eq_append_conv2)
    then have us: "buf = l @ us" "us @ concat (c # cs) = 10 # t" using True n by auto
    then obtain us' where "us = 10 # us'" using True n by (cases us) auto
    then show ?thesis
      using us Cons.prems(2) by (subst read_line.simps) (simp add: take_line_some)
  next
    case False
    obtain us where "buf = l @ us \<and> us @ concat (c # cs) = 10 # t \<or> buf @ us = l"
      using Cons.prems(1) by (auto simp: append_eq_append_conv2)
    then have "length buf \<le> length l" using False
      by (cases us) auto
    then have "\<not> maxlen < length buf" using Cons.prems(3) by simp
    moreover have "(buf @ c) @ concat cs = l @ 10 # t" using Cons.prems(1) by simp
    ultimately show ?thesis
      using Cons.IH [of "buf @ c"] Cons.prems(2,3) False by (subst read_line.simps) simp
  qed
qed

text \<open>The reader loop, up to \<open>n\<close> lines.\<close>

fun control_lines :: "nat \<Rightarrow> nat \<Rightarrow> bytes list \<Rightarrow> bytes \<Rightarrow> bytes list" where
  "control_lines 0 maxlen chunks buf = []"
| "control_lines (Suc n) maxlen chunks buf =
     (case read_line maxlen chunks buf of
        (Line l, buf', chunks') \<Rightarrow> l # control_lines n maxlen chunks' buf'
      | _ \<Rightarrow> [])"

lemma control_lines_joined:
  assumes "buf @ concat chunks = concat (map (\<lambda>l. l @ [10]) ls)" "list_all (\<lambda>l. clean_line l \<and> length l \<le> maxlen) ls"
  shows "control_lines (length ls) maxlen chunks buf = ls"
  using assms
proof (induction ls arbitrary: chunks buf)
  case (Cons l ls)
  obtain buf' chunks' where r: "read_line maxlen chunks buf = (Line l, buf', chunks')"
      "buf' @ concat chunks' = concat (map (\<lambda>l. l @ [10]) ls)"
    using read_line_joined [of buf chunks l "concat (map (\<lambda>l. l @ [10]) ls)" maxlen] Cons.prems by auto
  then show ?case using Cons.IH [OF r(2)] Cons.prems(2) by simp
qed simp

text \<open>What is buffered stays below the limit plus one chunk.\<close>

lemma read_line_buffer:
  assumes "read_line maxlen chunks buf = (r, buf', chunks')" "list_all (\<lambda>c. length c \<le> k) chunks"
    "length buf \<le> maxlen + k"
  shows "length buf' \<le> maxlen + k"
  using assms
proof (induction maxlen chunks buf rule: read_line.induct)
  case (1 maxlen chunks buf)
  show ?case
  proof (cases "take_line buf")
    case (Some x)
    then have "length (tl (dropWhile (\<lambda>b. b \<noteq> 10) buf)) \<le> length buf"
      using length_dropWhile_le [of "\<lambda>b. b \<noteq> 10" buf] by simp
    then show ?thesis
      using 1(2,4) Some by (subst (asm) read_line.simps) (auto simp: take_line_def split: if_splits)
  next
    case None
    show ?thesis
    proof (cases "maxlen < length buf \<or> chunks = []")
      case True
      then show ?thesis using 1(2,4) None
        by (subst (asm) read_line.simps) (auto split: if_splits list.splits)
    next
      case False
      then obtain c cs where c: "chunks = c # cs" by (cases chunks) auto
      have "read_line maxlen cs (buf @ c) = (r, buf', chunks')"
        using 1(2) None False c by (subst (asm) read_line.simps) simp
      then show ?thesis using 1(1) [OF None _ c] False 1(3) c by simp
    qed
  qed
qed

text \<open>At the end of the stream an unfinished line is returned, and stays in the buffer.\<close>

lemma read_line_eof:
  "10 \<notin> set buf \<Longrightarrow> buf \<noteq> [] \<Longrightarrow> length buf \<le> maxlen \<Longrightarrow> read_line maxlen [] buf = (Line buf, buf, [])"
  by (subst read_line.simps) simp

lemma control_lines_eof:
  "10 \<notin> set buf \<Longrightarrow> buf \<noteq> [] \<Longrightarrow> length buf \<le> maxlen \<Longrightarrow> control_lines n maxlen [] buf = replicate n buf"
  by (induction n) (simp_all add: read_line_eof)

section \<open>Lemmas on the loss window\<close>

definition samples_ok :: "(nat \<times> nat) list \<Rightarrow> bool" where
  "samples_ok xs \<longleftrightarrow> length xs \<le> SPAN + 1
     \<and> sorted_wrt (\<lambda>a b. fst a \<le> fst b \<and> snd a \<le> snd b) xs"

definition ppt_ok :: "LossSample \<Rightarrow> bool" where
  "ppt_ok s \<longleftrightarrow> (case ls_tick s of Some (ppt, ds, dr) \<Rightarrow> ppt \<le> 1000 \<and> MIN_TICK \<le> ds | None \<Rightarrow> True)
     \<and> (case ls_window_ppt s of Some w \<Rightarrow> w \<le> 1000 | None \<Rightarrow> True)"

lemma ppt_le: "(ds - dr) * 1000 div max ds 1 \<le> (1000 :: nat)"
proof (cases "ds = 0")
  case False
  then have "(ds - dr) * 1000 div ds \<le> ds * 1000 div ds" by (intro div_le_mono) simp
  moreover have "max ds 1 = ds" using False by simp
  ultimately show ?thesis using False by simp
qed simp

lemma loss_ratio_ppt: "snd (snd (loss_ratio a b c)) \<le> 1000"
  using ppt_le [of "a - fst c" "b - snd c"]
  by (simp add: loss_ratio_def Let_def le_trans [OF mod_less_eq_dividend])

lemma loss_push_ok:
  assumes "samples_ok xs" "loss_push a b xs = (s, ys)"
  shows "samples_ok ys \<and> ppt_ok s \<and> ys \<noteq> [] \<and> last ys = (a, b)"
proof -
  define s1 where "s1 = (if xs \<noteq> [] \<and> (a < fst (last xs) \<or> b < snd (last xs)) then [] else xs)"
  let ?ys = "drop (length (s1 @ [(a, b)]) - (SPAN + 1)) (s1 @ [(a, b)])"
  have ys: "ys = ?ys" using assms(2) by (simp add: loss_push_def s1_def Let_def)
  have "sorted_wrt (\<lambda>a b. fst a \<le> fst b \<and> snd a \<le> snd b) (s1 @ [(a, b)])"
  proof -
    have "fst x \<le> fst (last xs) \<and> snd x \<le> snd (last xs)" if "x \<in> set xs" for x
      using assms(1) that by (cases xs rule: rev_cases) (auto simp: samples_ok_def sorted_wrt_append)
    then show ?thesis
      using assms(1) by (fastforce simp: s1_def samples_ok_def sorted_wrt_append)
  qed
  then have 1: "samples_ok ys" unfolding ys samples_ok_def by (simp add: sorted_wrt_drop del: drop_append)
  have 2: "ys \<noteq> [] \<and> last ys = (a, b)"
    unfolding ys by (simp add: SPAN_def)
  have "ppt_ok s"
    using assms(2)
    by (auto simp: loss_ratio_ppt loss_push_def Let_def ppt_ok_def split_beta simp del: One_nat_def)
  with 1 2 show ?thesis by blast
qed

section \<open>Lemmas on re-sends\<close>

lemma budget_spend [simp]: "budget (spend sh) = budget sh - 1"
  by (simp add: budget_def spend_def)

lemma budget_counters [simp]:
  "budget (sh\<lparr>sh_nack_dropped := n\<rparr>) = budget sh" "budget (sh\<lparr>sh_nack_missed := n\<rparr>) = budget sh"
  "wt_resend_tokens (sh\<lparr>sh_nack_dropped := n\<rparr>) = wt_resend_tokens sh"
  "wt_resend_tokens (sh\<lparr>sh_nack_missed := n\<rparr>) = wt_resend_tokens sh"
  by (simp_all add: budget_def)

lemma spend_time [simp]: "fst (wt_resend_tokens (spend sh)) = fst (wt_resend_tokens sh)"
  by (simp add: spend_def)

lemma resend_rest_spends:
  assumes "resend_rest ds sh = (out, sh')"
  shows "length out + budget sh' = budget sh \<and> fst (wt_resend_tokens sh') = fst (wt_resend_tokens sh)"
  using assms
proof (induction ds sh arbitrary: out sh' rule: resend_rest.induct)
  case (2 d ds sh)
  show ?case
  proof (cases "budget sh = 0")
    case False
    obtain o1 s1 where r: "resend_rest ds (spend sh) = (o1, s1)" by fastforce
    then show ?thesis using 2(1) [OF False r] 2(2) False by auto
  qed (use 2(2) in auto)
qed simp

text \<open>The refill never gives more than 300 tokens a second, nor a store of more than 300.\<close>

lemma refill_bound:
  "budget (refill now sh) \<le> budget sh + ((now - fst (wt_resend_tokens sh)) div 1000000) * 300 div 1000"
  "budget (refill now sh) \<le> 300"
  "fst (wt_resend_tokens (refill now sh)) = now"
proof -
  let ?ms = "(now - fst (wt_resend_tokens sh)) div 1000000"
  have "wrap_mul32 (?ms mod 4294967296) 300 \<le> ?ms * 300"
    unfolding wrap_mul32_def by (rule le_trans [OF mod_less_eq_dividend]) simp
  then have "wrap_mul32 (?ms mod 4294967296) 300 div 1000 \<le> ?ms * 300 div 1000" by (rule div_le_mono)
  moreover have "wrap_add32 a b \<le> a + b" for a b by (simp add: wrap_add32_def)
  ultimately show "budget (refill now sh) \<le> budget sh + ?ms * 300 div 1000"
    unfolding refill_def budget_def Let_def split_beta RATE_PER_SEC_def
    by simp (meson add_le_cancel_left le_trans min.cobounded2)
qed (simp_all add: refill_def budget_def Let_def split_beta RATE_PER_SEC_def)

lemma on_nack_spends:
  assumes "on_nack now fr idx sh = (out, sh')" "wt_live sh \<noteq> None"
  shows "length out + budget sh' \<le> budget (refill now sh) \<and> fst (wt_resend_tokens sh') = now"
proof -
  define s where "s = refill now sh"
  have t: "fst (wt_resend_tokens s) = now" by (simp add: s_def refill_bound)
  show ?thesis
  proof (cases "budget s = 0")
    case True
    then show ?thesis using assms t by (auto simp: on_nack_def Let_def s_def [symmetric])
  next
    case False
    show ?thesis
    proof (cases "idx = NACK_WHOLE_FRAME")
      case True
      show ?thesis
      proof (cases "cached_of fr (spend s)")
        case Nil
        then show ?thesis using assms t True False by (auto simp: on_nack_def Let_def s_def [symmetric])
      next
        case (Cons d ds)
        obtain o1 s1 where r: "resend_rest ds (spend s) = (o1, s1)" by fastforce
        then have "out = d # o1" "sh' = s1"
          using assms True False Cons by (auto simp: on_nack_def Let_def s_def [symmetric])
        then show ?thesis using resend_rest_spends [OF r] False t by (auto simp: s_def)
      qed
    next
      case idx: False
      then show ?thesis using assms t False
        by (auto simp: on_nack_def Let_def s_def [symmetric] split: option.splits)
    qed
  qed
qed

text \<open>A run of re-send requests.\<close>

fun nacks :: "(nat \<times> u32 \<times> u16) list \<Rightarrow> WtShared \<Rightarrow> bytes list \<times> WtShared" where
  "nacks [] sh = ([], sh)"
| "nacks ((now, fr, idx) # ns) sh =
     (let (out, sh1) = on_nack now fr idx sh; (outs, sh2) = nacks ns sh1 in (out @ outs, sh2))"

lemma live_kept [simp]:
  "wt_live (refill now sh) = wt_live sh" "wt_live (spend sh) = wt_live sh"
  by (simp_all add: refill_def spend_def Let_def split_beta)

lemma resend_rest_live: "wt_live (snd (resend_rest ds sh)) = wt_live sh"
  by (induction ds sh rule: resend_rest.induct) (simp_all add: Let_def split_beta)

lemma on_nack_live: "on_nack now fr idx sh = (out, sh') \<Longrightarrow> wt_live sh' = wt_live sh"
proof -
  have "wt_live (snd (on_nack now fr idx sh)) = wt_live sh"
    unfolding on_nack_def Let_def
    by (simp add: resend_rest_live split_beta split: list.split option.split)
  then show "on_nack now fr idx sh = (out, sh') \<Longrightarrow> wt_live sh' = wt_live sh" by simp
qed

lemma div_add_le: "a div m + b div m \<le> (a + b) div (m :: nat)"
  using div_add1_eq [of a b m] by linarith

lemma nacks_bound:
  assumes "nacks ns sh = (out, sh')" "sorted (fst (wt_resend_tokens sh) # map fst ns)" "wt_live sh \<noteq> None"
  shows "length out + budget sh'
    \<le> budget sh + ((fst (wt_resend_tokens sh') - fst (wt_resend_tokens sh)) div 1000000) * 300 div 1000
    \<and> fst (wt_resend_tokens sh) \<le> fst (wt_resend_tokens sh')
    \<and> fst (wt_resend_tokens sh') = last (fst (wt_resend_tokens sh) # map fst ns)"
  using assms
proof (induction ns sh arbitrary: out sh' rule: nacks.induct)
  case (2 now fr idx ns sh)
  obtain o1 s1 where n: "on_nack now fr idx sh = (o1, s1)" by fastforce
  obtain o2 s2 where m: "nacks ns s1 = (o2, s2)" by fastforce
  have e: "out = o1 @ o2" "sh' = s2" using 2(2) n m by auto
  let ?t0 = "fst (wt_resend_tokens sh)" and ?t1 = now and ?t2 = "fst (wt_resend_tokens s2)"
  have s1: "length o1 + budget s1 \<le> budget sh + (now - ?t0) div 1000000 * 300 div 1000"
    "fst (wt_resend_tokens s1) = now"
    using on_nack_spends [OF n 2(4)] refill_bound(1) [of now sh] by linarith+
  have live: "wt_live s1 \<noteq> None" using on_nack_live [OF n] 2(4) by simp
  have so: "sorted (fst (wt_resend_tokens s1) # map fst ns)" using 2(3) s1(2) by simp
  note IH = 2(1) [OF n [symmetric] refl m so live]
  have t: "?t0 \<le> now" "now \<le> ?t2" using 2(3) IH s1(2) by simp_all
  have "(now - ?t0) + (?t2 - now) = ?t2 - ?t0" using t by simp
  then have "(now - ?t0) div 1000000 + (?t2 - now) div 1000000 \<le> (?t2 - ?t0) div 1000000"
    using div_add_le [of "now - ?t0" 1000000 "?t2 - now"] by simp
  moreover have "a * 300 div 1000 + b * 300 div 1000 \<le> c * 300 div 1000" if "a + b \<le> c" for a b c :: nat
  proof -
    have "a * 300 div 1000 + b * 300 div 1000 \<le> (a * 300 + b * 300) div 1000" by (rule div_add_le)
    also have "\<dots> \<le> c * 300 div 1000" using that by (intro div_le_mono) simp
    finally show ?thesis .
  qed
  ultimately have "(now - ?t0) div 1000000 * 300 div 1000 + (?t2 - now) div 1000000 * 300 div 1000
      \<le> (?t2 - ?t0) div 1000000 * 300 div 1000" by blast
  moreover have "length o2 + budget s2 \<le> budget s1 + (?t2 - now) div 1000000 * 300 div 1000"
    using IH [THEN conjunct1] unfolding s1(2) by assumption
  ultimately have "length (o1 @ o2) + budget s2 \<le> budget sh + (?t2 - ?t0) div 1000000 * 300 div 1000"
    using s1(1) unfolding length_append by linarith
  moreover have "?t2 = last (?t0 # now # map fst ns)" using IH s1(2) by simp
  ultimately show ?case using e t by simp
qed simp

text \<open>Requests closer together than four milliseconds never refill an empty budget.\<close>

lemma refill_starves:
  "now - fst (wt_resend_tokens sh) < 4000000 \<Longrightarrow> budget (refill now sh) = min 300 (budget sh mod 4294967296)"
proof -
  assume "now - fst (wt_resend_tokens sh) < 4000000"
  then have "(now - fst (wt_resend_tokens sh)) div 1000000 < 4" by (simp add: less_mult_imp_div_less)
  then have "wrap_mul32 ((now - fst (wt_resend_tokens sh)) div 1000000 mod 4294967296) 300 div 1000 = 0"
    by (simp add: wrap_mul32_def)
  then show ?thesis
    by (simp add: refill_def budget_def Let_def split_beta RATE_PER_SEC_def wrap_add32_def)
qed

lemma nacks_starve:
  assumes "nacks ns sh = (out, sh')" "budget sh = 0" "wt_live sh \<noteq> None"
    "\<And>i. i < length ns \<Longrightarrow> (fst (wt_resend_tokens sh) # map fst ns) ! Suc i
        - (fst (wt_resend_tokens sh) # map fst ns) ! i < 4000000"
  shows "out = [] \<and> budget sh' = 0"
  using assms
proof (induction ns sh arbitrary: out sh' rule: nacks.induct)
  case (2 now fr idx ns sh)
  obtain o1 s1 where n: "on_nack now fr idx sh = (o1, s1)" by fastforce
  obtain o2 s2 where m: "nacks ns s1 = (o2, s2)" by fastforce
  have e: "out = o1 @ o2" "sh' = s2" using 2(2) n m by auto
  have "budget (refill now sh) = 0" using refill_starves [of now sh] 2(5) [of 0] 2(3) by simp
  then have s1: "o1 = []" "budget s1 = 0" "fst (wt_resend_tokens s1) = now"
    using on_nack_spends [OF n 2(4)] by simp_all
  have live: "wt_live s1 \<noteq> None" using on_nack_live [OF n] 2(4) by simp
  have "(fst (wt_resend_tokens s1) # map fst ns) ! Suc i - (fst (wt_resend_tokens s1) # map fst ns) ! i < 4000000"
    if "i < length ns" for i using 2(5) [of "Suc i"] that s1(3) by simp
  from 2(1) [OF n [symmetric] refl m s1(2) live this] show ?case using s1 e by simp
qed simp

text \<open>A fragment the sender has just cached is re-sent as it was.\<close>

lemma nack_hit:
  assumes "sh_resend sh = cache @ [(fr, idx, enc)]" "idx \<noteq> NACK_WHOLE_FRAME" "wt_live sh \<noteq> None"
    "budget (refill now sh) \<noteq> 0"
  shows "fst (on_nack now fr idx sh) = [enc]"
proof -
  have "sh_resend (spend (refill now sh)) = cache @ [(fr, idx, enc)]"
    by (simp add: refill_def spend_def Let_def split_beta assms(1))
  then have "cached_fragment fr idx (spend (refill now sh)) = Some enc"
    by (simp add: cached_fragment_def)
  then show ?thesis using assms(2-4) by (simp add: on_nack_def Let_def)
qed

section \<open>Lemmas on keyframe requests\<close>

fun keyframe_requests :: "nat list \<Rightarrow> WtShared \<Rightarrow> nat \<times> WtShared" where
  "keyframe_requests [] sh = (0, sh)"
| "keyframe_requests (now # ts) sh =
     (let (due, sh1) = request_keyframe now sh; (n, sh2) = keyframe_requests ts sh1
      in ((if due then 1 else 0) + n, sh2))"

lemma request_keyframe_due:
  "fst (request_keyframe now sh) \<longleftrightarrow> wt_last_keyreq sh + 1000000000 \<le> now"
proof -
  have "1000 \<le> (now - wt_last_keyreq sh) div 1000000 \<longleftrightarrow> 1000 * 1000000 \<le> now - wt_last_keyreq sh"
    by (rule less_eq_div_iff_mult_less_eq) simp
  then show ?thesis by (auto simp: request_keyframe_def)
qed

lemma request_keyframe_state:
  "wt_last_keyreq (snd (request_keyframe now sh)) = (if fst (request_keyframe now sh) then now else wt_last_keyreq sh)"
  "wt_events (snd (request_keyframe now sh)) =
     wt_events sh @ (if fst (request_keyframe now sh) then [EvKeyframeRequest] else [])"
  by (simp_all add: request_keyframe_def emit_def)

lemma keyframe_requests_rate:
  assumes "keyframe_requests ts sh = (n, sh')" "list_all (\<lambda>x. x \<le> t) ts" "wt_last_keyreq sh \<le> t"
  shows "wt_last_keyreq sh + n * 1000000000 \<le> wt_last_keyreq sh' \<and> wt_last_keyreq sh' \<le> t
    \<and> wt_events sh' = wt_events sh @ replicate n EvKeyframeRequest"
  using assms
proof (induction ts sh arbitrary: n sh' rule: keyframe_requests.induct)
  case (2 now ts sh)
  obtain due sh1 where r: "request_keyframe now sh = (due, sh1)" by fastforce
  obtain m sh2 where m: "keyframe_requests ts sh1 = (m, sh2)" by fastforce
  have e: "n = (if due then 1 else 0) + m" "sh' = sh2" using 2(2) r m by simp_all
  have due: "due \<longleftrightarrow> wt_last_keyreq sh + 1000000000 \<le> now"
    "wt_last_keyreq sh1 = (if due then now else wt_last_keyreq sh)"
    "wt_events sh1 = wt_events sh @ (if due then [EvKeyframeRequest] else [])"
    using request_keyframe_due [of now sh] request_keyframe_state [of now sh] by (simp_all add: r)
  have "wt_last_keyreq sh1 \<le> t" using due(2) 2(3,4) by simp
  from 2(1) [OF r [symmetric] refl m _ this] show ?case using 2(3) due e by (cases due) auto
qed simp

section \<open>Lemmas on the pace\<close>

lemma pace_constants: "to_u32 WT_PACE_PPS = 3800" "to_u32 WORKER_PACE_PPS = 18000"
  by code_simp+

lemma max_pace_range: "3800 \<le> max_pace_of t \<and> max_pace_of t \<le> 18000"
  by (simp add: max_pace_of_def pace_constants)

lemma creep_pace_range:
  "3800 \<le> sh_pace_pps sh \<Longrightarrow> sh_pace_pps sh \<le> m \<Longrightarrow>
     sh_pace_pps sh \<le> sh_pace_pps (creep_pace m sh) \<and> sh_pace_pps (creep_pace m sh) \<le> m"
  by (auto simp: creep_pace_def)

lemma adapt_pace_range:
  assumes "3800 \<le> sh_pace_pps sh" "sh_pace_pps sh \<le> m"
  shows "3800 \<le> sh_pace_pps (adapt_pace m s sh) \<and> sh_pace_pps (adapt_pace m s sh) \<le> m"
proof -
  have "3800 \<le> sh_pace_pps (creep_pace m sh') \<and> sh_pace_pps (creep_pace m sh') \<le> m"
    if "sh_pace_pps sh' = sh_pace_pps sh" for sh'
    using creep_pace_range [of sh' m] assms that by simp
  then show ?thesis
    using assms by (auto simp: adapt_pace_def pace_constants Let_def split: option.split)
qed

lemma set_client_pace_range:
  assumes "3800 \<le> sh_pace_pps sh" "3800 \<le> m"
  shows "3800 \<le> sh_pace_pps (set_client_pace m fresh sh) \<and> sh_pace_pps (set_client_pace m fresh sh) \<le> m"
  using assms by (auto simp: set_client_pace_def Let_def)

lemma note_audio_probe_fields [simp]: "sh_pace_pps (note_audio_probe t sh) = sh_pace_pps sh"
  by (simp add: note_audio_probe_def Let_def split: option.split)

lemma on_telemetry_range:
  assumes "3800 \<le> sh_pace_pps sh" "on_telemetry t cr sh = (cr', sh')"
  shows "3800 \<le> sh_pace_pps sh'
    \<and> (wt_active sh = Some (cr_session cr) \<longrightarrow> sh_pace_pps sh' \<le> max_pace_of t)
    \<and> (wt_active sh \<noteq> Some (cr_session cr) \<longrightarrow> sh' = sh)"
proof (cases "wt_active sh = Some (cr_session cr)")
  case True
  define sh2 where "sh2 = set_client_pace (max_pace_of t) (cr_pace_fresh cr) (note_audio_probe t sh)"
  obtain s xs where p: "loss_push (sh_datagrams_sent sh2) (t_datagrams_seen t) (cr_loss cr) = (s, xs)" by fastforce
  define sh3 where "sh3 = (case ls_window_ppt s of Some w \<Rightarrow> sh2\<lparr>wt_inferred_loss := w\<rparr> | None \<Rightarrow> sh2)"
  have 2: "3800 \<le> sh_pace_pps sh2" "sh_pace_pps sh2 \<le> max_pace_of t"
    using set_client_pace_range [of "note_audio_probe t sh" "max_pace_of t"] assms(1) max_pace_range
    by (simp_all add: sh2_def)
  have 3: "sh_pace_pps sh3 = sh_pace_pps sh2" by (simp add: sh3_def split: option.split)
  have "snd (on_telemetry t cr sh) = emit (EvTelemetry t) (adapt_pace (max_pace_of t) s sh3)"
    using True unfolding on_telemetry_def Let_def sh2_def [symmetric] p sh3_def by simp
  then have "sh_pace_pps sh' = sh_pace_pps (adapt_pace (max_pace_of t) s sh3)"
    using assms(2) by (simp add: emit_def)
  then show ?thesis using adapt_pace_range [of sh3 "max_pace_of t" s] 2 3 True by simp
qed (use assms in \<open>simp add: on_telemetry_def\<close>)

section \<open>The slot\<close>

text \<open>Between complete openings and closings: one owner, the newest, and everything points at it.\<close>

definition video_slot_ok :: "WtShared \<Rightarrow> bool" where
  "video_slot_ok sh \<longleftrightarrow> 1 \<le> wt_next_id sh
     \<and> (case wt_active sh of
          Some t \<Rightarrow> t + 1 = wt_next_id sh \<and> wt_live sh = Some t \<and> wt_control_out sh = Some t \<and> t \<notin> wt_closed sh
        | None \<Rightarrow> True)
     \<and> wt_closed sh \<subseteq> {..<wt_next_id sh}
     \<and> (case wt_live sh of Some c \<Rightarrow> c < wt_next_id sh | None \<Rightarrow> True)"

lemma open_session_fields:
  assumes "open_session sh = (t, sh')"
  shows "t = wt_next_id sh" "wt_next_id sh' = t + 1" "wt_active sh' = Some t" "wt_live sh' = Some t"
    "wt_control_out sh' = Some t" "\<not> sh_datagram_video sh'"
    "wt_closed sh' = (case (if wt_active sh = None then None else wt_live sh) of
       Some c \<Rightarrow> insert c (wt_closed sh) | None \<Rightarrow> wt_closed sh)"
    "wt_events sh' = wt_events sh @ [EvConnected]"
  using assms
  by (auto simp: open_session_def take_slot_def publish_def install_control_def emit_def Let_def)

lemma open_session_ok:
  assumes "video_slot_ok sh" "open_session sh = (t, sh')"
  shows "video_slot_ok sh'"
proof -
  note f = open_session_fields [OF assms(2)]
  have "wt_closed sh' \<subseteq> {..<wt_next_id sh}"
    using assms(1) f(7) by (auto simp: video_slot_ok_def split: option.splits if_splits)
  then show ?thesis using f by (auto simp: video_slot_ok_def)
qed

lemma close_session_owner:
  assumes "wt_active sh = Some t"
  shows "close_session t sh = emit EvDisconnected (sh\<lparr>wt_active := None, wt_live := None, wt_control_out := None\<rparr>)"
  using assms by (simp add: close_session_def release_check_def release_finish_def emit_def)

interpretation video_slot: owned_slot open_session "\<lambda>t sh. wt_active sh = Some t" close_session video_slot_ok
  "\<lambda>sh. wt_next_id sh - 1"
proof unfold_locales
  fix sh t sh'
  assume ok: "video_slot_ok sh" and o: "open_session sh = (t, sh')"
  have "1 \<le> wt_next_id sh" using ok by (simp add: video_slot_ok_def)
  then show "wt_active sh' = Some t \<and> video_slot_ok sh' \<and> wt_next_id sh' - 1 = t \<and> wt_next_id sh - 1 < t"
    using open_session_ok [OF ok o] open_session_fields(1-3) [OF o] by linarith
next
  fix sh t
  assume ok: "video_slot_ok sh"
  show "t = wt_next_id sh - 1" if "wt_active sh = Some t"
  proof -
    have "t + 1 = wt_next_id sh" using ok that by (simp add: video_slot_ok_def)
    then show ?thesis by simp
  qed
  show "wt_active sh \<noteq> Some t \<Longrightarrow> close_session t sh = sh" by (simp add: close_session_def release_check_def)
  show "wt_active (close_session t sh) \<noteq> Some t \<and> video_slot_ok (close_session t sh)
      \<and> wt_next_id (close_session t sh) - 1 = wt_next_id sh - 1" if "wt_active sh = Some t"
  proof -
    have "wt_closed sh \<subseteq> {..<wt_next_id sh}" "1 \<le> wt_next_id sh" using ok by (simp_all add: video_slot_ok_def)
    then show ?thesis by (simp add: close_session_owner [OF that] video_slot_ok_def emit_def)
  qed
qed

text \<open>Messages and datagrams leave the slot alone.\<close>

definition slot_of :: "WtShared \<Rightarrow> nat option \<times> nat \<times> nat option \<times> nat option" where
  "slot_of sh = (wt_active sh, wt_next_id sh, wt_live sh, wt_control_out sh)"

lemma slot_of_updates [simp]:
  "slot_of (sh\<lparr>sh_nack_dropped := a\<rparr>) = slot_of sh" "slot_of (sh\<lparr>sh_nack_missed := a\<rparr>) = slot_of sh"
  "slot_of (sh\<lparr>wt_resend_tokens := d\<rparr>) = slot_of sh" "slot_of (sh\<lparr>sh_datagram_video := b\<rparr>) = slot_of sh"
  "slot_of (emit e sh) = slot_of sh" "slot_of (sh\<lparr>sh_pace_pps := a\<rparr>) = slot_of sh"
  "slot_of (sh\<lparr>wt_lossy_windows := a\<rparr>) = slot_of sh" "slot_of (sh\<lparr>wt_inferred_loss := a\<rparr>) = slot_of sh"
  "slot_of (sh\<lparr>wt_audio_opus := i\<rparr>) = slot_of sh" "slot_of (sh\<lparr>wt_pace_max := a\<rparr>) = slot_of sh"
  "slot_of (sh\<lparr>wt_last_keyreq := a, sh_key_by_datagram := b\<rparr>) = slot_of sh"
  by (simp_all add: slot_of_def emit_def)

lemma slot_of_helpers [simp]:
  "slot_of (refill now sh) = slot_of sh" "slot_of (spend sh) = slot_of sh"
  "slot_of (creep_pace m sh) = slot_of sh" "slot_of (note_audio_probe t sh) = slot_of sh"
  by (simp_all add: refill_def spend_def creep_pace_def note_audio_probe_def Let_def split_beta split: option.split)

lemma slot_of_set_pace [simp]: "slot_of (set_client_pace m f sh) = slot_of sh"
  by (simp add: set_client_pace_def Let_def)

lemma slot_of_adapt [simp]: "slot_of (adapt_pace m s sh) = slot_of sh"
  by (simp add: adapt_pace_def Let_def split: option.split)

lemma slot_of_rest [simp]: "slot_of (snd (resend_rest ds sh)) = slot_of sh"
  by (induction ds sh rule: resend_rest.induct) (simp_all add: Let_def split_beta)

lemma slot_of_nack: "slot_of (snd (on_nack now fr idx sh)) = slot_of sh"
  unfolding on_nack_def Let_def by (simp add: split_beta split: list.split option.split)

lemma slot_of_telemetry: "slot_of (snd (on_telemetry t cr sh)) = slot_of sh"
  unfolding on_telemetry_def Let_def by (simp add: split_beta split: option.split)

lemma slot_of_message: "slot_of (fst (snd (on_message b64 clk now msg cr sh))) = slot_of sh"
  using slot_of_nack slot_of_telemetry
  unfolding on_message_def Let_def
  by (simp add: split_beta request_keyframe_def split: option.split WtClientMessage.split)

text \<open>What holds under every interleaving: only the newest session can be in the slot.\<close>

definition wt_inv :: "WtWorld \<Rightarrow> bool" where
  "wt_inv w \<longleftrightarrow> (\<forall>sid. ww_phase w sid \<noteq> None \<longleftrightarrow> 1 \<le> sid \<and> sid < wt_next_id (ww_sh w))
     \<and> 1 \<le> wt_next_id (ww_sh w)
     \<and> (case wt_active (ww_sh w) of
          Some t \<Rightarrow> t + 1 = wt_next_id (ww_sh w) \<and> ww_phase w t \<in> {Some Took, Some Installed, Some Published}
        | None \<Rightarrow> True)"

lemma wt_inv_same_slot:
  "wt_inv w \<Longrightarrow> slot_of sh = slot_of (ww_sh w) \<Longrightarrow> wt_inv (w\<lparr>ww_sh := sh\<rparr>)"
  by (auto simp: wt_inv_def slot_of_def split: option.splits)

lemma wt_step_inv:
  assumes "wt_step b64 w w'" "wt_inv w"
  shows "wt_inv w'"
  using assms
proof (induction rule: wt_step.induct)
  case (dial w sid sh)
  then show ?case by (auto simp: wt_inv_def take_slot_def Let_def emit_def split: if_splits)
next
  case (install w sid)
  then show ?case by (auto simp: wt_inv_def install_control_def split: option.splits)
next
  case (publish w sid)
  then show ?case by (auto simp: wt_inv_def publish_def split: option.splits)
next
  case (check w sid ours sh)
  then show ?case by (auto simp: wt_inv_def release_check_def split: option.splits if_splits)
next
  case (finish w sid)
  then show ?case by (auto simp: wt_inv_def release_finish_def emit_def split: option.splits)
next
  case (message w cr p clk now msg cr' sh out)
  then show ?case using wt_inv_same_slot [of w sh] slot_of_message [of b64 clk now msg cr "ww_sh w"] by simp
next
  case (datagram w sid p bs)
  then show ?case using wt_inv_same_slot [of w "on_datagram sid bs (ww_sh w)"] by (simp add: on_datagram_def)
next
  case (dropped w)
  then show ?case by (auto simp: wt_inv_def drop_client_def split: option.splits)
qed

lemma wt_runs_inv: "wt_runs b64 w \<Longrightarrow> wt_inv w"
proof (induction rule: wt_runs.induct)
  case (start now)
  then show ?case by (simp add: wt_inv_def shared_new_def)
next
  case (step w w')
  then show ?case using wt_step_inv by blast
qed

section \<open>Runs, step by step\<close>

datatype WtMove = MDial | MInstall nat | MPublish nat | MCheck nat | MFinish nat

definition wt_move :: "WtMove \<Rightarrow> WtWorld \<Rightarrow> WtWorld" where
  "wt_move m w =
     (case m of
        MDial \<Rightarrow> let (sid, sh) = take_slot (ww_sh w) in w\<lparr>ww_sh := sh, ww_phase := (ww_phase w)(sid \<mapsto> Took)\<rparr>
      | MInstall s \<Rightarrow> if ww_phase w s = Some Took
          then w\<lparr>ww_sh := fst (install_control s (ww_sh w)), ww_phase := (ww_phase w)(s \<mapsto> Installed)\<rparr> else w
      | MPublish s \<Rightarrow> if ww_phase w s = Some Installed
          then w\<lparr>ww_sh := publish s (ww_sh w), ww_phase := (ww_phase w)(s \<mapsto> Published)\<rparr> else w
      | MCheck s \<Rightarrow> if ww_phase w s = Some Published
          then let (ours, sh) = release_check s (ww_sh w)
               in w\<lparr>ww_sh := sh, ww_phase := (ww_phase w)(s \<mapsto> (if ours then Releasing else Gone))\<rparr> else w
      | MFinish s \<Rightarrow> if ww_phase w s = Some Releasing
          then w\<lparr>ww_sh := release_finish (ww_sh w), ww_phase := (ww_phase w)(s \<mapsto> Gone)\<rparr> else w)"

lemma wt_move_runs:
  assumes "wt_runs b64 w"
  shows "wt_runs b64 (wt_move m w)"
proof -
  note go = wt_runs.step [OF assms]
  have "wt_move m w = w \<or> wt_step b64 w (wt_move m w)"
  proof (cases m)
    case MDial
    then show ?thesis using wt_step.dial [of w "fst (take_slot (ww_sh w))" "snd (take_slot (ww_sh w))"]
      by (simp add: wt_move_def split_beta)
  next
    case (MCheck s)
    then show ?thesis
      using wt_step.check [of w s "fst (release_check s (ww_sh w))" "snd (release_check s (ww_sh w))"]
      by (simp add: wt_move_def split_beta)
  qed (simp_all add: wt_move_def wt_step.install wt_step.publish wt_step.finish)
  then show ?thesis using assms go by auto
qed

lemma wt_moves_runs: "wt_runs b64 w \<Longrightarrow> wt_runs b64 (fold wt_move ms w)"
  by (induction ms arbitrary: w) (auto simp: wt_move_runs)

lemmas wt_eval = wt_move_def take_slot_def install_control_def publish_def release_check_def
  release_finish_def emit_def shared_new_def Let_def

definition wt_start :: WtWorld where "wt_start = \<lparr>ww_sh = shared_new 0, ww_phase = Map.empty\<rparr>"

lemma wt_start_runs: "wt_runs b64 wt_start"
  unfolding wt_start_def by (rule wt_runs.start)

section \<open>Properties\<close>

text \<open>C15. The control stream delivers every message: however the network cuts the bytes into chunks,
  reading lines gives back exactly the lines the client wrote, pipelined or split.\<close>
theorem control_lines_roundtrip:
  assumes "concat chunks = concat (map (\<lambda>l. l @ [10]) ls)" "list_all (\<lambda>l. clean_line l \<and> length l \<le> maxlen) ls"
  shows "control_lines (length ls) maxlen chunks [] = ls"
  using control_lines_joined [of "[]" chunks ls maxlen] assms by simp

lemma control_lines_roundtrip_witness:
  "control_lines 2 8192 [[97], [10, 98], [99, 10]] [] = [[97], [98, 99]]"
proof -
  have "concat [[97], [10, 98], [99, 10]] = concat (map (\<lambda>l. l @ [10]) [[97], [98, 99 :: u8]])"
    "list_all (\<lambda>l. clean_line l \<and> length l \<le> 8192) [[97], [98, 99]]" by code_simp+
  from control_lines_roundtrip [OF this] show ?thesis by (simp only: list.size Suc_eq_plus1 add_0 one_add_one)
qed

text \<open>When the stream ends inside a line, the unfinished line is returned and stays in the buffer:
  the reader never sees the end of the stream but gets the same line again on every call, so the
  handler that closes the connection at the end of the stream is not reached.\<close>
theorem control_reader_repeats_at_eof:
  assumes "10 \<notin> set buf" "buf \<noteq> []" "length buf \<le> maxlen"
  shows "read_line maxlen [] buf = (Line buf, buf, []) \<and> control_lines n maxlen [] buf = replicate n buf"
  using read_line_eof [OF assms] control_lines_eof [OF assms] by simp

lemma control_reader_repeats_at_eof_witness:
  "control_lines 1000 8192 [] [123, 125] = replicate 1000 [123, 125]"
  using control_reader_repeats_at_eof [of "[123, 125]" 8192] by simp

text \<open>Re-sends are budgeted: over any run of NACKs, whatever they ask for, the datagrams re-sent are
  at most the tokens there were plus 300 for every second that passed.\<close>
theorem resend_budget:
  assumes "nacks ns sh = (out, sh')" "sorted (fst (wt_resend_tokens sh) # map fst ns)" "wt_live sh \<noteq> None"
  shows "length out
    \<le> budget sh + ((last (fst (wt_resend_tokens sh) # map fst ns) - fst (wt_resend_tokens sh)) div 1000000) * 300 div 1000"
proof -
  note b = nacks_bound [OF assms]
  then have e: "fst (wt_resend_tokens sh') = last (fst (wt_resend_tokens sh) # map fst ns)" by blast
  show ?thesis using b [THEN conjunct1] unfolding e by linarith
qed

definition nack_demo :: WtShared where
  "nack_demo = (shared_new 0)\<lparr>wt_live := Some 1, sh_resend := [(7, 0, [1]), (7, 1, [2])]\<rparr>"

lemma resend_budget_witness:
  "length (fst (nacks [(4000000, 7, 65535), (4000000, 7, 65535)] nack_demo)) \<le> 1"
  using resend_budget [of "[(4000000, 7, 65535), (4000000, 7, 65535)]" nack_demo]
  by (simp add: nack_demo_def shared_new_def budget_def split_beta)

text \<open>A steady stream of NACKs starves itself: each request restarts the refill clock and the
  refill is rounded down, so once the budget is empty, requests less than 4 ms apart get nothing
  re-sent, however long they go on.\<close>
theorem resend_starvation:
  assumes "nacks ns sh = (out, sh')" "budget sh = 0" "wt_live sh \<noteq> None"
    "\<And>i. i < length ns \<Longrightarrow> (fst (wt_resend_tokens sh) # map fst ns) ! Suc i
        - (fst (wt_resend_tokens sh) # map fst ns) ! i < 4000000"
  shows "out = [] \<and> budget sh' = 0"
  by (rule nacks_starve [OF assms])

lemma resend_starvation_witness:
  "fst (nacks (map (\<lambda>i. (i * 3000000, 7, 0)) [0..<10]) nack_demo) = []"
proof -
  let ?ns = "map (\<lambda>i. (i * 3000000, 7, 0)) [0..<10] :: (nat \<times> u32 \<times> u16) list"
  have d: "fst (wt_resend_tokens nack_demo) = 0" "budget nack_demo = 0" "wt_live nack_demo \<noteq> None"
    by (simp_all add: nack_demo_def shared_new_def budget_def)
  have "(fst (wt_resend_tokens nack_demo) # map fst ?ns) ! Suc i
      - (fst (wt_resend_tokens nack_demo) # map fst ?ns) ! i < 4000000" if "i < length ?ns" for i
    using that by (cases i) (simp_all add: d(1))
  from resend_starvation [OF prod.collapse [symmetric] d(2,3) this] show ?thesis by blast
qed

text \<open>A NACK is answered with the very datagram the sender put out: right after the sender cached a
  fragment, a request for it (with a token left) re-sends those bytes and nothing else.\<close>
theorem nack_resends_fragment:
  assumes "sh_resend sh = cache_fragment fr idx enc cache" "idx \<noteq> NACK_WHOLE_FRAME" "wt_live sh \<noteq> None"
    "budget (refill now sh) \<noteq> 0"
  shows "fst (on_nack now fr idx sh) = [enc]"
proof -
  have "cache_fragment fr idx enc cache \<noteq> []" "last (cache_fragment fr idx enc cache) = (fr, idx, enc)"
    using trim_resend_newest [of "(fr, idx, enc)" fr cache] by (simp_all add: cache_fragment_def)
  then have "sh_resend sh = butlast (cache_fragment fr idx enc cache) @ [(fr, idx, enc)]"
    using assms(1) append_butlast_last_id [of "cache_fragment fr idx enc cache"] by simp
  then show ?thesis by (rule nack_hit [OF _ assms(2-4)])
qed

lemma nack_resends_fragment_witness:
  "fst (on_nack 1000000000 7 2 (nack_demo\<lparr>sh_resend := cache_fragment 7 2 [9, 9] []\<rparr>)) = [[9, 9]]"
proof -
  have b: "budget (refill 1000000000 (nack_demo\<lparr>sh_resend := cache_fragment 7 2 [9, 9] []\<rparr>)) \<noteq> 0"
    by (simp add: refill_def budget_def nack_demo_def shared_new_def Let_def RATE_PER_SEC_def
        wrap_add32_def wrap_mul32_def)
  show ?thesis
    by (rule nack_resends_fragment [OF _ _ _ b]) (simp_all add: nack_demo_def NACK_WHOLE_FRAME_def)
qed

text \<open>Keyframe requests reach the encoder at most once a second: among requests made up to time
  \<open>t\<close> the number granted, each an event of its own, times one second fits in the time since the
  last grant.\<close>
theorem keyframe_request_rate:
  assumes "keyframe_requests ts sh = (n, sh')" "list_all (\<lambda>x. x \<le> t) ts" "wt_last_keyreq sh \<le> t"
  shows "n * 1000000000 \<le> t - wt_last_keyreq sh \<and> wt_events sh' = wt_events sh @ replicate n EvKeyframeRequest"
proof -
  note k = keyframe_requests_rate [OF assms]
  then have "n * 1000000000 \<le> t - wt_last_keyreq sh" by linarith
  with k show ?thesis by blast
qed

lemma keyframe_request_rate_witness:
  "fst (keyframe_requests [0, 400000000, 900000000] (shared_new 0)) = 0"
proof -
  obtain n sh' where k: "keyframe_requests [0, 400000000, 900000000] (shared_new 0) = (n, sh')" by fastforce
  show ?thesis unfolding k using keyframe_request_rate [OF k, of 900000000] by (simp add: shared_new_def)
qed

text \<open>The loss window measures what it says: within one connection, the tick figure is the loss of
  the last interval in per mille once 500 datagrams were sent in it, a count that went backwards
  starts a new baseline and measures nothing, and at most five samples are kept.\<close>
theorem loss_window_exact:
  assumes "samples_ok (xs @ [(a0, b0)])" "loss_push a b (xs @ [(a0, b0)]) = (s, ys)"
  shows "length ys \<le> 5
    \<and> (if a < a0 \<or> b < b0 then s = \<lparr>ls_tick = None, ls_window_ppt = None\<rparr>
       else if 500 \<le> a - a0
         then ls_tick s = Some ((a - a0 - (b - b0)) * 1000 div (a - a0), a - a0, b - b0)
       else ls_tick s = None)"
proof -
  have "samples_ok ys" using loss_push_ok [OF assms] by blast
  then have l: "length ys \<le> 5" by (simp add: samples_ok_def SPAN_def)
  show ?thesis
  proof (cases "a < a0 \<or> b < b0")
    case True
    then show ?thesis using assms(2) l by (auto simp: loss_push_def Let_def SPAN_def)
  next
    case False
    let ?s2 = "(xs @ [(a0, b0)]) @ [(a, b)]"
    let ?s3 = "drop (length ?s2 - (SPAN + 1)) ?s2"
    have small: "((a - a0 - (b - b0)) * 1000 div max (a - a0) 1) mod 4294967296
        = (a - a0 - (b - b0)) * 1000 div max (a - a0) 1"
      using ppt_le [of "a - a0" "b - b0"] by simp
    have d: "?s3 = drop (length xs + 2 - 5) xs @ [(a0, b0), (a, b)]" by (simp add: SPAN_def)
    have "?s3 ! (length ?s3 - 2) = (a0, b0)" "2 \<le> length ?s3" unfolding d by (simp_all add: nth_append)
    have r: "loss_ratio a b (a0, b0) = (a - a0, b - b0, (a - a0 - (b - b0)) * 1000 div max (a - a0) 1)"
      using small by (simp add: loss_ratio_def Let_def)
    have "ls_tick (fst (loss_push a b (xs @ [(a0, b0)]))) =
        (case Some (loss_ratio a b (?s3 ! (length ?s3 - 2))) of
           Some (ds, dr, ppt) \<Rightarrow> if MIN_TICK \<le> ds then Some (ppt, ds, dr) else None | None \<Rightarrow> None)"
      using False \<open>2 \<le> length ?s3\<close> unfolding loss_push_def Let_def
      by (simp del: drop_append append_assoc length_append)
    then have "ls_tick s = (if 500 \<le> a - a0
        then Some ((a - a0 - (b - b0)) * 1000 div max (a - a0) 1, a - a0, b - b0) else None)"
      unfolding \<open>?s3 ! (length ?s3 - 2) = (a0, b0)\<close> r using assms(2) by (simp add: MIN_TICK_def)
    then show ?thesis using False l by (simp add: max_def)
  qed
qed

lemma loss_window_exact_witness:
  "ls_tick (fst (loss_push 2000 1700 [(0, 0), (1000, 1000)])) = Some (300, 1000, 700)"
proof -
  have ok: "samples_ok ([(0, 0)] @ [(1000, 1000)])" by (simp add: samples_ok_def SPAN_def)
  obtain s ys where p: "loss_push 2000 1700 ([(0, 0)] @ [(1000, 1000)]) = (s, ys)" by fastforce
  from loss_window_exact [OF ok p] have "ls_tick s = Some (300, 1000, 700)" by simp
  then show ?thesis using p by simp
qed

text \<open>The injection pace never leaves its range: from a pace of at least 3800 datagrams a second, the
  telemetry of the session that holds the slot sets one between 3800 and what that client may get,
  and the telemetry of any other session changes nothing.\<close>
theorem pace_stays_in_range:
  assumes "3800 \<le> sh_pace_pps sh" "on_telemetry t cr sh = (cr', sh')"
  shows "if wt_active sh = Some (cr_session cr)
    then 3800 \<le> sh_pace_pps sh' \<and> sh_pace_pps sh' \<le> (if t_worker t then 18000 else 3800) else sh' = sh"
proof -
  have "max_pace_of t = (if t_worker t then 18000 else 3800)" by (simp add: max_pace_of_def pace_constants)
  then show ?thesis using on_telemetry_range [OF assms] by auto
qed

definition demo_telemetry :: ClientTelemetry where
  "demo_telemetry = \<lparr>t_audio_opus_supported = None, t_worker = True, t_datagrams_seen = 0\<rparr>"

lemma pace_stays_in_range_witness:
  "sh_pace_pps (snd (on_telemetry demo_telemetry (reader_start 1) ((shared_new 0)\<lparr>wt_active := Some 1\<rparr>))) \<le> 18000"
proof -
  obtain cr' sh' where o1: "on_telemetry demo_telemetry (reader_start 1) ((shared_new 0)\<lparr>wt_active := Some 1\<rparr>) = (cr', sh')"
    by fastforce
  show ?thesis unfolding o1
    using pace_stays_in_range [OF _ o1] by (simp add: demo_telemetry_def shared_new_def reader_start_def PACE_FLOOR_def)
qed



text \<open>A displaced session's teardown, however late, leaves its successor everything: with openings
  and closings run to completion, the frame target, the control sink and the slot stay the newest
  session's whatever older sessions do afterwards.\<close>
theorem video_slot_late_close:
  assumes "video_slot_ok sh" "list_all (\<lambda>t. t < wt_next_id sh) ts" "open_session sh = (u, sh')"
  shows "fold close_session ts sh' = sh' \<and> wt_active sh' = Some u \<and> wt_live sh' = Some u \<and> wt_control_out sh' = Some u"
proof -
  have "fold close_session ts sh' = sh'"
    using assms(2)
  proof (induction ts)
    case (Cons t ts)
    have "t \<le> wt_next_id sh - 1" using Cons.prems by auto
    then have "close_session t sh' = sh'" using video_slot.displaced_close [OF assms(1) _ assms(3)] by blast
    then show ?case using Cons by simp
  qed simp
  then show ?thesis using open_session_fields [OF assms(3)] by simp
qed

lemma video_slot_late_close_witness:
  "\<exists>sh'. open_session (snd (open_session (shared_new 0))) = (2, sh') \<and> fold close_session [1, 1] sh' = sh'"
proof -
  let ?s = "snd (open_session (shared_new 0))"
  have o1: "open_session (shared_new 0) = (1, ?s)" by (simp add: open_session_def take_slot_def Let_def shared_new_def)
  have "video_slot_ok (shared_new 0)" by (simp add: video_slot_ok_def shared_new_def)
  then have ok: "video_slot_ok ?s" using open_session_ok o1 by blast
  have n: "wt_next_id ?s = 2" using open_session_fields(2) [OF o1] by simp
  obtain sh' where o2: "open_session ?s = (2, sh')"
    using open_session_fields(1) [of ?s] n by (metis surj_pair)
  from video_slot_late_close [OF ok _ o2, of "[1, 1]"] o2 n show ?thesis by auto
qed

text \<open>Taking the slot and publishing the connection are separate steps: two dials can cross so that
  the newer session holds the slot while frames and control messages go to the older connection,
  which nobody has closed.\<close>
theorem video_slot_publish_race:
  "\<exists>w. wt_runs b64 w \<and> wt_active (ww_sh w) = Some 2 \<and> ww_phase w 2 = Some Published
    \<and> wt_live (ww_sh w) = Some 1 \<and> wt_control_out (ww_sh w) = Some 1 \<and> 1 \<notin> wt_closed (ww_sh w)"
proof -
  let ?w = "fold wt_move [MDial, MDial, MInstall 2, MPublish 2, MInstall 1, MPublish 1] wt_start"
  have "wt_runs b64 ?w" by (rule wt_moves_runs [OF wt_start_runs])
  then show ?thesis
    by (intro exI [of _ ?w]) (simp add: wt_eval wt_start_def numeral_2_eq_2)
qed

text \<open>So are the ownership check of a teardown and the clearing that follows it: a session that
  dials, installs and publishes in between is left holding the slot with no frame target and no
  control sink.\<close>
theorem video_slot_teardown_race:
  "\<exists>w. wt_runs b64 w \<and> wt_active (ww_sh w) = Some 2 \<and> ww_phase w 2 = Some Published
    \<and> wt_live (ww_sh w) = None \<and> wt_control_out (ww_sh w) = None"
proof -
  let ?w = "fold wt_move [MDial, MInstall 1, MPublish 1, MCheck 1, MDial, MInstall 2, MPublish 2, MFinish 1] wt_start"
  have "wt_runs b64 ?w" by (rule wt_moves_runs [OF wt_start_runs])
  then show ?thesis
    by (intro exI [of _ ?w]) (simp add: wt_eval wt_start_def numeral_2_eq_2)
qed

text \<open>A dial is let in by a token issued for it and only once: whatever else the first message is,
  it is refused, and a token that was presented before, successfully or not, never opens a session.\<close>
theorem dial_token_opens_once:
  assumes "authenticate now msg sh = (ok, sh')" "authenticate later msg sh' = (again, sh'')"
  shows "\<not> again \<and> (ok \<longrightarrow> (\<exists>token e. msg = Some (Auth token) \<and> kv_get token (wt_tokens sh) = Some e \<and> now < e))"
proof (cases "\<exists>token. msg = Some (Auth token)")
  case True
  then obtain token where m: "msg = Some (Auth token)" by blast
  then show ?thesis using assms
    by (auto simp: authenticate_def token_consume_def split: option.splits)
next
  case False
  then show ?thesis using assms by (auto simp: authenticate_def split: option.splits WtClientMessage.splits)
qed

lemma dial_token_opens_once_witness:
  "fst (authenticate 5 (Some (Auth ''ab'')) ((shared_new 0)\<lparr>wt_tokens := [(''ab'', 60)]\<rparr>))
    \<and> \<not> fst (authenticate 6 (Some (Auth ''ab'')) (snd (authenticate 5 (Some (Auth ''ab'')) ((shared_new 0)\<lparr>wt_tokens := [(''ab'', 60)]\<rparr>))))"
proof -
  let ?s = "(shared_new 0)\<lparr>wt_tokens := [(''ab'', 60)]\<rparr>"
  obtain ok s1 where 1: "authenticate 5 (Some (Auth ''ab'')) ?s = (ok, s1)" by fastforce
  obtain again s2 where 2: "authenticate 6 (Some (Auth ''ab'')) s1 = (again, s2)" by fastforce
  have "ok" using 1 by (simp add: authenticate_def token_consume_def kv_get_def)
  then show ?thesis using dial_token_opens_once [OF 1 2] 1 2 by simp
qed

end
