(* ===== verification/EventPump.thy ===== *)
theory EventPump
  imports WtSession SessionMgr
begin

text \<open>
  What the application does with the WebTransport transport (\<open>crates/host/src/app.rs\<close>,
  \<open>rotate_transport\<close> in \<open>media/wt/mod.rs\<close>): the task that drains client events into the session
  manager, the encoder and the statistics, and the task that replaces the transport before its
  certificate runs out. It composes the sessions of WtSession with the player of SessionMgr.
\<close>

section \<open>The event pump\<close>

definition KEYFRAME_MIN_INTERVAL :: nat where "KEYFRAME_MIN_INTERVAL = 1000 * 1000000"

text \<open>The pump's own state, and what it has asked of others: keyframes and media signals, newest last.\<close>

record Pump =
  pu_last_keyframe :: nat
  pu_pending :: bool
  pu_wt_active :: bool
  pu_telemetry :: "ClientTelemetry list"
  pu_keyframes :: "nat list"
  pu_signals :: "MediaSignal list"

definition pump_new :: "nat \<Rightarrow> Pump" where
  "pump_new now =
     \<lparr>pu_last_keyframe = now - 10000000000, pu_pending = False, pu_wt_active = False,
      pu_telemetry = [], pu_keyframes = [], pu_signals = []\<rparr>"

text \<open>A keyframe request goes to the player's pipeline, if there is a player.\<close>

definition ask_keyframe :: "nat \<Rightarrow> SessionManager \<Rightarrow> Pump \<Rightarrow> Pump" where
  "ask_keyframe now s pu =
     (case player s of Some _ \<Rightarrow> pu\<lparr>pu_keyframes := pu_keyframes pu @ [now]\<rparr> | None \<Rightarrow> pu)"

definition release_connecting :: "SessionManager \<Rightarrow> Pump \<Rightarrow> SessionManager \<times> Pump" where
  "release_connecting s pu =
     (case player s of
        None \<Rightarrow> (s, pu)
      | Some p \<Rightarrow>
          let (sig, m) = signal_ready (media p)
          in (with_player (\<lambda>p. p\<lparr>media := m\<rparr>) s, pu\<lparr>pu_signals := pu_signals pu @ sig\<rparr>))"

definition pump_event ::
  "bool \<Rightarrow> nat \<Rightarrow> WtClientEvent option \<Rightarrow> SessionManager \<times> Pump \<Rightarrow> SessionManager \<times> Pump" where
  "pump_event driver now ev x =
     (case x of (s, pu) \<Rightarrow>
        (case ev of
           Some EvKeyframeRequest \<Rightarrow> (s, pu\<lparr>pu_pending := True\<rparr>)
         | Some (EvTelemetry t) \<Rightarrow> (s, pu\<lparr>pu_telemetry := pu_telemetry pu @ [t]\<rparr>)
         | Some (EvInput bs) \<Rightarrow> (pump_input driver now bs s, pu)
         | Some EvConnected \<Rightarrow>
             (let (s1, pu1) = release_connecting s (pu\<lparr>pu_wt_active := True\<rparr>)
              in (s1, ask_keyframe now s1 (pu1\<lparr>pu_last_keyframe := now\<rparr>)))
         | Some EvDisconnected \<Rightarrow> (s, pu\<lparr>pu_wt_active := False\<rparr>)
         | None \<Rightarrow> (s, pu)))"

definition pump_pending :: "nat \<Rightarrow> SessionManager \<times> Pump \<Rightarrow> SessionManager \<times> Pump" where
  "pump_pending now x =
     (case x of (s, pu) \<Rightarrow>
        if pu_pending pu \<and> KEYFRAME_MIN_INTERVAL \<le> now - pu_last_keyframe pu
        then (s, ask_keyframe now s (pu\<lparr>pu_pending := False, pu_last_keyframe := now\<rparr>))
        else (s, pu))"

definition pump_turn ::
  "bool \<Rightarrow> nat \<times> WtClientEvent option \<Rightarrow> SessionManager \<times> Pump \<Rightarrow> SessionManager \<times> Pump" where
  "pump_turn driver turn x = pump_pending (fst turn) (pump_event driver (fst turn) (snd turn) x)"

section \<open>Certificate rotation\<close>

definition WT_CERT_VALIDITY :: nat where "WT_CERT_VALIDITY = 7 * 24 * 3600"
definition WT_CERT_ROTATE_WHEN_LEFT :: nat where "WT_CERT_ROTATE_WHEN_LEFT = 3 * 24 * 3600"
definition WT_ROTATION_POLL :: nat where "WT_ROTATION_POLL = 15"

text \<open>A transport in service: its certificate's remaining seconds and whether its sender task runs.\<close>

record Transport =
  tr_id :: nat
  tr_cert_remaining :: nat
  tr_sender_alive :: bool

text \<open>
  The outcome of each bind attempt comes from outside. The retired transport leaves the slot and is
  shut down before the first attempt, and the slot is filled by the first that succeeds.
\<close>

definition rotate_transport :: "Transport option list \<Rightarrow> nat \<Rightarrow> Transport option \<times> nat list \<Rightarrow> Transport option \<times> nat list" where
  "rotate_transport binds attempts x =
     (case x of (slot, retired) \<Rightarrow>
        let retired1 = (case slot of Some t \<Rightarrow> retired @ [tr_id t] | None \<Rightarrow> retired)
        in (case filter (\<lambda>b. b \<noteq> None) (take (max attempts 1) binds) of
              b # _ \<Rightarrow> (b, retired1)
            | [] \<Rightarrow> (None, retired1)))"

definition rotation_due :: "Transport option \<Rightarrow> bool \<times> bool" where
  "rotation_due slot =
     (case slot of
        Some t \<Rightarrow> (tr_cert_remaining t \<le> WT_CERT_ROTATE_WHEN_LEFT \<or> \<not> tr_sender_alive t, \<not> tr_sender_alive t)
      | None \<Rightarrow> (True, False))"

text \<open>One turn of the rotation task: the slot, the retired transports, and the next wait in seconds.\<close>

definition rotation_turn ::
  "bool \<Rightarrow> Transport option list \<Rightarrow> Transport option \<times> nat list \<Rightarrow> (Transport option \<times> nat list) \<times> nat" where
  "rotation_turn busy binds x =
     (let (due, dead_sender) = rotation_due (fst x)
      in if \<not> due then (x, WT_ROTATION_POLL)
         else if fst x \<noteq> None \<and> busy \<and> \<not> dead_sender then (x, WT_ROTATION_POLL)
         else let x1 = rotate_transport binds 40 x
              in (x1, if fst x1 = None then 60 else WT_ROTATION_POLL))"

section \<open>Lemmas\<close>

lemma ask_keyframe_fields [simp]:
  "pu_last_keyframe (ask_keyframe now s pu) = pu_last_keyframe pu"
  "pu_pending (ask_keyframe now s pu) = pu_pending pu"
  "pu_keyframes (ask_keyframe now s pu) = pu_keyframes pu @ (if player s = None then [] else [now])"
  by (simp_all add: ask_keyframe_def split: option.split)

lemma release_connecting_fields [simp]:
  "player (fst (release_connecting s pu)) = None \<longleftrightarrow> player s = None"
  "pu_last_keyframe (snd (release_connecting s pu)) = pu_last_keyframe pu"
  "pu_pending (snd (release_connecting s pu)) = pu_pending pu"
  "pu_keyframes (snd (release_connecting s pu)) = pu_keyframes pu"
  by (simp_all add: release_connecting_def with_player_def split_beta split: option.split)

lemma pump_input_player [simp]: "player (pump_input driver now bs s) = None \<longleftrightarrow> player s = None"
  by (simp add: pump_input_def with_player_def)

lemma pump_turn_player [simp]: "player (fst (pump_turn driver turn x)) = None \<longleftrightarrow> player (fst x) = None"
  by (simp add: pump_turn_def pump_pending_def pump_event_def split_beta split: option.split WtClientEvent.split)

text \<open>A turn that asks the encoder for nothing keeps a pending request and the time of the last one.\<close>

lemma pump_turn_idle:
  assumes "player (fst x) \<noteq> None" "pu_keyframes (snd (pump_turn driver turn x)) = pu_keyframes (snd x)"
  shows "pu_last_keyframe (snd (pump_turn driver turn x)) = pu_last_keyframe (snd x)
    \<and> (pu_pending (snd x) \<or> snd turn = Some EvKeyframeRequest \<longrightarrow> pu_pending (snd (pump_turn driver turn x)))
    \<and> (pu_pending (snd (pump_turn driver turn x)) \<longrightarrow> fst turn - pu_last_keyframe (snd x) < KEYFRAME_MIN_INTERVAL)"
  using assms
  by (auto simp: pump_turn_def pump_pending_def pump_event_def split_beta not_le
      split: option.splits WtClientEvent.splits if_splits)

lemma pump_turn_keyframes:
  "\<exists>ks. pu_keyframes (snd (pump_turn driver turn x)) = pu_keyframes (snd x) @ ks \<and> set ks \<subseteq> {fst turn}"
  by (auto simp: pump_turn_def pump_pending_def pump_event_def split_beta
      split: option.splits WtClientEvent.splits)

lemma pump_turns_keyframes:
  "\<exists>ks. pu_keyframes (snd (fold (pump_turn driver) turns x)) = pu_keyframes (snd x) @ ks \<and> set ks \<subseteq> fst ` set turns"
proof (induction turns arbitrary: x)
  case (Cons t ts)
  obtain ks where "pu_keyframes (snd (pump_turn driver t x)) = pu_keyframes (snd x) @ ks" "set ks \<subseteq> {fst t}"
    using pump_turn_keyframes by blast
  moreover obtain ks' where "pu_keyframes (snd (fold (pump_turn driver) ts (pump_turn driver t x)))
      = pu_keyframes (snd (pump_turn driver t x)) @ ks'" "set ks' \<subseteq> fst ` set ts"
    using Cons by blast
  ultimately show ?case by (intro exI [of _ "ks @ ks'"]) auto
qed simp

lemma pump_turns_idle:
  assumes "player (fst x) \<noteq> None" "pu_pending (snd x)"
    "pu_keyframes (snd (fold (pump_turn driver) turns x)) = pu_keyframes (snd x)"
  shows "\<forall>t \<in> set turns. fst t - pu_last_keyframe (snd x) < KEYFRAME_MIN_INTERVAL"
  using assms
proof (induction turns arbitrary: x)
  case (Cons t ts)
  let ?y = "pump_turn driver t x"
  obtain ks where k: "pu_keyframes (snd ?y) = pu_keyframes (snd x) @ ks" using pump_turn_keyframes by blast
  obtain ks' where k': "pu_keyframes (snd (fold (pump_turn driver) ts ?y)) = pu_keyframes (snd ?y) @ ks'"
    using pump_turns_keyframes by blast
  have same: "pu_keyframes (snd ?y) = pu_keyframes (snd x)"
    "pu_keyframes (snd (fold (pump_turn driver) ts ?y)) = pu_keyframes (snd ?y)"
    using Cons.prems(3) k k' by simp_all
  note i = pump_turn_idle [OF Cons.prems(1) same(1)]
  have "player (fst ?y) \<noteq> None" using Cons.prems(1) by simp
  from Cons.IH [OF this _ same(2)] show ?case using i Cons.prems(2) by simp
qed simp

text \<open>How often the pump asks on a client's behalf.\<close>

definition connects :: "(nat \<times> WtClientEvent option) list \<Rightarrow> nat" where
  "connects turns = length (filter (\<lambda>t. snd t = Some EvConnected) turns)"

lemma pump_turn_rate:
  assumes "pu_last_keyframe (snd x) \<le> fst turn"
  shows "pu_last_keyframe (snd x) + length (pu_keyframes (snd (pump_turn driver turn x))) * KEYFRAME_MIN_INTERVAL
     \<le> pu_last_keyframe (snd (pump_turn driver turn x))
       + (length (pu_keyframes (snd x)) + connects [turn]) * KEYFRAME_MIN_INTERVAL
    \<and> pu_last_keyframe (snd (pump_turn driver turn x)) \<le> fst turn"
  using assms
  by (auto simp: pump_turn_def pump_pending_def pump_event_def connects_def split_beta KEYFRAME_MIN_INTERVAL_def
      split: option.splits WtClientEvent.splits)

lemma pump_turns_rate:
  assumes "sorted (pu_last_keyframe (snd x) # map fst turns)"
  shows "pu_last_keyframe (snd x) + length (pu_keyframes (snd (fold (pump_turn driver) turns x))) * KEYFRAME_MIN_INTERVAL
     \<le> pu_last_keyframe (snd (fold (pump_turn driver) turns x))
       + (length (pu_keyframes (snd x)) + connects turns) * KEYFRAME_MIN_INTERVAL
    \<and> pu_last_keyframe (snd (fold (pump_turn driver) turns x)) \<le> last (pu_last_keyframe (snd x) # map fst turns)"
  using assms
proof (induction turns arbitrary: x)
  case (Cons t ts)
  let ?y = "pump_turn driver t x"
  have r: "pu_last_keyframe (snd x) + length (pu_keyframes (snd ?y)) * KEYFRAME_MIN_INTERVAL
     \<le> pu_last_keyframe (snd ?y) + (length (pu_keyframes (snd x)) + connects [t]) * KEYFRAME_MIN_INTERVAL"
    "pu_last_keyframe (snd ?y) \<le> fst t"
    using pump_turn_rate [of x t driver] Cons.prems by simp_all
  have "sorted (pu_last_keyframe (snd ?y) # map fst ts)" using Cons.prems r(2) by auto
  note IH = Cons.IH [OF this]
  have "connects (t # ts) = connects [t] + connects ts" by (simp add: connects_def)
  moreover have "last (pu_last_keyframe (snd ?y) # map fst ts) \<le> last (pu_last_keyframe (snd x) # map fst (t # ts))"
    using r(2) by simp
  ultimately show ?case using IH r(1) by (simp add: algebra_simps)
qed (simp add: connects_def)

lemma release_connecting_ok: "slot_ok driver s \<Longrightarrow> slot_ok driver (fst (release_connecting s pu))"
  by (auto simp: release_connecting_def split_beta intro!: with_player_ok dest: slot_okD split: option.split)

lemma pump_turn_ok: "slot_ok driver (fst x) \<Longrightarrow> slot_ok driver (fst (pump_turn driver turn x))"
  by (simp add: pump_turn_def pump_pending_def pump_event_def split_beta release_connecting_ok pump_input_ok
      split: option.split WtClientEvent.split)

lemma pump_turns_ok: "slot_ok driver (fst x) \<Longrightarrow> slot_ok driver (fst (fold (pump_turn driver) turns x))"
  by (induction turns arbitrary: x) (simp_all add: pump_turn_ok)

lemma release_connecting_player:
  "player (fst (release_connecting s pu)) = map_option (\<lambda>p. p\<lparr>media := snd (signal_ready (media p))\<rparr>) (player s)"
  by (simp add: release_connecting_def with_player_def split_beta split: option.split)

lemma pump_turn_unarmed:
  assumes "player (fst x) = Some p" "\<not> input_armed p"
  shows "\<exists>q. player (fst (pump_turn driver turn x)) = Some q \<and> input q = input p \<and> \<not> input_armed q"
proof -
  have "pump_input driver now bs (fst x) = fst x" for now bs
    using assms by (cases "fst x") (auto simp: pump_input_def with_player_def)
  then show ?thesis
    using assms
    by (simp add: pump_turn_def pump_pending_def pump_event_def release_connecting_player split_beta
        split: option.split WtClientEvent.split)
qed

section \<open>Properties\<close>

text \<open>C21. A keyframe request is never lost: once a client asked, the encoder of the player is asked at the
  latest on the first turn a second after the last request, whatever else comes in between.\<close>
theorem keyframe_request_served:
  assumes "player (fst x) \<noteq> None" "(later, ev) \<in> set turns"
    and "pu_last_keyframe (snd x) + KEYFRAME_MIN_INTERVAL \<le> later"
  shows "length (pu_keyframes (snd x))
    < length (pu_keyframes (snd (fold (pump_turn driver) ((now, Some EvKeyframeRequest) # turns) x)))"
proof (rule ccontr)
  let ?y = "pump_turn driver (now, Some EvKeyframeRequest) x"
  assume n: "\<not> ?thesis"
  obtain ks where k: "pu_keyframes (snd ?y) = pu_keyframes (snd x) @ ks" using pump_turn_keyframes by blast
  obtain ks' where k': "pu_keyframes (snd (fold (pump_turn driver) turns ?y)) = pu_keyframes (snd ?y) @ ks'"
    using pump_turns_keyframes by blast
  have same: "pu_keyframes (snd ?y) = pu_keyframes (snd x)"
    "pu_keyframes (snd (fold (pump_turn driver) turns ?y)) = pu_keyframes (snd ?y)"
    using n k k' by simp_all
  note i = pump_turn_idle [OF assms(1) same(1)]
  have "player (fst ?y) \<noteq> None" using assms(1) by simp
  from pump_turns_idle [OF this _ same(2)] have "later - pu_last_keyframe (snd x) < KEYFRAME_MIN_INTERVAL"
    using i assms(2) by fastforce
  then show False using assms(3) by simp
qed

lemma keyframe_request_served_witness:
  "pu_keyframes (snd (fold (pump_turn True) [(5, Some EvKeyframeRequest), (1000000007, None)]
     (one_player, (pump_new 0)\<lparr>pu_last_keyframe := 7\<rparr>))) \<noteq> []"
proof -
  have "player (fst (one_player, (pump_new 0)\<lparr>pu_last_keyframe := 7\<rparr>)) \<noteq> None"
    using one_player_ok(3) by (simp add: owns_def)
  from keyframe_request_served [OF this, of 1000000007 None "[(1000000007, None)]" True 5] show ?thesis
    by (auto simp: pump_new_def KEYFRAME_MIN_INTERVAL_def)
qed

text \<open>And the encoder is not flooded: over any run of turns the keyframes asked for, less one for each
  new connection, are at most one per second.\<close>
theorem keyframe_requests_bounded:
  assumes "sorted (pu_last_keyframe (snd x) # map fst turns)"
    and "y = fold (pump_turn driver) turns x"
  shows "(length (pu_keyframes (snd y)) - length (pu_keyframes (snd x)) - connects turns) * 1000000000
    \<le> last (pu_last_keyframe (snd x) # map fst turns) - pu_last_keyframe (snd x)"
proof -
  note r = pump_turns_rate [OF assms(1), of driver]
  let ?L = "pu_last_keyframe (snd x)" and ?L' = "pu_last_keyframe (snd y)"
  have 1: "?L + length (pu_keyframes (snd y)) * 1000000000
      \<le> ?L' + (length (pu_keyframes (snd x)) + connects turns) * 1000000000"
    and 2: "?L' \<le> last (?L # map fst turns)"
    using r by (simp_all add: assms(2) KEYFRAME_MIN_INTERVAL_def)
  have "(length (pu_keyframes (snd y)) - (length (pu_keyframes (snd x)) + connects turns)) * 1000000000
      = length (pu_keyframes (snd y)) * 1000000000 - (length (pu_keyframes (snd x)) + connects turns) * 1000000000"
    by (rule diff_mult_distrib)
  then show ?thesis using 1 2 by simp
qed

lemma keyframe_requests_bounded_witness:
  "length (pu_keyframes (snd (fold (pump_turn True)
      [(0, Some EvKeyframeRequest), (20000000, Some EvKeyframeRequest), (999999999, None)]
      (one_player, (pump_new 0)\<lparr>pu_last_keyframe := 0\<rparr>)))) = 0"
proof -
  let ?x = "(one_player, (pump_new 0)\<lparr>pu_last_keyframe := 0\<rparr>)"
  let ?turns = "[(0, Some EvKeyframeRequest), (20000000, Some EvKeyframeRequest), (999999999, None)]"
  define n where "n = length (pu_keyframes (snd (fold (pump_turn True) ?turns ?x)))"
  have "sorted (pu_last_keyframe (snd ?x) # map fst ?turns)" by simp
  from keyframe_requests_bounded [OF this refl, of True] have "n * 1000000000 \<le> 999999999"
    by (simp add: n_def connects_def pump_new_def del: fold.simps)
  then have "n = 0" by (cases n) simp_all
  then show ?thesis by (simp only: n_def)
qed

text \<open>C7. Whatever the video transport's clients send, the session manager's invariant survives, and a
  player whose input is not armed receives none of it.\<close>
theorem pump_respects_session:
  assumes "slot_ok driver (fst x)"
  shows "slot_ok driver (fst (fold (pump_turn driver) turns x))
    \<and> (case player (fst x) of
          None \<Rightarrow> player (fst (fold (pump_turn driver) turns x)) = None
        | Some p \<Rightarrow> input_armed p
            \<or> (\<exists>q. player (fst (fold (pump_turn driver) turns x)) = Some q \<and> input q = input p \<and> \<not> input_armed q))"
proof -
  have "player (fst (fold (pump_turn driver) turns x)) = None" if "player (fst x) = None"
    using that by (induction turns arbitrary: x) simp_all
  moreover have "\<exists>q. player (fst (fold (pump_turn driver) turns x)) = Some q \<and> input q = input p \<and> \<not> input_armed q"
    if "player (fst x) = Some p" "\<not> input_armed p" for p
    using that
  proof (induction turns arbitrary: x p)
    case (Cons t ts)
    obtain r where "player (fst (pump_turn driver t x)) = Some r" "input r = input p" "\<not> input_armed r"
      using pump_turn_unarmed [OF Cons.prems] by blast
    from Cons.IH [OF this(1,3)] this show ?case by simp
  qed simp
  ultimately show ?thesis using pump_turns_ok [OF assms, of turns] by (auto split: option.split)
qed

lemma pump_respects_session_witness:
  "slot_ok True (fst (fold (pump_turn True) [(1, Some EvConnected), (2, Some (EvInput [1, 2, 3]))] (one_player, pump_new 0)))"
proof -
  have "slot_ok True (fst (one_player, pump_new 0))" using one_player_ok(1) by simp
  from pump_respects_session [OF this, of "[(1, Some EvConnected), (2, Some (EvInput [1, 2, 3]))]"] show ?thesis
    by (rule conjunct1)
qed

text \<open>A displaced session is cut off from its successor's input on the datagram path, and its
  telemetry is ignored; but its control messages still act on the shared transport: its input
  packets are queued for the new player and it can switch the new player's video carrier.\<close>
theorem displaced_session_reach:
  assumes "wt_active sh \<noteq> Some (cr_session cr)"
  shows "on_datagram (cr_session cr) bs sh = sh
    \<and> on_message b64 clk now (Some (WtTelemetry t)) cr sh = (cr, sh, [])
    \<and> wt_events (fst (snd (on_message (\<lambda>_. Some bs) clk now (Some (InputMsg s)) cr sh))) = wt_events sh @ [EvInput bs]
    \<and> sh_datagram_video (fst (snd (on_message b64 clk now (Some EnableDatagramVideo) cr sh)))"
  using assms by (simp add: on_datagram_def on_message_def on_telemetry_def emit_def)

lemma displaced_session_reach_witness:
  "sh_datagram_video (fst (snd (on_message (\<lambda>_. None) None 0 (Some EnableDatagramVideo) (reader_start 1)
     (snd (open_session (snd (open_session (shared_new 0))))))))"
proof -
  have "wt_active (snd (open_session (snd (open_session (shared_new 0))))) = Some 2"
    by (simp add: open_session_def take_slot_def publish_def install_control_def emit_def shared_new_def Let_def)
  then have "wt_active (snd (open_session (snd (open_session (shared_new 0))))) \<noteq> Some (cr_session (reader_start 1))"
    by (simp add: reader_start_def)
  from displaced_session_reach [OF this] show ?thesis by blast
qed



text \<open>A rotation whose binds all fail leaves the host without a video path, although the retired
  certificate was still valid: the old transport is shut down before its successor is bound.\<close>
theorem rotation_failure_empties_slot:
  assumes "rotation_due (Some t) = (True, False)" "list_all (\<lambda>b. b = None) binds"
  shows "rotation_turn False binds (Some t, retired) = ((None, retired @ [tr_id t]), 60)"
proof -
  have "filter (\<lambda>b. b \<noteq> None) (take 40 binds) = []"
    using assms(2) by (auto simp: filter_empty_conv list_all_iff dest: in_set_takeD)
  then show ?thesis using assms(1) by (simp add: rotation_turn_def rotate_transport_def)
qed

lemma rotation_failure_empties_slot_witness:
  "rotation_turn False [None, None] (Some \<lparr>tr_id = 1, tr_cert_remaining = 100000, tr_sender_alive = True\<rparr>, [])
    = ((None, [1]), 60)"
  using rotation_failure_empties_slot [of "\<lparr>tr_id = 1, tr_cert_remaining = 100000, tr_sender_alive = True\<rparr>"
      "[None, None]" "[]"]
  by (simp add: rotation_due_def WT_CERT_ROTATE_WHEN_LEFT_def)

end
