(* ===== verification/IpText.thy ===== *)
theory IpText
  imports Signaling Credentials
begin

text \<open>
  IP addresses as text, the way the Rust standard library prints and parses them, and the string
  splitting around them. The host puts addresses into URLs, certificate names, router requests and
  the public name \<open>sslip.io\<close> resolves, and reads them back from all of these.
\<close>

section \<open>Splitting and joining\<close>

fun split_once :: "char \<Rightarrow> string \<Rightarrow> (string \<times> string) option" where
  "split_once c [] = None"
| "split_once c (x # xs) = (if x = c then Some ([], xs) else map_option (\<lambda>p. (x # fst p, snd p)) (split_once c xs))"

definition rsplit_once :: "char \<Rightarrow> string \<Rightarrow> (string \<times> string) option" where
  "rsplit_once c s = map_option (\<lambda>p. (rev (snd p), rev (fst p))) (split_once c (rev s))"

definition strip_prefix :: "string \<Rightarrow> string \<Rightarrow> string option" where
  "strip_prefix p s = (if starts_with s p then Some (drop (length p) s) else None)"

definition ends_with :: "string \<Rightarrow> string \<Rightarrow> bool" where "ends_with s p = starts_with (rev s) (rev p)"

definition trim_start_char :: "char \<Rightarrow> string \<Rightarrow> string" where "trim_start_char c = dropWhile (\<lambda>x. x = c)"
definition trim_end_char :: "char \<Rightarrow> string \<Rightarrow> string" where
  "trim_end_char c s = rev (dropWhile (\<lambda>x. x = c) (rev s))"

fun join :: "string \<Rightarrow> string list \<Rightarrow> string" where
  "join sep [] = []"
| "join sep [p] = p"
| "join sep (p # ps) = p @ sep @ join sep ps"

section \<open>Parsing\<close>

text \<open>
  What the standard library accepts as an IP address: four decimal octets without leading zeros; or
  eight hexadecimal groups of at most four digits, one run of them elided by \<open>::\<close>, the last two
  possibly written as an IPv4 address.
\<close>

definition octet_of :: "string \<Rightarrow> u8 option" where
  "octet_of s =
     (if s = [] \<or> 3 < length s \<or> (length s \<noteq> 1 \<and> hd s = CHR ''0'') then None
      else case digits 0 s of Some n \<Rightarrow> if n \<le> 255 then Some (of_nat n) else None | None \<Rightarrow> None)"

fun all_some :: "'a option list \<Rightarrow> 'a list option" where
  "all_some [] = Some []"
| "all_some (None # xs) = None"
| "all_some (Some x # xs) = map_option ((#) x) (all_some xs)"

definition octets_of :: "string \<Rightarrow> u8 list option" where
  "octets_of s = (let ps = split_on CHR ''.'' s in if length ps = 4 then all_some (map octet_of ps) else None)"

definition parse_v4 :: "string \<Rightarrow> (32 word) option" where
  "parse_v4 s = map_option (\<lambda>os. of_nat (be_nat os)) (octets_of s)"

fun hex_value :: "nat \<Rightarrow> string \<Rightarrow> nat option" where
  "hex_value acc [] = Some acc"
| "hex_value acc (c # cs) = (case to_digit16 c of None \<Rightarrow> None | Some d \<Rightarrow> hex_value (acc * 16 + d) cs)"

definition group_of :: "string \<Rightarrow> u16 option" where
  "group_of s = (if s = [] \<or> 4 < length s then None else map_option of_nat (hex_value 0 s))"

text \<open>The groups a colon-separated list stands for; the last piece may be an IPv4 address.\<close>

definition groups_of :: "bool \<Rightarrow> string \<Rightarrow> u16 list option" where
  "groups_of v4 s =
     (if s = [] then Some []
      else let ps = split_on CHR '':'' s
           in case all_some (map group_of ps) of
                Some gs \<Rightarrow> Some gs
              | None \<Rightarrow>
                  if v4 then (case (all_some (map group_of (butlast ps)), octets_of (last ps)) of
                      (Some gs, Some os) \<Rightarrow> Some (gs @ [of_nat (be_nat (take 2 os)), of_nat (be_nat (drop 2 os))])
                    | _ \<Rightarrow> None)
                  else None)"

fun split_elision :: "string \<Rightarrow> (string \<times> string) option" where
  "split_elision (a # b # s) =
     (if a = CHR '':'' \<and> b = CHR '':'' then Some ([], s)
      else map_option (\<lambda>p. (a # fst p, snd p)) (split_elision (b # s)))"
| "split_elision _ = None"

definition parse_v6 :: "string \<Rightarrow> (128 word) option" where
  "parse_v6 s =
     (case split_elision s of
        None \<Rightarrow> (case groups_of True s of Some gs \<Rightarrow> if length gs = 8 then Some (v6_new gs) else None | None \<Rightarrow> None)
      | Some (h, t) \<Rightarrow>
          (case (groups_of False h, groups_of True t) of
             (Some gs, Some hs) \<Rightarrow>
               if length gs + length hs \<le> 7
               then Some (v6_new (gs @ replicate (8 - length gs - length hs) 0 @ hs)) else None
           | _ \<Rightarrow> None))"

definition parse_ip :: "string \<Rightarrow> IpAddr option" where
  "parse_ip s = (case parse_v4 s of Some a \<Rightarrow> Some (V4 a) | None \<Rightarrow> map_option V6 (parse_v6 s))"

definition parses_ip :: "string \<Rightarrow> bool" where "parses_ip s \<longleftrightarrow> parse_ip s \<noteq> None"

section \<open>Printing\<close>

text \<open>\<open>{:x}\<close>, and the two \<open>Display\<close> implementations.\<close>

fun hex_text :: "nat \<Rightarrow> string" where
  "hex_text n = (if n < 16 then [hex_digit n] else hex_text (n div 16) @ [hex_digit (n mod 16)])"

declare hex_text.simps [simp del]

definition segments :: "128 word \<Rightarrow> u16 list" where "segments a = map (segment a) [0..<8]"

definition v4_text :: "32 word \<Rightarrow> string" where
  "v4_text a = join ''.'' (map (\<lambda>i. show_nat (unat (octet a i))) [0..<4])"

text \<open>The first longest run of zero groups, as start and length; the run being scanned comes before it.\<close>

fun zero_run :: "nat \<Rightarrow> u16 list \<Rightarrow> nat \<times> nat \<Rightarrow> nat \<times> nat \<Rightarrow> nat \<times> nat" where
  "zero_run i [] cur best = best"
| "zero_run i (s # ss) (cs, cl) best =
     (if s = 0
      then let cur = ((if cl = 0 then i else cs), cl + 1)
           in zero_run (i + 1) ss cur (if snd best < snd cur then cur else best)
      else zero_run (i + 1) ss (0, 0) best)"

definition groups_text :: "u16 list \<Rightarrow> string" where
  "groups_text ss = join '':'' (map (\<lambda>s. hex_text (unat s)) ss)"

definition v6_mapped :: "128 word \<Rightarrow> (32 word) option" where
  "v6_mapped a = (if drop_bit 32 a = 0xffff then Some (ucast a) else None)"

definition v6_text :: "128 word \<Rightarrow> string" where
  "v6_text a =
     (case v6_mapped a of
        Some b \<Rightarrow> ''::ffff:'' @ v4_text b
      | None \<Rightarrow>
          let ss = segments a; (st, len) = zero_run 0 ss (0, 0) (0, 0)
          in if 1 < len then groups_text (take st ss) @ ''::'' @ groups_text (drop (st + len) ss)
             else groups_text ss)"

definition ip_text :: "IpAddr \<Rightarrow> string" where
  "ip_text ip = (case ip of V4 a \<Rightarrow> v4_text a | V6 a \<Rightarrow> v6_text a)"

definition socket_text :: "IpAddr \<times> nat \<Rightarrow> string" where
  "socket_text a =
     (case a of
        (V4 v, p) \<Rightarrow> v4_text v @ '':'' @ show_nat p
      | (V6 v, p) \<Rightarrow> ''['' @ v6_text v @ '']:'' @ show_nat p)"

section \<open>Printed addresses parse back\<close>

lemma all_some_map_Some [simp]: "all_some (map (\<lambda>x. Some (f x)) xs) = Some (map f xs)"
  by (induction xs) auto

lemma all_some_cong: "\<forall>x \<in> set xs. g x = Some (f x) \<Longrightarrow> all_some (map g xs) = Some (map f xs)"
  by (induction xs) auto

lemma split_on_no [simp]: "c \<notin> set p \<Longrightarrow> split_on c p = [p]"
  by (induction p) auto

lemma split_on_append: "c \<notin> set p \<Longrightarrow> split_on c (p @ c # s) = p # split_on c s"
  by (induction p) (auto split: list.splits)

lemma split_join: "ps \<noteq> [] \<Longrightarrow> \<forall>p \<in> set ps. c \<notin> set p \<Longrightarrow> split_on c (join [c] ps) = ps"
  by (induction "[c]" ps rule: join.induct) (auto simp: split_on_append)

lemma hex_value_append: "hex_value acc (s @ [c]) =
    (case hex_value acc s of None \<Rightarrow> None | Some n \<Rightarrow> (case to_digit16 c of None \<Rightarrow> None | Some d \<Rightarrow> Some (n * 16 + d)))"
  by (induction s arbitrary: acc) (auto split: option.splits)

lemma hex_value_text: "hex_value 0 (hex_text n) = Some n"
proof (induction n rule: hex_text.induct)
  case (1 n)
  show ?case
  proof (cases "n < 16")
    case True
    then show ?thesis by (simp add: hex_text.simps to_digit16_hex_digit)
  next
    case False
    then show ?thesis using 1 by (simp add: hex_text.simps [of n] hex_value_append to_digit16_hex_digit)
  qed
qed

lemma hex_text_length: "n < 16 ^ k \<Longrightarrow> 0 < k \<Longrightarrow> length (hex_text n) \<le> k"
proof (induction k arbitrary: n)
  case (Suc k)
  show ?case
  proof (cases "n < 16")
    case True
    then show ?thesis by (simp add: hex_text.simps)
  next
    case False
    then have "n div 16 < 16 ^ k" "0 < k" using Suc.prems(1) by (auto simp: less_mult_imp_div_less mult.commute intro: gr0I)
    from Suc.IH [OF this] show ?thesis using False by (simp add: hex_text.simps [of n])
  qed
qed simp

lemma hex_text_nonempty [simp]: "hex_text n \<noteq> []"
  by (simp add: hex_text.simps)

lemma hex_text_chars: "c \<in> set (hex_text n) \<Longrightarrow> \<exists>d < 16. c = hex_digit d"
proof (induction n rule: hex_text.induct)
  case (1 n)
  have m: "\<exists>d < 16. hex_digit (n mod 16) = hex_digit d" by (intro exI [of _ "n mod 16"]) simp
  show ?case using 1 m by (cases "n < 16") (auto simp: hex_text.simps [of n])
qed

lemma hex_digit_colon: "d < 16 \<Longrightarrow> hex_digit d \<noteq> CHR '':''"
  using to_digit16_hex_digit [of d] by (auto simp: to_digit16_def)

lemma hex_text_colon [simp]: "CHR '':'' \<notin> set (hex_text n)"
  using hex_text_chars hex_digit_colon by metis

lemma group_of_text: "group_of (hex_text (unat (s :: u16))) = Some s"
  using hex_text_length [of "unat s" 4] unat_bound [of s] by (simp add: group_of_def hex_value_text)

lemma groups_of_text: "groups_of v4 (groups_text ss) = Some ss"
proof (cases ss)
  case (Cons s r)
  have "split_on CHR '':'' (groups_text ss) = map (\<lambda>s. hex_text (unat s)) ss"
    unfolding groups_text_def using Cons by (intro split_join) auto
  moreover have "groups_text ss \<noteq> []" using Cons by (cases r) (auto simp: groups_text_def)
  moreover have "all_some (map group_of (map (\<lambda>s. hex_text (unat s)) ss)) = Some ss"
    by (induction ss) (auto simp: group_of_text)
  ultimately show ?thesis by (simp add: groups_of_def)
qed (simp add: groups_text_def groups_of_def)

lemma split_elision_word: "CHR '':'' \<notin> set w \<Longrightarrow> split_elision (w @ x) = map_option (\<lambda>p. (w @ fst p, snd p)) (split_elision x)"
proof (induction w)
  case (Cons a w)
  then show ?case by (cases "w @ x") (auto simp: option.map_comp comp_def option.map_ident)
qed (simp add: option.map_ident)

lemma groups_text_start: "hd (groups_text (s # ss)) \<noteq> CHR '':''" "groups_text (s # ss) \<noteq> []"
  using hex_text_colon [of "unat s"] hd_in_set [OF hex_text_nonempty, of "unat s"]
  by (cases ss; auto simp: groups_text_def)+

lemma split_elision_groups:
  "split_elision (groups_text ss) = None"
  "ss \<noteq> [] \<Longrightarrow> split_elision (groups_text ss @ ''::'' @ t) = Some (groups_text ss, t)"
proof (induction ss)
  case (Cons s ss)
  let ?w = "hex_text (unat s)"
  {
    case 1
    show ?case
    proof (cases ss)
      case Nil
      then show ?thesis using split_elision_word [of ?w "[]"] by (simp add: groups_text_def)
    next
      case (Cons s2 r)
      then have g: "groups_text (s # ss) = ?w @ CHR '':'' # groups_text ss" by (simp add: groups_text_def)
      have "split_elision (CHR '':'' # groups_text ss) = None"
        using Cons.IH(1) groups_text_start [of s2 r] \<open>ss = s2 # r\<close> by (cases "groups_text ss") auto
      then show ?thesis by (simp add: g split_elision_word)
    qed
  next
    case 2
    show ?case
    proof (cases ss)
      case Nil
      then show ?thesis using split_elision_word [of ?w "''::'' @ t"] by (simp add: groups_text_def)
    next
      case (Cons s2 r)
      then have g: "groups_text (s # ss) = ?w @ CHR '':'' # groups_text ss" by (simp add: groups_text_def)
      have "split_elision (CHR '':'' # groups_text ss @ ''::'' @ t) = Some (CHR '':'' # groups_text ss, t)"
        using Cons.IH(2) groups_text_start [of s2 r] \<open>ss = s2 # r\<close> by (cases "groups_text ss") auto
      then show ?thesis by (simp add: g split_elision_word)
    qed
  }
qed (simp_all add: groups_text_def)

definition zeros_at :: "u16 list \<Rightarrow> nat \<times> nat \<Rightarrow> bool" where
  "zeros_at xs r \<longleftrightarrow> fst r + snd r \<le> length xs \<and> take (snd r) (drop (fst r) xs) = replicate (snd r) 0"

lemma zeros_at_snoc: "zeros_at xs r \<Longrightarrow> zeros_at (xs @ [x]) r"
  by (auto simp: zeros_at_def)

lemma zeros_at_grow: "zeros_at xs (st, n) \<Longrightarrow> st + n = length xs \<Longrightarrow> zeros_at (xs @ [0]) (st, Suc n)"
  by (auto simp: zeros_at_def replicate_append_same)

lemma zero_run_zeros:
  assumes "zeros_at pre cur" "snd cur \<noteq> 0 \<longrightarrow> fst cur + snd cur = length pre" "zeros_at pre best" "i = length pre"
  shows "zeros_at (pre @ ss) (zero_run i ss cur best)"
  using assms
proof (induction i ss cur best arbitrary: pre rule: zero_run.induct)
  case (2 i s ss cs cl best)
  let ?cur = "((if cl = 0 then i else cs), cl + 1)"
  show ?case
  proof (cases "s = 0")
    case True
    have c: "zeros_at (pre @ [s]) ?cur" "fst ?cur + snd ?cur = length (pre @ [s])"
      using "2.prems" True zeros_at_grow [of pre cs cl] zeros_at_grow [of pre "length pre" 0] by (auto simp: zeros_at_def)
    have b: "zeros_at (pre @ [s]) (if snd best < snd ?cur then ?cur else best)"
      using c(1) zeros_at_snoc [OF "2.prems"(3)] by simp
    show ?thesis
      using "2.IH"(1) [OF True refl, of "pre @ [s]"] c b True "2.prems"(4) unfolding zero_run.simps Let_def by simp
  next
    case False
    then show ?thesis
      using "2.IH"(2) [OF False, of "pre @ [s]"] zeros_at_snoc [OF "2.prems"(3)] "2.prems"(4) by (simp add: zeros_at_def)
  qed
qed simp

lemma v6_new_segments: "v6_new (segments a) = a"
proof (rule bit_word_eqI)
  fix n
  assume n: "n < LENGTH(128)"
  then have i: "n div 16 < 8" by auto
  have "rev (segments a) ! (n div 16) = segment a (7 - n div 16)"
    using i by (simp add: segments_def rev_nth)
  then show "bit (v6_new (segments a)) n = bit a n"
    using n i by (subst bit_v6_new) (auto simp: segments_def bit_segment)
qed

lemma parse_v6_text:
  assumes "v6_mapped a = None"
  shows "parse_v6 (v6_text a) = Some a"
proof -
  let ?ss = "segments a"
  obtain st len where r: "zero_run 0 ?ss (0, 0) (0, 0) = (st, len)" by fastforce
  have z: "zeros_at ?ss (st, len)" using zero_run_zeros [of "[]" "(0, 0)" "(0, 0)" 0 ?ss] r by (simp add: zeros_at_def)
  have len8: "length ?ss = 8" by (simp add: segments_def)
  show ?thesis
  proof (cases "1 < len")
    case True
    have ss: "take st ?ss @ replicate len 0 @ drop (st + len) ?ss = ?ss"
      using z by (simp add: zeros_at_def) (metis append_take_drop_id drop_drop add.commute)
    have e: "split_elision (groups_text (take st ?ss) @ ''::'' @ groups_text (drop (st + len) ?ss))
        = Some (groups_text (take st ?ss), groups_text (drop (st + len) ?ss))"
    proof (cases "take st ?ss")
      case Nil
      then show ?thesis unfolding Nil by (simp add: groups_text_def)
    next
      case (Cons x xs)
      then show ?thesis using split_elision_groups(2) [of "take st ?ss"] by simp
    qed
    have t: "v6_text a = groups_text (take st ?ss) @ ''::'' @ groups_text (drop (st + len) ?ss)"
      using True assms r by (simp add: v6_text_def Let_def)
    have l: "st + len \<le> 8" using z len8 by (simp add: zeros_at_def)
    then have "8 - min 8 st - (8 - (st + len)) = len" "min 8 st + (8 - (st + len)) \<le> 7" using True by linarith+
    then show ?thesis
      using ss l len8 unfolding t parse_v6_def e
      by (simp add: groups_of_text v6_new_segments del: append_assoc)
  next
    case False
    then show ?thesis
      using assms r len8 by (simp add: v6_text_def parse_v6_def groups_of_text split_elision_groups(1) v6_new_segments)
  qed
qed

lemma v6_text_chars: "c \<in> set (groups_text ss) \<Longrightarrow> c = CHR '':'' \<or> (\<exists>d < 16. c = hex_digit d)"
proof (induction ss)
  case (Cons s ss)
  then show ?case using hex_text_chars [of c "unat s"] by (cases ss) (auto simp: groups_text_def)
qed (simp add: groups_text_def)

end
