(* ===== verification/HttpApi.thy ===== *)
theory HttpApi
  imports EventPump Pairing IpText
begin

text \<open>
  The HTTP surface of the host (\<open>crates/host/src/http/mod.rs\<close>, \<open>http/api.rs\<close>): the guards every
  request passes (names the host answers to, the remote-access switch, same origin, loopback for
  the admin routes, the session cookie) and the handlers, which compose the pairing store, the
  controller list, the invitations, the session slot and the video transport. A request changes the
  state of all of them, \<open>HttpState\<close>, in one step. What libraries parse or encode comes in with
  \<open>HttpLib\<close>, clocks, random values and the interface list with \<open>Env\<close>. Bodies that are read from
  disk or from the platform (pages, posters, the library, health) are not modelled, their guards are.
\<close>

section \<open>Requests, responses and state\<close>

record Authority =
  au_str :: string
  au_host :: string
  au_port :: "nat option"

record Uri =
  u_scheme :: "string option"
  u_authority :: "Authority option"
  u_path :: string
  u_query :: "string option"

text \<open>
  The library calls: parsing authorities and URIs, base64 and key derivation of invitations, the
  sslip.io names of this machine's addresses, and the status a malformed body is refused with.
\<close>

record HttpLib =
  lb_authority :: "string \<Rightarrow> Authority option"
  lb_uri :: "string \<Rightarrow> Uri option"
  lb_b64 :: "bytes \<Rightarrow> string"
  lb_unb64 :: "string \<Rightarrow> bytes option"
  lb_hkdf :: "bytes \<Rightarrow> bytes"
  lb_sslip :: "string list"
  lb_reject :: nat

record Env =
  e_now :: nat
  e_wall :: nat
  e_ifaces :: "iface list option"
  e_driver :: bool
  e_rp :: nat
  e_rp2 :: nat
  e_sid :: string
  e_id :: bytes
  e_secret :: bytes

datatype Header = Absent | NotText | Val string

fun text_of :: "Header \<Rightarrow> string option" where
  "text_of (Val s) = Some s"
| "text_of _ = None"

datatype Method = MGet | MHead | MPost | MOther

record PairRequest =
  pr_pin :: string
  pr_controller_pubkey :: "string option"
  pr_controller_name :: "string option"
  pr_invite :: "string option"

datatype ReqBody = NoJson | JPair PairRequest | JDevice "string option" | JId string

record Request =
  rq_peer :: IpAddr
  rq_method :: Method
  rq_uri :: Uri
  rq_host :: Header
  rq_origin :: Header
  rq_fetch_site :: Header
  rq_cookie :: Header
  rq_body :: ReqBody

datatype Body =
    Plain string
  | JError string
  | JOk
  | JPaired
  | JAuthenticated bool
  | JStatus "StreamTarget option" string bool bool
  | JAdminStatus string string nat bool nat
  | JPin string
  | JInvite InviteView string
  | JInvites "InviteView list"
  | JControllers "Controller list"
  | JRevoked string
  | JTimeline "nat list list" nat nat
  | Upgrade string bool bool
  | Content

record Response =
  rs_status :: nat
  rs_headers :: "(string \<times> string) list"
  rs_body :: Body

record HttpState =
  hs_cfg :: Config
  hs_pairing :: PairingState
  hs_sessions :: SessionManager
  hs_acl :: Acl
  hs_invites :: "Invite list"
  hs_host_name :: string
  hs_play_url :: string
  hs_https :: bool
  hs_remote_access :: bool
  hs_wt :: "WtShared option"

definition SESSION_COOKIE :: string where "SESSION_COOKIE = ''inphase_session''"

definition reply :: "nat \<Rightarrow> Body \<Rightarrow> Response" where
  "reply code b = \<lparr>rs_status = code, rs_headers = [], rs_body = b\<rparr>"

definition pair_err :: "nat \<Rightarrow> string \<Rightarrow> Response" where "pair_err code msg = reply code (JError msg)"

definition with_header :: "string \<Rightarrow> string \<Rightarrow> Response \<Rightarrow> Response" where
  "with_header k v r = r\<lparr>rs_headers := kv_put k v (rs_headers r)\<rparr>"

section \<open>Guards\<close>

definition host_from_header :: "string \<Rightarrow> string" where
  "host_from_header host =
     (if starts_with host ''['' then
        (case split_once CHR '']'' host of Some (a, _) \<Rightarrow> a @ '']'' | None \<Rightarrow> host)
      else if 1 < length (filter (\<lambda>c. c = CHR '':'') host) then host
      else (case rsplit_once CHR '':'' host of
              Some (name, port) \<Rightarrow> if port \<noteq> [] \<and> list_all (\<lambda>c. digit c \<noteq> None) port then name else host
            | None \<Rightarrow> host))"

definition host_is_ours :: "HttpLib \<Rightarrow> string \<Rightarrow> HttpState \<Rightarrow> bool" where
  "host_is_ours lib name st =
     (let bare = trim_end_char CHR '']'' (trim_start_char CHR ''['' name)
      in if parses_ip bare then True
         else let host = lower (trim_end_char CHR ''.'' bare)
         in if host = ''localhost'' \<or> ends_with host ''.local'' \<or> ends_with host ''.ts.net'' then True
         else if (case lb_uri lib (hs_play_url st) of
                    Some u \<Rightarrow> (case u_authority u of Some a \<Rightarrow> lower (au_host a) = host | None \<Rightarrow> False)
                  | None \<Rightarrow> False)
              \<or> eq_nocase host (hs_host_name st)
              \<or> (case tls_domain (c_tls (hs_cfg st)) of Some d \<Rightarrow> eq_nocase d host | None \<Rightarrow> False) then True
         else ends_with host ''.sslip.io'' \<and> host \<in> set (lb_sslip lib))"

definition named_authority :: "Request \<Rightarrow> string option" where
  "named_authority rq =
     (case u_authority (rq_uri rq) of Some a \<Rightarrow> Some (au_str a) | None \<Rightarrow> text_of (rq_host rq))"

definition same_origin_request :: "HttpLib \<Rightarrow> Uri \<Rightarrow> Request \<Rightarrow> bool" where
  "same_origin_request lib uri rq =
     (if text_of (rq_fetch_site rq) = Some ''cross-site'' then False
      else case rq_origin rq of
        Absent \<Rightarrow> True
      | NotText \<Rightarrow> False
      | Val o_text \<Rightarrow>
          (case lb_uri lib o_text of
             None \<Rightarrow> False
           | Some origin \<Rightarrow>
               (case (u_scheme origin, u_authority origin) of
                  (Some scheme, Some source) \<Rightarrow>
                    if scheme \<noteq> ''http'' \<and> scheme \<noteq> ''https'' then False
                    else if CHR ''@'' \<in> set (au_str source) then False
                    else
                      let default_port = (if scheme = ''https'' then 443 else 80);
                          port = (\<lambda>a. case au_port a of Some p \<Rightarrow> p | None \<Rightarrow> default_port);
                          matches = (\<lambda>t. CHR ''@'' \<notin> set (au_str t) \<and> eq_nocase (au_host source) (au_host t)
                                        \<and> port source = port t);
                          same_authority =
                            (case u_authority uri of Some t \<Rightarrow> matches t | None \<Rightarrow> False)
                            \<or> (case text_of (rq_host rq) of None \<Rightarrow> False
                                | Some h \<Rightarrow> (case lb_authority lib h of Some t \<Rightarrow> matches t | None \<Rightarrow> False))
                            \<or> text_of (rq_fetch_site rq) = Some ''same-origin''
                      in same_authority \<and> u_path origin = ''/'' \<and> u_query origin = None
                | _ \<Rightarrow> False)))"

definition local_host :: "HttpLib \<Rightarrow> Request \<Rightarrow> bool" where
  "local_host lib rq =
     (case text_of (rq_host rq) of None \<Rightarrow> False
      | Some h \<Rightarrow>
          (case lb_authority lib h of None \<Rightarrow> False
           | Some a \<Rightarrow> lower (au_host a) \<in> {''localhost'', ''127.0.0.1'', ''[::1]''}))"

text \<open>The cookie: the first pair of that name; a session past its time to live is forgotten on the way.\<close>

definition cookie_session :: "string \<Rightarrow> string option" where
  "cookie_session cookie =
     map_option snd
       (find (\<lambda>kv. fst kv = SESSION_COOKIE)
         (List.map_filter (\<lambda>kv. split_once CHR ''='' (trim_str kv)) (split_on CHR '';'' cookie)))"

definition require_session :: "Env \<Rightarrow> Request \<Rightarrow> HttpState \<Rightarrow> string option \<times> HttpState" where
  "require_session env rq st =
     (case text_of (rq_cookie rq) of None \<Rightarrow> (None, st)
      | Some cookie \<Rightarrow>
          (case cookie_session cookie of None \<Rightarrow> (None, st)
           | Some sid \<Rightarrow>
               let (r, p) = validate_session (e_now env) (e_wall env) sid (hs_pairing st)
               in (r, st\<lparr>hs_pairing := p\<rparr>)))"

section \<open>Pairing\<close>

definition is_hex_key :: "string \<Rightarrow> bool" where
  "is_hex_key s \<longleftrightarrow> (length s = 64 \<or> length s = 130) \<and> list_all (\<lambda>c. to_digit16 c \<noteq> None) s"

definition is_control :: "char \<Rightarrow> bool" where
  "is_control c \<longleftrightarrow> (let n = of_char c :: nat in n < 32 \<or> n = 127)"

definition sanitize_name :: "string \<Rightarrow> string" where
  "sanitize_name raw =
     (let cleaned = take 80 (filter (\<lambda>c. \<not> is_control c) raw)
      in if trim_str cleaned = [] then ''browser'' else trim_str cleaned)"

definition session_cookie :: "HttpState \<Rightarrow> string \<Rightarrow> string" where
  "session_cookie st sid =
     SESSION_COOKIE @ ''='' @ sid @ ''; HttpOnly; SameSite=Lax; Path=/; Max-Age=''
       @ show_nat (if session_ttl_secs (c_pairing (hs_cfg st)) = 0 then 10 * 365 * 24 * 3600
                   else session_ttl_secs (c_pairing (hs_cfg st)))
       @ (if hs_https st then ''; Secure'' else [])"

definition pair_success :: "Env \<Rightarrow> PairRequest \<Rightarrow> string \<Rightarrow> HttpState \<Rightarrow> Response \<times> HttpState" where
  "pair_success env body sid st =
     (case pr_controller_pubkey body of
        None \<Rightarrow> (pair_err 400 ''controller_key_required'', st)
      | Some pk \<Rightarrow>
          if \<not> is_hex_key pk then (pair_err 400 ''controller_key_required'', st)
          else
            let name = (case pr_controller_name body of Some n \<Rightarrow> sanitize_name n | None \<Rightarrow> ''browser'');
                st1 = st\<lparr>hs_acl := acl_add (e_wall env) pk name (hs_acl st)\<rparr>;
                st2 = st1\<lparr>hs_pairing := bind_controller (e_now env) (e_wall env) sid pk (hs_pairing st1)\<rparr>
            in (with_header ''set-cookie'' (session_cookie st2 sid) (reply 200 JPaired), st2))"

definition given_invite :: "PairRequest \<Rightarrow> string option" where
  "given_invite body =
     (case pr_invite body of Some s \<Rightarrow> if trim_str s = [] then None else Some s | None \<Rightarrow> None)"

definition api_pair :: "Env \<Rightarrow> HttpLib \<Rightarrow> IpAddr \<Rightarrow> PairRequest \<Rightarrow> HttpState \<Rightarrow> Response \<times> HttpState" where
  "api_pair env lib peer_ip body st =
     (let on_lan = is_lan_peer (e_ifaces env) peer_ip
      in if \<not> on_lan \<and> \<not> allow_remote_pairing (c_remote_access (hs_cfg st))
         then (pair_err 403 ''pairing_is_lan_only'', st)
         else if \<not> (case pr_controller_pubkey body of Some pk \<Rightarrow> is_hex_key pk | None \<Rightarrow> False)
         then (pair_err 400 ''controller_key_required'', st)
         else if \<not> on_lan \<and> \<not> hs_https st then (pair_err 403 ''pairing_requires_https'', st)
         else
           (case given_invite body of
              Some invite \<Rightarrow>
                (case invite_consume (lb_unb64 lib) (e_wall env) invite (hs_invites st) of
                   (Inr _, is) \<Rightarrow>
                     let (sid, p) = mint_session (e_now env) (e_wall env) (e_rp env) (e_sid env) (hs_pairing st)
                     in pair_success env body sid (st\<lparr>hs_invites := is, hs_pairing := p\<rparr>)
                 | (Inl e, is) \<Rightarrow> (pair_err 401 (consume_error_str e), st\<lparr>hs_invites := is\<rparr>))
            | None \<Rightarrow>
                (case try_pair (e_now env) (e_wall env) (e_rp env) (e_rp2 env) (e_sid env) peer_ip
                        (trim_str (pr_pin body)) (hs_pairing st) of
                   (Inr sid, p) \<Rightarrow> pair_success env body sid (st\<lparr>hs_pairing := p\<rparr>)
                 | (Inl BadPin, p) \<Rightarrow> (pair_err 401 ''bad_pin'', st\<lparr>hs_pairing := p\<rparr>)
                 | (Inl Locked, p) \<Rightarrow> (pair_err 423 ''pin_locked'', st\<lparr>hs_pairing := p\<rparr>)
                 | (Inl (RateLimited r), p) \<Rightarrow>
                     (with_header ''retry-after'' (show_nat (r div second)) (reply 429 (JError ''rate_limited'')),
                      st\<lparr>hs_pairing := p\<rparr>))))"

section \<open>Handlers behind the session cookie\<close>

text \<open>A handler that serves paired browsers only.\<close>

definition paired :: "Env \<Rightarrow> Response \<Rightarrow> (string \<Rightarrow> HttpState \<Rightarrow> Response \<times> HttpState) \<Rightarrow> Request \<Rightarrow> HttpState
    \<Rightarrow> Response \<times> HttpState" where
  "paired env refusal k rq st =
     (case require_session env rq st of (None, st1) \<Rightarrow> (refusal, st1) | (Some sid, st1) \<Rightarrow> k sid st1)"

definition stop_player :: "Env \<Rightarrow> HttpState \<Rightarrow> HttpState" where
  "stop_player env st = st\<lparr>hs_sessions := snd (transition (e_driver env) Stopping (hs_sessions st))\<rparr>"

definition api_status :: "Env \<Rightarrow> Request \<Rightarrow> HttpState \<Rightarrow> Response \<times> HttpState" where
  "api_status env rq st =
     (let state = public_state (hs_sessions st);
          (sid, st1) = require_session env rq st;
          active = (if sid \<noteq> None \<and> state \<in> {Playing, Negotiating, Reconnecting}
                    then map_option sc_stream_target (active_config (hs_sessions st1)) else None)
      in (reply 200 (JStatus active (label state) (is_busy (hs_sessions st1)) (state = Idle)), st1))"

definition session_check :: "Env \<Rightarrow> Request \<Rightarrow> HttpState \<Rightarrow> Response \<times> HttpState" where
  "session_check env = paired env (reply 401 (JAuthenticated False)) (\<lambda>_ st. (reply 200 (JAuthenticated True), st))"

definition session_stop :: "Env \<Rightarrow> Request \<Rightarrow> HttpState \<Rightarrow> Response \<times> HttpState" where
  "session_stop env =
     paired env (reply 401 (Plain ''not the active player'')) (\<lambda>_ st. (reply 200 JOk, stop_player env st))"

definition api_audio_device :: "Env \<Rightarrow> string option \<Rightarrow> Request \<Rightarrow> HttpState \<Rightarrow> Response \<times> HttpState" where
  "api_audio_device env dev =
     paired env (reply 401 (Plain ''pair first''))
       (\<lambda>_ st. (reply 200 JOk, st\<lparr>hs_sessions := set_audio_device (case dev of Some d \<Rightarrow> non_empty d | None \<Rightarrow> None)
                                   (hs_sessions st)\<rparr>))"

definition named_controller :: "string option \<Rightarrow> string option" where
  "named_controller query =
     (case query of None \<Rightarrow> None
      | Some q \<Rightarrow>
          (case List.map_filter (strip_prefix ''controller='') (split_on CHR ''&'' q) of
             pk # _ \<Rightarrow> if is_hex_key pk then Some pk else None
           | [] \<Rightarrow> None))"

definition logout :: "Env \<Rightarrow> Request \<Rightarrow> HttpState \<Rightarrow> Response \<times> HttpState" where
  "logout env rq =
     paired env (pair_err 401 ''not_paired'')
       (\<lambda>sid st.
          let mine = session_controllers sid (hs_pairing st);
              st1 = (case named_controller (u_query (rq_uri rq)) of
                       Some pk \<Rightarrow> if \<exists>m \<in> set mine. eq_nocase m pk
                                  then st\<lparr>hs_acl := snd (acl_revoke pk (hs_acl st))\<rparr> else st
                     | None \<Rightarrow> st);
              st2 = st1\<lparr>hs_pairing := revoke_session (e_now env) (e_wall env) sid (hs_pairing st1)\<rparr>
          in (with_header ''set-cookie'' (SESSION_COOKIE @ ''=; HttpOnly; SameSite=Lax; Path=/; Max-Age=0'') (reply 200 JOk),
              stop_player env st2)) rq"

text \<open>
  The signaling socket: admitted by the cookie and the origin; the link itself is the session
  manager's. The upgrade records the session, whether the peer is on the LAN and whether it asked
  for a preview. It reaches the origin check without its URI.
\<close>

definition no_uri :: Uri where
  "no_uri = \<lparr>u_scheme = None, u_authority = None, u_path = ''/'', u_query = None\<rparr>"

definition signal_ws :: "Env \<Rightarrow> HttpLib \<Rightarrow> Request \<Rightarrow> HttpState \<Rightarrow> Response \<times> HttpState" where
  "signal_ws env lib rq =
     paired env (reply 401 (Plain ''pair first''))
       (\<lambda>sid st.
          if \<not> same_origin_request lib no_uri rq then (reply 403 (Plain ''bad origin''), st)
          else (reply 101 (Upgrade sid (is_lan_peer (e_ifaces env) (rq_peer rq))
                  (case u_query (rq_uri rq) of Some q \<Rightarrow> ''preview=1'' \<in> set (split_on CHR ''&'' q) | None \<Rightarrow> False)), st)) rq"

text \<open>Capabilities, the library and its posters: their bodies come from the platform.\<close>

definition api_content :: "Env \<Rightarrow> Request \<Rightarrow> HttpState \<Rightarrow> Response \<times> HttpState" where
  "api_content env = paired env (reply 401 (Plain ''pair first'')) (\<lambda>_ st. (reply 200 Content, st))"

section \<open>Admin handlers\<close>

definition drop_stream :: "Env \<Rightarrow> HttpState \<Rightarrow> HttpState" where
  "drop_stream env st =
     st\<lparr>hs_sessions := force_disconnect (e_driver env) (hs_sessions st),
        hs_wt := map_option drop_client (hs_wt st)\<rparr>"

definition admin_status :: "Env \<Rightarrow> HttpState \<Rightarrow> Response \<times> HttpState" where
  "admin_status env st =
     (let ((p, ttl), ps) = current_pin (e_now env) (e_wall env) (e_rp env) (hs_pairing st);
          (failures, lck) = pin_guard ps
      in (reply 200 (JAdminStatus (label (public_state (hs_sessions st))) p failures lck (session_count ps)),
          st\<lparr>hs_pairing := ps\<rparr>))"

definition admin_disconnect :: "Env \<Rightarrow> HttpState \<Rightarrow> Response \<times> HttpState" where
  "admin_disconnect env st = (reply 200 JOk, drop_stream env st)"

definition percentile :: "nat list \<Rightarrow> f32 \<Rightarrow> nat" where
  "percentile xs p =
     (if xs = [] then 0
      else xs ! min (nat \<lfloor>f32_mul (f32_nat (length xs)) p\<rfloor>) (length xs - 1))"

definition handoff_times :: "nat list list \<Rightarrow> nat list" where
  "handoff_times frames = sort (map (\<lambda>f. f ! 4 - f ! 1) (filter (\<lambda>f. 0 < f ! 4) frames))"

definition admin_frame_timeline :: "HttpState \<Rightarrow> Response \<times> HttpState" where
  "admin_frame_timeline st =
     (case hs_wt st of
        None \<Rightarrow> (reply 503 (Plain ''wt transport down''), st)
      | Some wt \<Rightarrow>
          let (frames, wt1) = timeline_snapshot wt; h = handoff_times frames
          in (reply 200 (JTimeline frames (percentile h (dec 5 10)) (percentile h (dec 95 100))),
              st\<lparr>hs_wt := Some wt1\<rparr>))"

definition admin_rotate_pin :: "Env \<Rightarrow> HttpState \<Rightarrow> Response \<times> HttpState" where
  "admin_rotate_pin env st =
     (let (p, ps) = rotate_pin (e_now env) (e_wall env) (e_rp env) (hs_pairing st)
      in (reply 200 (JPin p), st\<lparr>hs_pairing := ps\<rparr>))"

definition admin_revoke_all :: "Env \<Rightarrow> HttpState \<Rightarrow> Response \<times> HttpState" where
  "admin_revoke_all env st =
     (reply 200 JOk,
      drop_stream env (st\<lparr>hs_pairing := revoke_all_sessions (e_now env) (e_wall env) (hs_pairing st),
                          hs_acl := acl_revoke_all (hs_acl st)\<rparr>))"

definition admin_pair_invite :: "Env \<Rightarrow> HttpLib \<Rightarrow> HttpState \<Rightarrow> Response \<times> HttpState" where
  "admin_pair_invite env lib st =
     (let (v, is) = invite_create (lb_hkdf lib) (lb_b64 lib) (e_wall env) (e_id env) (e_secret env)
                      (acl_is_first (hs_acl st)) (hs_invites st);
          url = trim_end_char CHR ''/'' (hs_play_url st) @ ''/pair#'' @ v_secret v
      in (reply 200 (JInvite v url), st\<lparr>hs_invites := is\<rparr>))"

definition admin_pair_invites :: "Env \<Rightarrow> HttpLib \<Rightarrow> HttpState \<Rightarrow> Response \<times> HttpState" where
  "admin_pair_invites env lib st =
     (reply 200 (JInvites (invite_pending (lb_b64 lib) (e_wall env) (hs_invites st))), st)"

definition admin_pair_approve :: "Env \<Rightarrow> string \<Rightarrow> HttpState \<Rightarrow> Response \<times> HttpState" where
  "admin_pair_approve env ident st =
     (case invite_approve (e_wall env) (trim_str ident) (hs_invites st) of
        (True, is) \<Rightarrow> (reply 200 JOk, st\<lparr>hs_invites := is\<rparr>)
      | (False, is) \<Rightarrow> (pair_err 404 ''invite not found or expired'', st\<lparr>hs_invites := is\<rparr>))"

definition admin_controllers :: "HttpState \<Rightarrow> Response \<times> HttpState" where
  "admin_controllers st = (reply 200 (JControllers (acl_list (hs_acl st))), st)"

definition admin_revoke_controller :: "Env \<Rightarrow> string \<Rightarrow> HttpState \<Rightarrow> Response \<times> HttpState" where
  "admin_revoke_controller env ident st =
     (case acl_revoke (trim_str ident) (hs_acl st) of
        (Some i, a) \<Rightarrow>
          let (n, ps) = revoke_controller_sessions (e_now env) (e_wall env) i (hs_pairing st)
          in (reply 200 (JRevoked i), drop_stream env (st\<lparr>hs_acl := a, hs_pairing := ps\<rparr>))
      | (None, a) \<Rightarrow> (pair_err 404 ''no unique match for that id'', st\<lparr>hs_acl := a\<rparr>))"

section \<open>Routers\<close>

definition on_method :: "Method \<Rightarrow> (Request \<Rightarrow> HttpState \<Rightarrow> Response \<times> HttpState) \<Rightarrow> Request \<Rightarrow> HttpState
    \<Rightarrow> Response \<times> HttpState" where
  "on_method m k rq st =
     (if rq_method rq = m \<or> (m = MGet \<and> rq_method rq = MHead) then k rq st else (reply 405 Content, st))"

text \<open>A handler with a JSON body runs only when the body has its shape.\<close>

definition with_id :: "HttpLib \<Rightarrow> (string \<Rightarrow> HttpState \<Rightarrow> Response \<times> HttpState) \<Rightarrow> Request \<Rightarrow> HttpState
    \<Rightarrow> Response \<times> HttpState" where
  "with_id lib k rq st = (case rq_body rq of JId i \<Rightarrow> k i st | _ \<Rightarrow> (reply (lb_reject lib) Content, st))"

definition admin_routes :: "Env \<Rightarrow> HttpLib \<Rightarrow> (string \<times> (Request \<Rightarrow> HttpState \<Rightarrow> Response \<times> HttpState)) list" where
  "admin_routes env lib =
     [(''/api/v1/admin/status'', on_method MGet (\<lambda>_. admin_status env)),
      (''/api/v1/admin/frame-timeline'', on_method MGet (\<lambda>_. admin_frame_timeline)),
      (''/api/v1/admin/disconnect'', on_method MPost (\<lambda>_. admin_disconnect env)),
      (''/api/v1/admin/rotate-pin'', on_method MPost (\<lambda>_. admin_rotate_pin env)),
      (''/api/v1/admin/revoke-all'', on_method MPost (\<lambda>_. admin_revoke_all env)),
      (''/api/v1/admin/controllers'', on_method MGet (\<lambda>_. admin_controllers)),
      (''/api/v1/admin/controllers/revoke'', on_method MPost (with_id lib (admin_revoke_controller env))),
      (''/api/v1/admin/pair-invite'', on_method MPost (\<lambda>_. admin_pair_invite env lib)),
      (''/api/v1/admin/pair-invites'', on_method MGet (\<lambda>_. admin_pair_invites env lib)),
      (''/api/v1/admin/pair-invite/approve'', on_method MPost (with_id lib (admin_pair_approve env)))]"

definition loopback_only :: "HttpLib \<Rightarrow> (Request \<Rightarrow> HttpState \<Rightarrow> Response \<times> HttpState) \<Rightarrow> Request \<Rightarrow> HttpState
    \<Rightarrow> Response \<times> HttpState" where
  "loopback_only lib k rq st =
     (if ip_loopback (rq_peer rq) \<and> local_host lib rq \<and> same_origin_request lib (rq_uri rq) rq then k rq st
      else (reply 403 (Plain ''admin API is loopback-only''), st))"

definition is_api :: "Request \<Rightarrow> bool" where "is_api rq = starts_with (u_path (rq_uri rq)) ''/api/''"

definition security_headers :: "HttpLib \<Rightarrow> (Request \<Rightarrow> HttpState \<Rightarrow> Response \<times> HttpState) \<Rightarrow> Request \<Rightarrow> HttpState
    \<Rightarrow> Response \<times> HttpState" where
  "security_headers lib k rq st =
     (if is_api rq \<and> \<not> same_origin_request lib (rq_uri rq) rq
      then (reply 403 (Plain ''cross-origin request rejected''), st)
      else
        let (r, st1) = k rq st;
            r1 = (if is_api rq then with_header ''cache-control'' ''no-store'' r else r)
        in (with_header ''permissions-policy'' ''gamepad=(self), fullscreen=(self)''
              (with_header ''referrer-policy'' ''no-referrer''
                (with_header ''x-frame-options'' ''DENY'' (with_header ''x-content-type-options'' ''nosniff'' r1))),
            st1))"

definition remote_access_gate :: "Env \<Rightarrow> (Request \<Rightarrow> HttpState \<Rightarrow> Response \<times> HttpState) \<Rightarrow> Request \<Rightarrow> HttpState
    \<Rightarrow> Response \<times> HttpState" where
  "remote_access_gate env k rq st =
     (if hs_remote_access st \<or> is_lan_peer (e_ifaces env) (rq_peer rq) then k rq st
      else (reply 403 (Plain ''not available''), st))"

definition host_allowlist :: "HttpLib \<Rightarrow> (Request \<Rightarrow> HttpState \<Rightarrow> Response \<times> HttpState) \<Rightarrow> Request \<Rightarrow> HttpState
    \<Rightarrow> Response \<times> HttpState" where
  "host_allowlist lib k rq st =
     (case named_authority rq of
        None \<Rightarrow> k rq st
      | Some a \<Rightarrow> if host_is_ours lib (host_from_header a) st then k rq st
                  else (reply 421 (Plain ''unknown host''), st))"

text \<open>The routes of the LAN listener, the admin ones behind the loopback guard; anything else is a page.\<close>

definition lan_routes :: "Env \<Rightarrow> HttpLib \<Rightarrow> (string \<times> (Request \<Rightarrow> HttpState \<Rightarrow> Response \<times> HttpState)) list" where
  "lan_routes env lib =
     (let page = on_method MGet (\<lambda>_ st. (reply 200 Content, st))
      in [(''/'', page), (''/pair'', page), (''/ca.crt'', page), (''/api/v1/health'', page),
          (''/api/v1/status'', on_method MGet (api_status env)),
          (''/api/v1/pair'', on_method MPost (\<lambda>rq st.
             case rq_body rq of JPair b \<Rightarrow> api_pair env lib (rq_peer rq) b st | _ \<Rightarrow> (reply (lb_reject lib) Content, st))),
          (''/api/v1/session'', on_method MGet (session_check env)),
          (''/api/v1/capabilities'', on_method MGet (api_content env)),
          (''/api/v1/library'', on_method MGet (api_content env)),
          (''/api/v1/session/stop'', on_method MPost (session_stop env)),
          (''/api/v1/audio/capture-device'', on_method MPost (\<lambda>rq st.
             case rq_body rq of JDevice d \<Rightarrow> api_audio_device env d rq st | _ \<Rightarrow> (reply (lb_reject lib) Content, st))),
          (''/api/v1/logout'', on_method MPost (logout env)),
          (''/api/v1/signal'', on_method MGet (signal_ws env lib))]
         @ map (\<lambda>(p, k). (p, loopback_only lib k)) (admin_routes env lib))"

definition is_poster :: "string \<Rightarrow> bool" where
  "is_poster path \<longleftrightarrow>
     (case strip_prefix ''/api/v1/library/poster/'' path of Some i \<Rightarrow> i \<noteq> [] \<and> CHR ''/'' \<notin> set i | None \<Rightarrow> False)"

definition lan_route :: "Env \<Rightarrow> HttpLib \<Rightarrow> Request \<Rightarrow> HttpState \<Rightarrow> Response \<times> HttpState" where
  "lan_route env lib rq st =
     (case map_of (lan_routes env lib) (u_path (rq_uri rq)) of
        Some k \<Rightarrow> k rq st
      | None \<Rightarrow> if is_poster (u_path (rq_uri rq)) then on_method MGet (api_content env) rq st
                else (reply 200 Content, st))"

definition lan_router :: "Env \<Rightarrow> HttpLib \<Rightarrow> Request \<Rightarrow> HttpState \<Rightarrow> Response \<times> HttpState" where
  "lan_router env lib =
     host_allowlist lib (remote_access_gate env (security_headers lib (lan_route env lib)))"

definition admin_router :: "Env \<Rightarrow> HttpLib \<Rightarrow> Request \<Rightarrow> HttpState \<Rightarrow> Response \<times> HttpState" where
  "admin_router env lib =
     security_headers lib (loopback_only lib (\<lambda>rq st.
       case map_of (admin_routes env lib) (u_path (rq_uri rq)) of Some k \<Rightarrow> k rq st | None \<Rightarrow> (reply 404 Content, st)))"

section \<open>Lemmas\<close>

lemma reply_fields [simp]:
  "rs_status (reply c b) = c" "rs_body (reply c b) = b" "rs_headers (reply c b) = []"
  "rs_status (pair_err c m) = c" "rs_body (pair_err c m) = JError m" "rs_headers (pair_err c m) = []"
  by (simp_all add: reply_def pair_err_def)

lemma with_header_fields [simp]:
  "rs_status (with_header k v r) = rs_status r" "rs_body (with_header k v r) = rs_body r"
  "kv_get j (rs_headers (with_header k v r)) = (if j = k then Some v else kv_get j (rs_headers r))"
  by (simp_all add: with_header_def)

section \<open>The interface of a guard\<close>

text \<open>
  A guard hands the request on when it admits it, and otherwise refuses without touching the state.
\<close>

locale http_guard =
  fixes guard :: "(Request \<Rightarrow> HttpState \<Rightarrow> Response \<times> HttpState) \<Rightarrow> Request \<Rightarrow> HttpState \<Rightarrow> Response \<times> HttpState"
    and admits :: "Request \<Rightarrow> HttpState \<Rightarrow> bool"
  assumes passes: "admits rq st \<Longrightarrow>
      snd (guard k rq st) = snd (k rq st) \<and> rs_status (fst (guard k rq st)) = rs_status (fst (k rq st))"
    and refuses: "\<not> admits rq st \<Longrightarrow> snd (guard k rq st) = st \<and> rs_status (fst (guard k rq st)) \<in> {403, 421}"
begin

lemma changes_only_admitted:
  assumes "snd (guard k rq st) \<noteq> st"
  shows "admits rq st \<and> snd (k rq st) \<noteq> st"
  using assms passes [of rq st k] refuses [of rq st k] by metis

lemma keeps:
  assumes "P st" "\<And>st. P st \<Longrightarrow> P (snd (k rq st))"
  shows "P (snd (guard k rq st))"
  using assms passes [of rq st k] refuses [of rq st k] by metis

lemma result_of:
  "snd (guard k rq st) = (if admits rq st then snd (k rq st) else st)"
  using passes [of rq st k] refuses [of rq st k] by simp

lemma status_of:
  assumes "rs_status (fst (guard k rq st)) = c" "c \<notin> {403, 421}"
  shows "admits rq st \<and> rs_status (fst (k rq st)) = c"
  using assms passes [of rq st k] refuses [of rq st k] by metis

end

definition admits_name :: "HttpLib \<Rightarrow> Request \<Rightarrow> HttpState \<Rightarrow> bool" where
  "admits_name lib rq st =
     (case named_authority rq of None \<Rightarrow> True | Some a \<Rightarrow> host_is_ours lib (host_from_header a) st)"

definition admits_network :: "Env \<Rightarrow> Request \<Rightarrow> HttpState \<Rightarrow> bool" where
  "admits_network env rq st \<longleftrightarrow> hs_remote_access st \<or> is_lan_peer (e_ifaces env) (rq_peer rq)"

definition admits_origin :: "HttpLib \<Rightarrow> Request \<Rightarrow> HttpState \<Rightarrow> bool" where
  "admits_origin lib rq st \<longleftrightarrow> is_api rq \<longrightarrow> same_origin_request lib (rq_uri rq) rq"

definition admits_loopback :: "HttpLib \<Rightarrow> Request \<Rightarrow> HttpState \<Rightarrow> bool" where
  "admits_loopback lib rq st \<longleftrightarrow>
     ip_loopback (rq_peer rq) \<and> local_host lib rq \<and> same_origin_request lib (rq_uri rq) rq"

interpretation name_guard: http_guard "host_allowlist lib" "admits_name lib" for lib
  by unfold_locales (auto simp: host_allowlist_def admits_name_def split: option.splits)

interpretation network_guard: http_guard "remote_access_gate env" "admits_network env" for env
  by unfold_locales (auto simp: remote_access_gate_def admits_network_def)

interpretation origin_guard: http_guard "security_headers lib" "admits_origin lib" for lib
  by unfold_locales (auto simp: security_headers_def admits_origin_def split_beta)

interpretation loopback_guard: http_guard "loopback_only lib" "admits_loopback lib" for lib
  by unfold_locales (auto simp: loopback_only_def admits_loopback_def)

section \<open>Every handler keeps the stores in order\<close>

definition host_ok :: "bool \<Rightarrow> HttpState \<Rightarrow> bool" where
  "host_ok driver st \<longleftrightarrow>
     pairing_inv (hs_pairing st) \<and> wf_acl (hs_acl st) \<and> slot_ok driver (hs_sessions st)
     \<and> length (hs_invites st) \<le> MAX_LIVE_INVITES"

named_theorems host_keeps

lemma require_session_ok [host_keeps]:
  "host_ok driver st \<Longrightarrow> host_ok driver (snd (require_session env rq st))"
  using validate_session_inv
  by (simp add: require_session_def host_ok_def split_beta split: option.split)

lemma paired_snd:
  "snd (paired env e k rq st) =
     (case fst (require_session env rq st) of
        None \<Rightarrow> snd (require_session env rq st)
      | Some sid \<Rightarrow> snd (k sid (snd (require_session env rq st))))"
  by (simp add: paired_def split_beta split: prod.split option.split)

lemma paired_ok [host_keeps]:
  assumes "host_ok driver st" "\<And>sid st. host_ok driver st \<Longrightarrow> host_ok driver (snd (k sid st))"
  shows "host_ok driver (snd (paired env e k rq st))"
  using assms require_session_ok [OF assms(1)] by (simp add: paired_snd split: option.split)

lemma on_method_ok [host_keeps]:
  "host_ok driver st \<Longrightarrow> (\<And>rq st. host_ok driver st \<Longrightarrow> host_ok driver (snd (k rq st))) \<Longrightarrow>
     host_ok driver (snd (on_method m k rq st))"
  by (simp add: on_method_def)

lemma with_id_ok [host_keeps]:
  "host_ok driver st \<Longrightarrow> (\<And>i st. host_ok driver st \<Longrightarrow> host_ok driver (snd (k i st))) \<Longrightarrow>
     host_ok driver (snd (with_id lib k rq st))"
  by (simp add: with_id_def split: ReqBody.split)

lemma stop_player_ok [host_keeps]: "host_ok (e_driver env) st \<Longrightarrow> host_ok (e_driver env) (stop_player env st)"
  using stop_ok by (simp add: host_ok_def stop_player_def)

lemma drop_stream_ok [host_keeps]: "host_ok (e_driver env) st \<Longrightarrow> host_ok (e_driver env) (drop_stream env st)"
  using force_disconnect_ok by (simp add: host_ok_def drop_stream_def)

lemma slot_ok_audio [simp]: "slot_ok driver (set_audio_device d s) = slot_ok driver s"
  by (simp add: set_audio_device_def slot_ok_def slot_inv_def)

lemma pair_success_ok [host_keeps]: "host_ok driver st \<Longrightarrow> host_ok driver (snd (pair_success env b sid st))"
  by (auto simp: pair_success_def Let_def host_ok_def acl_add_wf bind_controller_inv split: option.split)

lemma length_the_update_first: "find P s = Some i \<Longrightarrow> length (the (update_first P f s)) = length s"
  using update_first_find [of P f s] length_update_first [of P f s] by (cases "update_first P f s") auto

lemma invite_consume_length: "length (snd (invite_consume u now g s)) = length s"
  by (simp add: invite_consume_def length_the_update_first split: option.split)

lemma invite_create_length:
  "length s \<le> MAX_LIVE_INVITES \<Longrightarrow> length (snd (invite_create hkdf b64 now idb secret needs s)) \<le> MAX_LIVE_INVITES"
  by (rule invites.put_good [where a = "(now, idb, secret, needs)", simplified])

lemma api_pair_ok [host_keeps]:
  assumes "host_ok driver st"
  shows "host_ok driver (snd (api_pair env lib ip b st))"
proof -
  have "host_ok driver (st\<lparr>hs_invites := snd (invite_consume u n g (hs_invites st))\<rparr>)" for u n g
    using assms invite_consume_length by (simp add: host_ok_def)
  moreover have "host_ok driver (st\<lparr>hs_invites := snd (invite_consume u n g (hs_invites st)),
      hs_pairing := snd (mint_session a w r sid (hs_pairing st))\<rparr>)" for u n g a w r sid
    using assms invite_consume_length mint_session_inv by (simp add: host_ok_def)
  moreover have "host_ok driver (st\<lparr>hs_pairing := snd (try_pair a w r r' sid ip g (hs_pairing st))\<rparr>)" for a w r r' sid g
    using assms try_pair_inv by (simp add: host_ok_def)
  ultimately show ?thesis
    using assms unfolding api_pair_def Let_def
    by (simp add: split_beta pair_success_ok prod.case_eq_if split: option.split sum.split PairError.split)
      (metis pair_success_ok snd_conv)?
qed

lemma api_status_ok [host_keeps]: "host_ok driver st \<Longrightarrow> host_ok driver (snd (api_status env rq st))"
  by (simp add: api_status_def split_beta Let_def require_session_ok)

lemma set_audio_ok [host_keeps]:
  "host_ok driver st \<Longrightarrow> host_ok driver (st\<lparr>hs_sessions := set_audio_device d (hs_sessions st)\<rparr>)"
  by (simp add: host_ok_def)

lemma logout_ok [host_keeps]:
  assumes "host_ok (e_driver env) st"
  shows "host_ok (e_driver env) (snd (logout env rq st))"
  unfolding logout_def
  by (rule paired_ok [OF assms])
    (auto simp: host_ok_def stop_player_def acl_revoke_wf revoke_session_inv stop_ok Let_def split: option.split)

lemma admin_handlers_ok [host_keeps]:
  assumes "host_ok (e_driver env) st"
  shows "host_ok (e_driver env) (snd (admin_status env st))"
    "host_ok (e_driver env) (snd (admin_disconnect env st))"
    "host_ok (e_driver env) (snd (admin_frame_timeline st))"
    "host_ok (e_driver env) (snd (admin_rotate_pin env st))"
    "host_ok (e_driver env) (snd (admin_revoke_all env st))"
    "host_ok (e_driver env) (snd (admin_pair_invite env lib st))"
    "host_ok (e_driver env) (snd (admin_pair_invites env lib st))"
    "host_ok (e_driver env) (snd (admin_controllers st))"
  using assms current_pin_inv rotate_pin_inv revoke_all_inv acl_revoke_all_wf invite_create_length force_disconnect_ok
  by (simp_all add: admin_status_def admin_disconnect_def admin_frame_timeline_def admin_rotate_pin_def
      admin_revoke_all_def admin_pair_invite_def admin_pair_invites_def admin_controllers_def host_ok_def
      drop_stream_def split_beta Let_def split: option.split)

lemma admin_approve_ok [host_keeps]:
  "host_ok driver st \<Longrightarrow> host_ok driver (snd (admin_pair_approve env i st))"
  by (auto simp: admin_pair_approve_def invite_approve_def host_ok_def dest!: length_update_first split: option.split bool.split)

lemma admin_revoke_ok [host_keeps]:
  "host_ok (e_driver env) st \<Longrightarrow> host_ok (e_driver env) (snd (admin_revoke_controller env i st))"
  using acl_revoke_wf [of "hs_acl st" "trim_str i"] revoke_controller_inv [of "hs_pairing st"] force_disconnect_ok
  by (auto simp: admin_revoke_controller_def host_ok_def drop_stream_def split_beta prod.case_eq_if split: option.split)

lemma admin_routes_ok:
  "(p, k) \<in> set (admin_routes env lib) \<Longrightarrow> host_ok (e_driver env) st \<Longrightarrow> host_ok (e_driver env) (snd (k rq st))"
  by (auto simp: admin_routes_def intro!: host_keeps)

lemma content_ok [host_keeps]: "host_ok driver st \<Longrightarrow> host_ok driver (snd (r, st))"
  by simp

lemma loopback_ok [host_keeps]:
  "host_ok driver st \<Longrightarrow> (\<And>st. host_ok driver st \<Longrightarrow> host_ok driver (snd (k rq st))) \<Longrightarrow>
     host_ok driver (snd (loopback_only lib k rq st))"
  by (rule loopback_guard.keeps)

lemma lan_routes_ok:
  assumes "(p, k) \<in> set (lan_routes env lib)" "host_ok (e_driver env) st"
  shows "host_ok (e_driver env) (snd (k rq st))"
  using assms
  by (auto simp: lan_routes_def session_check_def session_stop_def api_content_def api_audio_device_def signal_ws_def
      Let_def admin_routes_ok split: ReqBody.split intro!: host_keeps)

lemma lan_route_ok:
  assumes "host_ok (e_driver env) st"
  shows "host_ok (e_driver env) (snd (lan_route env lib rq st))"
proof (cases "map_of (lan_routes env lib) (u_path (rq_uri rq))")
  case None
  then show ?thesis using assms by (auto simp: lan_route_def api_content_def intro!: host_keeps)
next
  case (Some k)
  from lan_routes_ok [OF map_of_SomeD [OF Some] assms] show ?thesis by (simp add: lan_route_def Some)
qed

lemma lan_router_ok: "host_ok (e_driver env) st \<Longrightarrow> host_ok (e_driver env) (snd (lan_router env lib rq st))"
  unfolding lan_router_def
  by (rule name_guard.keeps [where P = "host_ok (e_driver env)"], assumption,
      rule network_guard.keeps [where P = "host_ok (e_driver env)"], assumption,
      rule origin_guard.keeps [where P = "host_ok (e_driver env)"], assumption, rule lan_route_ok)

lemma admin_router_ok:
  assumes "host_ok (e_driver env) st"
  shows "host_ok (e_driver env) (snd (admin_router env lib rq st))"
proof -
  have "host_ok (e_driver env) (snd (case map_of (admin_routes env lib) (u_path (rq_uri rq)) of
      Some k \<Rightarrow> k rq st | None \<Rightarrow> (reply 404 Content, st)))" if "host_ok (e_driver env) st" for st
    using that admin_routes_ok [OF map_of_SomeD] by (simp split: option.split)
  then show ?thesis
    unfolding admin_router_def
    by - (rule origin_guard.keeps [where P = "host_ok (e_driver env)", OF assms],
        rule loopback_guard.keeps [where P = "host_ok (e_driver env)"], assumption, blast)
qed

text \<open>Requests as they arrive, each on one of the two listeners with its own clock and random values.\<close>

datatype Listener = LanListener | AdminListener

definition serve :: "HttpLib \<Rightarrow> Listener \<times> Env \<times> Request \<Rightarrow> HttpState \<Rightarrow> HttpState" where
  "serve lib x st =
     (case x of (LanListener, env, rq) \<Rightarrow> snd (lan_router env lib rq st)
      | (AdminListener, env, rq) \<Rightarrow> snd (admin_router env lib rq st))"

section \<open>What a change of state presupposes\<close>

lemma starts_withD: "starts_with s p \<Longrightarrow> \<exists>t. s = p @ t"
  by (induction s p rule: starts_with.induct) auto

definition is_admin :: "string \<Rightarrow> bool" where "is_admin path = starts_with path ''/api/v1/admin/''"

lemma poster_path: "is_poster path \<Longrightarrow> \<exists>i. path = ''/api/v1/library/poster/'' @ i"
  by (auto simp: is_poster_def strip_prefix_def split: if_splits dest: starts_withD)

lemma poster_not_admin: "is_poster path \<Longrightarrow> \<not> is_admin path"
  using poster_path [of path] starts_withD [of path "''/api/v1/admin/''"] by (auto simp: is_admin_def)

lemma poster_is_api: "is_poster path \<Longrightarrow> starts_with path ''/api/''"
  using poster_path [of path] by auto

lemma admin_routes_admin: "(path, k) \<in> set (admin_routes env lib) \<Longrightarrow> is_admin path"
  by (auto simp: admin_routes_def is_admin_def)

text \<open>The routes of the LAN listener that are its own.\<close>

lemma lan_routes_split:
  assumes "(path, k) \<in> set (lan_routes env lib)"
  obtains (admin) a where "(path, a) \<in> set (admin_routes env lib)" "k = loopback_only lib a"
  | (own) "\<not> is_admin path" "(path, k) \<in> set (take 13 (lan_routes env lib))"
proof -
  have own: "list_all (\<lambda>x. \<not> is_admin (fst x)) (take 13 (lan_routes env lib))"
    by (simp add: lan_routes_def Let_def is_admin_def)
  have "set (lan_routes env lib) =
      set (take 13 (lan_routes env lib)) \<union> (\<lambda>(p, k). (p, loopback_only lib k)) ` set (admin_routes env lib)"
    by (simp add: lan_routes_def Let_def)
  then consider "(path, k) \<in> set (take 13 (lan_routes env lib))"
    | a where "(path, a) \<in> set (admin_routes env lib)" "k = loopback_only lib a"
    using assms by auto
  then show thesis
  proof cases
    case 1
    then show thesis using that own by (auto simp: list_all_iff)
  qed (use that in auto)
qed

lemma own_routes_api:
  assumes "(path, k) \<in> set (take 13 (lan_routes env lib))" "\<not> starts_with path ''/api/''"
  shows "snd (k rq st) = st"
  using assms by (auto simp: lan_routes_def Let_def on_method_def)

lemma lan_routes_cases:
  assumes "(path, k) \<in> set (lan_routes env lib)"
  shows "(is_admin path \<longrightarrow> (\<exists>a. k = loopback_only lib a)) \<and> (starts_with path ''/api/'' \<or> snd (k rq st) = st)"
  using assms
proof (cases rule: lan_routes_split)
  case (admin a)
  have "starts_with path ''/api/''"
    using admin_routes_admin [OF admin(1)] starts_withD [of path "''/api/v1/admin/''"] by (auto simp: is_admin_def)
  then show ?thesis using admin by auto
next
  case own
  then show ?thesis using own_routes_api by blast
qed

lemma lan_route_change:
  assumes "snd (lan_route env lib rq st) \<noteq> st"
  shows "is_api rq \<and> (is_admin (u_path (rq_uri rq)) \<longrightarrow> admits_loopback lib rq st)"
proof (cases "map_of (lan_routes env lib) (u_path (rq_uri rq))")
  case None
  then show ?thesis using assms poster_not_admin poster_is_api
    by (auto simp: lan_route_def is_api_def split: if_splits)
next
  case (Some k)
  have ch: "snd (k rq st) \<noteq> st" using assms by (simp add: lan_route_def Some)
  note c = lan_routes_cases [OF map_of_SomeD [OF Some], of rq st]
  have "admits_loopback lib rq st" if adm: "is_admin (u_path (rq_uri rq))"
  proof -
    obtain a where "k = loopback_only lib a" using c adm by blast
    then show ?thesis using loopback_guard.changes_only_admitted ch by blast
  qed
  then show ?thesis using c ch by (auto simp: is_api_def)
qed

section \<open>Without a session\<close>

lemma validate_session_none:
  "fst (validate_session now wall sid s) = None \<Longrightarrow>
     keys_of (sessions (snd (validate_session now wall sid s))) \<subseteq> keys_of (sessions s)"
  by (auto simp: validate_session_def split: option.splits if_splits)

lemma require_session_none:
  assumes "fst (require_session env rq st) = None"
  shows "\<exists>p. snd (require_session env rq st) = st\<lparr>hs_pairing := p\<rparr> \<and> keys_of (sessions p) \<subseteq> keys_of (sessions (hs_pairing st))"
proof (cases "\<exists>sid. \<exists>c. text_of (rq_cookie rq) = Some c \<and> cookie_session c = Some sid")
  case True
  then obtain c sid where "text_of (rq_cookie rq) = Some c" "cookie_session c = Some sid" by blast
  then show ?thesis using assms validate_session_none [of "e_now env" "e_wall env" sid "hs_pairing st"]
    by (auto simp: require_session_def split_beta)
next
  case False
  then have "snd (require_session env rq st) = st" by (auto simp: require_session_def split: option.split)
  then show ?thesis by (intro exI [of _ "hs_pairing st"]) simp
qed

text \<open>What an answer may tell a browser that is not paired.\<close>

definition tells_nothing :: "Body \<Rightarrow> bool" where
  "tells_nothing b \<longleftrightarrow> (case b of JStatus active _ _ _ \<Rightarrow> active = None | Upgrade _ _ _ \<Rightarrow> False
      | JPaired \<Rightarrow> False | JAuthenticated yes \<Rightarrow> \<not> yes | _ \<Rightarrow> True)"

definition inert :: "Env \<Rightarrow> Request \<Rightarrow> HttpState \<Rightarrow> Response \<times> HttpState \<Rightarrow> bool" where
  "inert env rq st x \<longleftrightarrow> (snd x = st \<or> snd x = snd (require_session env rq st)) \<and> tells_nothing (rs_body (fst x))"

lemma inert_paired:
  assumes "fst (require_session env rq st) = None" "tells_nothing (rs_body e)"
  shows "inert env rq st (paired env e k rq st)"
  using assms by (simp add: paired_def inert_def split_beta split: prod.split option.split)

lemma inert_reply: "tells_nothing b \<Longrightarrow> inert env rq st (reply c b, st)"
  by (simp add: inert_def)

lemma inert_on_method: "inert env rq st (k rq st) \<Longrightarrow> inert env rq st (on_method m k rq st)"
  by (simp add: on_method_def inert_reply tells_nothing_def)

lemma inert_status:
  "fst (require_session env rq st) = None \<Longrightarrow> inert env rq st (api_status env rq st)"
  by (simp add: api_status_def inert_def tells_nothing_def split_beta Let_def)

lemma inert_handlers:
  assumes "fst (require_session env rq st) = None"
  shows "inert env rq st (session_check env rq st)" "inert env rq st (session_stop env rq st)"
    "inert env rq st (api_content env rq st)" "inert env rq st (api_audio_device env d rq st)"
    "inert env rq st (signal_ws env lib rq st)" "inert env rq st (logout env rq st)"
  unfolding session_check_def session_stop_def api_content_def api_audio_device_def signal_ws_def logout_def
  by (rule inert_paired [OF assms], simp add: tells_nothing_def)+

lemma own_routes_inert:
  assumes "fst (require_session env rq st) = None"
  shows "list_all (\<lambda>x. fst x = ''/api/v1/pair'' \<or> inert env rq st (snd x rq st)) (take 13 (lan_routes env lib))"
  by (simp add: lan_routes_def Let_def inert_on_method inert_reply inert_handlers [OF assms] inert_status [OF assms]
      tells_nothing_def split: ReqBody.split)

lemma lan_routes_inert:
  assumes "(path, k) \<in> set (lan_routes env lib)" "path \<noteq> ''/api/v1/pair''" "\<not> is_admin path"
    and "fst (require_session env rq st) = None"
  shows "inert env rq st (k rq st)"
  using assms(1)
proof (cases rule: lan_routes_split)
  case (admin a)
  then show ?thesis using admin_routes_admin assms(3) by blast
next
  case own
  then show ?thesis using own_routes_inert [OF assms(4), of lib] assms(2) by (auto simp: list_all_iff)
qed

lemma lan_route_inert:
  assumes "u_path (rq_uri rq) \<noteq> ''/api/v1/pair''" "\<not> is_admin (u_path (rq_uri rq))"
    and "fst (require_session env rq st) = None"
  shows "inert env rq st (lan_route env lib rq st)"
proof (cases "map_of (lan_routes env lib) (u_path (rq_uri rq))")
  case None
  then show ?thesis
    by (auto simp: lan_route_def api_content_def tells_nothing_def intro!: inert_reply inert_on_method inert_paired [OF assms(3)])
next
  case (Some k)
  from lan_routes_inert [OF map_of_SomeD [OF Some] assms] show ?thesis by (simp add: lan_route_def Some)
qed

section \<open>Pairing in detail\<close>

lemma bind_controller_fields [simp]:
  "sessions (bind_controller now wall sid c s) = sessions s" "pc (bind_controller now wall sid c s) = pc s"
  by (simp_all add: bind_controller_def Let_def)

lemma kv_get_filter_key: "P k \<Longrightarrow> kv_get k (filter (\<lambda>e. P (fst e)) m) = kv_get k m"
  unfolding kv_get_def by (induction m) auto

lemma session_controllers_persist:
  "sid \<in> keys_of (sessions s) \<Longrightarrow> session_controllers sid (persist now wall s) = session_controllers sid s"
  using kv_get_filter_key [of "\<lambda>k. k \<in> keys_of (sessions s)" sid "bindings s"]
  by (simp add: session_controllers_def persist_bindings)

lemma bind_controller_bound:
  assumes "sid \<in> keys_of (sessions s)"
  shows "lower c \<in> set (session_controllers sid (bind_controller now wall sid c s))"
proof (cases "lower c \<in> set (session_controllers sid s)")
  case False
  have "lower c \<in> set (tl (session_controllers sid s @ [lower c]))"
    if "MAX_KEYS_PER_SESSION < length (session_controllers sid s @ [lower c])"
    using that by (cases "session_controllers sid s") (auto simp: MAX_KEYS_PER_SESSION_def)
  then show ?thesis
    using assms False by (simp add: bind_controller_def Let_def session_controllers_persist)
      (simp add: session_controllers_def)
qed (use assms in \<open>simp add: bind_controller_def Let_def\<close>)

lemma insert_session_there [simp]: "kv_get sid (sessions (insert_session wall sid s)) = Some wall"
  by (simp add: insert_session_def Let_def)

lemma insert_session_pc [simp]: "pc (insert_session wall sid s) = pc s"
  by (simp add: insert_session_def prune_to_def Let_def)

lemma validate_fresh:
  "kv_get sid (sessions s) = Some wall \<Longrightarrow> fst (validate_session now wall sid s) = Some sid"
  by (auto simp: validate_session_def)

lemma mint_session_there:
  "fst (mint_session now wall rp sid s) = sid"
  "kv_get sid (sessions (snd (mint_session now wall rp sid s))) = Some wall"
  by (simp_all add: mint_session_def Let_def insert_session_there)

lemma try_pair_there:
  assumes "try_pair now wall rp rp' sid ip g s = (Inr t, s')"
  shows "t = sid \<and> kv_get sid (sessions s') = Some wall \<and> g = pin (rotate_if_expired now wall rp s) \<and> \<not> locked s"
proof (cases rule: try_pair_cases [of now wall rp ip s rp' sid g])
  case (right v u)
  then show ?thesis using assms by (auto simp: reaches_compare_def locked_def)
qed (use assms in auto)

lemma try_pair_refused:
  assumes "try_pair now wall rp rp' sid ip g s = (Inl e, s')"
  shows "sessions s' = sessions s"
  by (cases rule: try_pair_cases [of now wall rp ip s rp' sid g]) (use assms in auto)

text \<open>What a browser that was let in holds: an authorised key and a live session bound to it.\<close>

definition let_in :: "Env \<Rightarrow> string \<Rightarrow> Response \<times> HttpState \<Rightarrow> bool" where
  "let_in env pk x \<longleftrightarrow>
     (case x of (r, st') \<Rightarrow>
        acl_is_authorized pk (hs_acl st')
        \<and> fst (validate_session (e_now env) (e_wall env) (e_sid env) (hs_pairing st')) = Some (e_sid env)
        \<and> lower pk \<in> set (session_controllers (e_sid env) (hs_pairing st'))
        \<and> kv_get ''set-cookie'' (rs_headers r) = Some (session_cookie st' (e_sid env)))"

definition turned_away :: "HttpState \<Rightarrow> Response \<times> HttpState \<Rightarrow> bool" where
  "turned_away st x \<longleftrightarrow>
     (case x of (r, st') \<Rightarrow>
        rs_status r \<noteq> 200 \<and> hs_acl st' = hs_acl st \<and> hs_sessions st' = hs_sessions st \<and> hs_wt st' = hs_wt st
        \<and> sessions (hs_pairing st') = sessions (hs_pairing st) \<and> kv_get ''set-cookie'' (rs_headers r) = None)"

lemma pair_success_lets_in:
  assumes "kv_get (e_sid env) (sessions (hs_pairing st)) = Some (e_wall env)"
    and "pr_controller_pubkey b = Some pk" "is_hex_key pk"
  shows "rs_status (fst (pair_success env b (e_sid env) st)) = 200 \<and> let_in env pk (pair_success env b (e_sid env) st)"
proof -
  have "e_sid env \<in> keys_of (sessions (hs_pairing st))" using get_some_key [OF assms(1)] .
  then show ?thesis
    using assms by (simp add: pair_success_def Let_def let_in_def acl_add_authorizes bind_controller_bound validate_fresh)
qed

lemma pair_err_turned_away:
  "c \<noteq> 200 \<Longrightarrow> sessions p = sessions (hs_pairing st) \<Longrightarrow>
     turned_away st (pair_err c m, st\<lparr>hs_invites := is, hs_pairing := p\<rparr>)"
  "c \<noteq> 200 \<Longrightarrow> turned_away st (pair_err c m, st)"
  "c \<noteq> 200 \<Longrightarrow> turned_away st (pair_err c m, st\<lparr>hs_invites := is\<rparr>)"
  "c \<noteq> 200 \<Longrightarrow> sessions p = sessions (hs_pairing st) \<Longrightarrow> turned_away st (pair_err c m, st\<lparr>hs_pairing := p\<rparr>)"
  by (simp_all add: turned_away_def kv_get_def)

section \<open>A host and its requests\<close>

definition demo_lib :: HttpLib where
  "demo_lib =
     \<lparr>lb_authority = (\<lambda>s. Some \<lparr>au_str = s, au_host = host_from_header s, au_port = None\<rparr>),
      lb_uri = (\<lambda>s. None), lb_b64 = (\<lambda>b. hex b), lb_unb64 = unhex, lb_hkdf = (\<lambda>b. b), lb_sslip = [], lb_reject = 422\<rparr>"

definition demo_http_env :: Env where
  "demo_http_env =
     \<lparr>e_now = 5, e_wall = 1000, e_ifaces = None, e_driver = True, e_rp = 0, e_rp2 = 7, e_sid = ''tok'',
      e_id = [1], e_secret = [2]\<rparr>"

definition demo_host :: HttpState where
  "demo_host =
     \<lparr>hs_cfg = default_config, hs_pairing = demo_pairing, hs_sessions = one_player,
      hs_acl = \<lparr>acl_list = [], acl_disk = []\<rparr>, hs_invites = [], hs_host_name = ''pc'',
      hs_play_url = ''https://pc.local/'', hs_https = True, hs_remote_access = False, hs_wt = None\<rparr>"

definition demo_request :: "Method \<Rightarrow> string \<Rightarrow> ReqBody \<Rightarrow> Request" where
  "demo_request m path b =
     \<lparr>rq_peer = V4 (127 * 2 ^ 24 + 1), rq_method = m,
      rq_uri = \<lparr>u_scheme = None, u_authority = None, u_path = path, u_query = None\<rparr>,
      rq_host = Val ''localhost'', rq_origin = Absent, rq_fetch_site = Absent, rq_cookie = Absent, rq_body = b\<rparr>"

definition demo_pair :: PairRequest where
  "demo_pair =
     \<lparr>pr_pin = ''123456'', pr_controller_pubkey = Some (replicate 64 CHR ''a''), pr_controller_name = None,
      pr_invite = None\<rparr>"

lemma demo_host_ok: "host_ok True demo_host"
  using demo_pairing_facts(1) one_player_ok(1)
  by (simp add: host_ok_def demo_host_def wf_acl_def MAX_LIVE_INVITES_def)

section \<open>Properties\<close>

text \<open>C10. Whatever requests arrive on the two listeners, in any order, the pairing store, the controller
  list, the invitations and the session slot keep their invariants.\<close>
theorem http_invariant:
  assumes "host_ok driver st" "list_all (\<lambda>(l, env, rq). e_driver env = driver) reqs"
  shows "host_ok driver (fold (serve lib) reqs st)"
  using assms
proof (induction reqs arbitrary: st)
  case (Cons x reqs)
  obtain l env rq where x: "x = (l, env, rq)" by (metis prod_cases3)
  have "host_ok driver (serve lib x st)"
    using Cons.prems lan_router_ok [of env st lib rq] admin_router_ok [of env st lib rq]
    by (auto simp: serve_def x split: Listener.split)
  with Cons show ?case by simp
qed simp

lemma http_invariant_witness:
  "host_ok True (fold (serve demo_lib)
     [(LanListener, demo_http_env, demo_request MPost ''/api/v1/pair'' (JPair demo_pair)),
      (AdminListener, demo_http_env, demo_request MPost ''/api/v1/admin/revoke-all'' NoJson)] demo_host)"
  by (rule http_invariant [OF demo_host_ok]) (simp add: demo_http_env_def)

text \<open>C8. No request changes anything unless it passed every guard: it came from the local network or
  remote access is on, it named this host or nobody, it was an API call a browser would call
  same-origin, and for the admin routes it came over loopback to a loopback name. On the admin
  listener nothing changes without the last two.\<close>
theorem http_change_is_admitted:
  shows "(snd (lan_router env lib rq st) = st
      \<or> (hs_remote_access st \<or> is_lan_peer (e_ifaces env) (rq_peer rq))
        \<and> (case named_authority rq of None \<Rightarrow> True | Some a \<Rightarrow> host_is_ours lib (host_from_header a) st)
        \<and> is_api rq \<and> same_origin_request lib (rq_uri rq) rq
        \<and> (if is_admin (u_path (rq_uri rq)) then ip_loopback (rq_peer rq) \<and> local_host lib rq else True))
    \<and> (snd (admin_router env lib rq st) = st
      \<or> ip_loopback (rq_peer rq) \<and> local_host lib rq \<and> same_origin_request lib (rq_uri rq) rq)"
proof -
  have "admits_name lib rq st \<and> admits_network env rq st \<and> admits_origin lib rq st \<and> snd (lan_route env lib rq st) \<noteq> st"
    if "snd (lan_router env lib rq st) \<noteq> st"
  proof -
    note a = name_guard.changes_only_admitted [OF that [unfolded lan_router_def]]
    note b = network_guard.changes_only_admitted [OF conjunct2 [OF a]]
    note c = origin_guard.changes_only_admitted [OF conjunct2 [OF b]]
    show ?thesis using a b c by blast
  qed
  moreover have "admits_loopback lib rq st" if "snd (admin_router env lib rq st) \<noteq> st"
  proof -
    note a = origin_guard.changes_only_admitted [OF that [unfolded admin_router_def]]
    show ?thesis using loopback_guard.changes_only_admitted [OF conjunct2 [OF a]] by blast
  qed
  ultimately show ?thesis
    using lan_route_change [of env lib rq st]
    by (auto simp: admits_name_def admits_network_def admits_origin_def admits_loopback_def)
qed



text \<open>The two ways to pair, for a device that may and names its key.\<close>

lemma pair_by_pin:
  assumes may: "is_lan_peer (e_ifaces env) ip \<or> allow_remote_pairing (c_remote_access (hs_cfg st)) \<and> hs_https st"
    and pk: "pr_controller_pubkey b = Some pk" "is_hex_key pk" and none: "given_invite b = None"
  shows "if rs_status (fst (api_pair env lib ip b st)) = 200
    then trim_str (pr_pin b) = pin (rotate_if_expired (e_now env) (e_wall env) (e_rp env) (hs_pairing st))
      \<and> \<not> locked (hs_pairing st) \<and> let_in env pk (api_pair env lib ip b st)
    else turned_away st (api_pair env lib ip b st)"
proof -
  obtain r p where tp: "try_pair (e_now env) (e_wall env) (e_rp env) (e_rp2 env) (e_sid env) ip
      (trim_str (pr_pin b)) (hs_pairing st) = (r, p)" by fastforce
  show ?thesis
  proof (cases r)
    case (Inl e)
    then show ?thesis
      using may pk none tp try_pair_refused [OF tp [unfolded Inl]]
      by (auto simp: api_pair_def Let_def pair_err_turned_away turned_away_def kv_get_def split: PairError.split)
        (simp_all add: with_header_def kv_put_def kv_del_def reply_def)?
  next
    case (Inr t)
    note th = try_pair_there [OF tp [unfolded Inr]]
    have "api_pair env lib ip b st = pair_success env b (e_sid env) (st\<lparr>hs_pairing := p\<rparr>)"
      using may pk none tp Inr th by (auto simp: api_pair_def Let_def)
    then show ?thesis
      using pk th pair_success_lets_in [of env "st\<lparr>hs_pairing := p\<rparr>" b pk] by auto
  qed
qed

lemma pair_by_invite:
  assumes may: "is_lan_peer (e_ifaces env) ip \<or> allow_remote_pairing (c_remote_access (hs_cfg st)) \<and> hs_https st"
    and pk: "pr_controller_pubkey b = Some pk" "is_hex_key pk" and some: "given_invite b = Some g"
  shows "if rs_status (fst (api_pair env lib ip b st)) = 200
    then (\<exists>i. find (invite_matches (lb_unb64 lib) g) (hs_invites st) = Some i
        \<and> invite_live (e_wall env) i \<and> (if i_needs_approval i then i_approved i else True))
      \<and> let_in env pk (api_pair env lib ip b st)
    else turned_away st (api_pair env lib ip b st)"
proof -
  obtain r ivs where ic: "invite_consume (lb_unb64 lib) (e_wall env) g (hs_invites st) = (r, ivs)" by fastforce
  show ?thesis
  proof (cases r)
    case (Inl e)
    then show ?thesis using may pk some ic by (auto simp: api_pair_def Let_def pair_err_turned_away)
  next
    case (Inr u)
    let ?m = "mint_session (e_now env) (e_wall env) (e_rp env) (e_sid env) (hs_pairing st)"
    have "api_pair env lib ip b st = pair_success env b (e_sid env) (st\<lparr>hs_invites := ivs, hs_pairing := snd ?m\<rparr>)"
      using may pk some ic Inr mint_session_there(1) by (auto simp: api_pair_def Let_def split_beta)
    moreover obtain i where "find (invite_matches (lb_unb64 lib) g) (hs_invites st) = Some i"
      "invite_live (e_wall env) i" "i_needs_approval i \<longrightarrow> i_approved i"
      using invite_consume_ok ic Inr by (metis (full_types) old.unit.exhaust)
    ultimately show ?thesis
      using pk pair_success_lets_in [of env "st\<lparr>hs_invites := ivs, hs_pairing := snd ?m\<rparr>" b pk]
        mint_session_there(2) by auto
  qed
qed

text \<open>C9. Pairing over HTTP: a request is let in exactly with status 200, and then it came from the local
  network (or remote pairing is allowed and the host speaks HTTPS), it named a well-formed device key,
  and it knew the PIN in force or a live, approved invitation; it leaves with that key authorised and
  a session bound to it. Any other answer leaves no new device, session or cookie behind.\<close>
theorem http_pairing_exact:
  shows "(if rs_status (fst (api_pair env lib ip b st)) = 200
     then (is_lan_peer (e_ifaces env) ip \<or> allow_remote_pairing (c_remote_access (hs_cfg st)) \<and> hs_https st)
       \<and> (case given_invite b of
            None \<Rightarrow> trim_str (pr_pin b) = pin (rotate_if_expired (e_now env) (e_wall env) (e_rp env) (hs_pairing st))
              \<and> \<not> locked (hs_pairing st)
          | Some g \<Rightarrow> (\<exists>i. find (invite_matches (lb_unb64 lib) g) (hs_invites st) = Some i
              \<and> invite_live (e_wall env) i \<and> (if i_needs_approval i then i_approved i else True)))
       \<and> (\<exists>pk. pr_controller_pubkey b = Some pk \<and> is_hex_key pk \<and> let_in env pk (api_pair env lib ip b st))
     else turned_away st (api_pair env lib ip b st))"
proof (cases "(is_lan_peer (e_ifaces env) ip \<or> allow_remote_pairing (c_remote_access (hs_cfg st)) \<and> hs_https st)
    \<and> (\<exists>pk. pr_controller_pubkey b = Some pk \<and> is_hex_key pk)")
  case False
  then show ?thesis
    by (auto simp: api_pair_def Let_def pair_err_turned_away split: option.splits)
next
  case True
  then obtain pk where pk: "pr_controller_pubkey b = Some pk" "is_hex_key pk" by blast
  have may: "is_lan_peer (e_ifaces env) ip \<or> allow_remote_pairing (c_remote_access (hs_cfg st)) \<and> hs_https st"
    using True by blast
  show ?thesis
  proof (cases "given_invite b")
    case None
    then show ?thesis using pair_by_pin [OF may pk None, of lib] may pk by auto
  next
    case (Some g)
    then show ?thesis using pair_by_invite [OF may pk Some, of lib] may pk by (auto split: if_splits)
  qed
qed

lemma revoked_session_invalid:
  assumes "pairing_inv p" "(sid, ks) \<in> set (bindings p)" "lower i \<in> set ks"
  shows "fst (validate_session now wall sid (snd (revoke_controller_sessions t w i p))) = None"
proof -
  have "kv_get sid (bindings p) = Some ks"
    using assms(2) pairing_invD(3) [OF assms(1)] by (simp add: kv_get_def wf_kv_def)
  then have "lower i \<in> set (session_controllers sid p)" using assms(3) by (simp add: session_controllers_def)
  then show ?thesis
    using revoke_controller_spec [of i sid p t w, folded get_none_iff] by (simp add: validate_session_def)
qed



section \<open>Where the surface is weaker than it says\<close>

text \<open>
  The session-stop request is documented as the player ending its own session, and refuses with
  ``not the active player''; any paired browser can end whatever session is running.
\<close>

lemma session_stop_by_any_paired:
  assumes "fst (require_session env rq st) = Some sid" "slot_ok (e_driver env) (hs_sessions st)"
  shows "player (hs_sessions (snd (session_stop env rq st))) = None"
proof -
  have "hs_sessions (snd (require_session env rq st)) = hs_sessions st"
    by (simp add: require_session_def split_beta split: option.split)
  then show ?thesis
    using assms stop_ok [OF assms(2)] by (simp add: session_stop_def paired_snd stop_player_def)
qed

text \<open>A key of 130 digits passes the pairing check but never the device challenge.\<close>

lemma long_key_never_verifies:
  assumes "is_hex_key k" "length k = 130"
  shows "verify_and_maybe_enroll sig_ok now pol k nonce sig a = (None, a)"
  using assms unhex_length [of k] by (auto simp: verify_and_maybe_enroll_def split: option.split)

text \<open>
  The list tells keys apart by case, the challenge does not: a device paired under two spellings of
  its key passes the challenge after one of them was revoked.
\<close>

lemma case_variant_survives_revocation:
  assumes "acl_revoke p a = (Some i, a')" "wf_acl a"
    and "c \<in> set (acl_list a)" "k_id c \<noteq> i" "eq_nocase (k_id c) i" "\<not> k_revoked c"
  shows "acl_get i a' \<noteq> None"
proof -
  have "c \<in> set (acl_list a')" using acl_revoke_spec [OF assms(1,2)] assms(3,4) by blast
  then show ?thesis using assms(5,6) by (auto simp: acl_get_def find_None_iff)
qed

end
