(* ===== verification/Diagnostics.thy ===== *)
theory Diagnostics
  imports EventPump
begin

text \<open>
  What the host knows about a running stream: the statistics it collects
  (\<open>crates/host/src/stats/mod.rs\<close>), the verdict on them (\<open>health.rs\<close>) and the per-frame stamps
  (\<open>media/frametrace.rs\<close>). Instants are nanoseconds, ages the \<open>f32\<close> seconds \<open>as_secs_f32\<close> makes of
  them. A symptom is its code and severity; the sentence that explains it is not modelled.
\<close>

section \<open>Statistics\<close>

datatype AudioHealth = Disabled | Healthy | Degraded | Failed | Restarting

record HostStats =
  st_capture_fps :: f32
  st_encoded_fps :: f32
  st_raw_queue_frames :: nat
  st_dropped_stale_frames :: nat
  st_encode_ms_p50 :: f32
  st_encode_ms_p95 :: f32
  st_encoder_backend :: string
  st_codec :: string
  st_width :: nat
  st_height :: nat
  st_target_fps :: nat
  st_encoder_bitrate_kbps :: nat
  st_route_loss_pct :: f32
  st_incomplete_frames :: nat

definition host_stats_default :: HostStats where
  "host_stats_default =
     \<lparr>st_capture_fps = 0, st_encoded_fps = 0, st_raw_queue_frames = 0, st_dropped_stale_frames = 0,
      st_encode_ms_p50 = 0, st_encode_ms_p95 = 0, st_encoder_backend = [], st_codec = [], st_width = 0,
      st_height = 0, st_target_fps = 0, st_encoder_bitrate_kbps = 0, st_route_loss_pct = 0,
      st_incomplete_frames = 0\<rparr>"

record TransportStats =
  tr_rtt_ms :: f32
  tr_packet_loss_pct :: f32
  tr_outbound_bitrate_kbps :: f32

definition transport_stats_default :: TransportStats where
  "transport_stats_default = \<lparr>tr_rtt_ms = 0, tr_packet_loss_pct = 0, tr_outbound_bitrate_kbps = 0\<rparr>"

text \<open>What the statistics and the bitrate poller read of a telemetry message.\<close>

record Telemetry =
  te_decoded_fps :: f32
  te_presented_fps :: "f32 option"
  te_decode_time_ms_p95 :: f32
  te_jitter_buffer_target_ms :: f32
  te_jitter_buffer_delay_ms :: f32
  te_rtt_ms :: f32
  te_inbound_bitrate_kbps :: f32
  te_audio_state :: "string option"
  te_audio_jitter_buffer_ms :: f32
  te_audio_level :: f32
  te_packets_lost :: nat
  te_frames_decoded :: nat
  te_frames_dropped_incomplete :: nat
  te_lat_p95_ms :: f32

record StatsCollector =
  sc_host :: HostStats
  sc_transport :: TransportStats
  sc_client :: "Telemetry option"
  sc_audio_health :: AudioHealth
  sc_wt_active :: bool
  sc_session_started :: "nat option"
  sc_client_at :: "nat option"

definition stats_new :: StatsCollector where
  "stats_new =
     \<lparr>sc_host = host_stats_default, sc_transport = transport_stats_default, sc_client = None,
      sc_audio_health = Disabled, sc_wt_active = False, sc_session_started = None, sc_client_at = None\<rparr>"

definition mark_session_start :: "nat \<Rightarrow> StatsCollector \<Rightarrow> StatsCollector" where
  "mark_session_start now s = s\<lparr>sc_session_started := Some now\<rparr>"

definition set_wt_active :: "bool \<Rightarrow> StatsCollector \<Rightarrow> StatsCollector" where
  "set_wt_active on s = s\<lparr>sc_wt_active := on\<rparr>"

definition set_audio_health :: "AudioHealth \<Rightarrow> StatsCollector \<Rightarrow> StatsCollector" where
  "set_audio_health h s =
     (if sc_audio_health s = Failed \<and> h \<noteq> Restarting then s
      else if sc_audio_health s \<noteq> h then s\<lparr>sc_audio_health := h\<rparr> else s)"

definition update_host :: "(HostStats \<Rightarrow> HostStats) \<Rightarrow> StatsCollector \<Rightarrow> StatsCollector" where
  "update_host f s = s\<lparr>sc_host := f (sc_host s)\<rparr>"

definition ingest_client :: "nat \<Rightarrow> Telemetry \<Rightarrow> StatsCollector \<Rightarrow> StatsCollector" where
  "ingest_client now t s =
     (let tr = (sc_transport s)\<lparr>tr_rtt_ms := te_rtt_ms t\<rparr>;
          tr1 = (if 0 < te_inbound_bitrate_kbps t then tr\<lparr>tr_outbound_bitrate_kbps := te_inbound_bitrate_kbps t\<rparr> else tr)
      in s\<lparr>sc_transport := tr1, sc_client := Some t, sc_client_at := Some now\<rparr>)"

definition ingest_client_signaling :: "nat \<Rightarrow> Telemetry \<Rightarrow> StatsCollector \<Rightarrow> StatsCollector" where
  "ingest_client_signaling now t s =
     (case (sc_wt_active s, sc_client s) of
        (True, Some cur) \<Rightarrow>
          s\<lparr>sc_client := Some (cur\<lparr>te_audio_state := te_audio_state t,
              te_audio_jitter_buffer_ms := te_audio_jitter_buffer_ms t, te_audio_level := te_audio_level t\<rparr>)\<rparr>
      | _ \<Rightarrow> ingest_client now t s)"

definition reset_session :: "StatsCollector \<Rightarrow> StatsCollector" where
  "reset_session s =
     s\<lparr>sc_host := host_stats_default, sc_transport := transport_stats_default, sc_client := None,
       sc_audio_health := Disabled, sc_session_started := None, sc_client_at := None\<rparr>"

definition frame_budget_ms :: "nat \<Rightarrow> f32" where
  "frame_budget_ms fps = (if fps = 0 then dec 167 10 else f32_div 1000 (f32_nat fps))"

definition classify_bottleneck :: "HostStats \<Rightarrow> TransportStats \<Rightarrow> Telemetry \<Rightarrow> string" where
  "classify_bottleneck h tr c =
     (if 1 < st_raw_queue_frames h \<or> f32_add (st_capture_fps h) 5 < f32_nat (st_target_fps h) then ''capture''
      else if frame_budget_ms (st_target_fps h) < st_encode_ms_p95 h then ''encode''
      else if 2 < tr_packet_loss_pct tr \<or> 40 < tr_rtt_ms tr \<or> 40 < te_rtt_ms c then ''network''
      else if frame_budget_ms (st_target_fps h) < te_decode_time_ms_p95 c then ''decode''
      else if f32_add (te_jitter_buffer_target_ms c) 15 < te_jitter_buffer_delay_ms c then ''playout''
      else ''none'')"

section \<open>The verdict\<close>

datatype Severity = Warn | Critical

text \<open>The order the verdict takes the maximum of.\<close>

instantiation Severity :: linorder
begin

definition less_eq_Severity :: "Severity \<Rightarrow> Severity \<Rightarrow> bool" where
  "less_eq_Severity a b \<longleftrightarrow> a = Warn \<or> b = Critical"

definition less_Severity :: "Severity \<Rightarrow> Severity \<Rightarrow> bool" where
  "less_Severity a b \<longleftrightarrow> a = Warn \<and> b = Critical"

instance
proof
  fix x y z :: Severity
  show "x \<le> y \<or> y \<le> x" "x \<le> x" by (cases x; cases y; simp add: less_eq_Severity_def)+
  show "(x < y) = (x \<le> y \<and> \<not> y \<le> x)" by (cases x; cases y) (simp_all add: less_eq_Severity_def less_Severity_def)
  show "x \<le> z" if "x \<le> y" "y \<le> z" using that by (cases x; cases y; cases z) (simp_all add: less_eq_Severity_def)
  show "x = y" if "x \<le> y" "y \<le> x" using that by (cases x; cases y) (simp_all add: less_eq_Severity_def)
qed

end

record Symptom =
  sy_code :: string
  sy_severity :: Severity

record Health =
  he_ok :: bool
  he_severity :: "Severity option"
  he_symptoms :: "Symptom list"

record HealthInput =
  hi_session_active :: bool
  hi_session_age_secs :: f32
  hi_capture_fps :: f32
  hi_encoded_fps :: f32
  hi_telemetry_age_secs :: "f32 option"
  hi_decoded_fps :: f32
  hi_presented_fps :: "f32 option"
  hi_route_loss_pct :: f32
  hi_audio_health :: AudioHealth

definition TELEMETRY_SILENCE_SECS :: f32 where "TELEMETRY_SILENCE_SECS = 8"
definition STARTUP_GRACE_SECS :: f32 where "STARTUP_GRACE_SECS = 6"

definition symptom :: "string \<Rightarrow> Severity \<Rightarrow> Symptom" where
  "symptom c v = \<lparr>sy_code = c, sy_severity = v\<rparr>"

definition capture_symptoms :: "HealthInput \<Rightarrow> Symptom list" where
  "capture_symptoms i =
     (if STARTUP_GRACE_SECS < hi_session_age_secs i \<and> hi_capture_fps i \<le> 0 \<and> hi_encoded_fps i \<le> 0
      then [symptom ''capture-stalled'' Critical] else [])"

definition client_symptoms :: "HealthInput \<Rightarrow> Symptom list" where
  "client_symptoms i =
     (case hi_telemetry_age_secs i of
        None \<Rightarrow> if TELEMETRY_SILENCE_SECS < hi_session_age_secs i then [symptom ''client-never-reported'' Critical] else []
      | Some age \<Rightarrow>
          if TELEMETRY_SILENCE_SECS < age then [symptom ''client-silent'' Critical]
          else if 0 < hi_decoded_fps i \<and> hi_presented_fps i = Some 0 then [symptom ''decoding-not-presenting'' Critical]
          else if hi_decoded_fps i \<le> 0 \<and> 0 < hi_capture_fps i \<and> STARTUP_GRACE_SECS < hi_session_age_secs i
          then [symptom ''no-decode'' Critical] else [])"

definition route_symptoms :: "HealthInput \<Rightarrow> Symptom list" where
  "route_symptoms i = (if 15 < hi_route_loss_pct i then [symptom ''route-degraded'' Warn] else [])"

definition audio_symptoms :: "HealthInput \<Rightarrow> Symptom list" where
  "audio_symptoms i =
     (case hi_audio_health i of
        Failed \<Rightarrow> [symptom ''audio-failed'' Warn]
      | Degraded \<Rightarrow> [symptom ''audio-degraded'' Warn]
      | _ \<Rightarrow> [])"

fun worst :: "Severity list \<Rightarrow> Severity option" where
  "worst [] = None"
| "worst (v # vs) = (if v = Critical \<or> worst vs = Some Critical then Some Critical else Some Warn)"

definition assess :: "HealthInput \<Rightarrow> Health" where
  "assess i =
     (let sy = (if hi_session_active i then capture_symptoms i @ client_symptoms i @ route_symptoms i else [])
               @ audio_symptoms i
      in \<lparr>he_ok = (sy = []), he_severity = worst (map sy_severity sy), he_symptoms = sy\<rparr>)"

fun join_codes :: "string list \<Rightarrow> string" where
  "join_codes [] = []"
| "join_codes [c] = c"
| "join_codes (c # cs) = c @ '', '' @ join_codes cs"

definition summary :: "Health \<Rightarrow> string" where
  "summary h = (if he_ok h then ''ok'' else join_codes (map sy_code (he_symptoms h)))"

text \<open>\<open>Duration::as_secs_f32\<close>: the seconds plus the nanoseconds over a billion.\<close>

definition secs_f32 :: "nat \<Rightarrow> f32" where
  "secs_f32 ns = f32_add (f32_nat (ns div 1000000000)) (f32_div (f32_nat (ns mod 1000000000)) (f32_nat 1000000000))"

definition health_input :: "nat \<Rightarrow> StatsCollector \<Rightarrow> HealthInput" where
  "health_input now s =
     (let age = map_option (\<lambda>t. now - t) (sc_session_started s)
      in \<lparr>hi_session_active = (age \<noteq> None), hi_session_age_secs = (case age of Some d \<Rightarrow> secs_f32 d | None \<Rightarrow> 0),
          hi_capture_fps = st_capture_fps (sc_host s), hi_encoded_fps = st_encoded_fps (sc_host s),
          hi_telemetry_age_secs = map_option (\<lambda>t. secs_f32 (now - t)) (sc_client_at s),
          hi_decoded_fps = (case sc_client s of Some c \<Rightarrow> te_decoded_fps c | None \<Rightarrow> 0),
          hi_presented_fps = (case sc_client s of Some c \<Rightarrow> te_presented_fps c | None \<Rightarrow> None),
          hi_route_loss_pct = st_route_loss_pct (sc_host s), hi_audio_health = sc_audio_health s\<rparr>)"

definition health :: "nat \<Rightarrow> StatsCollector \<Rightarrow> Health" where
  "health now s = assess (health_input now s)"

section \<open>Frame stamps\<close>

text \<open>A record is RTP time stamp, capture, encode and send time; \<open>staging\<close> maps a time stamp to the first two.\<close>

record FrameTrace =
  ft_capture_times :: "nat list"
  ft_staging :: "nat \<Rightarrow> (nat \<times> nat) option"
  ft_pending :: "(nat \<times> nat \<times> nat \<times> nat) list"
  ft_last_pts :: nat

definition trace_new :: FrameTrace where
  "trace_new = \<lparr>ft_capture_times = [], ft_staging = Map.empty, ft_pending = [], ft_last_pts = 0\<rparr>"

definition keep_last :: "nat \<Rightarrow> 'a list \<Rightarrow> 'a list" where "keep_last n xs = drop (length xs - n) xs"

definition on_capture :: "nat \<Rightarrow> FrameTrace \<Rightarrow> FrameTrace" where
  "on_capture now g = g\<lparr>ft_capture_times := keep_last 240 (ft_capture_times g @ [now])\<rparr>"

definition on_encoded :: "nat \<Rightarrow> nat \<Rightarrow> FrameTrace \<Rightarrow> FrameTrace" where
  "on_encoded now pts g =
     (let captured = (case ft_capture_times g of t # _ \<Rightarrow> t | [] \<Rightarrow> 0)
      in g\<lparr>ft_capture_times := tl (ft_capture_times g), ft_staging := (ft_staging g)(pts \<mapsto> (captured, now))\<rparr>)"

definition on_sent :: "nat \<Rightarrow> nat \<Rightarrow> nat \<Rightarrow> FrameTrace \<Rightarrow> FrameTrace" where
  "on_sent now rtp pts g =
     (let (captured, encoded) = (case ft_staging g pts of Some x \<Rightarrow> x | None \<Rightarrow> (0, 0));
          g1 = g\<lparr>ft_staging := (ft_staging g)(pts := None),
                 ft_pending := keep_last 600 (ft_pending g @ [(rtp, captured, encoded, now)])\<rparr>
      in if ft_last_pts g1 < pts
         then g1\<lparr>ft_last_pts := pts,
                 ft_staging := (\<lambda>k. if pts - 2000000000 \<le> k then ft_staging g1 k else None)\<rparr>
         else g1)"

definition trace_drain :: "FrameTrace \<Rightarrow> (nat \<times> nat \<times> nat \<times> nat) list \<times> FrameTrace" where
  "trace_drain g = (ft_pending g, g\<lparr>ft_pending := []\<rparr>)"

text \<open>\<open>f32::round\<close> of a number that is not negative: half away from zero.\<close>

definition round_half_up :: "f32 \<Rightarrow> nat" where "round_half_up x = nat \<lfloor>x + 1 / 2\<rfloor>"

definition stamp_percentile :: "f32 list \<Rightarrow> f32 \<Rightarrow> f32" where
  "stamp_percentile v q =
     (if v = [] then 0
      else let i = round_half_up (f32_mul (f32_add (f32_nat (length v)) (- 1)) q)
           in f32_div (f32_nat (round_half_up (f32_mul (sort v ! i) 10))) 10)"

definition encode_percentiles :: "(nat \<times> nat \<times> nat \<times> nat) list \<Rightarrow> f32 \<times> f32 \<times> f32" where
  "encode_percentiles frames =
     (let whole = filter (\<lambda>(_, cap, encd, _). cap \<noteq> 0 \<and> encd \<noteq> 0) frames;
          enc = map (\<lambda>(_, cap, encd, _). f32_div (f32_nat (encd - cap)) 1000) whole;
          c2s = map (\<lambda>(_, cap, _, snt). f32_div (f32_nat (snt - cap)) 1000) whole
      in (stamp_percentile enc (dec 5 10), stamp_percentile enc (dec 95 100), stamp_percentile c2s (dec 95 100)))"

section \<open>Lemmas\<close>

lemma worst_is_maximum: "worst vs = (if vs = [] then None else Some (Max (set vs)))"
proof (induction vs)
  case (Cons v vs)
  have m: "max v w = (if v = Critical \<or> w = Critical then Critical else Warn)" for w
    by (cases v; cases w) (simp_all add: max_def less_eq_Severity_def)
  show ?case
  proof (cases vs)
    case Nil
    then show ?thesis using Cons.IH by (cases v) auto
  next
    case (Cons w ws)
    then have "Max (set (v # vs)) = max v (Max (set vs))" by simp
    then show ?thesis using Cons.IH Cons by (simp add: m)
  qed
qed simp

lemma worst_critical: "worst vs = Some Critical \<longleftrightarrow> Critical \<in> set vs"
  by (induction vs) auto

lemma worst_none: "worst vs = None \<longleftrightarrow> vs = []"
  by (cases vs) auto

lemma symptom_fields [simp]: "sy_code (symptom c v) = c" "sy_severity (symptom c v) = v"
  by (simp_all add: symptom_def)

text \<open>What the user sees: nothing at all, a page that says nothing, or a stream that only suffers.\<close>

definition no_picture :: "HealthInput \<Rightarrow> bool" where
  "no_picture i \<longleftrightarrow>
     hi_decoded_fps i \<le> 0 \<and> 0 < hi_capture_fps i \<and> STARTUP_GRACE_SECS < hi_session_age_secs i
     \<or> 0 < hi_decoded_fps i \<and> hi_presented_fps i = Some 0"

definition quiet_client :: "HealthInput \<Rightarrow> bool" where
  "quiet_client i \<longleftrightarrow>
     TELEMETRY_SILENCE_SECS < (case hi_telemetry_age_secs i of Some a \<Rightarrow> a | None \<Rightarrow> hi_session_age_secs i)"

definition dead_source :: "HealthInput \<Rightarrow> bool" where
  "dead_source i \<longleftrightarrow> STARTUP_GRACE_SECS < hi_session_age_secs i \<and> hi_capture_fps i \<le> 0 \<and> hi_encoded_fps i \<le> 0"

definition broken :: "HealthInput \<Rightarrow> bool" where
  "broken i \<longleftrightarrow> hi_session_active i \<and> (dead_source i \<or> quiet_client i \<or> hi_telemetry_age_secs i \<noteq> None \<and> no_picture i)"

definition impaired :: "HealthInput \<Rightarrow> bool" where
  "impaired i \<longleftrightarrow> hi_session_active i \<and> 15 < hi_route_loss_pct i \<or> hi_audio_health i \<in> {Failed, Degraded}"

lemma client_critical:
  "Critical \<in> sy_severity ` set (client_symptoms i) \<longleftrightarrow> quiet_client i \<or> hi_telemetry_age_secs i \<noteq> None \<and> no_picture i"
  "client_symptoms i = [] \<longleftrightarrow> \<not> (quiet_client i \<or> hi_telemetry_age_secs i \<noteq> None \<and> no_picture i)"
  by (cases "hi_telemetry_age_secs i"; auto simp: client_symptoms_def quiet_client_def no_picture_def)+

lemma other_symptoms:
  "capture_symptoms i = [] \<longleftrightarrow> \<not> dead_source i" "Critical \<in> sy_severity ` set (capture_symptoms i) \<longleftrightarrow> dead_source i"
  "route_symptoms i = [] \<longleftrightarrow> \<not> 15 < hi_route_loss_pct i" "Critical \<notin> sy_severity ` set (route_symptoms i)"
  "audio_symptoms i = [] \<longleftrightarrow> hi_audio_health i \<notin> {Failed, Degraded}" "Critical \<notin> sy_severity ` set (audio_symptoms i)"
  by (auto simp: capture_symptoms_def route_symptoms_def audio_symptoms_def dead_source_def split: AudioHealth.split)

lemma assess_severity:
  "he_severity (assess i) = (if broken i then Some Critical else if impaired i then Some Warn else None)"
proof -
  have c: "he_severity (assess i) = Some Critical \<longleftrightarrow> broken i"
    using client_critical(1) [of i] other_symptoms(2,4,6) [of i]
    by (simp add: assess_def Let_def worst_critical broken_def image_Un) blast
  have n: "he_severity (assess i) = None \<longleftrightarrow> \<not> broken i \<and> \<not> impaired i"
    by (simp add: assess_def Let_def worst_none client_critical(2) other_symptoms(1,3,5) broken_def impaired_def)
  show ?thesis using c n by (metis Severity.exhaust option.exhaust)
qed

lemma assess_ok: "he_ok (assess i) \<longleftrightarrow> he_severity (assess i) = None"
  by (simp add: assess_def Let_def worst_none)

text \<open>
  A desktop that does not change: the source delivers nothing new, the encoder repeats the last frame,
  and a client that decodes none of it goes unnoticed.
\<close>

lemma static_desktop_blind_spot:
  assumes "hi_capture_fps i = 0" "0 < hi_encoded_fps i" "hi_decoded_fps i = 0"
    and "hi_telemetry_age_secs i = Some a" "a \<le> 8" "hi_route_loss_pct i \<le> 15" "hi_audio_health i = Healthy"
  shows "he_ok (assess i)"
  using assms
  by (simp add: assess_ok assess_severity broken_def impaired_def dead_source_def quiet_client_def no_picture_def
      TELEMETRY_SILENCE_SECS_def)

text \<open>A first telemetry message over the signaling socket of a live WebTransport session counts as the video client's.\<close>

lemma signaling_poses_as_video:
  assumes "sc_wt_active s" "sc_client s = None"
  shows "sc_client_at (ingest_client_signaling now t s) = Some now \<and> sc_client (ingest_client_signaling now t s) = Some t"
  using assms by (simp add: ingest_client_signaling_def ingest_client_def Let_def)

lemma signaling_merges:
  assumes "sc_wt_active s" "sc_client s = Some c"
  shows "sc_wt_active (ingest_client_signaling now t s) \<and> sc_client_at (ingest_client_signaling now t s) = sc_client_at s
    \<and> sc_transport (ingest_client_signaling now t s) = sc_transport s
    \<and> (\<exists>d. sc_client (ingest_client_signaling now t s) = Some d \<and> te_decoded_fps d = te_decoded_fps c
          \<and> te_presented_fps d = te_presented_fps c)"
  using assms by (simp add: ingest_client_signaling_def)

lemma length_keep_last [simp]: "length (keep_last n xs) = min n (length xs)"
  by (auto simp: keep_last_def)

lemma keep_last_short [simp]: "length xs \<le> n \<Longrightarrow> keep_last n xs = xs"
  by (simp add: keep_last_def)

lemma last_keep_last [simp]: "0 < n \<Longrightarrow> last (keep_last n (xs @ [x])) = x"
  by (simp add: keep_last_def)

lemma encoded_drops:
  "ft_capture_times (fold (\<lambda>(t, p). on_encoded t p) es g) = drop (length es) (ft_capture_times g)"
  by (induction es arbitrary: g) (auto simp: on_encoded_def Let_def drop_Suc)

text \<open>No joined list of codes reads \<open>ok\<close>: a code is longer than that and stays a prefix.\<close>

lemma symptom_codes:
  "sy \<in> set (he_symptoms (assess i)) \<Longrightarrow> 2 < length (sy_code sy)"
  by (auto simp: assess_def Let_def capture_symptoms_def client_symptoms_def route_symptoms_def audio_symptoms_def
      split: if_splits option.splits AudioHealth.splits)

lemma join_codes_length: "c \<in> set cs \<Longrightarrow> length c \<le> length (join_codes cs)"
  by (induction cs rule: join_codes.induct) auto

lemma summary_ok: "summary (assess i) = ''ok'' \<longleftrightarrow> he_ok (assess i)"
proof (cases "he_symptoms (assess i)")
  case Nil
  then show ?thesis by (simp add: summary_def assess_def Let_def)
next
  case (Cons sy rest)
  have "2 < length (join_codes (map sy_code (he_symptoms (assess i))))"
    using join_codes_length [of "sy_code sy" "map sy_code (he_symptoms (assess i))"] symptom_codes [of sy i] Cons by simp
  moreover have "\<not> he_ok (assess i)" using Cons by (auto simp: assess_def Let_def)
  ultimately show ?thesis by (auto simp: summary_def)
qed

section \<open>Properties\<close>


text \<open>While the video transport is live, telemetry over the signaling socket never touches what the
  video client reported: its frame rates, the transport figures and the time it was last heard stay.\<close>
theorem signaling_keeps_video:
  assumes "sc_wt_active s"
  shows "(case fold (\<lambda>(now, t). ingest_client_signaling now t) ts (ingest_client seen v s) of s' \<Rightarrow>
      sc_client_at s' = Some seen \<and> sc_transport s' = sc_transport (ingest_client seen v s)
      \<and> (\<exists>c. sc_client s' = Some c \<and> te_decoded_fps c = te_decoded_fps v \<and> te_presented_fps c = te_presented_fps v))"
proof -
  have "sc_client_at (fold (\<lambda>(now, t). ingest_client_signaling now t) ts x) = sc_client_at x
      \<and> sc_transport (fold (\<lambda>(now, t). ingest_client_signaling now t) ts x) = sc_transport x
      \<and> (\<exists>d. sc_client (fold (\<lambda>(now, t). ingest_client_signaling now t) ts x) = Some d
            \<and> te_decoded_fps d = te_decoded_fps c \<and> te_presented_fps d = te_presented_fps c)"
    if "sc_wt_active x" "sc_client x = Some c" for x c
    using that
  proof (induction ts arbitrary: x c)
    case (Cons e ts)
    obtain now t where e: "e = (now, t)" by fastforce
    note m = signaling_merges [OF Cons.prems, of now t]
    then obtain d where d: "sc_client (ingest_client_signaling now t x) = Some d" "te_decoded_fps d = te_decoded_fps c"
      "te_presented_fps d = te_presented_fps c" by blast
    from Cons.IH [OF _ d(1)] m d show ?case by (simp add: e)
  qed simp
  from this [of "ingest_client seen v s" v] show ?thesis using assms by (simp add: ingest_client_def Let_def)
qed

theorem signaling_keeps_video_witness:
  "\<exists>v t. sc_client_at (fold (\<lambda>(now, t). ingest_client_signaling now t) [(7, t), (9, t)]
      (ingest_client 5 v (set_wt_active True stats_new))) = Some 5"
  using signaling_keeps_video [of "set_wt_active True stats_new" "[(7, _), (9, _)]" 5]
  by (simp add: set_wt_active_def)

text \<open>A frame's stamps are its own: if the encoder returns frames in order and fewer than 240 wait in
  it, the record completed by a frame's last packet carries the times that very frame was captured,
  encoded and sent; and the buffers stay within 240 and 600 entries.\<close>
theorem frame_trace_joins:
  assumes "length (ft_capture_times g) < 240" "length earlier = length (ft_capture_times g)"
    and "g' = on_sent sent_at rtp pts (on_encoded enc_at pts (fold (\<lambda>(t, p). on_encoded t p) earlier (on_capture cap_at g)))"
  shows "last (ft_pending g') = (rtp, cap_at, enc_at, sent_at) \<and> length (ft_capture_times g') \<le> 240 \<and> length (ft_pending g') \<le> 600"
proof -
  let ?h = "fold (\<lambda>(t, p). on_encoded t p) earlier (on_capture cap_at g)"
  have "ft_capture_times ?h = [cap_at]" using assms(1,2) by (simp add: encoded_drops on_capture_def)
  then show ?thesis by (simp add: assms(3) on_sent_def on_encoded_def Let_def)
qed

theorem frame_trace_joins_witness:
  "last (ft_pending (on_sent 9 90 3 (on_encoded 7 3 (fold (\<lambda>(t, p). on_encoded t p) [(6, 2)] (on_capture 5 (on_capture 4 trace_new)))))) = (90, 5, 7, 9)"
  using frame_trace_joins [of "on_capture 4 trace_new" "[(6, 2)]" _ 9 90 3 7 5, OF _ _ refl]
  by (simp add: on_capture_def trace_new_def)

end
