(* ===== verification/Endpoint.thy ===== *)
theory Endpoint
  imports IpText "HOL-Library.List_Lexorder" "HOL-Library.Char_ord"
begin

text \<open>
  Where the host can be reached (\<open>crates/host/src/endpoint.rs\<close>, the name scheme of \<open>acme.rs\<close>, the
  host name of \<open>tls.rs\<close> and the firewall list of \<open>app.rs\<close>): one plan per configuration and selected
  address, the origins shown to the user, and the names the certificate has to cover. The selection
  counter is process-wide state, \<open>Selection\<close>; the environment variables are arguments.
\<close>

section \<open>Names\<close>

text \<open>\<open>sslip.io\<close>: the eight groups of the address in hexadecimal, joined by dashes.\<close>

definition sslip_name :: "128 word \<Rightarrow> string" where
  "sslip_name a = join ''-'' (map (\<lambda>s. hex_text (unat s)) (segments a)) @ ''.sslip.io''"

definition sslip_hostname :: "string \<Rightarrow> string option" where
  "sslip_hostname ipv6 =
     (let trimmed = trim_end_char CHR '']'' (trim_start_char CHR ''['' (trim_str ipv6));
          addr = (case rsplit_once CHR '']'' trimmed of Some (a, _) \<Rightarrow> a | None \<Rightarrow> trimmed)
      in map_option sslip_name (parse_v6 addr))"

definition machine_hostname :: "string option \<Rightarrow> string option \<Rightarrow> string option \<Rightarrow> string" where
  "machine_hostname computername hostname_var kernel_name =
     (let raw = (case computername of Some n \<Rightarrow> n
                 | None \<Rightarrow> (case hostname_var of Some n \<Rightarrow> n
                 | None \<Rightarrow> (case kernel_name of Some s \<Rightarrow> trim_str s | None \<Rightarrow> ''inphase-host'')))
      in lower (hd (split_on CHR ''.'' raw)))"

definition app_hostname :: "string option \<Rightarrow> string option \<Rightarrow> string" where
  "app_hostname computername hostname_var =
     (case computername of Some n \<Rightarrow> n
      | None \<Rightarrow> (case hostname_var of Some n \<Rightarrow> n | None \<Rightarrow> ''InPhase-Host''))"

section \<open>The plan\<close>

record EndpointPlan =
  ep_hostname :: string
  ep_ipv6 :: "(128 word) option"
  ep_origin_host :: string
  ep_https_port :: nat
  ep_wt_port :: nat
  ep_generation :: u64

text \<open>\<open>LAST_SELECTION\<close> and \<open>GENERATION\<close>; \<open>fetch_add\<close> wraps.\<close>

record Selection =
  se_last :: "(string \<times> u64) option"
  se_generation :: u64

definition selection_start :: Selection where
  "selection_start = \<lparr>se_last = None, se_generation = 1\<rparr>"

text \<open>\<open>{:?}\<close> of the address.\<close>

definition debug_v6 :: "(128 word) option \<Rightarrow> string" where
  "debug_v6 a = (case a of None \<Rightarrow> ''None'' | Some v \<Rightarrow> ''Some('' @ v6_text v @ '')'')"

definition selection_key :: "Config \<Rightarrow> string \<Rightarrow> (128 word) option \<Rightarrow> string" where
  "selection_key cfg host v6 =
     host @ ''|'' @ debug_v6 v6 @ ''|'' @ show_nat (tls_port (c_tls cfg)) @ ''|'' @ show_nat (wt_port (c_media cfg))"

definition detect :: "Config \<Rightarrow> string \<Rightarrow> (128 word) option \<Rightarrow> Selection \<Rightarrow> EndpointPlan \<times> Selection" where
  "detect cfg host v6 se =
     (let origin = (case tls_domain (c_tls cfg) of
                      Some d \<Rightarrow> if d = [] then host @ ''.local'' else d
                    | None \<Rightarrow> host @ ''.local'');
          key = selection_key cfg host v6;
          (gen, se') =
            (case se_last se of
               Some (k, g) \<Rightarrow>
                 if k = key then (g, se)
                 else (se_generation se, \<lparr>se_last = Some (key, se_generation se), se_generation = se_generation se + 1\<rparr>)
             | None \<Rightarrow> (se_generation se, \<lparr>se_last = Some (key, se_generation se), se_generation = se_generation se + 1\<rparr>))
      in (\<lparr>ep_hostname = host, ep_ipv6 = v6, ep_origin_host = origin, ep_https_port = tls_port (c_tls cfg),
           ep_wt_port = wt_port (c_media cfg), ep_generation = gen\<rparr>, se'))"

definition https_origin :: "string \<Rightarrow> nat \<Rightarrow> string" where
  "https_origin host p =
     (if p = 443 then ''https://'' @ host else ''https://'' @ host @ '':'' @ show_nat p)"

definition canonical_origin :: "EndpointPlan \<Rightarrow> string" where
  "canonical_origin pl = https_origin (ep_origin_host pl) (ep_https_port pl)"

definition advertised_host :: "EndpointPlan \<Rightarrow> string \<Rightarrow> string" where
  "advertised_host pl acme =
     (if \<not> ends_with (ep_origin_host pl) ''.local'' \<and> ep_origin_host pl \<noteq> ep_hostname pl then ep_origin_host pl
      else if acme \<noteq> [] then acme
      else case ep_ipv6 pl of
        Some v6 \<Rightarrow> (case sslip_hostname (v6_text v6) of Some n \<Rightarrow> n | None \<Rightarrow> ep_origin_host pl)
      | None \<Rightarrow> ep_origin_host pl)"

definition advertised_origin :: "EndpointPlan \<Rightarrow> string \<Rightarrow> string" where
  "advertised_origin pl acme = https_origin (advertised_host pl acme) (ep_https_port pl)"

definition certificate_identities :: "EndpointPlan \<Rightarrow> string list \<Rightarrow> string list" where
  "certificate_identities pl extra =
     remdups_adj (sort
       ([''localhost'', ''127.0.0.1'', ''::1'', ep_hostname pl, ep_hostname pl @ ''.local'']
        @ (case ep_ipv6 pl of Some v6 \<Rightarrow> [v6_text v6] | None \<Rightarrow> [])
        @ (case strip_prefix ''['' (ep_origin_host pl) of
             Some s \<Rightarrow> (if ends_with s '']'' then [take (length s - 1) s] else [])
           | None \<Rightarrow> [ep_origin_host pl])
        @ extra))"

definition collect_sans :: "Config \<Rightarrow> string \<Rightarrow> (128 word) option \<Rightarrow> Selection \<Rightarrow> (string \<times> string list) \<times> Selection" where
  "collect_sans cfg host v6 se =
     (let (pl, se') = detect cfg host v6 se;
          primary = (case tls_domain (c_tls cfg) of
                       Some d \<Rightarrow> if d = [] then ep_hostname pl @ ''.local'' else d
                     | None \<Rightarrow> ep_hostname pl @ ''.local'')
      in ((primary, certificate_identities pl (extra_sans (c_tls cfg))), se'))"

text \<open>The URL the host advertises once it has a leaf certificate.\<close>

definition play_url :: "Config \<Rightarrow> string \<Rightarrow> (128 word) option \<Rightarrow> Selection \<Rightarrow> string \<times> Selection" where
  "play_url cfg host v6 se =
     (let (pl, se') = detect cfg host v6 se
      in (advertised_origin pl (acme_hostname (c_tls cfg)) @ ''/'', se'))"

section \<open>Firewall\<close>

text \<open>Ports and address ranges at start, and what the tray switch puts in their place.\<close>

definition startup_rule :: "Config \<Rightarrow> nat list \<times> string list" where
  "startup_rule cfg =
     ([http_port (c_network cfg)] @ (if wants_tls (c_tls cfg) then [tls_port (c_tls cfg)] else [])
        @ (if wt_port (c_media cfg) \<noteq> 0 then [wt_port (c_media cfg)] else []),
      firewall_allowed_remote_cidrs (c_network cfg) (c_remote_access cfg))"

definition toggled_rule :: "Config \<Rightarrow> bool \<Rightarrow> nat list \<times> string list" where
  "toggled_rule cfg on =
     ([http_port (c_network cfg)] @ (if tls_port (c_tls cfg) \<noteq> 0 then [tls_port (c_tls cfg)] else [])
        @ (if wt_port (c_media cfg) \<noteq> 0 then [wt_port (c_media cfg)] else []),
      allowed_remote_cidrs (c_network cfg) @ (if on then [''2000::/3''] else []))"

section \<open>Lemmas\<close>

lemma digit_char: "d < 10 \<Longrightarrow> digit (char_of (48 + d)) = Some d"
  by (simp add: digit_def Let_def)

lemma digits_append: "digits acc (s @ [c]) =
    (case digits acc s of None \<Rightarrow> None | Some n \<Rightarrow> (case digit c of None \<Rightarrow> None | Some d \<Rightarrow> Some (n * 10 + d)))"
  by (induction s arbitrary: acc) (auto split: option.splits)

lemma digits_show_nat: "digits 0 (show_nat n) = Some n"
proof (induction n rule: show_nat.induct)
  case (1 n)
  then show ?case by (cases "n < 10") (simp_all add: show_nat.simps [of n] digits_append digit_char)
qed

lemma show_nat_inject [simp]: "show_nat m = show_nat n \<longleftrightarrow> m = n"
  by (metis digits_show_nat option.inject)

lemma show_nat_chars: "c \<in> set (show_nat n) \<Longrightarrow> digit c \<noteq> None"
proof (induction n rule: show_nat.induct)
  case (1 n)
  then show ?case by (cases "n < 10") (auto simp: show_nat.simps [of n] digit_char)
qed

lemma groups_text_chars:
  assumes "c \<in> set (v6_text a)" "v6_mapped a = None"
  shows "c = CHR '':'' \<or> to_digit16 c \<noteq> None"
proof -
  obtain st len where r: "zero_run 0 (segments a) (0, 0) (0, 0) = (st, len)" by fastforce
  have g: "x = CHR '':'' \<or> to_digit16 x \<noteq> None" if "x \<in> set (groups_text ss)" for x ss
    using v6_text_chars [OF that] to_digit16_hex_digit by auto
  have "v6_text a = (if 1 < len then groups_text (take st (segments a)) @ ''::'' @ groups_text (drop (st + len) (segments a))
      else groups_text (segments a))"
    using assms(2) r by (simp add: v6_text_def Let_def)
  then show ?thesis using assms(1) g by (cases "1 < len") auto
qed

lemma v6_text_inject:
  assumes "v6_mapped a = None" "v6_mapped b = None"
  shows "v6_text a = v6_text b \<longleftrightarrow> a = b"
  by (metis parse_v6_text [OF assms(1)] parse_v6_text [OF assms(2)] option.inject)

lemma dropWhile_none: "\<forall>c \<in> set s. \<not> P c \<Longrightarrow> dropWhile P s = s"
  by (cases s) auto

lemma dropWhile_stops: "\<forall>c \<in> set u. \<not> P c \<Longrightarrow> w \<noteq> [] \<Longrightarrow> \<not> P (hd w) \<Longrightarrow> dropWhile P (u @ w) = u @ w"
  by (cases u; cases w) auto

lemma split_once_none: "c \<notin> set s \<Longrightarrow> split_once c s = None"
  by (induction s) auto

lemma split_once_append: "c \<notin> set p \<Longrightarrow> split_once c (p @ c # s) = Some (p, s)"
  by (induction p) auto

lemma address_char_plain:
  "c = CHR '':'' \<or> to_digit16 c \<noteq> None \<Longrightarrow> \<not> is_space c \<and> c \<noteq> CHR ''['' \<and> c \<noteq> CHR '']'' \<and> c \<noteq> CHR ''|''"
  by (auto simp: to_digit16_def is_space_def Let_def split: if_splits)

lemma global_not_mapped:
  assumes "is_global_unicast_v6 a"
  shows "v6_mapped a = None"
proof -
  have "drop_bit 32 a \<noteq> 0xffff"
  proof
    assume d: "drop_bit 32 a = 0xffff"
    have "segment a 0 = ucast (drop_bit 80 (drop_bit 32 a))" by (simp add: segment_def)
    then have "segment a 0 = 0" unfolding d by simp
    then show False using assms by (simp add: is_global_unicast_v6_def)
  qed
  then show ?thesis by (simp add: v6_mapped_def)
qed

text \<open>The name of an address, from its text alone and from the text of a socket address.\<close>

lemma sslip_of_text:
  assumes "v6_mapped a = None"
  shows "sslip_hostname (v6_text a) = Some (sslip_name a)"
    and "sslip_hostname (socket_text (V6 a, p)) = Some (sslip_name a)"
proof -
  have plain: "\<not> is_space c \<and> c \<noteq> CHR ''['' \<and> c \<noteq> CHR '']''" if "c \<in> set (v6_text a)" for c
    using address_char_plain groups_text_chars [OF that assms] by blast
  show "sslip_hostname (v6_text a) = Some (sslip_name a)"
  proof -
    have "split_once CHR '']'' (rev (v6_text a)) = None" using plain by (intro split_once_none) auto
    then show ?thesis
      using plain
      by (simp add: sslip_hostname_def Let_def trim_str_def trim_start_char_def trim_end_char_def dropWhile_none
          rsplit_once_def parse_v6_text [OF assms])
  qed
  have dig: "\<not> is_space c \<and> c \<noteq> CHR ''['' \<and> c \<noteq> CHR '']''" if "c \<in> set (show_nat p)" for c
    using show_nat_chars [OF that] by (auto simp: digit_def is_space_def Let_def split: if_splits)
  have sp: "\<forall>c \<in> set (socket_text (V6 a, p)). \<not> is_space c"
    using plain dig by (auto simp: socket_text_def is_space_def)
  have ts: "trim_str (socket_text (V6 a, p)) = socket_text (V6 a, p)"
    using sp by (simp add: trim_str_def dropWhile_none)
  have d1: "dropWhile (\<lambda>x. x = CHR ''['') (v6_text a @ w) = v6_text a @ w" if "w \<noteq> []" "hd w \<noteq> CHR ''[''" for w
    using plain that by (intro dropWhile_stops) auto
  have d2: "dropWhile (\<lambda>x. x = CHR '']'') (rev (show_nat p) @ w) = rev (show_nat p) @ w" if "w \<noteq> []" "hd w \<noteq> CHR '']''" for w
    using dig that by (intro dropWhile_stops) auto
  have r: "split_once CHR '']'' (rev (show_nat p) @ CHR '':'' # CHR '']'' # rev (v6_text a))
      = Some (rev (show_nat p) @ '':'', rev (v6_text a))"
    using split_once_append [of "CHR '']''" "rev (show_nat p) @ '':''" "rev (v6_text a)"] dig by auto
  show "sslip_hostname (socket_text (V6 a, p)) = Some (sslip_name a)"
    unfolding sslip_hostname_def ts
    by (simp add: Let_def socket_text_def trim_start_char_def trim_end_char_def d1 d2 rsplit_once_def r parse_v6_text [OF assms])
qed

lemma key_parts:
  assumes "CHR ''|'' \<notin> set host" "case v6 of Some a \<Rightarrow> v6_mapped a = None | None \<Rightarrow> True"
  shows "split_on CHR ''|'' (selection_key cfg host v6)
      = [host, debug_v6 v6, show_nat (tls_port (c_tls cfg)), show_nat (wt_port (c_media cfg))]"
proof -
  have n: "CHR ''|'' \<notin> set (show_nat p)" for p
    using show_nat_chars [of "CHR ''|''" p] by (auto simp: digit_def)
  have v: "CHR ''|'' \<notin> set (debug_v6 v6)"
  proof (cases v6)
    case (Some a)
    then show ?thesis
      using groups_text_chars [of "CHR ''|''" a] assms(2) address_char_plain [of "CHR ''|''"] by (auto simp: debug_v6_def)
  qed (simp add: debug_v6_def)
  show ?thesis using assms(1) n v unfolding selection_key_def by (simp add: split_on_append)
qed

definition selection_ok :: "Selection \<Rightarrow> bool" where
  "selection_ok se = (case se_last se of None \<Rightarrow> True | Some (_, g) \<Rightarrow> se_generation se = g + 1)"

lemma detect_selection:
  assumes "selection_ok se"
  shows "selection_ok (snd (detect cfg host v6 se))"
    "se_last (snd (detect cfg host v6 se)) = Some (selection_key cfg host v6, ep_generation (fst (detect cfg host v6 se)))"
  using assms by (auto simp: detect_def Let_def selection_ok_def split: option.splits prod.splits)

lemma detect_again:
  assumes "selection_ok se" "se_last se = Some (k, g)"
  shows "ep_generation (fst (detect cfg host v6 se)) = g \<longleftrightarrow> selection_key cfg host v6 = k"
  using assms by (auto simp: detect_def Let_def selection_ok_def)

lemma key_inject:
  assumes "CHR ''|'' \<notin> set h1" "CHR ''|'' \<notin> set h2"
    and "case v1 of Some a \<Rightarrow> v6_mapped a = None | None \<Rightarrow> True" "case v2 of Some a \<Rightarrow> v6_mapped a = None | None \<Rightarrow> True"
  shows "selection_key c1 h1 v1 = selection_key c2 h2 v2 \<longleftrightarrow>
     h1 = h2 \<and> v1 = v2 \<and> tls_port (c_tls c1) = tls_port (c_tls c2) \<and> wt_port (c_media c1) = wt_port (c_media c2)"
proof
  assume "selection_key c1 h1 v1 = selection_key c2 h2 v2"
  then have "h1 = h2" "debug_v6 v1 = debug_v6 v2" "tls_port (c_tls c1) = tls_port (c_tls c2)" "wt_port (c_media c1) = wt_port (c_media c2)"
    using key_parts [OF assms(1,3), of c1] key_parts [OF assms(2,4), of c2] by auto
  moreover from this(2) have "v1 = v2"
    using assms(3,4) by (auto simp: debug_v6_def v6_text_inject split: option.splits)
  ultimately show "h1 = h2 \<and> v1 = v2 \<and> tls_port (c_tls c1) = tls_port (c_tls c2) \<and> wt_port (c_media c1) = wt_port (c_media c2)"
    by blast
qed (simp add: selection_key_def)

text \<open>What the public name service does with a name: dash-separated hexadecimal groups.\<close>

definition sslip_resolve :: "string \<Rightarrow> (128 word) option" where
  "sslip_resolve n =
     (if ends_with n ''.sslip.io''
      then (case all_some (map group_of (split_on CHR ''-'' (take (length n - 9) n))) of
              Some gs \<Rightarrow> if length gs = 8 then Some (v6_new gs) else None
            | None \<Rightarrow> None)
      else None)"

lemma sslip_resolve_name: "sslip_resolve (sslip_name a) = Some a"
proof -
  let ?ps = "map (\<lambda>s. hex_text (unat s)) (segments a)"
  have dash: "CHR ''-'' \<notin> set (hex_text n)" for n
  proof
    assume "CHR ''-'' \<in> set (hex_text n)"
    then obtain d where "d < 16" "CHR ''-'' = hex_digit d" using hex_text_chars by blast
    then have "to_digit16 (CHR ''-'') = Some d" using to_digit16_hex_digit by simp
    then show False by (simp add: to_digit16_def Let_def)
  qed
  have "?ps \<noteq> []" by (simp add: segments_def upt_rec)
  then have "split_on CHR ''-'' (join ''-'' ?ps) = ?ps"
    using dash by (intro split_join) auto
  moreover have "all_some (map group_of ?ps) = Some (segments a)"
    using all_some_cong [of ?ps group_of] by (induction "segments a") (auto simp: group_of_text comp_def)
  ultimately show ?thesis
    by (simp add: sslip_resolve_def sslip_name_def ends_with_def starts_with_append v6_new_segments)
       (simp add: segments_def)
qed

lemma distinct_remdups_sorted: "sorted xs \<Longrightarrow> distinct (remdups_adj (xs :: 'a::linorder list))"
  by (induction xs rule: remdups_adj.induct) (auto dest: order_antisym)

lemma identities_set:
  "set (certificate_identities pl extra) =
     {''localhost'', ''127.0.0.1'', ''::1'', ep_hostname pl, ep_hostname pl @ ''.local''}
     \<union> (case ep_ipv6 pl of Some v6 \<Rightarrow> {v6_text v6} | None \<Rightarrow> {})
     \<union> (case strip_prefix ''['' (ep_origin_host pl) of
          Some s \<Rightarrow> if ends_with s '']'' then {take (length s - 1) s} else {}
        | None \<Rightarrow> {ep_origin_host pl})
     \<union> set extra"
  unfolding certificate_identities_def remdups_adj_set set_sort
  by (cases "ep_ipv6 pl"; cases "strip_prefix ''['' (ep_origin_host pl)") auto

lemma advertised_cases:
  "advertised_host pl acme = ep_origin_host pl \<or> advertised_host pl acme = acme \<and> acme \<noteq> []
   \<or> (\<exists>a. ep_ipv6 pl = Some a \<and> sslip_hostname (v6_text a) = Some (advertised_host pl acme))"
  by (auto simp: advertised_host_def split: option.splits)

text \<open>A configured domain below \<open>.local\<close> is not what the host advertises when it has a global address.\<close>

lemma local_domain_not_advertised:
  assumes "tls_domain (c_tls cfg) = Some ''media.local''" "v6_mapped a = None"
  shows "advertised_host (fst (detect cfg host (Some a) se)) [] = sslip_name a"
  using assms
  by (simp add: detect_def Let_def advertised_host_def sslip_of_text(1) ends_with_def split: prod.splits)

text \<open>The switch in the tray and a restart agree on the address ranges, and on the ports when HTTPS is on.\<close>

lemma toggle_agrees_with_restart:
  assumes "tls_mode (c_tls cfg) = LocalCa" "tls_port (c_tls cfg) \<noteq> 0"
  shows "fst (toggled_rule cfg on) = fst (startup_rule cfg)
    \<and> set (snd (toggled_rule cfg on))
        = set (snd (startup_rule (cfg\<lparr>c_remote_access := (c_remote_access cfg)\<lparr>ra_enabled := on\<rparr>\<rparr>)))
          \<union> (if on then {''2000::/3''} else {})"
  using assms by (auto simp: toggled_rule_def startup_rule_def wants_tls_def firewall_allowed_remote_cidrs_def Let_def)

lemma toggle_opens_https_when_off:
  assumes "tls_mode (c_tls cfg) = TlsOff" "tls_port (c_tls cfg) = 443" "http_port (c_network cfg) \<noteq> 443"
    "wt_port (c_media cfg) \<noteq> 443"
  shows "443 \<in> set (fst (toggled_rule cfg on)) \<and> 443 \<notin> set (fst (startup_rule cfg))"
  using assms by (auto simp: toggled_rule_def startup_rule_def wants_tls_def)

section \<open>Properties\<close>

text \<open>The public name of an address leads back to it: for every global address, printing it, making the
  name of it (from the address or from the router's answer with its port) and resolving that name by
  the service's rule gives the same address, so no two addresses share a name.\<close>
theorem sslip_roundtrip:
  assumes "is_global_unicast_v6 a"
  shows "(case sslip_hostname (v6_text a) of Some n \<Rightarrow> sslip_resolve n = Some a | None \<Rightarrow> False)
    \<and> sslip_hostname (socket_text (V6 a, p)) = sslip_hostname (v6_text a)"
  using sslip_of_text [OF global_not_mapped [OF assms]] by (simp add: sslip_resolve_name)

theorem sslip_roundtrip_witness:
  "case sslip_hostname (v6_text 0x20010db8123456780000000000000100) of
     Some n \<Rightarrow> sslip_resolve n = Some 0x20010db8123456780000000000000100 | None \<Rightarrow> False"
  using sslip_roundtrip [of "0x20010db8123456780000000000000100" 4433] by (simp add: is_global_unicast_v6_def segment_def)

text \<open>A generation number stands for one selection: two plans made one after the other carry the same
  number exactly when host name, address and both ports are the same, whatever else the
  configuration says.\<close>
theorem generation_identifies_selection:
  assumes "selection_ok se" "CHR ''|'' \<notin> set h1" "CHR ''|'' \<notin> set h2"
    and "case v1 of Some a \<Rightarrow> is_global_unicast_v6 a | None \<Rightarrow> True" "case v2 of Some a \<Rightarrow> is_global_unicast_v6 a | None \<Rightarrow> True"
  shows "(case detect c1 h1 v1 se of (p1, se1) \<Rightarrow> case detect c2 h2 v2 se1 of (p2, se2) \<Rightarrow>
      selection_ok se2 \<and>
      (ep_generation p1 = ep_generation p2 \<longleftrightarrow>
         h1 = h2 \<and> v1 = v2 \<and> tls_port (c_tls c1) = tls_port (c_tls c2) \<and> wt_port (c_media c1) = wt_port (c_media c2)))"
proof -
  have g: "case v1 of Some a \<Rightarrow> v6_mapped a = None | None \<Rightarrow> True" "case v2 of Some a \<Rightarrow> v6_mapped a = None | None \<Rightarrow> True"
    using assms(4,5) by (auto simp: global_not_mapped split: option.splits)
  note d = detect_selection [OF assms(1), of c1 h1 v1]
  note e = detect_again [OF d, of c2 h2 v2] and f = detect_selection(1) [OF d(1), of c2 h2 v2]
  show ?thesis using e f key_inject [OF assms(2,3) g, of c1 c2] by (auto simp: case_prod_beta)
qed

theorem generation_identifies_selection_witness:
  "case detect default_config ''pc'' None selection_start of (p1, se1) \<Rightarrow>
     case detect default_config ''pc2'' None se1 of (p2, se2) \<Rightarrow> ep_generation p1 \<noteq> ep_generation p2"
  using generation_identifies_selection [of selection_start "''pc''" "''pc2''" None None default_config default_config]
  by (simp add: selection_ok_def selection_start_def case_prod_beta)

text \<open>The certificate covers what the host says it is: its names are sorted and distinct, contain
  loopback, the machine name, the name under \<open>.local\<close>, the selected address and every extra name, and
  the canonical origin without its brackets; and the advertised name is that origin or one that a
  public certificate is requested for.\<close>
theorem certificate_covers_origin:
  assumes "detect cfg host v6 se = (pl, se')"
    and "strip_prefix ''['' (ep_origin_host pl) = None \<or> ep_origin_host pl = ''['' @ bare @ '']''"
  shows "(case certificate_identities pl extra of ids \<Rightarrow>
      sorted ids \<and> distinct ids \<and> {''localhost'', ''127.0.0.1'', ''::1'', host, host @ ''.local''} \<union> set extra \<subseteq> set ids
      \<and> (case v6 of Some a \<Rightarrow> v6_text a \<in> set ids | None \<Rightarrow> True)
      \<and> (if strip_prefix ''['' (ep_origin_host pl) = None then ep_origin_host pl else bare) \<in> set ids
      \<and> (advertised_host pl acme \<noteq> ep_origin_host pl \<longrightarrow>
           advertised_host pl acme = acme
           \<or> (\<exists>a. v6 = Some a \<and> sslip_hostname (v6_text a) = Some (advertised_host pl acme))))"
proof -
  have pl: "ep_hostname pl = host" "ep_ipv6 pl = v6"
    using assms(1) by (auto simp: detect_def Let_def split: prod.splits)
  have sd: "sorted (certificate_identities pl extra)" "distinct (certificate_identities pl extra)"
    unfolding certificate_identities_def
    by (intro sorted_remdups_adj distinct_remdups_sorted sorted_sort)+
  have br: "(if strip_prefix ''['' (ep_origin_host pl) = None then ep_origin_host pl else bare)
      \<in> set (certificate_identities pl extra)"
  proof -
    have "strip_prefix ''['' (''['' @ bare @ '']'') = Some (bare @ '']'')" "ends_with (bare @ '']'') '']''"
      by (simp_all add: strip_prefix_def ends_with_def)
    then show ?thesis using assms(2) by (auto simp: identities_set)
  qed
  show ?thesis
    using sd br advertised_cases [of pl acme] by (auto simp: identities_set pl split: option.splits)
qed

theorem certificate_covers_origin_witness:
  "''pc.local'' \<in> set (certificate_identities (fst (detect default_config ''pc'' None selection_start)) [])"
  using certificate_covers_origin [of default_config "''pc''" None selection_start _ _ "[]" "[]" "[]", OF surjective_pairing]
  by (simp add: detect_def selection_start_def default_config_def default_tls_def strip_prefix_def)

end
