(* ===== verification/TlsCerts.thy ===== *)
theory TlsCerts
  imports Endpoint
begin

text \<open>
  The certificates of the HTTPS listeners: the local authority and the leaf it signs
  (\<open>crates/host/src/tls.rs\<close>), and the public certificate that takes over when there is one
  (\<open>acme.rs\<close>). Files are part of the state; every write has an outcome, because the order of the
  writes is what decides what a failure leaves behind. Key generation, signing, encoding and the
  protection of keys at rest are the parameter \<open>TlsLib\<close>.
\<close>

section \<open>Files\<close>

datatype WriteOutcome = Written | Refused | Torn bytes

definition write_file :: "WriteOutcome \<Rightarrow> bytes \<Rightarrow> bytes option \<Rightarrow> bytes option" where
  "write_file w content old =
     (case w of Written \<Rightarrow> Some content | Refused \<Rightarrow> old | Torn rest \<Rightarrow> Some rest)"

definition bytes_str :: "bytes \<Rightarrow> string" where "bytes_str = map (\<lambda>b. char_of (unat b))"

record 'k TlsLib =
  tl_parse_key :: "bytes \<Rightarrow> 'k option"
  tl_unwrap :: "bytes \<Rightarrow> bytes option"
  tl_wrap :: "bytes \<Rightarrow> bytes option"
  tl_pem :: "'k \<Rightarrow> bytes"
  tl_self_sign :: "'k \<Rightarrow> bytes option"
  tl_sign :: "'k \<Rightarrow> 'k \<Rightarrow> string list \<Rightarrow> string \<Rightarrow> nat \<Rightarrow> bytes option"

section \<open>The local authority\<close>

record CaDir =
  ca_crt :: "bytes option"
  ca_key :: "bytes option"

datatype TlsError = CaIncomplete | CaUnreadable | KeyFailed | SignFailed | WriteFailed | WrapFailed

text \<open>\<open>readable\<close> says whether the two existing files can be read, \<open>fresh\<close> is the generated key.\<close>

definition load_or_create_ca ::
  "'k TlsLib \<Rightarrow> bool \<Rightarrow> 'k option \<Rightarrow> WriteOutcome \<Rightarrow> WriteOutcome \<Rightarrow> CaDir \<Rightarrow> (TlsError + bytes \<times> 'k) \<times> CaDir" where
  "load_or_create_ca lib readable fresh w_crt w_key dir =
     (case (ca_crt dir, ca_key dir) of
        (Some crt, Some blob) \<Rightarrow>
          (if readable then
             (case tl_parse_key lib (case tl_unwrap lib blob of Some b \<Rightarrow> b | None \<Rightarrow> blob) of
                Some kp \<Rightarrow> (Inr (crt, kp), dir)
              | None \<Rightarrow> (Inl CaUnreadable, dir))
           else (Inl CaUnreadable, dir))
      | (None, None) \<Rightarrow>
          (case fresh of None \<Rightarrow> (Inl KeyFailed, dir)
           | Some kp \<Rightarrow> (case tl_self_sign lib kp of None \<Rightarrow> (Inl SignFailed, dir)
           | Some pem \<Rightarrow>
               (let d1 = dir\<lparr>ca_crt := write_file w_crt pem None\<rparr> in
                if w_crt \<noteq> Written then (Inl WriteFailed, d1)
                else (case tl_wrap lib (tl_pem lib kp) of None \<Rightarrow> (Inl WrapFailed, d1)
                | Some blob \<Rightarrow>
                    (let d2 = d1\<lparr>ca_key := write_file w_key blob None\<rparr> in
                     if w_key \<noteq> Written then (Inl WriteFailed, d2) else (Inr (pem, kp), d2))))))
      | _ \<Rightarrow> (Inl CaIncomplete, dir))"

section \<open>The leaf\<close>

definition LEAF_DAYS :: int where "LEAF_DAYS = 395"
definition RENEW_WHEN_DAYS_LEFT :: int where "RENEW_WHEN_DAYS_LEFT = 60"

text \<open>Seconds, as file times are; the certificate carries its modification time.\<close>

record LeafDir =
  lf_crt :: "(bytes \<times> nat) option"
  lf_key :: "bytes option"
  lf_sans :: "string option"

definition days_left :: "nat \<Rightarrow> LeafDir \<Rightarrow> int option" where
  "days_left now dir =
     (case lf_crt dir of None \<Rightarrow> None
      | Some (_, modified) \<Rightarrow> if now < modified then None else Some (LEAF_DAYS - int ((now - modified) div 86400)))"

definition leaf_current :: "nat \<Rightarrow> string list \<Rightarrow> LeafDir \<Rightarrow> bool" where
  "leaf_current now sans dir \<longleftrightarrow>
     lf_crt dir \<noteq> None \<and> lf_key dir \<noteq> None
     \<and> (case lf_sans dir of Some s \<Rightarrow> trim_str s = trim_str (join [CHR 0x0A] sans) | None \<Rightarrow> False)
     \<and> (case days_left now dir of Some d \<Rightarrow> RENEW_WHEN_DAYS_LEFT < d | None \<Rightarrow> False)"

record LeafWrites =
  wr_crt :: WriteOutcome
  wr_key :: WriteOutcome
  wr_sans :: WriteOutcome

definition issue_leaf ::
  "'k TlsLib \<Rightarrow> nat \<Rightarrow> 'k option \<Rightarrow> LeafWrites \<Rightarrow> bytes \<Rightarrow> 'k \<Rightarrow> string \<Rightarrow> string list \<Rightarrow> LeafDir
     \<Rightarrow> (TlsError + unit) \<times> LeafDir" where
  "issue_leaf lib now fresh w ca_pem ca primary sans dir =
     (case tl_self_sign lib ca of None \<Rightarrow> (Inl SignFailed, dir)
      | Some _ \<Rightarrow> (case fresh of None \<Rightarrow> (Inl KeyFailed, dir)
      | Some leaf \<Rightarrow> (case tl_sign lib ca leaf sans primary now of None \<Rightarrow> (Inl SignFailed, dir)
      | Some pem \<Rightarrow>
          (let d1 = dir\<lparr>lf_crt := (case wr_crt w of Refused \<Rightarrow> lf_crt dir
                                 | Torn rest \<Rightarrow> Some (rest, now)
                                 | Written \<Rightarrow> Some (pem @ ca_pem, now))\<rparr>
           in if wr_crt w \<noteq> Written then (Inl WriteFailed, d1)
              else let d2 = d1\<lparr>lf_key := write_file (wr_key w) (tl_pem lib leaf) (lf_key d1)\<rparr>
              in if wr_key w \<noteq> Written then (Inl WriteFailed, d2)
                 else let d3 = d2\<lparr>lf_sans := (case wr_sans w of Refused \<Rightarrow> lf_sans dir
                                              | Torn rest \<Rightarrow> Some (bytes_str rest)
                                              | Written \<Rightarrow> Some (join [CHR 0x0A] sans))\<rparr>
                 in (if wr_sans w \<noteq> Written then Inl WriteFailed else Inr (), d3)))))"

text \<open>A failed renewal keeps serving what is there, if both files are.\<close>

definition ensure_leaf ::
  "'k TlsLib \<Rightarrow> nat \<Rightarrow> 'k option \<Rightarrow> LeafWrites \<Rightarrow> bytes \<Rightarrow> 'k \<Rightarrow> string \<Rightarrow> string list \<Rightarrow> LeafDir
     \<Rightarrow> (TlsError + unit) \<times> LeafDir" where
  "ensure_leaf lib now fresh w ca_pem ca primary sans dir =
     (if leaf_current now sans dir then (Inr (), dir)
      else case issue_leaf lib now fresh w ca_pem ca primary sans dir of
        (Inr _, dir') \<Rightarrow> (Inr (), dir')
      | (Inl e, dir') \<Rightarrow>
          if lf_crt dir' \<noteq> None \<and> lf_key dir' \<noteq> None then (Inr (), dir') else (Inl e, dir'))"

section \<open>The public certificate\<close>

text \<open>\<open>DualResolver\<close>: the issued certificate if there is one, else the local leaf; the flag logs once.\<close>

definition resolve_cert :: "('h \<Rightarrow> 'c option) option \<Rightarrow> 'c \<Rightarrow> 'h \<Rightarrow> bool \<Rightarrow> 'c \<times> bool" where
  "resolve_cert acme leaf hello logged =
     (case acme of
        Some r \<Rightarrow> (case r hello of Some c \<Rightarrow> (c, True) | None \<Rightarrow> (leaf, logged))
      | None \<Rightarrow> (leaf, logged))"

text \<open>\<open>split(p).next()\<close>: what comes before the first occurrence.\<close>

fun before_str :: "string \<Rightarrow> string \<Rightarrow> string" where
  "before_str p [] = []"
| "before_str p (c # cs) = (if starts_with (c # cs) p then [] else c # before_str p cs)"

datatype AcmeStart = Waiting | Started string | GaveUp

definition autostart_poll :: "string option \<Rightarrow> AcmeStart" where
  "autostart_poll external =
     (case external of None \<Rightarrow> Waiting
      | Some ext \<Rightarrow>
          (case sslip_hostname (trim_start_char CHR ''['' (before_str '']:'' ext)) of
             None \<Rightarrow> GaveUp | Some host \<Rightarrow> Started host))"

definition poll_wait :: "nat \<Rightarrow> nat" where "poll_wait polls = (if polls < 120 then 1 else 30)"

text \<open>
  The task: the configured name at once, else one poll after another over what the router mapping
  reports; with what is decided comes the time waited, in seconds.
\<close>

fun autostart_polls :: "nat \<Rightarrow> string option list \<Rightarrow> AcmeStart \<times> nat" where
  "autostart_polls polls [] = (Waiting, 0)"
| "autostart_polls polls (e # es) =
     (case autostart_poll e of
        Waiting \<Rightarrow> (case autostart_polls (polls + 1) es of (r, t) \<Rightarrow> (r, poll_wait polls + t))
      | r \<Rightarrow> (r, poll_wait polls))"

definition autostart :: "string \<Rightarrow> string option list \<Rightarrow> AcmeStart \<times> nat" where
  "autostart configured reports =
     (if configured \<noteq> [] then (Started configured, 0) else autostart_polls 0 reports)"

section \<open>Lemmas\<close>

abbreviation all_written :: "LeafWrites \<Rightarrow> bool" where
  "all_written w \<equiv> wr_crt w = Written \<and> wr_key w = Written \<and> wr_sans w = Written"

abbreviation no_leaf :: LeafDir where "no_leaf \<equiv> \<lparr>lf_crt = None, lf_key = None, lf_sans = None\<rparr>"

text \<open>The three files belong together: a leaf for the stored key and the stored names, signed at its file time.\<close>

definition leaf_matches :: "'k TlsLib \<Rightarrow> bytes \<Rightarrow> 'k \<Rightarrow> string \<Rightarrow> LeafDir \<Rightarrow> bool" where
  "leaf_matches lib ca_pem ca primary dir \<longleftrightarrow>
     (\<exists>leaf sans t pem. tl_sign lib ca leaf sans primary t = Some pem
        \<and> lf_crt dir = Some (pem @ ca_pem, t) \<and> lf_key dir = Some (tl_pem lib leaf)
        \<and> lf_sans dir = Some (join [CHR 0x0A] sans))"

lemma issue_complete:
  assumes "all_written w" "tl_self_sign lib ca \<noteq> None" "tl_sign lib ca leaf sans primary now = Some pem"
  shows "issue_leaf lib now (Some leaf) w ca_pem ca primary sans dir =
     (Inr (), \<lparr>lf_crt = Some (pem @ ca_pem, now), lf_key = Some (tl_pem lib leaf), lf_sans = Some (join [CHR 0x0A] sans)\<rparr>)"
  using assms by (auto simp: issue_leaf_def write_file_def)

lemma issue_matches:
  assumes "all_written w" "fst (issue_leaf lib now fresh w ca_pem ca primary sans dir) = Inr ()"
  shows "leaf_matches lib ca_pem ca primary (snd (issue_leaf lib now fresh w ca_pem ca primary sans dir))"
  using assms by (auto simp: issue_leaf_def write_file_def leaf_matches_def split: option.splits)

lemma issue_fails_early:
  assumes "all_written w" "fst (issue_leaf lib now fresh w ca_pem ca primary sans dir) = Inl e"
  shows "snd (issue_leaf lib now fresh w ca_pem ca primary sans dir) = dir"
  using assms by (auto simp: issue_leaf_def Let_def split: option.splits)

text \<open>A leaf is left alone exactly through its first 335 days, as long as the names stay.\<close>

lemma leaf_current_iff:
  assumes "lf_crt dir = Some (c, t)" "lf_key dir \<noteq> None" "lf_sans dir = Some (join [CHR 0x0A] old)" "t \<le> now"
  shows "leaf_current now sans dir \<longleftrightarrow>
     now - t < 335 * 86400 \<and> trim_str (join [CHR 0x0A] old) = trim_str (join [CHR 0x0A] sans)"
proof -
  have "(60 < 395 - int ((now - t) div 86400)) = (now - t < 335 * 86400)"
    using less_mult_imp_div_less [of "now - t" 335 86400] div_less_iff_less_mult [of 86400 "now - t" 335] by linarith
  then show ?thesis
    using assms by (auto simp: leaf_current_def days_left_def LEAF_DAYS_def RENEW_WHEN_DAYS_LEFT_def)
qed

lemma ensure_keeps:
  assumes "leaf_matches lib ca_pem ca primary dir \<or> dir = no_leaf" "all_written w \<or> wr_crt w = Refused"
  shows "leaf_matches lib ca_pem ca primary (snd (ensure_leaf lib now fresh w ca_pem ca primary sans dir))
    \<or> snd (ensure_leaf lib now fresh w ca_pem ca primary sans dir) = no_leaf"
proof (cases "leaf_current now sans dir")
  case True
  then show ?thesis using assms(1) by (simp add: ensure_leaf_def)
next
  case False
  let ?i = "issue_leaf lib now fresh w ca_pem ca primary sans dir"
  have e: "snd (ensure_leaf lib now fresh w ca_pem ca primary sans dir) = snd ?i"
    using False by (simp add: ensure_leaf_def split: prod.splits sum.splits)
  show ?thesis
  proof (cases "wr_crt w = Refused")
    case True
    then have "snd ?i = dir" by (auto simp: issue_leaf_def Let_def split: option.splits)
    then show ?thesis using assms(1) e by simp
  next
    case False
    then have w: "all_written w" using assms(2) by simp
    show ?thesis
      using issue_matches [OF w, of lib now fresh ca_pem ca primary sans dir]
        issue_fails_early [OF w, of lib now fresh ca_pem ca primary sans dir] assms(1) e
      by (cases "fst ?i") auto
  qed
qed

lemma issue_crt: "issue_leaf lib now fresh w ca_pem ca primary sans dir = (Inr u, d) \<Longrightarrow> lf_crt d \<noteq> None"
  by (auto simp: issue_leaf_def Let_def split: option.splits if_splits)

lemma ensure_not_empty:
  assumes "fst (ensure_leaf lib now fresh w ca_pem ca primary sans dir) = Inr ()"
  shows "lf_crt (snd (ensure_leaf lib now fresh w ca_pem ca primary sans dir)) \<noteq> None"
proof (cases "leaf_current now sans dir")
  case True
  then show ?thesis by (simp add: ensure_leaf_def leaf_current_def)
next
  case False
  obtain r d where i: "issue_leaf lib now fresh w ca_pem ca primary sans dir = (r, d)" by fastforce
  show ?thesis
  proof (cases r)
    case (Inl e)
    then show ?thesis using assms False i by (auto simp: ensure_leaf_def split: if_splits)
  next
    case (Inr u)
    then show ?thesis using False i issue_crt [of lib now fresh w ca_pem ca primary sans dir u d] by (simp add: ensure_leaf_def)
  qed
qed

text \<open>A name that contains no line break and no blank is one line of the list: the list determines the names.\<close>

lemma join_lines_inject:
  assumes "xs \<noteq> []" "ys \<noteq> []" "\<forall>x \<in> set xs. CHR 0x0A \<notin> set x" "\<forall>y \<in> set ys. CHR 0x0A \<notin> set y"
  shows "join [CHR 0x0A] xs = join [CHR 0x0A] ys \<longleftrightarrow> xs = ys"
  by (metis split_join assms)

lemma poll_nothing [simp]: "autostart_poll None = Waiting"
  by (simp add: autostart_poll_def)

lemma autostart_first:
  assumes "autostart_poll e \<noteq> Waiting"
  shows "autostart_polls n (replicate k None @ e # es) = (autostart_poll e, sum_list (map poll_wait [n..<Suc (n + k)]))"
proof (induction k arbitrary: n)
  case 0
  then show ?case using assms by (simp split: AcmeStart.splits)
next
  case (Suc k)
  have "[n..<Suc (n + Suc k)] = n # [Suc n..<Suc (Suc n + k)]" by (simp add: upt_conv_Cons del: upt_Suc)
  then show ?case using Suc.IH [of "Suc n"] by (simp del: upt_Suc)
qed

lemma before_str_no: "\<not> contains_str s p \<Longrightarrow> p \<noteq> [] \<Longrightarrow> before_str p s = s"
  by (induction s) auto

lemma before_bracket: "CHR '']'' \<notin> set s \<Longrightarrow> before_str '']:'' (s @ '']:'' @ r) = s"
  by (induction s) auto

text \<open>What the router reports for an address over PCP starts the certificate for that address.\<close>

lemma poll_names_address:
  assumes "is_global_unicast_v6 a"
  shows "autostart_poll (Some (socket_text (V6 a, p))) = Started (sslip_name a)"
proof -
  note m = global_not_mapped [OF assms]
  have plain: "c \<noteq> CHR ''['' \<and> c \<noteq> CHR '']''" if "c \<in> set (v6_text a)" for c
    using address_char_plain groups_text_chars [OF that m] by blast
  have "before_str '']:'' (socket_text (V6 a, p)) = ''['' @ v6_text a"
    using before_bracket [of "''['' @ v6_text a" "show_nat p"] plain by (auto simp: socket_text_def)
  moreover have "trim_start_char CHR ''['' (''['' @ v6_text a) = v6_text a"
    using plain by (simp add: trim_start_char_def dropWhile_none)
  ultimately show ?thesis using sslip_of_text(1) [OF m] by (simp add: autostart_poll_def)
qed

text \<open>What it reports over NAT-PMP has no address: the task ends without a certificate.\<close>

lemma poll_gives_up_on_natpmp: "autostart_poll (Some (socket_text (V4 0, p))) = GaveUp"
proof -
  have d: "c \<noteq> CHR '']'' \<and> c \<noteq> CHR ''['' \<and> c \<noteq> CHR '':'' \<and> \<not> is_space c" if "c \<in> set (show_nat p)" for c
    using show_nat_chars [OF that] by (auto simp: digit_def is_space_def Let_def split: if_splits)
  have t: "socket_text (V4 0, p) = ''0.0.0.0:'' @ show_nat p"
  proof -
    have "show_nat 0 = ''0''" by code_simp
    then show ?thesis by (simp add: socket_text_def v4_text_def octet_def upt_rec)
  qed
  have b: "before_str '']:'' (socket_text (V4 0, p)) = socket_text (V4 0, p)"
  proof (intro before_str_no notI)
    assume "contains_str (socket_text (V4 0, p)) '']:''"
    then obtain u v where "''0.0.0.0:'' @ show_nat p = u @ '']:'' @ v" by (auto simp: contains_str_append t)
    then have "CHR '']'' \<in> set (''0.0.0.0:'' @ show_nat p)" by simp
    then show False using d [of "CHR '']''"] by auto
  qed simp
  have ts: "trim_str (socket_text (V4 0, p)) = socket_text (V4 0, p)"
    using d by (simp add: trim_str_def t dropWhile_none is_space_def)
  have te: "trim_end_char CHR '']'' (socket_text (V4 0, p)) = socket_text (V4 0, p)"
    using d by (simp add: trim_end_char_def t dropWhile_none)
  have r: "rsplit_once CHR '']'' (socket_text (V4 0, p)) = None"
    using d [of "CHR '']''"] by (auto simp: rsplit_once_def t intro!: split_once_none)
  have e: "split_elision (''0.0.0.0:'' @ show_nat p) = None"
    using d split_elision_word [of "show_nat p" "[]"] split_elision_word [of "''0.0.0.0''" "'':'' @ show_nat p"]
    by (cases "show_nat p") auto
  have g: "groups_of True (''0.0.0.0:'' @ show_nat p) = None"
    using d split_on_append [of "CHR '':''" "''0.0.0.0''" "show_nat p"]
    by (simp add: groups_of_def group_of_def)
  have "parse_v6 (socket_text (V4 0, p)) = None" unfolding t parse_v6_def e using g by (simp del: append.simps)
  moreover have "trim_start_char CHR ''['' (socket_text (V4 0, p)) = socket_text (V4 0, p)"
    by (simp add: trim_start_char_def t)
  ultimately show ?thesis by (simp add: autostart_poll_def b sslip_hostname_def ts te r)
qed

lemma poll_waits_short: "k < 120 \<Longrightarrow> sum_list (map poll_wait [0..<Suc k]) = Suc k"
  by (induction k) (auto simp: poll_wait_def)

text \<open>A first start that stops between the two files leaves an authority no later start accepts.\<close>

lemma ca_half_created:
  assumes "tl_self_sign lib k = Some pem" "tl_wrap lib (tl_pem lib k) = Some blob"
  shows "load_or_create_ca lib r2 fresh w1 w2
      (snd (load_or_create_ca lib r1 (Some k) Written Refused \<lparr>ca_crt = None, ca_key = None\<rparr>))
    = (Inl CaIncomplete, \<lparr>ca_crt = Some pem, ca_key = None\<rparr>)"
  using assms by (simp add: load_or_create_ca_def write_file_def Let_def)

definition lib_example :: "nat TlsLib" where
  "lib_example =
     \<lparr>tl_parse_key = (\<lambda>b. case b of [x] \<Rightarrow> Some (unat x) | _ \<Rightarrow> None), tl_unwrap = (\<lambda>b. Some b),
      tl_wrap = (\<lambda>b. Some b), tl_pem = (\<lambda>k. [of_nat k]), tl_self_sign = (\<lambda>k. Some [1, of_nat k]),
      tl_sign = (\<lambda>ca leaf sans primary now. Some [2, of_nat ca, of_nat leaf])\<rparr>"

definition lib_one :: "unit TlsLib" where
  "lib_one =
     \<lparr>tl_parse_key = (\<lambda>_. Some ()), tl_unwrap = (\<lambda>b. Some b), tl_wrap = (\<lambda>b. Some b), tl_pem = (\<lambda>_. [4]),
      tl_self_sign = (\<lambda>_. Some [1]), tl_sign = (\<lambda>_ _ _ _ _. None)\<rparr>"

abbreviation writes_ok :: LeafWrites where "writes_ok \<equiv> \<lparr>wr_crt = Written, wr_key = Written, wr_sans = Written\<rparr>"

section \<open>Properties\<close>

text \<open>Issuing is complete and lasts: a leaf issued at \<open>t\<close> stores certificate, key and names together, and
  a later check leaves exactly these files alone for 335 days (it then still has 60 of its 395) and
  as long as the list of names is the same, and issues again afterwards.\<close>
theorem leaf_renewal:
  assumes "all_written w" "tl_self_sign lib ca \<noteq> None" "tl_sign lib ca leaf sans primary t = Some pem"
    and "\<not> leaf_current t sans dir" "t \<le> now"
  shows "(case ensure_leaf lib t (Some leaf) w ca_pem ca primary sans dir of (r, d) \<Rightarrow>
      r = Inr () \<and> leaf_matches lib ca_pem ca primary d \<and> lf_key d = Some (tl_pem lib leaf)
      \<and> (leaf_current now sans' d \<longleftrightarrow>
           now - t < 335 * 86400 \<and> trim_str (join [CHR 0x0A] sans') = trim_str (join [CHR 0x0A] sans)))"
proof -
  let ?d = "\<lparr>lf_crt = Some (pem @ ca_pem, t), lf_key = Some (tl_pem lib leaf), lf_sans = Some (join [CHR 0x0A] sans)\<rparr>"
  have e: "ensure_leaf lib t (Some leaf) w ca_pem ca primary sans dir = (Inr (), ?d)"
    using assms(4) issue_complete [OF assms(1-3)] by (simp add: ensure_leaf_def)
  show ?thesis
    unfolding e using assms(3) leaf_current_iff [of ?d _ t _ now sans'] assms(5)
    by (auto simp: leaf_matches_def)
qed

theorem leaf_renewal_witness:
  "leaf_current 86400 [''pc''] (snd (ensure_leaf lib_example 0 (Some 7) writes_ok [9] 3 ''pc'' [''pc''] no_leaf))"
  using leaf_renewal [of writes_ok lib_example 3 7 "[''pc'']" "''pc''" 0 _ no_leaf 86400 "[9]" "[''pc'']"]
  by (simp add: lib_example_def leaf_current_def case_prod_beta)

text \<open>The three files stay together: if every check either completes its writes or fails before the first
  one, certificate, key and list of names match after any sequence of checks that started from a
  matching or empty directory and reported success.\<close>
theorem leaf_files_match:
  assumes "leaf_matches lib ca_pem ca primary dir \<or> dir = no_leaf"
    and "list_all (\<lambda>(now, fresh, w, sans). all_written w \<or> wr_crt w = Refused) checks"
    and "d = fold (\<lambda>(now, fresh, w, sans) d. snd (ensure_leaf lib now fresh w ca_pem ca primary sans d)) checks dir"
    and "fst (ensure_leaf lib now fresh w ca_pem ca primary sans d) = Inr ()" "all_written w"
  shows "leaf_matches lib ca_pem ca primary (snd (ensure_leaf lib now fresh w ca_pem ca primary sans d))"
proof -
  have inv: "leaf_matches lib ca_pem ca primary d \<or> d = no_leaf"
    using assms(1,2) unfolding assms(3)
  proof (induction checks arbitrary: dir)
    case (Cons c checks)
    obtain now fresh w sans where c: "c = (now, fresh, w, sans)" by (cases c)
    have "leaf_matches lib ca_pem ca primary (snd (ensure_leaf lib now fresh w ca_pem ca primary sans dir))
        \<or> snd (ensure_leaf lib now fresh w ca_pem ca primary sans dir) = no_leaf"
      using ensure_keeps [OF Cons.prems(1), of w now fresh sans] Cons.prems(2) by (simp add: c)
    then show ?case using Cons.IH Cons.prems(2) by (simp add: c)
  qed simp
  show ?thesis using ensure_keeps [OF inv, of w now fresh sans] ensure_not_empty [OF assms(4)] assms(5) by auto
qed

theorem leaf_files_match_witness:
  "leaf_matches lib_example [9] 3 ''pc'' (snd (ensure_leaf lib_example 5 (Some 7) writes_ok [9] 3 ''pc'' [''pc''] no_leaf))"
  using leaf_files_match [of lib_example "[9]" 3 "''pc''" no_leaf "[]" no_leaf 5 "Some 7" writes_ok "[''pc'']"]
  by (simp add: lib_example_def ensure_leaf_def leaf_current_def issue_leaf_def Let_def)



text \<open>The authority devices trust is never replaced: if wrapping protects a key so that it can be
  unwrapped and an encoded key parses back, a created authority is the one every later start loads,
  and a start that finds either of its files changes neither.\<close>
theorem ca_survives_restart:
  assumes "\<And>b blob. tl_wrap lib b = Some blob \<Longrightarrow> tl_unwrap lib blob = Some b"
    and "\<And>k. tl_parse_key lib (tl_pem lib k) = Some k"
    and "load_or_create_ca lib r (Some k) w1 w2 \<lparr>ca_crt = None, ca_key = None\<rparr> = (Inr (pem, k), dir)"
    and "ca_crt other \<noteq> None \<or> ca_key other \<noteq> None"
  shows "load_or_create_ca lib True fresh v1 v2 dir = (Inr (pem, k), dir)
    \<and> snd (load_or_create_ca lib r' fresh v1 v2 other) = other"
proof
  show "load_or_create_ca lib True fresh v1 v2 dir = (Inr (pem, k), dir)"
    using assms(2,3) by (auto simp: load_or_create_ca_def write_file_def Let_def dest!: assms(1) split: option.splits if_splits)
  show "snd (load_or_create_ca lib r' fresh v1 v2 other) = other"
    using assms(4) by (auto simp: load_or_create_ca_def split: option.splits)
qed

theorem ca_survives_restart_witness:
  "load_or_create_ca lib_one True None Refused Refused \<lparr>ca_crt = Some [1], ca_key = Some [4]\<rparr>
     = (Inr ([1], ()), \<lparr>ca_crt = Some [1], ca_key = Some [4]\<rparr>)"
  using ca_survives_restart [of lib_one True "()" Written Written "[1]" "\<lparr>ca_crt = Some [1], ca_key = Some [4]\<rparr>"
      "\<lparr>ca_crt = Some [1], ca_key = None\<rparr>" None Refused Refused False]
  by (simp add: lib_one_def load_or_create_ca_def write_file_def)

text \<open>The first thing the router reports decides the public certificate for the life of the process: a
  global address starts the request for its name, within a second of the report during the first two
  minutes, and the address-less answer of NAT-PMP ends the task, whatever is reported later.\<close>
theorem acme_first_report_decides:
  assumes "is_global_unicast_v6 a" "k < 120"
  shows "autostart [] (replicate k None @ Some (socket_text (V6 a, p)) # later) = (Started (sslip_name a), k + 1)
    \<and> autostart [] (replicate k None @ Some (socket_text (V4 0, p)) # later) = (GaveUp, k + 1)"
  using autostart_first [of "Some (socket_text (V6 a, p))" 0 k later] autostart_first [of "Some (socket_text (V4 0, p))" 0 k later]
    poll_names_address [OF assms(1)] poll_gives_up_on_natpmp poll_waits_short [OF assms(2)]
  by (simp add: autostart_def del: upt_Suc)

theorem acme_first_report_decides_witness:
  "autostart [] [None, Some (socket_text (V4 0, 443)), Some (socket_text (V6 0x20010db8123456780000000000000100, 443))] = (GaveUp, 2)"
  using acme_first_report_decides [of "0x20010db8123456780000000000000100" 1 443] by (simp add: is_global_unicast_v6_def segment_def)

end
