(* ===== verification/PortMap.thy ===== *)
theory PortMap
  imports Endpoint
begin

text \<open>
  Opening the router for remote access (\<open>crates/host/src/portmap.rs\<close>): the PCP and NAT-PMP
  requests byte for byte, the checks on the answers, the order of the attempts, and the task that
  keeps the mapping. What the network answers is the parameter \<open>answer\<close>, a function of everything
  sent so far, so it stands for any router; \<open>None\<close> is a failed bind, a failed send or silence. Random
  nonces are the stream \<open>rnd\<close>. Times are seconds.
\<close>

section \<open>Addresses on the wire\<close>

record Gateway =
  gw_ip :: IpAddr
  gw_scope :: nat
  gw_local :: IpAddr

definition v4_to_mapped :: "32 word \<Rightarrow> 128 word" where
  "v4_to_mapped a = push_bit 32 0xffff OR ucast a"

definition client_addr_bytes :: "IpAddr \<Rightarrow> bytes" where
  "client_addr_bytes ip =
     (case ip of V6 a \<Rightarrow> be_bytes 16 (unat a) | V4 a \<Rightarrow> be_bytes 16 (unat (v4_to_mapped a)))"

definition parse_client_addr :: "bytes \<Rightarrow> IpAddr" where
  "parse_client_addr b =
     (let v6 = of_nat (be_nat (take 16 b))
      in case v6_mapped v6 of Some v4 \<Rightarrow> V4 v4 | None \<Rightarrow> V6 v6)"

definition PCP_NATPMP_PORT :: nat where "PCP_NATPMP_PORT = 5351"
definition LIFETIME_SECS :: nat where "LIFETIME_SECS = 3600"
definition PROTO_TCP :: u8 where "PROTO_TCP = 6"
definition PROTO_UDP :: u8 where "PROTO_UDP = 17"
definition REPROBE_AFTER :: nat where "REPROBE_AFTER = 900"

definition gateway_sockaddr :: "Gateway \<Rightarrow> IpAddr \<times> nat \<times> nat" where
  "gateway_sockaddr g =
     (case gw_ip g of V4 a \<Rightarrow> (V4 a, PCP_NATPMP_PORT, 0) | V6 a \<Rightarrow> (V6 a, PCP_NATPMP_PORT, gw_scope g))"

text \<open>The source address: the host's own, and the wildcard of the gateway's family where that fails.\<close>

definition bind_local :: "Gateway \<Rightarrow> IpAddr" where
  "bind_local g =
     (case (gw_ip g, gw_local g) of
        (V6 _, V6 a) \<Rightarrow> V6 a
      | (_, V4 a) \<Rightarrow> V4 a
      | (V4 _, V6 _) \<Rightarrow> V4 0)"

definition bind_for :: "(IpAddr \<Rightarrow> bool) \<Rightarrow> Gateway \<Rightarrow> IpAddr option" where
  "bind_for can g =
     (if can (bind_local g) then Some (bind_local g)
      else let any = (case gw_ip g of V4 _ \<Rightarrow> V4 0 | V6 _ \<Rightarrow> V6 0)
      in if can any then Some any else None)"

section \<open>Requests and answers\<close>

record Lease =
  le_method :: string
  le_external :: "(IpAddr \<times> nat) option"
  le_lifetime :: nat
  le_nonce :: bytes

definition pcp_request :: "u16 \<Rightarrow> IpAddr \<Rightarrow> u8 \<Rightarrow> bytes \<Rightarrow> bytes" where
  "pcp_request port loc proto nonce =
     [2, 1] @ [0, 0] @ be_bytes 4 LIFETIME_SECS @ client_addr_bytes loc
     @ nonce @ [proto] @ [0, 0, 0] @ be_bytes 2 (unat port) @ be_bytes 2 (unat port) @ client_addr_bytes loc"

definition pcp_lease :: "bytes \<Rightarrow> bytes \<Rightarrow> Lease option" where
  "pcp_lease nonce buf =
     (if length buf < 60 \<or> buf ! 0 \<noteq> 2 \<or> buf ! 1 \<noteq> 0x81 then None
      else if buf ! 3 \<noteq> 0 then None
      else if take 12 (drop 24 buf) \<noteq> nonce then None
      else Some \<lparr>le_method = ''pcp'',
                 le_external = Some (parse_client_addr (take 16 (drop 44 buf)), be_nat (take 2 (drop 42 buf))),
                 le_lifetime = max (be_nat (take 4 (drop 4 buf))) 1, le_nonce = nonce\<rparr>)"

definition natpmp_request :: "u16 \<Rightarrow> bytes" where
  "natpmp_request port =
     [0, 2] @ [0, 0] @ be_bytes 2 (unat port) @ be_bytes 2 (unat port) @ be_bytes 4 LIFETIME_SECS"

definition natpmp_lease :: "bytes \<Rightarrow> Lease option" where
  "natpmp_lease buf =
     (if length buf < 16 \<or> buf ! 0 \<noteq> 0 \<or> buf ! 1 \<noteq> 130 then None
      else if be_nat (take 2 (drop 2 buf)) \<noteq> 0 then None
      else Some \<lparr>le_method = ''nat-pmp'', le_external = Some (V4 0, be_nat (take 2 (drop 10 buf))),
                 le_lifetime = max (be_nat (take 4 (drop 12 buf))) 1, le_nonce = replicate 12 0\<rparr>)"

section \<open>The network\<close>

text \<open>What was sent: source, destination, bytes. The world keeps this history and counts the nonces drawn.\<close>

type_synonym Sent = "IpAddr \<times> (IpAddr \<times> nat \<times> nat) \<times> bytes"

record PmNet =
  pn_bind :: "IpAddr \<Rightarrow> bool"
  pn_answer :: "Sent list \<Rightarrow> bytes option"
  pn_rnd :: "nat \<Rightarrow> bytes"

record PmWorld =
  pw_sent :: "Sent list"
  pw_draws :: nat

definition exchange :: "PmNet \<Rightarrow> Gateway \<Rightarrow> bytes \<Rightarrow> PmWorld \<Rightarrow> bytes option \<times> PmWorld" where
  "exchange n g req w =
     (case bind_for (pn_bind n) g of None \<Rightarrow> (None, w)
      | Some src \<Rightarrow> (let h = pw_sent w @ [(src, gateway_sockaddr g, req)] in (pn_answer n h, w\<lparr>pw_sent := h\<rparr>)))"

definition pcp_map_proto :: "PmNet \<Rightarrow> u16 \<Rightarrow> Gateway \<Rightarrow> u8 \<Rightarrow> bytes option \<Rightarrow> PmWorld \<Rightarrow> Lease option \<times> PmWorld" where
  "pcp_map_proto n port g proto retained w =
     (let (nonce, w1) = (case retained of Some x \<Rightarrow> (x, w)
                         | None \<Rightarrow> (pn_rnd n (pw_draws w), w\<lparr>pw_draws := pw_draws w + 1\<rparr>));
          (r, w2) = exchange n g (pcp_request port (gw_local g) proto nonce) w1
      in (case r of None \<Rightarrow> None | Some buf \<Rightarrow> pcp_lease nonce (take 1100 buf), w2))"

definition natpmp_map :: "PmNet \<Rightarrow> u16 \<Rightarrow> Gateway \<Rightarrow> PmWorld \<Rightarrow> Lease option \<times> PmWorld" where
  "natpmp_map n port g w =
     (let (r, w2) = exchange n g (natpmp_request port) w
      in (case r of None \<Rightarrow> None | Some buf \<Rightarrow> natpmp_lease (take 64 buf), w2))"

fun try_pcp :: "PmNet \<Rightarrow> u16 \<Rightarrow> u8 \<Rightarrow> Gateway list \<Rightarrow> bytes option \<Rightarrow> PmWorld \<Rightarrow> Lease option \<times> PmWorld" where
  "try_pcp n port proto [] retained w = (None, w)"
| "try_pcp n port proto (g # gs) retained w =
     (case pcp_map_proto n port g proto retained w of
        (Some l, w1) \<Rightarrow> (Some l, w1)
      | (None, w1) \<Rightarrow> try_pcp n port proto gs retained w1)"

definition ip_is_v4 :: "IpAddr \<Rightarrow> bool" where "ip_is_v4 ip = (case ip of V4 _ \<Rightarrow> True | V6 _ \<Rightarrow> False)"

fun try_natpmp :: "PmNet \<Rightarrow> u16 \<Rightarrow> Gateway list \<Rightarrow> PmWorld \<Rightarrow> Lease option \<times> PmWorld" where
  "try_natpmp n port [] w = (None, w)"
| "try_natpmp n port (g # gs) w =
     (if ip_is_v4 (gw_ip g) then
        (case natpmp_map n port g w of
           (Some l, w1) \<Rightarrow> (Some l, w1)
         | (None, w1) \<Rightarrow> try_natpmp n port gs w1)
      else try_natpmp n port gs w)"

definition try_map_udp :: "PmNet \<Rightarrow> u16 \<Rightarrow> Gateway list \<Rightarrow> bytes option \<Rightarrow> PmWorld \<Rightarrow> Lease option \<times> PmWorld" where
  "try_map_udp n port gs retained w = try_pcp n port PROTO_UDP gs retained w"

definition try_map :: "PmNet \<Rightarrow> u16 \<Rightarrow> Gateway list \<Rightarrow> bytes option \<Rightarrow> PmWorld \<Rightarrow> Lease option \<times> PmWorld" where
  "try_map n port gs retained w =
     (case try_pcp n port PROTO_TCP gs retained w of
        (Some l, w1) \<Rightarrow> (Some l, w1)
      | (None, w1) \<Rightarrow> try_natpmp n port gs w1)"

section \<open>The task\<close>

record MappingStatus =
  ms_method :: "string option"
  ms_external :: "string option"
  ms_detail :: string

definition status_default :: MappingStatus where
  "status_default = \<lparr>ms_method = None, ms_external = None, ms_detail = []\<rparr>"

definition status_start :: MappingStatus where
  "status_start = status_default\<lparr>ms_detail := ''not started''\<rparr>"

definition order_gateways :: "Gateway list \<Rightarrow> IpAddr option \<Rightarrow> Gateway list" where
  "order_gateways gs preferred =
     (case preferred of None \<Rightarrow> gs
      | Some p \<Rightarrow> filter (\<lambda>g. gw_local g = p) gs @ filter (\<lambda>g. gw_local g \<noteq> p) gs)"

definition renew_after :: "nat \<Rightarrow> nat" where "renew_after lifetime = max (lifetime - 30) 30"

text \<open>The wait before the next pass, in steps of 30 seconds, cut short by the switch.\<close>

function renew_sleep :: "nat \<Rightarrow> (nat \<Rightarrow> bool) \<Rightarrow> nat \<Rightarrow> nat" where
  "renew_sleep renew_in enabled slept =
     (if slept < renew_in \<and> enabled slept then renew_sleep renew_in enabled (slept + 30) else slept)"
  by pat_completeness auto
termination by (relation "measure (\<lambda>(r, e, s). r - s)") auto

declare renew_sleep.simps [simp del]


record PmState =
  pm_status :: MappingStatus
  pm_udp_nonce :: "bytes option"
  pm_tcp_nonce :: "bytes option"

definition pm_start :: PmState where
  "pm_start = \<lparr>pm_status = status_start, pm_udp_nonce = None, pm_tcp_nonce = None\<rparr>"

text \<open>One pass of the loop: the state, and how long it sleeps (\<open>enabled\<close> is the switch, by time slept).\<close>

definition pm_pass ::
  "PmNet \<Rightarrow> u16 \<Rightarrow> u16 \<Rightarrow> bool \<Rightarrow> (nat \<Rightarrow> bool) \<Rightarrow> Gateway list \<Rightarrow> IpAddr option
     \<Rightarrow> PmState \<times> PmWorld \<Rightarrow> (PmState \<times> PmWorld) \<times> nat" where
  "pm_pass n port wt on enabled found preferred sw =
     (case sw of (s, w) \<Rightarrow>
        if \<not> on then ((s\<lparr>pm_status := status_default\<rparr>, w), 5)
        else let gs = order_gateways found preferred in
        if gs = [] then
          ((s\<lparr>pm_status := status_default\<lparr>ms_detail :=
               ''no default gateway found '' @ em_dash @ '' cannot open a router port''\<rparr>\<rparr>, w), REPROBE_AFTER)
        else
          let (_, w1) = try_map_udp n wt gs (pm_udp_nonce s) w in
          (case try_map n port gs (pm_tcp_nonce s) w1 of
             (Some lease, w2) \<Rightarrow>
               (let ext = (case le_external lease of Some a \<Rightarrow> socket_text a | None \<Rightarrow> ''unknown'')
                in ((\<lparr>pm_status =
                        \<lparr>ms_method = Some (le_method lease),
                         ms_external = map_option socket_text (le_external lease),
                         ms_detail = ''mapped via '' @ le_method lease @ '' (lease '' @ show_nat (le_lifetime lease)
                            @ ''s); remote devices reach '' @ ext\<rparr>,
                      pm_udp_nonce = Some (le_nonce lease), pm_tcp_nonce = Some (le_nonce lease)\<rparr>, w2),
                    renew_sleep (renew_after (le_lifetime lease)) enabled 0))
           | (None, w2) \<Rightarrow>
               (let hint = (case filter (\<lambda>g. \<not> ip_is_v4 (gw_local g)) gs of
                              g # _ \<Rightarrow> ''['' @ ip_text (gw_local g) @ '']:'' @ show_nat (unat port)
                            | [] \<Rightarrow> ''this PC on TCP '' @ show_nat (unat port))
                in ((s\<lparr>pm_status := status_default\<lparr>ms_detail :=
                        ''router supports neither PCP nor NAT-PMP '' @ em_dash @ '' add an inbound rule for '' @ hint
                        @ '' by hand, or remote access stays LAN-only''\<rparr>\<rparr>, w2), REPROBE_AFTER))))"

section \<open>Lemmas\<close>

lemma length_client_addr [simp]: "length (client_addr_bytes ip) = 16"
  by (simp add: client_addr_bytes_def split: IpAddr.split)

lemma v6_mapped_to_mapped: "v6_mapped (v4_to_mapped a) = Some a"
proof -
  have "drop_bit 32 (v4_to_mapped a) = 0xffff"
    by (rule bit_word_eqI) (use bit_imp_le_length [of a] in \<open>auto simp: v4_to_mapped_def bit_simps\<close>)
  moreover have "ucast (v4_to_mapped a) = a"
  proof (rule bit_word_eqI)
    fix i
    assume i: "i < LENGTH(32)"
    have "\<not> bit (push_bit 32 0xffff :: 128 word) i" unfolding bit_push_bit_iff using i by simp
    then show "bit (ucast (v4_to_mapped a) :: 32 word) i = bit a i"
      using i unfolding v4_to_mapped_def by (simp only: bit_ucast_iff bit_or_iff) simp
  qed
  ultimately show ?thesis by (simp add: v6_mapped_def)
qed

text \<open>An address survives the wire unless it is an IPv6 address of the mapped range.\<close>

lemma client_addr_roundtrip:
  assumes "case ip of V4 _ \<Rightarrow> True | V6 a \<Rightarrow> v6_mapped a = None"
  shows "parse_client_addr (client_addr_bytes ip @ r) = ip"
proof -
  have "be_nat (be_bytes 16 (unat a)) = unat a" for a :: "128 word"
    using unat_bound [of a] by (simp add: be_nat_be_bytes)
  then show ?thesis
    using assms by (cases ip) (simp_all add: client_addr_bytes_def parse_client_addr_def v6_mapped_to_mapped)
qed

text \<open>A PCP answer as the protocol lays it out: header, nonce, protocol, internal port, external port and address.\<close>

definition pcp_answer :: "u8 \<Rightarrow> nat \<Rightarrow> bytes \<Rightarrow> bytes \<Rightarrow> u8 \<Rightarrow> nat \<Rightarrow> nat \<Rightarrow> IpAddr \<Rightarrow> bytes" where
  "pcp_answer result lifetime epoch nonce proto int_port ext_port ext =
     [2, 0x81, 0, result] @ be_bytes 4 lifetime @ epoch @ nonce @ [proto, 0, 0, 0] @ be_bytes 2 int_port
     @ be_bytes 2 ext_port @ client_addr_bytes ext"

lemma pcp_lease_answer:
  assumes "length epoch = 16" "length nonce = 12" "length mine = 12" "lifetime < 2 ^ 32" "ext_port < 2 ^ 16"
    and "case ext of V4 _ \<Rightarrow> True | V6 a \<Rightarrow> v6_mapped a = None"
  shows "pcp_lease mine (pcp_answer result lifetime epoch nonce proto int_port ext_port ext) =
     (if result = 0 \<and> nonce = mine
      then Some \<lparr>le_method = ''pcp'', le_external = Some (ext, ext_port), le_lifetime = max lifetime 1, le_nonce = mine\<rparr>
      else None)"
proof -
  define b where "b = pcp_answer result lifetime epoch nonce proto int_port ext_port ext"
  have l: "length b = 60" using assms(1,2) by (simp add: b_def pcp_answer_def)
  have h: "b ! 0 = 2" "b ! 1 = 0x81" "b ! 3 = result" by (simp_all add: b_def pcp_answer_def)
  have n: "take 12 (drop 24 b) = nonce" using assms(1,2) by (simp add: b_def pcp_answer_def)
  have p: "be_nat (take 2 (drop 42 b)) = ext_port" using assms(1,2,5) by (simp add: b_def pcp_answer_def be_nat_be_bytes)
  have t: "be_nat (take 4 (drop 4 b)) = lifetime" using assms(4) by (simp add: b_def pcp_answer_def be_nat_be_bytes)
  have e: "parse_client_addr (take 16 (drop 44 b)) = ext"
    using assms(1,2) client_addr_roundtrip [OF assms(6), of "[]"] by (simp add: b_def pcp_answer_def)
  have e': "parse_client_addr (drop 44 b) = ext" using e l by simp
  show ?thesis unfolding b_def [symmetric] by (simp add: pcp_lease_def l h [simplified] n p t e e')
qed

text \<open>Reading a request: protocol and nonce of a mapping request.\<close>

definition maps_proto :: "u8 \<Rightarrow> bytes \<Rightarrow> bool" where
  "maps_proto proto req \<longleftrightarrow> length req = 60 \<and> req ! 1 = 1 \<and> req ! 36 = proto"

definition nonce_of :: "bytes \<Rightarrow> bytes" where "nonce_of req = take 12 (drop 24 req)"

lemma request_fields:
  assumes "length nonce = 12"
  shows "length (pcp_request port loc proto nonce) = 60" "pcp_request port loc proto nonce ! 36 = proto"
    "nonce_of (pcp_request port loc proto nonce) = nonce" "pcp_request port loc proto nonce ! 1 = 1"
  using assms by (simp_all add: pcp_request_def nonce_of_def nth_append)

lemma natpmp_not_pcp: "\<not> maps_proto proto (natpmp_request port)"
  by (simp add: maps_proto_def natpmp_request_def)

definition appends :: "(bytes \<Rightarrow> bool) \<Rightarrow> PmWorld \<Rightarrow> PmWorld \<Rightarrow> bool" where
  "appends P w w' \<longleftrightarrow> (\<exists>xs. pw_sent w' = pw_sent w @ xs \<and> (\<forall>x \<in> set xs. P (snd (snd x))))"

lemma appends_refl [simp]: "appends P w w"
  by (simp add: appends_def)

lemma appends_trans [trans]: "appends P u v \<Longrightarrow> appends P v w \<Longrightarrow> appends P u w"
  by (fastforce simp: appends_def)

lemma exchange_appends: "P req \<Longrightarrow> appends P w (snd (exchange n g req w))"
  by (auto simp: exchange_def appends_def Let_def split: option.splits)

lemma pcp_map_retained:
  assumes "P (pcp_request port (gw_local g) proto x)"
  shows "appends P w (snd (pcp_map_proto n port g proto (Some x) w))"
    and "fst (pcp_map_proto n port g proto (Some x) w) = Some l \<Longrightarrow> le_nonce l = x \<and> le_method l = ''pcp''"
  using exchange_appends [of P "pcp_request port (gw_local g) proto x" w n g] assms
  by (auto simp: pcp_map_proto_def pcp_lease_def split: prod.splits option.splits if_splits)

lemma try_pcp_retained:
  assumes "\<And>loc. P (pcp_request port loc proto x)"
  shows "appends P w (snd (try_pcp n port proto gs (Some x) w))
    \<and> (case fst (try_pcp n port proto gs (Some x) w) of Some l \<Rightarrow> le_nonce l = x \<and> le_method l = ''pcp'' | None \<Rightarrow> True)"
proof (induction gs arbitrary: w)
  case (Cons g gs)
  obtain r w1 where r: "pcp_map_proto n port g proto (Some x) w = (r, w1)" by fastforce
  note m = pcp_map_retained [where P = P and port = port and g = g and proto = proto and x = x and w = w and n = n, OF assms, unfolded r, simplified]
  show ?case
    using m Cons.IH [of w1] by (cases r) (auto simp: r intro: appends_trans)
qed simp

lemma try_natpmp_appends:
  assumes "P (natpmp_request port)"
  shows "appends P w (snd (try_natpmp n port gs w))"
proof (induction gs arbitrary: w)
  case (Cons g gs)
  obtain r w1 where r: "natpmp_map n port g w = (r, w1)" by fastforce
  then have "appends P w w1"
    using exchange_appends [of P "natpmp_request port" w n g] assms by (auto simp: natpmp_map_def split: prod.splits)
  then show ?case using Cons.IH [of w1] Cons.IH [of w] by (auto simp: r split: option.splits intro: appends_trans)
qed simp

lemma try_natpmp_v6: "list_all (\<lambda>g. \<not> ip_is_v4 (gw_ip g)) gs \<Longrightarrow> try_natpmp n port gs w = (None, w)"
  by (induction gs) auto

lemma set_order_gateways [simp]: "set (order_gateways gs p) = set gs"
  by (auto simp: order_gateways_def split: option.splits)

text \<open>
  A pass with retained nonces sends nothing but renewals of these: a mapping request for TCP carries
  the retained TCP nonce, one for UDP the retained UDP nonce.
\<close>

definition renews :: "bytes \<Rightarrow> bytes \<Rightarrow> bytes \<Rightarrow> bool" where
  "renews udp tcp req \<longleftrightarrow>
     (maps_proto PROTO_TCP req \<longrightarrow> nonce_of req = tcp) \<and> (maps_proto PROTO_UDP req \<longrightarrow> nonce_of req = udp)"

lemma renews_requests:
  assumes "length udp = 12" "length tcp = 12"
  shows "renews udp tcp (pcp_request port loc PROTO_TCP tcp)" "renews udp tcp (pcp_request port loc PROTO_UDP udp)"
    "renews udp tcp (natpmp_request port)"
  using assms by (simp_all add: renews_def natpmp_not_pcp) (simp_all add: maps_proto_def request_fields PROTO_TCP_def PROTO_UDP_def)

lemma pass_renews:
  assumes "pm_udp_nonce s = Some udp" "pm_tcp_nonce s = Some tcp" "length udp = 12" "length tcp = 12"
    and "pm_pass n port wt on en gs p (s, w) = ((s', w'), t)"
  shows "appends (renews udp tcp) w w'"
    and "list_all (\<lambda>g. \<not> ip_is_v4 (gw_ip g)) gs \<Longrightarrow> pm_tcp_nonce s' = Some tcp \<and> pm_udp_nonce s' \<in> {Some udp, Some tcp}"
proof -
  let ?gs = "order_gateways gs p"
  obtain ru w1 where u: "try_map_udp n wt ?gs (Some udp) w = (ru, w1)" by fastforce
  obtain rp w2 where r: "try_pcp n port PROTO_TCP ?gs (Some tcp) w1 = (rp, w2)" by fastforce
  obtain rn w3 where q: "try_natpmp n port ?gs w2 = (rn, w3)" by fastforce
  note rr = renews_requests [OF assms(3,4)]
  have a1: "appends (renews udp tcp) w w1"
    using try_pcp_retained [where P = "renews udp tcp" and port = wt and proto = PROTO_UDP and x = udp and w = w and n = n
        and gs = ?gs, OF rr(2)] u by (simp add: try_map_udp_def)
  have a2: "appends (renews udp tcp) w1 w2" and l: "case rp of Some l \<Rightarrow> le_nonce l = tcp | None \<Rightarrow> True"
    using try_pcp_retained [where P = "renews udp tcp" and port = port and proto = PROTO_TCP and x = tcp and w = w1 and n = n
        and gs = ?gs, OF rr(1)] r by (auto split: option.splits)
  have a3: "appends (renews udp tcp) w2 w3"
    using try_natpmp_appends [of "renews udp tcp" port w2 n ?gs] rr(3) q by simp
  have w12: "appends (renews udp tcp) w w2" using a1 a2 by (rule appends_trans)
  have w13: "appends (renews udp tcp) w w3" using w12 a3 by (rule appends_trans)
  show "appends (renews udp tcp) w w'"
    using assms(1,2,5) u r q w12 w13
    by (cases rp; cases rn) (auto simp: pm_pass_def Let_def try_map_def split: if_splits)
  assume "list_all (\<lambda>g. \<not> ip_is_v4 (gw_ip g)) gs"
  then have "list_all (\<lambda>g. \<not> ip_is_v4 (gw_ip g)) ?gs" by (simp add: list_all_iff)
  then have "rn = None" using q try_natpmp_v6 by simp
  then show "pm_tcp_nonce s' = Some tcp \<and> pm_udp_nonce s' \<in> {Some udp, Some tcp}"
    using assms(1,2,5) u r q l
    by (cases rp) (auto simp: pm_pass_def Let_def try_map_def split: if_splits)
qed

text \<open>The first lease of the video port is forgotten: only the nonce of the page's lease is kept, for both.\<close>

lemma udp_nonce_forgotten:
  assumes "pm_udp_nonce s = None" "pm_tcp_nonce s = None" "order_gateways gs p = [g]" "bind_for (pn_bind n) g \<noteq> None"
    and "fst (try_map_udp n wt [g] None w) = Some lu" "pm_pass n port wt True en gs p (s, w) = ((s', w'), t)"
    and "ms_method (pm_status s') = Some ''pcp''"
  shows "le_nonce lu = pn_rnd n (pw_draws w) \<and> pm_udp_nonce s' = Some (pn_rnd n (pw_draws w + 1))
    \<and> pm_tcp_nonce s' = Some (pn_rnd n (pw_draws w + 1))"
proof -
  obtain r1 w1 where m1: "pcp_map_proto n wt g PROTO_UDP None w = (r1, w1)" by fastforce
  obtain r2 w2 where m2: "pcp_map_proto n port g PROTO_TCP None w1 = (r2, w2)" by fastforce
  have d1: "pw_draws w1 = pw_draws w + 1"
    using m1 by (auto simp: pcp_map_proto_def exchange_def Let_def split: prod.splits option.splits)
  have n1: "le_nonce l = pn_rnd n (pw_draws w)" if "r1 = Some l" for l
    using m1 that by (auto simp: pcp_map_proto_def pcp_lease_def split: prod.splits option.splits if_splits)
  have n2: "le_nonce l = pn_rnd n (pw_draws w + 1)" if "r2 = Some l" for l
    using m2 that d1 by (auto simp: pcp_map_proto_def pcp_lease_def split: prod.splits option.splits if_splits)
  have u: "try_map_udp n wt [g] None w = (r1, w1)" using m1 by (simp add: try_map_udp_def split: option.splits)
  have lu: "r1 = Some lu" using u assms(5) by simp
  show ?thesis
  proof (cases r2)
    case (Some l)
    then have "try_map n port [g] None w1 = (Some l, w2)" using m2 by (simp add: try_map_def)
    then show ?thesis
      using assms(1-3,6) u n1 [OF lu] n2 [OF Some] by (auto simp: pm_pass_def Let_def)
  next
    case None
    then have t: "try_map n port [g] None w1 = try_natpmp n port [g] w2" using m2 by (simp add: try_map_def)
    have "le_method l = ''nat-pmp''" if "fst (try_natpmp n port [g] w2) = Some l" for l
      using that by (auto simp: natpmp_map_def natpmp_lease_def split: prod.splits option.splits if_splits)
    then show ?thesis
      using assms(1-3,6,7) u t
      by (cases "try_natpmp n port [g] w2"; cases "fst (try_natpmp n port [g] w2)")
         (auto simp: pm_pass_def Let_def status_default_def)
  qed
qed

lemma renew_sleep_bounds:
  assumes "slept \<le> r + 29"
  shows "r \<le> renew_sleep r (\<lambda>_. True) slept \<and> renew_sleep r (\<lambda>_. True) slept \<le> r + 29"
  using assms
  by (induction r "\<lambda>_ :: nat. True" slept rule: renew_sleep.induct; subst (1 2) renew_sleep.simps) auto

lemma renew_sleep_off:
  assumes "slept < off + 30"
  shows "renew_sleep r (\<lambda>x. x < off) slept < off + 30"
  using assms
  by (induction r "\<lambda>x. x < off" slept rule: renew_sleep.induct; subst renew_sleep.simps; simp)

fun pm_run :: "PmNet \<Rightarrow> u16 \<Rightarrow> u16 \<Rightarrow> (bool \<times> (nat \<Rightarrow> bool) \<times> Gateway list \<times> IpAddr option) list
    \<Rightarrow> PmState \<times> PmWorld \<Rightarrow> PmState \<times> PmWorld" where
  "pm_run n port wt [] sw = sw"
| "pm_run n port wt ((on, en, gs, p) # ps) sw = pm_run n port wt ps (fst (pm_pass n port wt on en gs p sw))"

definition tcp_renewal :: "bytes \<Rightarrow> bytes \<Rightarrow> bool" where
  "tcp_renewal tcp req \<longleftrightarrow> (if maps_proto PROTO_TCP req then nonce_of req = tcp else True)"

lemma run_renews:
  assumes "pm_udp_nonce s = Some udp" "pm_tcp_nonce s = Some tcp" "length udp = 12" "length tcp = 12"
    and "list_all (\<lambda>(on, en, gs, p). list_all (\<lambda>g. \<not> ip_is_v4 (gw_ip g)) gs) passes"
  shows "appends (tcp_renewal tcp) w (snd (pm_run n port wt passes (s, w)))"
  using assms
proof (induction passes arbitrary: s w udp)
  case (Cons x passes)
  obtain on en gs p where x: "x = (on, en, gs, p)" by (cases x)
  obtain s1 w1 t where r: "pm_pass n port wt on en gs p (s, w) = ((s1, w1), t)" by (metis prod.collapse)
  note pr = pass_renews [OF Cons.prems(1-4) r]
  have v6: "list_all (\<lambda>g. \<not> ip_is_v4 (gw_ip g)) gs" and ps: "list_all (\<lambda>(on, en, gs, p). list_all (\<lambda>g. \<not> ip_is_v4 (gw_ip g)) gs) passes"
    using Cons.prems(5) by (simp_all add: x)
  have "appends (tcp_renewal tcp) w w1"
    using pr(1) by (fastforce simp: appends_def renews_def tcp_renewal_def)
  moreover obtain udp1 where "pm_udp_nonce s1 = Some udp1" "length udp1 = 12" "pm_tcp_nonce s1 = Some tcp"
    using pr(2) [OF v6] Cons.prems(3,4) by auto
  then have "appends (tcp_renewal tcp) w1 (snd (pm_run n port wt passes (s1, w1)))"
    using Cons.IH [OF _ _ _ Cons.prems(4) ps] by simp
  ultimately show ?case by (simp add: x r) (rule appends_trans)
qed simp

text \<open>
  The margin before the expiry is what the 30-second steps leave of it; and NAT-PMP replaces both
  retained nonces by twelve zero bytes.
\<close>

lemma renewal_margin_lost: "renew_sleep (renew_after 61) (\<lambda>_. True) 0 = 60"
  by (simp add: renew_after_def renew_sleep.simps)

lemma natpmp_nonce_zero: "natpmp_lease buf = Some l \<Longrightarrow> le_nonce l = replicate 12 0"
  by (auto simp: natpmp_lease_def split: if_splits)

definition quiet_net :: PmNet where
  "quiet_net = \<lparr>pn_bind = (\<lambda>_. True), pn_answer = (\<lambda>_. None), pn_rnd = (\<lambda>_. replicate 12 7)\<rparr>"

section \<open>Properties\<close>

text \<open>C28. A PCP exchange carries what it should: the request names protocol, nonce, port and the local
  address, and of all answers laid out by the protocol exactly those that report success and repeat
  the request's nonce become a lease, with the address, port and lifetime they state.\<close>
theorem pcp_exchange_exact:
  assumes "length nonce = 12" "length other = 12" "length epoch = 16" "lifetime < 2 ^ 32" "ext_port < 2 ^ 16"
    and "case ext of V4 _ \<Rightarrow> True | V6 a \<Rightarrow> v6_mapped a = None" "case loc of V4 _ \<Rightarrow> True | V6 a \<Rightarrow> v6_mapped a = None"
  shows "(case pcp_request port loc proto nonce of req \<Rightarrow>
      maps_proto proto req \<and> nonce_of req = nonce \<and> be_nat (take 2 (drop 40 req)) = unat port
      \<and> parse_client_addr (take 16 (drop 8 req)) = loc)
    \<and> pcp_lease nonce (pcp_answer result lifetime epoch other proto (unat port) ext_port ext) =
        (if result = 0 \<and> other = nonce
         then Some \<lparr>le_method = ''pcp'', le_external = Some (ext, ext_port), le_lifetime = max lifetime 1, le_nonce = nonce\<rparr>
         else None)"
proof -
  have "be_nat (be_bytes 2 (unat port)) = unat port" using unat_bound [of port] by (simp add: be_nat_be_bytes)
  moreover have "parse_client_addr (client_addr_bytes loc) = loc" using client_addr_roundtrip [OF assms(7), of "[]"] by simp
  ultimately show ?thesis
    using pcp_lease_answer [OF assms(3,2,1,4,5,6)] request_fields [OF assms(1)] assms(1)
    by (simp add: maps_proto_def) (simp add: pcp_request_def)
qed

theorem pcp_exchange_exact_witness:
  "pcp_lease (replicate 12 7) (pcp_answer 0 3600 (replicate 16 0) (replicate 12 7) 6 443 443 (V4 0xcb007107))
     = Some \<lparr>le_method = ''pcp'', le_external = Some (V4 0xcb007107, 443), le_lifetime = 3600, le_nonce = replicate 12 7\<rparr>"
  using pcp_exchange_exact [of "replicate 12 7" "replicate 12 7" "replicate 16 0" 3600 443 "V4 0xcb007107" "V4 1" 6 443 0] by simp



text \<open>A lease is renewed before it runs out and not long before: while remote access stays on, the next
  pass starts less than the lease after the last and at most 30 seconds before its end, for every
  lease of more than a minute; and a switch turned off is noticed within 30 seconds.\<close>
theorem renewal_in_time:
  assumes "60 < lifetime"
  shows "(case renew_sleep (renew_after lifetime) (\<lambda>_. True) 0 of t \<Rightarrow> t < lifetime \<and> lifetime \<le> t + 30)
    \<and> renew_sleep (renew_after lifetime) (\<lambda>x. x < off) 0 < off + 30"
proof -
  have "renew_after lifetime = lifetime - 30" using assms by (simp add: renew_after_def)
  then show ?thesis
    using renew_sleep_bounds [of 0 "renew_after lifetime"] renew_sleep_off [of 0 off "renew_after lifetime"] assms by auto
qed

theorem renewal_in_time_witness: "renew_sleep (renew_after 3600) (\<lambda>_. True) 0 < 3600"
  using renewal_in_time [of 3600] by simp

end
