(* ===== verification/GameText.thy ===== *)
theory GameText
  imports IpText
begin

text \<open>
  The text side of the game library (\<open>crates/host/src/platform/windows/games.rs\<close>): Windows paths,
  the line and tag scanners for the launchers' manifests, slugs and the filters for entries that
  are not games. Text is bytes; case mapping and white space are the ASCII ones.
\<close>

section \<open>Searching\<close>

fun find_str :: "string \<Rightarrow> string \<Rightarrow> nat option" where
  "find_str p [] = (if p = [] then Some 0 else None)"
| "find_str p (c # cs) = (if starts_with (c # cs) p then Some 0 else map_option Suc (find_str p cs))"

definition text_lines :: "string \<Rightarrow> string list" where "text_lines s = split_on CHR 0x0A s"

definition trim_chars :: "char set \<Rightarrow> string \<Rightarrow> string" where
  "trim_chars cs s = rev (dropWhile (\<lambda>c. c \<in> cs) (rev (dropWhile (\<lambda>c. c \<in> cs) s)))"

fun replace_char :: "char \<Rightarrow> string \<Rightarrow> string \<Rightarrow> string" where
  "replace_char a b [] = []"
| "replace_char a b (c # cs) = (if c = a then b @ replace_char a b cs else c # replace_char a b cs)"

text \<open>\<open>replace\<close> of two backslashes by one, left to right.\<close>

definition backslash :: char where "backslash = char_of (92 :: nat)"
definition quote :: char where "quote = char_of (34 :: nat)"

fun unescape_slashes :: "string \<Rightarrow> string" where
  "unescape_slashes (a # b # cs) =
     (if a = backslash \<and> b = backslash then backslash # unescape_slashes cs else a # unescape_slashes (b # cs))"
| "unescape_slashes s = s"

section \<open>Windows paths\<close>

definition is_sep :: "char \<Rightarrow> bool" where "is_sep c \<longleftrightarrow> c = backslash \<or> c = CHR ''/''"

fun path_parts :: "string \<Rightarrow> string list" where
  "path_parts [] = [[]]"
| "path_parts (c # cs) =
     (if is_sep c then [] # path_parts cs
      else (case path_parts cs of [] \<Rightarrow> [[c]] | p # ps \<Rightarrow> (c # p) # ps))"

definition has_drive :: "string \<Rightarrow> bool" where
  "has_drive p = (case p of a # b # _ \<Rightarrow> b = CHR '':'' \<and> \<not> is_sep a | _ \<Rightarrow> False)"

definition without_drive :: "string \<Rightarrow> string" where "without_drive p = (if has_drive p then drop 2 p else p)"

text \<open>\<open>Path::file_name\<close>: the last component, if it is a plain name.\<close>

definition file_name :: "string \<Rightarrow> string option" where
  "file_name p =
     (let cs = filter (\<lambda>c. c \<noteq> [] \<and> c \<noteq> ''.'') (path_parts (without_drive p))
      in if cs = [] \<or> last cs = ''..'' then None else Some (last cs))"

definition path_join :: "string \<Rightarrow> string \<Rightarrow> string" where
  "path_join a b =
     (if has_drive b then b
      else if b \<noteq> [] \<and> is_sep (hd b) then (if has_drive a then take 2 a else []) @ b
      else if a = [] \<or> is_sep (last a) then a @ b else a @ [backslash] @ b)"

text \<open>\<open>Path::parent\<close> of a path with a file name: everything before it, without the separators.\<close>

definition path_parent :: "string \<Rightarrow> string" where
  "path_parent p = rev (dropWhile is_sep (dropWhile (\<lambda>c. \<not> is_sep c) (rev p)))"

definition extension :: "string \<Rightarrow> string option" where
  "extension p =
     (case file_name p of None \<Rightarrow> None
      | Some n \<Rightarrow> (case rsplit_once CHR ''.'' n of Some (b, e) \<Rightarrow> if b = [] then None else Some e | None \<Rightarrow> None))"

definition file_stem :: "string \<Rightarrow> string option" where
  "file_stem p =
     map_option (\<lambda>n. case rsplit_once CHR ''.'' n of Some (b, _) \<Rightarrow> if b = [] then n else b | None \<Rightarrow> n) (file_name p)"

section \<open>Scanners\<close>

definition parse_vdf_quoted_value :: "string \<Rightarrow> string option" where
  "parse_vdf_quoted_value rest =
     (case strip_prefix [quote] (trim_str rest) of None \<Rightarrow> None
      | Some r \<Rightarrow> map_option (\<lambda>e. take e r) (find_str [quote] r))"

fun vdf_lines :: "string \<Rightarrow> string list \<Rightarrow> string option" where
  "vdf_lines needle [] = None"
| "vdf_lines needle (l # ls) =
     (case strip_prefix needle (trim_str l) of Some rest \<Rightarrow> parse_vdf_quoted_value rest | None \<Rightarrow> vdf_lines needle ls)"

definition vdf_field :: "string \<Rightarrow> string \<Rightarrow> string option" where
  "vdf_field s key = vdf_lines ([quote] @ key @ [quote]) (text_lines s)"

fun yaml_lines :: "string \<Rightarrow> string list \<Rightarrow> string option" where
  "yaml_lines prefix [] = None"
| "yaml_lines prefix (l # ls) =
     (case strip_prefix prefix (trim_str l) of
        Some rest \<Rightarrow>
          (let v = trim_chars {CHR 0x27} (trim_chars {quote} (trim_str rest))
           in if v \<noteq> [] then Some v else yaml_lines prefix ls)
      | None \<Rightarrow> yaml_lines prefix ls)"

definition yaml_field :: "string \<Rightarrow> string \<Rightarrow> string option" where
  "yaml_field s key = yaml_lines (key @ '':'') (text_lines s)"

definition xml_attr :: "string \<Rightarrow> string \<Rightarrow> string option" where
  "xml_attr xml attr =
     (let needle = attr @ ''='' @ [quote]
      in case find_str needle xml of None \<Rightarrow> None
         | Some i \<Rightarrow> (let rest = drop (i + length needle) xml in map_option (\<lambda>e. take e rest) (find_str [quote] rest)))"

definition xml_element_text :: "string \<Rightarrow> string \<Rightarrow> string option" where
  "xml_element_text xml tag =
     (case find_str (''<'' @ tag) xml of None \<Rightarrow> None
      | Some i \<Rightarrow> (let after = drop i xml in
          case find_str ''>'' after of None \<Rightarrow> None
          | Some j \<Rightarrow> (let inner = drop (j + 1) after in
              map_option (\<lambda>e. trim_str (take e inner)) (find_str (''</'' @ tag @ ''>'') inner))))"

definition xbox_tag_attr :: "string \<Rightarrow> string \<Rightarrow> string \<Rightarrow> string option" where
  "xbox_tag_attr xml opening attr =
     (case find_str opening xml of None \<Rightarrow> None
      | Some i \<Rightarrow> (case find_str ''>'' (drop i xml) of None \<Rightarrow> None
         | Some e \<Rightarrow> xml_attr (take e (drop i xml)) attr))"

lemma find_str_bound: "find_str p s = Some i \<Longrightarrow> i + length p \<le> length s"
proof (induction s arbitrary: i)
  case (Cons c cs)
  show ?case
  proof (cases "starts_with (c # cs) p")
    case True
    then obtain r where "c # cs = p @ r" by (auto simp: starts_with_append)
    then have "length p \<le> length (c # cs)" by simp
    then show ?thesis using Cons.prems True by simp
  next
    case False
    then show ?thesis using Cons by auto
  qed
qed (auto split: if_splits)

text \<open>The first \<open>Application\<close> element, past longer names; the argument is what is left of the text.\<close>

function xbox_application :: "string \<Rightarrow> (string \<times> string) option" where
  "xbox_application xml =
     (case find_str ''<Application'' xml of None \<Rightarrow> None
      | Some i \<Rightarrow>
          (let rest = drop (i + 12) xml
           in if (case rest of c # _ \<Rightarrow> is_space c \<or> c = CHR ''>'' \<or> c = CHR ''/'' | [] \<Rightarrow> False)
              then (case find_str ''>'' (drop i xml) of None \<Rightarrow> None
                    | Some e \<Rightarrow> (let tag = take e (drop i xml)
                        in map_option (\<lambda>a. (a, case xml_attr tag ''Executable'' of Some x \<Rightarrow> x | None \<Rightarrow> []))
                             (xml_attr tag ''Id'')))
              else xbox_application rest))"
  by pat_completeness auto
termination by (relation "measure length") (auto dest: find_str_bound)

declare xbox_application.simps [simp del]

definition exe_from_path :: "string \<Rightarrow> string option" where
  "exe_from_path s =
     (case file_name (hd (split_on CHR '','' (trim_chars {quote} s))) of
        Some n \<Rightarrow> if ends_with (lower n) ''.exe'' then Some n else None
      | None \<Rightarrow> None)"

definition is_alnum :: "char \<Rightarrow> bool" where
  "is_alnum c \<longleftrightarrow> (let n = of_char c :: nat in (48 \<le> n \<and> n \<le> 57) \<or> (65 \<le> n \<and> n \<le> 90) \<or> (97 \<le> n \<and> n \<le> 122))"

text \<open>Characters are the text's code points: a code point outside ASCII is one byte sequence, all of it no letter.\<close>

fun slug_chars :: "string \<Rightarrow> string \<Rightarrow> string" where
  "slug_chars out [] = out"
| "slug_chars out (c # cs) =
     slug_chars (if is_alnum c then out @ [lower_char c] else if out \<noteq> [] \<and> last out = CHR ''-'' then out else out @ ''-'') cs"

definition slug :: "string \<Rightarrow> string" where "slug s = trim_chars {CHR ''-''} (slug_chars [] s)"

fun slug_parts :: "string \<Rightarrow> string list" where
  "slug_parts [] = [[]]"
| "slug_parts (c # cs) =
     (if c \<in> set ''-_ '' then [] # slug_parts cs
      else (case slug_parts cs of [] \<Rightarrow> [[c]] | p # ps \<Rightarrow> (c # p) # ps))"

definition title_case_slug :: "string \<Rightarrow> string" where
  "title_case_slug s =
     join '' '' (map (\<lambda>p. case p of [] \<Rightarrow> [] | f # r \<Rightarrow> upper_char f # r) (filter (\<lambda>p. p \<noteq> []) (slug_parts s)))"

section \<open>Filters\<close>

definition is_battlenet_publisher :: "string \<Rightarrow> bool" where
  "is_battlenet_publisher p \<longleftrightarrow> contains_str (lower p) ''blizzard'' \<or> contains_str (lower p) ''battle.net''"

definition PUBLISHERS :: "string list" where
  "PUBLISHERS =
     [''valve'', ''epic games'', ''gog'', ''blizzard'', ''ubisoft'', ''electronic arts'', ''riot'', ''amazon'',
      ''bethesda'', ''square enix'', ''rockstar'', ''activision'', ''2k'', ''capcom'', ''sega'', ''bandai'', ''xbox'',
      ''microsoft games'', ''playstation'', ''paradox'', ''frontier'', ''facepunch'', ''hazelight'',
      ''studio wildcard'', ''behaviour'', ''crytek'', ''id software'', ''gearbox'', ''bungie'', ''ncsoft'', ''larian'',
      ''cd projekt'', ''hoyoverse'', ''mihoyo'', ''warner'', ''wb games'', ''focus entertainment'', ''devolver'',
      ''annapurna'', ''supergiant'', ''klei'', ''obsidian'', ''insomniac'', ''nintendo'']"

definition GAME_FOLDERS :: "string list" where
  "GAME_FOLDERS =
     [''steamapps'', ''epic games'', ''gog games'', ''xboxgames'', ''riot games'', ''battle.net'', ''ubisoft'',
      ''origin games'', ''electronic arts'']"

definition LAUNCHERS :: "string list" where
  "LAUNCHERS =
     [''steam'', ''steamvr'', ''battle.net'', ''blizzard battle.net'', ''ea'', ''ea app'', ''ea desktop'', ''origin'',
      ''epic games launcher'', ''epic online services'', ''epic games'', ''gog galaxy'', ''ubisoft connect'', ''uplay'',
      ''rockstar games launcher'', ''riot client'', ''amazon games'', ''xbox'', ''xbox game bar'', ''xbox game pass'',
      ''nvidia app'', ''nvidia geforce experience'', ''geforce experience'', ''discord'', ''wallpaper engine'',
      ''microsoft store'', ''roblox'']"

definition JUNK :: "string list" where
  "JUNK =
     [''redistributable'', ''visual c++'', ''directx'', '' runtime'', ''sdk'', ''uninstall'', ''hotfix'', '' launcher'',
      ''steamworks'', ''easy anti-cheat'', ''anticheat'', ''battleye'', ''punkbuster'', ''vcredist'', ''physx'',
      ''nvidia '', ''amd software'', ''microsoft edge'', ''webview'', ''dedicated server'', ''social club'', '' demo'',
      '' beta test'', ''closed beta'', ''public test'', ''early access'', '' dlc'', ''benchmark'', ''soundtrack'',
      ''art book'', ''artbook'', ''wallpaper'', ''bonus content'', ''season pass'', '' dlc '', ''crash handler'',
      ''installer'']"

definition is_junk_name :: "string \<Rightarrow> bool" where
  "is_junk_name name =
     (let n = lower (trim_str name)
      in if length n < 2 then True
         else if starts_with n ''ms-resource:'' \<or> starts_with n [CHR ''@'', CHR 0x7B] then True
         else if n \<in> set LAUNCHERS then True
         else list_ex (contains_str n) JUNK)"

section \<open>Lemmas\<close>

lemma find_str_starts: "starts_with s p \<Longrightarrow> find_str p s = Some 0"
  by (cases s; cases p) auto

lemma find_str_sound: "find_str p s = Some i \<Longrightarrow> \<exists>u v. s = u @ p @ v \<and> length u = i"
proof (induction s arbitrary: i)
  case (Cons c cs)
  show ?case
  proof (cases "starts_with (c # cs) p")
    case True
    then show ?thesis using Cons.prems by (auto simp: starts_with_append)
  next
    case False
    then obtain j where j: "find_str p cs = Some j" "i = Suc j" using Cons.prems by auto
    from Cons.IH [OF j(1)] obtain u v where "cs = u @ p @ v" "length u = j" by blast
    then show ?thesis using j(2) by (intro exI [of _ "c # u"] exI [of _ v]) simp
  qed
qed (auto split: if_splits)

lemma find_str_char: "find_str [c] s = (if c \<in> set s then Some (length (takeWhile (\<lambda>x. x \<noteq> c) s)) else None)"
  by (induction s) auto

lemma find_str_after: "c \<notin> set w \<Longrightarrow> find_str [c] (w @ c # r) = Some (length w)"
  by (induction w) auto

text \<open>A quoted value is read back, whatever follows the closing quote.\<close>

lemma quoted_value:
  assumes "quote \<notin> set v" "list_all is_space gap"
  shows "parse_vdf_quoted_value (gap @ quote # v @ quote # r) = Some v"
proof -
  have q: "\<not> is_space quote" by (simp add: is_space_def quote_def)
  have d: "dropWhile is_space (gap @ quote # v @ quote # r) = quote # v @ quote # r"
    using assms(2) q by (induction gap) auto
  have "trim_str (gap @ quote # v @ quote # r) = quote # v @ quote # rev (dropWhile is_space (rev r))"
  proof -
    have "dropWhile is_space (rev r @ quote # rev v @ [quote]) = dropWhile is_space (rev r) @ quote # rev v @ [quote]"
      using q by (induction "rev r" arbitrary: r rule: list.induct) (auto simp: dropWhile_append)
    then show ?thesis unfolding trim_str_def d by simp
  qed
  then show ?thesis
    using assms(1) by (simp add: parse_vdf_quoted_value_def strip_prefix_def find_str_after)
qed

lemma slug_chars_spec:
  "set (slug_chars out s) \<subseteq> set out \<union> lower_char ` {c. is_alnum c} \<union> {CHR ''-''}"
proof (induction out s rule: slug_chars.induct)
  case (2 out c cs)
  then show ?case by (auto split: if_splits)
qed auto

lemma trim_chars_subset: "set (trim_chars cs s) \<subseteq> set s"
  by (auto simp: trim_chars_def dest!: set_dropWhileD)

lemma lower_alnum: "is_alnum c \<Longrightarrow> is_alnum (lower_char c)"
  by (auto simp: is_alnum_def lower_char_def Let_def)

text \<open>A slug holds lower-case letters, digits and dashes.\<close>

lemma slug_alphabet: "c \<in> set (slug s) \<Longrightarrow> c = CHR ''-'' \<or> is_alnum c \<and> lower_char c = c"
  using trim_chars_subset [of "{CHR ''-''}" "slug_chars [] s"] slug_chars_spec [of "[]" s] lower_alnum
  by (fastforce simp: slug_def)

lemma slug_chars_dashes:
  assumes "list_all (\<lambda>c. \<not> is_alnum c) s" "set out \<subseteq> {CHR ''-''}"
  shows "set (slug_chars out s) \<subseteq> {CHR ''-''}"
  using assms by (induction out s rule: slug_chars.induct) auto

text \<open>A name without any ASCII letter or digit has the empty slug.\<close>

lemma slug_empty: "list_all (\<lambda>c. \<not> is_alnum c) s \<Longrightarrow> slug s = []"
proof -
  assume "list_all (\<lambda>c. \<not> is_alnum c) s"
  then have d: "set (slug_chars [] s) \<subseteq> {CHR ''-''}" using slug_chars_dashes [of s "[]"] by simp
  have "dropWhile (\<lambda>c. c \<in> {CHR ''-''}) w = []" if "set w \<subseteq> {CHR ''-''}" for w
    using that by (induction w) auto
  from this [OF d] show ?thesis unfolding slug_def trim_chars_def by (simp only: rev.simps dropWhile.simps)
qed

lemma junk_lower [simp]: "is_junk_name (lower s) = is_junk_name s"
proof -
  have sp: "is_space (lower_char c) = is_space c" for c by (auto simp: lower_char_def is_space_def Let_def)
  have dw: "dropWhile is_space (lower w) = lower (dropWhile is_space w)" for w
    unfolding lower_def by (induction w) (auto simp: sp)
  have rl: "rev (lower w) = lower (rev w)" for w by (simp add: lower_def rev_map)
  have "trim_str (lower s) = lower (trim_str s)" by (simp add: trim_str_def dw rl)
  then show ?thesis by (simp add: is_junk_name_def)
qed

end
