(* ===== verification/CoverArt.thy ===== *)
theory CoverArt
  imports GameText Floats
begin

text \<open>
  Cover images for the game library: finding one on disk
  (\<open>crates/host/src/platform/windows/posters.rs\<close>) and the cache of downloaded ones
  (\<open>gameart.rs\<close>). The file system and the answers of the network are arguments; time is in seconds.
  Names are ASCII text, on which \<open>char::is_alphanumeric\<close> is the test for letters and digits.
\<close>

section \<open>Files\<close>

record Fs =
  fs_list :: "string \<Rightarrow> string list option"
  fs_dir :: "string \<Rightarrow> bool"
  fs_file :: "string \<Rightarrow> bool"
  fs_bytes :: "string \<Rightarrow> bytes option"
  fs_text :: "string \<Rightarrow> string option"
  fs_len :: "string \<Rightarrow> nat"

definition is_image :: "string \<Rightarrow> bool" where
  "is_image p \<longleftrightarrow>
     (case extension p of None \<Rightarrow> False
      | Some e \<Rightarrow> lower e \<in> {''jpg'', ''jpeg'', ''png'', ''webp''})"

definition is_sof :: "u8 \<Rightarrow> bool" where
  "is_sof m \<longleftrightarrow> 0xC0 \<le> m \<and> m \<le> 0xCF \<and> m \<noteq> 0xC4 \<and> m \<noteq> 0xC8 \<and> m \<noteq> 0xCC"

definition bare_marker :: "u8 \<Rightarrow> bool" where
  "bare_marker m \<longleftrightarrow> m = 0xD8 \<or> m = 0x01 \<or> (0xD0 \<le> m \<and> m \<le> 0xD9)"

text \<open>Width and height, from the first start-of-frame segment; \<open>i\<close> is the position in the file.\<close>

function jpeg_scan :: "bytes \<Rightarrow> nat \<Rightarrow> (nat \<times> nat) option" where
  "jpeg_scan b i =
     (if length b < i + 4 then None
      else if b ! i \<noteq> 0xFF then jpeg_scan b (i + 1)
      else let m = b ! (i + 1) in
        if bare_marker m then jpeg_scan b (i + 2)
        else let len = be_nat (take 2 (drop (i + 2) b)) in
          if is_sof m \<and> i + 9 \<le> length b
          then Some (be_nat (take 2 (drop (i + 7) b)), be_nat (take 2 (drop (i + 5) b)))
          else if m = 0xDA \<or> len < 2 then None
          else jpeg_scan b (i + 2 + len))"
  by pat_completeness auto
termination by (relation "measure (\<lambda>(b, i). length b - i)") auto

declare jpeg_scan.simps [simp del]

definition PNG_SIGNATURE :: bytes where
  "PNG_SIGNATURE = [0x89, 0x50, 0x4E, 0x47, 0x0D, 0x0A, 0x1A, 0x0A]"

definition image_dims :: "bytes \<Rightarrow> (nat \<times> nat) option" where
  "image_dims b =
     (if 24 \<le> length b \<and> take 8 b = PNG_SIGNATURE
      then Some (be_nat (take 4 (drop 16 b)), be_nat (take 4 (drop 20 b)))
      else if 4 \<le> length b \<and> take 2 b = [0xFF, 0xD8] then jpeg_scan b 2
      else None)"

definition MIN_POSTER_HEIGHT :: nat where "MIN_POSTER_HEIGHT = 200"
definition MAX_ASPECT_W_OVER_H :: f32 where "MAX_ASPECT_W_OVER_H = fround 24 (105 / 100)"

definition wrong_shape :: "nat \<times> nat \<Rightarrow> bool" where
  "wrong_shape wh \<longleftrightarrow>
     snd wh < MIN_POSTER_HEIGHT \<or> f32_mul (f32_nat (snd wh)) MAX_ASPECT_W_OVER_H < f32_nat (fst wh)"

definition plausible_cover :: "Fs \<Rightarrow> string \<Rightarrow> bool" where
  "plausible_cover fs p \<longleftrightarrow>
     fs_file fs p \<and> is_image p
     \<and> (case (case fs_bytes fs p of Some b \<Rightarrow> image_dims b | None \<Rightarrow> None) of
          Some wh \<Rightarrow> \<not> wrong_shape wh | None \<Rightarrow> True)"

fun best_image :: "Fs \<Rightarrow> string list \<Rightarrow> (nat \<times> string) option \<Rightarrow> (nat \<times> string) option" where
  "best_image fs [] best = best"
| "best_image fs (p # ps) best =
     (if \<not> plausible_cover fs p then best_image fs ps best
      else best_image fs ps
        (case best of None \<Rightarrow> Some (fs_len fs p, p)
         | Some (s, q) \<Rightarrow> if s < fs_len fs p then Some (fs_len fs p, p) else Some (s, q)))"

definition largest_image_in_dir :: "Fs \<Rightarrow> string \<Rightarrow> string option" where
  "largest_image_in_dir fs dir =
     (if \<not> fs_dir fs dir then None
      else case fs_list fs dir of None \<Rightarrow> None | Some ps \<Rightarrow> map_option snd (best_image fs ps None))"

section \<open>Where launchers keep covers\<close>

definition first_file :: "Fs \<Rightarrow> string \<Rightarrow> string list \<Rightarrow> string option" where
  "first_file fs dir names = find (fs_file fs) (map (path_join dir) names)"

fun first_some :: "('a \<Rightarrow> 'b option) \<Rightarrow> 'a list \<Rightarrow> 'b option" where
  "first_some f [] = None"
| "first_some f (x # xs) = (case f x of Some y \<Rightarrow> Some y | None \<Rightarrow> first_some f xs)"

definition steam_library_poster :: "Fs \<Rightarrow> string \<Rightarrow> string \<Rightarrow> string option" where
  "steam_library_poster fs steam appid =
     (let cache = path_join (path_join (path_join steam ''appcache'') ''librarycache'') appid
      in case first_file fs cache [''library_600x900_2x.jpg'', ''library_600x900.jpg'', ''library_capsule.jpg''] of
           Some p \<Rightarrow> Some p
         | None \<Rightarrow>
             (case fs_list fs cache of None \<Rightarrow> largest_image_in_dir fs cache
              | Some subs \<Rightarrow>
                  (case first_some (\<lambda>s. if fs_dir fs s then first_file fs s [''library_600x900_2x.jpg'', ''library_600x900.jpg'']
                                        else None) subs of
                     Some p \<Rightarrow> Some p
                   | None \<Rightarrow> largest_image_in_dir fs cache)))"

definition POSTER_NAMES :: "string list" where
  "POSTER_NAMES =
     [''library_600x900_2x.jpg'', ''library_600x900.jpg'', ''poster.jpg'', ''cover.jpg'', ''boxart.jpg'',
      ''SplashScreen.png'', ''LargeLogo.png'', ''Content/Resources/SplashScreen.png'', ''Content/Resources/Logo.png'',
      ''Content/Resources/Square480x480Logo.png'', ''Content/SplashScreen.png'', ''Content/LargeLogo.png'',
      ''Content/Logo.png'', ''media/logos/splash.png'']"

definition install_dir_poster :: "Fs \<Rightarrow> string \<Rightarrow> string option" where
  "install_dir_poster fs dir =
     (if dir = [] \<or> \<not> fs_dir fs dir then None
      else case first_file fs dir POSTER_NAMES of Some p \<Rightarrow> Some p | None \<Rightarrow> largest_image_in_dir fs dir)"

definition windows_path :: "string list \<Rightarrow> string" where "windows_path ps = join [backslash] ps"

definition gog_webcache_poster :: "Fs \<Rightarrow> string \<Rightarrow> string option" where
  "gog_webcache_poster fs game =
     largest_image_in_dir fs (path_join (windows_path [''C:'', ''ProgramData'', ''GOG.com'', ''Galaxy'', ''webcache'']) game)"

definition ubisoft_asset_poster :: "Fs \<Rightarrow> string \<Rightarrow> string option" where
  "ubisoft_asset_poster fs space =
     (case fs_list fs (windows_path [''C:'', ''Program Files (x86)'', ''Ubisoft'', ''Ubisoft Game Launcher'', ''cache'', ''assets'']) of
        None \<Rightarrow> None
      | Some ps \<Rightarrow>
          first_some
            (\<lambda>p. if contains_str (lower (case file_name p of Some n \<Rightarrow> n | None \<Rightarrow> [])) (lower space)
                 then (if fs_file fs p \<and> is_image p then Some p
                       else if fs_dir fs p then largest_image_in_dir fs p else None)
                 else None) ps)"

definition attach_poster :: "Fs \<Rightarrow> string \<Rightarrow> string option \<Rightarrow> string option \<times> string option" where
  "attach_poster fs gid path =
     (case path of
        Some p \<Rightarrow> if fs_file fs p then (Some (''/api/v1/library/poster/'' @ replace_char CHR '':'' ''%3A'' gid), Some p)
                  else (None, None)
      | None \<Rightarrow> (None, None))"

section \<open>The download cache\<close>

record Want =
  wa_id :: string
  wa_name :: string
  wa_appid :: "nat option"

definition art_slug :: "string \<Rightarrow> string" where
  "art_slug s = map (\<lambda>c. if is_alnum c then lower_char c else CHR ''_'') s"

definition MISS_TTL :: nat where "MISS_TTL = 86400"

record ArtCache =
  ar_enabled :: bool
  ar_covers :: "string set"
  ar_misses :: "string \<Rightarrow> nat option"
  ar_in_flight :: "string set"

definition art_cached :: "string \<Rightarrow> ArtCache \<Rightarrow> bool" where "art_cached gid a \<longleftrightarrow> art_slug gid \<in> ar_covers a"
definition art_busy :: "ArtCache \<Rightarrow> bool" where "art_busy a \<longleftrightarrow> ar_in_flight a \<noteq> {}"

definition missed_recently :: "nat \<Rightarrow> string \<Rightarrow> ArtCache \<Rightarrow> bool" where
  "missed_recently now s a =
     (case ar_misses a s of None \<Rightarrow> False
      | Some t \<Rightarrow> (if now < t then MISS_TTL else now - t) < MISS_TTL)"

fun warm_filter :: "nat \<Rightarrow> Want list \<Rightarrow> ArtCache \<Rightarrow> Want list \<times> ArtCache" where
  "warm_filter now [] a = ([], a)"
| "warm_filter now (w # ws) a =
     (let s = art_slug (wa_id w)
      in if \<not> art_cached (wa_id w) a \<and> \<not> missed_recently now s a \<and> s \<notin> ar_in_flight a
         then let (todo, a') = warm_filter now ws (a\<lparr>ar_in_flight := insert s (ar_in_flight a)\<rparr>) in (w # todo, a')
         else warm_filter now ws a)"

definition warm :: "nat \<Rightarrow> Want list \<Rightarrow> ArtCache \<Rightarrow> Want list \<times> ArtCache" where
  "warm now wants a = (if ar_enabled a then warm_filter now wants a else ([], a))"

section \<open>Matching a name\<close>

definition norm_word :: "string \<Rightarrow> string" where
  "norm_word w =
     (if w = ''i'' then ''1'' else if w = ''ii'' then ''2'' else if w = ''iii'' then ''3'' else if w = ''iv'' then ''4''
      else if w = ''v'' then ''5'' else if w = ''vi'' then ''6'' else if w = ''vii'' then ''7'' else if w = ''viii'' then ''8''
      else if w = ''ix'' then ''9'' else if w = ''x'' then ''10'' else w)"

definition words_of :: "string \<Rightarrow> string list" where
  "words_of s = filter (\<lambda>w. w \<noteq> []) (split_on CHR '' '' (map (\<lambda>c. if is_alnum c then lower_char c else CHR '' '') s))"

definition norm_name :: "string \<Rightarrow> string" where "norm_name s = join '' '' (map norm_word (words_of s))"

definition EXTRA :: "string list" where
  "EXTRA = [''dlc'', ''bundle'', ''pack'', ''season pass'', ''soundtrack'', ''edition'', ''upgrade'', ''starter pack'', ''battle pass'']"

definition match_score :: "string \<Rightarrow> string \<times> string \<times> nat \<Rightarrow> nat" where
  "match_score q item =
     (case item of (kind, name, _) \<Rightarrow>
        let n = norm_name name in
        if kind \<noteq> ''app'' \<or> list_ex (\<lambda>w. contains_str n w \<and> \<not> contains_str q w) EXTRA then 0
        else if n = q then 100
        else if starts_with n q \<or> starts_with q n then 60
        else if contains_str n q \<or> contains_str q n then 30
        else 0)"

fun pick_best :: "string \<Rightarrow> (string \<times> string \<times> nat) list \<Rightarrow> (nat \<times> nat) option \<Rightarrow> (nat \<times> nat) option" where
  "pick_best q [] best = best"
| "pick_best q (it # its) best =
     (let s = match_score q it in
      if s = 0 then pick_best q its best
      else pick_best q its (if (case best of None \<Rightarrow> True | Some (b, _) \<Rightarrow> b < s) then Some (s, snd (snd it)) else best))"

definition pick_appid :: "string \<Rightarrow> (string \<times> string \<times> nat) list \<Rightarrow> nat option" where
  "pick_appid query items = map_option snd (pick_best (norm_name query) items None)"

section \<open>Fetching\<close>

text \<open>
  One fetch: \<open>search\<close> is the result list of the store search if it answered, \<open>got\<close> says for a file
  name whether an image of more than 512 bytes came back, \<open>written\<close> whether it could be stored.
\<close>

definition fetch_one ::
  "nat \<Rightarrow> (string \<times> string \<times> nat) list option \<Rightarrow> (nat \<Rightarrow> string \<Rightarrow> bool) \<Rightarrow> (string \<Rightarrow> bool) \<Rightarrow> Want \<Rightarrow> ArtCache \<Rightarrow> ArtCache" where
  "fetch_one now search got written w a =
     (let s = art_slug (wa_id w);
          appid = (case wa_appid w of Some i \<Rightarrow> Some i
                   | None \<Rightarrow> (case search of None \<Rightarrow> None | Some items \<Rightarrow> pick_appid (wa_name w) items));
          miss = a\<lparr>ar_misses := (ar_misses a)(s \<mapsto> now)\<rparr>
      in case appid of None \<Rightarrow> miss
         | Some i \<Rightarrow>
             if list_ex (\<lambda>f. got i f \<and> written f) [''library_600x900_2x.jpg'', ''library_600x900.jpg'']
             then a\<lparr>ar_covers := insert s (ar_covers a), ar_misses := (ar_misses a)(s := None)\<rparr>
             else miss)"

definition fetch_done :: "Want \<Rightarrow> ArtCache \<Rightarrow> ArtCache" where
  "fetch_done w a = a\<lparr>ar_in_flight := ar_in_flight a - {art_slug (wa_id w)}\<rparr>"

section \<open>Lemmas\<close>

text \<open>A segment that carries no frame header: marker, length and payload.\<close>

record Segment =
  sg_marker :: u8
  sg_payload :: bytes

definition plain_segment :: "Segment \<Rightarrow> bool" where
  "plain_segment s \<longleftrightarrow>
     \<not> bare_marker (sg_marker s) \<and> \<not> is_sof (sg_marker s) \<and> sg_marker s \<noteq> 0xDA \<and> length (sg_payload s) + 2 < 65536"

definition segment_bytes :: "Segment \<Rightarrow> bytes" where
  "segment_bytes s = [0xFF, sg_marker s] @ be_bytes 2 (length (sg_payload s) + 2) @ sg_payload s"

definition sof_bytes :: "u8 \<Rightarrow> nat \<Rightarrow> u8 \<Rightarrow> nat \<Rightarrow> nat \<Rightarrow> bytes" where
  "sof_bytes m len precision h w = [0xFF, m] @ be_bytes 2 len @ [precision] @ be_bytes 2 h @ be_bytes 2 w"

lemma be_nat_be2: "n < 65536 \<Longrightarrow> be_nat (be_bytes 2 n) = n"
  by (simp add: be_nat_be_bytes)

lemma jpeg_sof:
  assumes "is_sof m" "w < 65536" "h < 65536"
  shows "jpeg_scan (pre @ sof_bytes m len precision h w @ r) (length pre) = Some (w, h)"
proof -
  let ?b = "pre @ sof_bytes m len precision h w @ r"
  have n: "\<not> bare_marker m" using assms(1) by (auto simp: is_sof_def bare_marker_def word_le_nat_alt)
  have l: "length pre + 9 \<le> length ?b" by (simp add: sof_bytes_def)
  have "?b ! length pre = 0xFF" "?b ! (length pre + 1) = m" by (simp_all add: sof_bytes_def nth_append)
  moreover have "take 2 (drop (length pre + 5) ?b) = be_bytes 2 h" "take 2 (drop (length pre + 7) ?b) = be_bytes 2 w"
    by (simp_all add: sof_bytes_def)
  ultimately show ?thesis
    using n l assms by (subst jpeg_scan.simps) (simp add: be_nat_be2 Let_def)
qed

lemma jpeg_skip:
  assumes "plain_segment s"
  shows "jpeg_scan (pre @ segment_bytes s @ r) (length pre) = jpeg_scan (pre @ segment_bytes s @ r) (length (pre @ segment_bytes s))"
proof -
  let ?b = "pre @ segment_bytes s @ r"
  have "?b ! length pre = 0xFF" "?b ! (length pre + 1) = sg_marker s" by (simp_all add: segment_bytes_def nth_append)
  moreover have "take 2 (drop (length pre + 2) ?b) = be_bytes 2 (length (sg_payload s) + 2)" by (simp add: segment_bytes_def)
  moreover have "be_nat (be_bytes 2 (length (sg_payload s) + 2)) = length (sg_payload s) + 2"
    using assms by (intro be_nat_be2) (simp add: plain_segment_def)
  moreover have "\<not> length ?b < length pre + 4" by (simp add: segment_bytes_def)
  ultimately have "jpeg_scan ?b (length pre) = jpeg_scan ?b (length pre + 2 + (length (sg_payload s) + 2))"
    using assms by (subst jpeg_scan.simps) (simp add: plain_segment_def Let_def)
  moreover have "length pre + 2 + (length (sg_payload s) + 2) = length (pre @ segment_bytes s)" by (simp add: segment_bytes_def)
  ultimately show ?thesis by (simp only:)
qed

lemma jpeg_segments:
  assumes "list_all plain_segment ss" "is_sof m" "w < 65536" "h < 65536"
  shows "jpeg_scan (pre @ concat (map segment_bytes ss) @ sof_bytes m len precision h w @ r) (length pre) = Some (w, h)"
  using assms(1)
proof (induction ss arbitrary: pre)
  case Nil
  then show ?case using jpeg_sof [OF assms(2-4)] by simp
next
  case (Cons s ss)
  have "jpeg_scan (pre @ segment_bytes s @ concat (map segment_bytes ss) @ sof_bytes m len precision h w @ r) (length pre)
      = jpeg_scan ((pre @ segment_bytes s) @ concat (map segment_bytes ss) @ sof_bytes m len precision h w @ r)
          (length (pre @ segment_bytes s))"
    using jpeg_skip [of s pre "concat (map segment_bytes ss) @ sof_bytes m len precision h w @ r"] Cons.prems by simp
  then show ?case using Cons.IH [of "pre @ segment_bytes s"] Cons.prems by simp
qed

text \<open>A fill byte before a marker, which the format allows, is read as a marker of its own.\<close>

lemma jpeg_fill_byte:
  "image_dims ([0xFF, 0xD8, 0xFF] @ sof_bytes 0xC0 8 8 900 600) = None"
proof -
  have b: "be_bytes 2 8 = [0, 8]" "be_bytes 2 900 = [3, 132]" "be_bytes 2 600 = [2, 88]" by code_simp+
  have n: "be_nat [0xC0, 0] = 49152" by code_simp
  show ?thesis
    unfolding image_dims_def sof_bytes_def b
    by (subst jpeg_scan.simps; subst jpeg_scan.simps)
       (simp add: PNG_SIGNATURE_def bare_marker_def is_sof_def Let_def n)
qed

lemma best_image_spec:
  "(case best_image fs ps best of
      None \<Rightarrow> best = None \<and> list_all (\<lambda>p. \<not> plausible_cover fs p) ps
    | Some (s, q) \<Rightarrow>
        (Some (s, q) = best \<or> q \<in> set ps \<and> plausible_cover fs q \<and> s = fs_len fs q)
        \<and> (case best of Some (b, _) \<Rightarrow> b \<le> s | None \<Rightarrow> True)
        \<and> (\<forall>p \<in> set ps. plausible_cover fs p \<longrightarrow> fs_len fs p \<le> s))"
proof (induction fs ps best rule: best_image.induct)
  case (2 fs p ps best)
  then show ?case
    by (cases "plausible_cover fs p"; cases best) (auto split: option.splits if_splits prod.splits)
qed (auto split: option.splits)

lemma pick_best_spec:
  "(case pick_best q its best of
      None \<Rightarrow> best = None \<and> list_all (\<lambda>it. match_score q it = 0) its
    | Some (s, i) \<Rightarrow>
        (Some (s, i) = best \<or> (\<exists>it \<in> set its. match_score q it = s \<and> snd (snd it) = i \<and> 0 < s))
        \<and> (case best of Some (b, _) \<Rightarrow> b \<le> s | None \<Rightarrow> True)
        \<and> (\<forall>it \<in> set its. match_score q it \<le> s))"
proof (induction q its best rule: pick_best.induct)
  case (2 q it its best)
  let ?s = "match_score q it"
  show ?case
  proof (cases "?s = 0")
    case True
    then show ?thesis using 2(1) [OF refl True] by (auto split: option.splits)
  next
    case False
    define b where "b = (if (case best of None \<Rightarrow> True | Some (b, _) \<Rightarrow> b < ?s) then Some (?s, snd (snd it)) else best)"
    have e: "pick_best q (it # its) best = pick_best q its b" using False by (simp add: b_def Let_def)
    have IH: "case pick_best q its b of
        None \<Rightarrow> b = None \<and> list_all (\<lambda>it. match_score q it = 0) its
      | Some (s, i) \<Rightarrow>
          (Some (s, i) = b \<or> (\<exists>it \<in> set its. match_score q it = s \<and> snd (snd it) = i \<and> 0 < s))
          \<and> (case b of Some (b, _) \<Rightarrow> b \<le> s | None \<Rightarrow> True)
          \<and> (\<forall>it \<in> set its. match_score q it \<le> s)"
      using 2(2) [OF refl False] unfolding b_def .
    have bb: "b \<noteq> None" "\<And>x y. b = Some (x, y) \<Longrightarrow> ?s \<le> x \<and> (case best of Some (c, _) \<Rightarrow> c \<le> x | None \<Rightarrow> True)
        \<and> (Some (x, y) = best \<or> x = ?s \<and> y = snd (snd it))"
      using False by (auto simp: b_def split: option.splits if_splits)
    show ?thesis unfolding e using IH bb False by (auto split: option.splits prod.splits)
  qed
qed (auto split: option.splits)

lemma in_flight_irrelevant [simp]:
  "art_cached gid (a\<lparr>ar_in_flight := f\<rparr>) = art_cached gid a"
  "missed_recently now s (a\<lparr>ar_in_flight := f\<rparr>) = missed_recently now s a"
  by (simp_all add: art_cached_def missed_recently_def)

lemma warm_filter_spec:
  "warm_filter now ws a = (todo, a') \<Longrightarrow>
     distinct (map (art_slug \<circ> wa_id) todo) \<and> set todo \<subseteq> set ws
     \<and> (\<forall>w \<in> set todo. \<not> art_cached (wa_id w) a \<and> art_slug (wa_id w) \<notin> ar_in_flight a)
     \<and> ar_in_flight a' = ar_in_flight a \<union> (art_slug \<circ> wa_id) ` set todo
     \<and> ar_covers a' = ar_covers a \<and> ar_misses a' = ar_misses a
     \<and> (\<forall>w \<in> set ws. art_cached (wa_id w) a \<or> missed_recently now (art_slug (wa_id w)) a \<or> art_slug (wa_id w) \<in> ar_in_flight a')"
proof (induction now ws a arbitrary: todo a' rule: warm_filter.induct)
  case (2 now w ws a)
  let ?s = "art_slug (wa_id w)"
  let ?c = "\<not> art_cached (wa_id w) a \<and> \<not> missed_recently now ?s a \<and> ?s \<notin> ar_in_flight a"
  show ?case
  proof (cases ?c)
    case True
    let ?a = "a\<lparr>ar_in_flight := insert ?s (ar_in_flight a)\<rparr>"
    obtain t x where t: "warm_filter now ws ?a = (t, x)" by fastforce
    then have e: "todo = w # t" "a' = x" using "2.prems" True by (simp_all add: Let_def)
    show ?thesis
      using "2.IH"(1) [OF refl True t] True unfolding e by auto
  next
    case False
    then have "warm_filter now ws a = (todo, a')" using "2.prems" by (auto simp: Let_def)
    from "2.IH"(2) [OF refl False this] False show ?thesis by auto
  qed
qed auto

lemma fetch_done_all: "ar_in_flight (fold fetch_done ws a) = ar_in_flight a - (art_slug \<circ> wa_id) ` set ws"
  by (induction ws arbitrary: a) (auto simp: fetch_done_def)

text \<open>Two items whose ids differ only in punctuation share one cached cover.\<close>

lemma art_slug_shared: "art_cached ''gog:a.b'' a = art_cached ''gog:a-b'' a"
proof -
  have "art_slug ''gog:a.b'' = art_slug ''gog:a-b''" by code_simp
  then show ?thesis by (simp add: art_cached_def)
qed

text \<open>A name without letters and digits matches the first plain entry of any answer.\<close>

lemma empty_name_matches: "pick_appid ''?!'' [(''app'', ''Portal'', 400)] = Some 400"
  by code_simp

section \<open>Properties\<close>

text \<open>The header parser reads the size a file states: the two numbers of a PNG's first chunk, and for a
  JPEG those of its frame header, past any number of other segments of any content.\<close>
theorem image_dims_exact:
  assumes "list_all plain_segment ss" "is_sof m" "w < 65536" "h < 65536" "length kind = 4"
  shows "image_dims ([0xFF, 0xD8] @ concat (map segment_bytes ss) @ sof_bytes m len precision h w @ rest) = Some (w, h)
    \<and> image_dims (PNG_SIGNATURE @ be_bytes 4 13 @ kind @ be_bytes 4 w @ be_bytes 4 h @ rest) = Some (w, h)"
proof
  let ?b = "[0xFF, 0xD8] @ concat (map segment_bytes ss) @ sof_bytes m len precision h w @ rest"
  have "jpeg_scan ?b (length [0xFF, 0xD8 :: u8]) = Some (w, h)" by (rule jpeg_segments [OF assms(1-4)])
  moreover have "4 \<le> length ?b" "take 2 ?b = [0xFF, 0xD8]" "take 8 ?b \<noteq> PNG_SIGNATURE"
    by (auto simp: sof_bytes_def PNG_SIGNATURE_def)
  ultimately show "image_dims ?b = Some (w, h)" by (simp add: image_dims_def numeral_2_eq_2)
  have "be_nat (be_bytes 4 w) = w" "be_nat (be_bytes 4 h) = h" using assms(3,4) by (simp_all add: be_nat_be_bytes)
  then show "image_dims (PNG_SIGNATURE @ be_bytes 4 13 @ kind @ be_bytes 4 w @ be_bytes 4 h @ rest) = Some (w, h)"
    using assms(5) by (simp add: image_dims_def PNG_SIGNATURE_def)
qed

theorem image_dims_exact_witness:
  "image_dims ([0xFF, 0xD8] @ segment_bytes \<lparr>sg_marker = 0xE0, sg_payload = [0xFF, 0xC0]\<rparr> @ sof_bytes 0xC2 17 8 900 600) = Some (600, 900)"
  using image_dims_exact [where ss = "[\<lparr>sg_marker = 0xE0, sg_payload = [0xFF, 0xC0]\<rparr>]" and m = "0xC2" and w = 600 and h = 900
      and len = 17 and precision = 8 and rest = "[]" and kind = "[0x49, 0x48, 0x44, 0x52]"]
  by (simp add: plain_segment_def bare_marker_def is_sof_def)

text \<open>The cover taken from a folder is the largest plausible image in it: an image file whose stated size,
  if it can be read, is at least 200 high and not landscape; none is taken only when there is none.\<close>
theorem folder_cover_largest:
  assumes "fs_dir fs dir" "fs_list fs dir = Some ps"
  shows "(case largest_image_in_dir fs dir of
      None \<Rightarrow> list_all (\<lambda>p. \<not> plausible_cover fs p) ps
    | Some q \<Rightarrow> q \<in> set ps \<and> plausible_cover fs q
        \<and> list_all (\<lambda>p. fs_len fs p \<le> fs_len fs q) (filter (plausible_cover fs) ps))"
  using best_image_spec [where fs = fs and ps = ps and best = None] assms
  by (auto simp: largest_image_in_dir_def list_all_iff split: option.splits)

theorem folder_cover_largest_witness:
  "largest_image_in_dir
     \<lparr>fs_list = (\<lambda>_. Some []), fs_dir = (\<lambda>_. True), fs_file = (\<lambda>_. True), fs_bytes = (\<lambda>_. None), fs_text = (\<lambda>_. None),
      fs_len = length\<rparr> ''d'' = None"
  using folder_cover_largest [of "\<lparr>fs_list = (\<lambda>_. Some []), fs_dir = (\<lambda>_. True), fs_file = (\<lambda>_. True), fs_bytes = (\<lambda>_. None),
      fs_text = (\<lambda>_. None), fs_len = length\<rparr>" "''d''" "[]"]
  by (auto split: option.splits)

text \<open>The store entry chosen for a name is one of the best matches of the answer: an application, no
  edition or extra the name did not ask for, and of the highest score there is; an entry whose
  normalised name is equal always beats one that merely contains the name.\<close>
theorem picked_app_is_best:
  "(case pick_appid query items of
      None \<Rightarrow> list_all (\<lambda>it. match_score (norm_name query) it = 0) items
    | Some i \<Rightarrow> list_ex (\<lambda>it. snd (snd it) = i \<and> fst it = ''app'' \<and> 0 < match_score (norm_name query) it
        \<and> list_all (\<lambda>it'. match_score (norm_name query) it' \<le> match_score (norm_name query) it) items) items)"
proof (cases "pick_best (norm_name query) items None")
  case None
  then show ?thesis using pick_best_spec [where q = "norm_name query" and its = items and best = None] by (simp add: pick_appid_def)
next
  case (Some r)
  obtain s i where r: "r = (s, i)" by (cases r)
  then obtain it where it: "it \<in> set items" "match_score (norm_name query) it = s" "snd (snd it) = i" "0 < s"
      "\<forall>it \<in> set items. match_score (norm_name query) it \<le> s"
    using pick_best_spec [where q = "norm_name query" and its = items and best = None] Some by auto
  then have "fst it = ''app''" by (auto simp: match_score_def Let_def split: prod.splits if_splits)
  then show ?thesis using it Some r by (auto simp: pick_appid_def list_ex_iff list_all_iff)
qed

text \<open>Covers are not fetched twice at a time: a pass takes each cache name at most once, none that is
  cached or already under way, leaves no wanted cover out that is not cached, recently missed or under
  way; and when the pass is through, the set of fetches under way is what it was.\<close>
theorem warm_pass_once:
  assumes "ar_enabled a" "warm now wants a = (todo, a')"
  shows "distinct (map (art_slug \<circ> wa_id) todo)
    \<and> list_all (\<lambda>w. \<not> art_cached (wa_id w) a \<and> art_slug (wa_id w) \<notin> ar_in_flight a) todo
    \<and> list_all (\<lambda>w. art_cached (wa_id w) a \<or> missed_recently now (art_slug (wa_id w)) a \<or> art_slug (wa_id w) \<in> ar_in_flight a') wants
    \<and> ar_in_flight (fold fetch_done todo a') = ar_in_flight a"
proof -
  have "warm_filter now wants a = (todo, a')" using assms by (simp add: warm_def)
  from warm_filter_spec [OF this] show ?thesis by (auto simp: list_all_iff fetch_done_all)
qed

theorem warm_pass_once_witness:
  "distinct (map (art_slug \<circ> wa_id) (fst (warm 5 [\<lparr>wa_id = ''steam:1'', wa_name = ''A'', wa_appid = None\<rparr>]
     \<lparr>ar_enabled = True, ar_covers = {}, ar_misses = Map.empty, ar_in_flight = {}\<rparr>)))"
  using warm_pass_once [of "\<lparr>ar_enabled = True, ar_covers = {}, ar_misses = Map.empty, ar_in_flight = {}\<rparr>" 5
      "[\<lparr>wa_id = ''steam:1'', wa_name = ''A'', wa_appid = None\<rparr>]", OF _ surjective_pairing]
  by simp

end
