(* ===== verification/GameLibrary.thy ===== *)
theory GameLibrary
  imports CoverArt "HOL-Library.List_Lexorder" "HOL-Library.Char_ord"
begin

text \<open>
  The game library (\<open>crates/host/src/platform/windows/games.rs\<close>): one scanner per launcher, the merged
  list and launching an entry. The file system, the registry and the JSON reader are arguments; a JSON
  object is the list of its members in key order. Text and paths are the ones of \<open>GameText\<close>.
\<close>

section \<open>Entries\<close>

record GameInfo =
  gi_id :: string
  gi_name :: string
  gi_source :: string
  gi_steam_app_id :: "nat option"
  gi_epic_catalog_id :: "string option"
  gi_install_dir :: string
  gi_exe_name :: "string option"
  gi_poster_url :: "string option"
  gi_poster_path :: "string option"
  gi_last_played :: "nat option"

datatype json = VOther | VStr string | VArr "json list" | VObj "(string \<times> json) list"

fun jget :: "json \<Rightarrow> string \<Rightarrow> json option" where
  "jget (VObj ms) k = map_of ms k"
| "jget _ k = None"

fun as_str :: "json \<Rightarrow> string option" where
  "as_str (VStr s) = Some s"
| "as_str _ = None"

fun as_array :: "json \<Rightarrow> json list option" where
  "as_array (VArr xs) = Some xs"
| "as_array _ = None"

fun as_object :: "json \<Rightarrow> (string \<times> json) list option" where
  "as_object (VObj ms) = Some ms"
| "as_object _ = None"

text \<open>The first of the keys that is present, read as a string.\<close>

definition jstr :: "json \<Rightarrow> string list \<Rightarrow> string option" where
  "jstr v ks = Option.bind (first_some (jget v) ks) as_str"

record UninstallEntry =
  un_display_name :: string
  un_install_location :: string
  un_publisher :: string
  un_display_icon :: "string option"
  un_uninstall_string :: "string option"
  un_system_component :: bool
  un_parent_key :: "string option"

record Machine =
  ma_fs :: Fs
  ma_json :: "string \<Rightarrow> json option"
  ma_uninstall :: "UninstallEntry list"
  ma_steam :: "string option"
  ma_gog :: "string list option"
  ma_appx :: "string list"
  ma_sha256 :: "string \<Rightarrow> bytes"

definition read_json :: "Machine \<Rightarrow> string \<Rightarrow> json option" where
  "read_json m p = Option.bind (fs_text (ma_fs m) p) (ma_json m)"

definition game :: "string \<Rightarrow> string \<Rightarrow> string \<Rightarrow> string \<Rightarrow> string option \<Rightarrow> string option \<times> string option \<Rightarrow> GameInfo" where
  "game gid name source dir exe poster =
     \<lparr>gi_id = gid, gi_name = name, gi_source = source, gi_steam_app_id = None, gi_epic_catalog_id = None,
      gi_install_dir = dir, gi_exe_name = exe, gi_poster_url = fst poster, gi_poster_path = snd poster, gi_last_played = None\<rparr>"

definition or_else :: "'a option \<Rightarrow> 'a option \<Rightarrow> 'a option" where
  "or_else a b = (case a of Some x \<Rightarrow> Some x | None \<Rightarrow> b)"

definition unwrap_or :: "'a \<Rightarrow> 'a option \<Rightarrow> 'a" where
  "unwrap_or d a = (case a of Some x \<Rightarrow> x | None \<Rightarrow> d)"

section \<open>Steam\<close>

definition parse_steam_manifest :: "Machine \<Rightarrow> string \<Rightarrow> string \<Rightarrow> GameInfo option" where
  "parse_steam_manifest m lib path =
     (case fs_text (ma_fs m) path of None \<Rightarrow> None
      | Some s \<Rightarrow> (case (vdf_field s ''appid'', vdf_field s ''name'') of
          (Some appid, Some name) \<Rightarrow>
            if name = [] \<or> name = ''Steamworks Common Redistributables'' then None
            else let installdir = unwrap_or [] (vdf_field s ''installdir'');
                     gid = ''steam:'' @ appid;
                     install = path_join (path_join (path_join lib ''steamapps'') ''common'') installdir;
                     poster = attach_poster (ma_fs m) gid
                       (or_else (steam_library_poster (ma_fs m) lib appid) (install_dir_poster (ma_fs m) install))
                 in map_option (\<lambda>a. (game gid name ''steam'' installdir None poster)\<lparr>gi_steam_app_id := Some a\<rparr>)
                      (parse_uint u32_max appid)
        | _ \<Rightarrow> None))"

definition steam_library_paths :: "Machine \<Rightarrow> string list" where
  "steam_library_paths m =
     (case ma_steam m of None \<Rightarrow> []
      | Some steam \<Rightarrow>
          (case fs_text (ma_fs m) (path_join (path_join steam ''steamapps'') ''libraryfolders.vdf'') of None \<Rightarrow> []
           | Some s \<Rightarrow>
               List.map_filter
                 (\<lambda>l. Option.bind (strip_prefix ([quote] @ ''path'' @ [quote]) (trim_str l))
                        (\<lambda>rest. map_option unescape_slashes (parse_vdf_quoted_value rest)))
                 (text_lines s)))"

definition is_app_manifest :: "string \<Rightarrow> bool" where
  "is_app_manifest p \<longleftrightarrow>
     (case file_name p of Some n \<Rightarrow> starts_with n ''appmanifest_'' \<and> ends_with n ''.acf'' | None \<Rightarrow> False)"

definition scan_steam :: "Machine \<Rightarrow> GameInfo list" where
  "scan_steam m =
     concat (map
       (\<lambda>lib. case fs_list (ma_fs m) (path_join lib ''steamapps'') of None \<Rightarrow> []
              | Some ps \<Rightarrow> List.map_filter (parse_steam_manifest m lib) (filter is_app_manifest ps))
       ((case ma_steam m of Some p \<Rightarrow> [p] | None \<Rightarrow> []) @ steam_library_paths m))"

section \<open>Epic\<close>

definition epic_poster :: "json \<Rightarrow> string option" where
  "epic_poster v =
     (case Option.bind (jget v ''KeyImages'') as_array of None \<Rightarrow> None
      | Some images \<Rightarrow>
          (case first_some
             (\<lambda>pref. first_some (\<lambda>img. if jstr img [''Type''] = Some pref then jstr img [''Url''] else None) images)
             [''DieselGameBoxWide'', ''DieselGameBox'', ''Thumbnail''] of
             Some url \<Rightarrow> Some url
           | None \<Rightarrow> (case images of img # _ \<Rightarrow> jstr img [''Url''] | [] \<Rightarrow> None)))"

definition parse_epic_manifest :: "Machine \<Rightarrow> string \<Rightarrow> GameInfo option" where
  "parse_epic_manifest m path =
     (case read_json m path of None \<Rightarrow> None
      | Some v \<Rightarrow> (case jstr v [''DisplayName''] of None \<Rightarrow> None
      | Some raw \<Rightarrow>
          (let name = trim_str raw in
           if name = [] then None
           else let catalog = unwrap_or [] (jstr v [''CatalogItemId'']);
                    gid = (if catalog = [] then ''epic:'' @ slug name else ''epic:'' @ catalog);
                    dir = unwrap_or [] (jstr v [''InstallLocation'']);
                    poster = attach_poster (ma_fs m) gid
                      (install_dir_poster (ma_fs m) (replace_char CHR ''/'' [backslash] dir));
                    url = or_else (fst poster) (epic_poster v)
                in Some ((game gid name ''epic'' dir (jstr v [''LaunchExecutable'']) (url, snd poster))
                           \<lparr>gi_epic_catalog_id := (if catalog = [] then None else Some catalog)\<rparr>))))"

definition scan_epic :: "Machine \<Rightarrow> GameInfo list" where
  "scan_epic m =
     (case fs_list (ma_fs m) (windows_path [''C:'', ''ProgramData'', ''Epic'', ''EpicGamesLauncher'', ''Data'', ''Manifests'']) of
        None \<Rightarrow> []
      | Some ps \<Rightarrow> List.map_filter (parse_epic_manifest m) (filter (\<lambda>p. extension p = Some ''item'') ps))"

section \<open>GOG\<close>

definition parse_gog_info :: "Machine \<Rightarrow> string \<Rightarrow> GameInfo option" where
  "parse_gog_info m path =
     (case read_json m path of None \<Rightarrow> None
      | Some v \<Rightarrow> (case jstr v [''name'', ''gameName''] of None \<Rightarrow> None
      | Some raw \<Rightarrow>
          (let name = trim_str raw in
           if name = [] then None
           else let game_id = unwrap_or name
                      (or_else (jstr v [''gameId'', ''rootGameId'']) (Option.bind (file_stem path) (strip_prefix ''goggame-'')));
                    dir = (case jstr v [''installDirectory'', ''path''] of
                             Some s \<Rightarrow> unescape_slashes s | None \<Rightarrow> path_parent path);
                    exe = Option.bind (Option.bind (jget v ''playTasks'') as_array)
                      (\<lambda>ts. case ts of t # _ \<Rightarrow> Option.bind (jstr t [''path'']) file_name | [] \<Rightarrow> None);
                    gid = ''gog:'' @ game_id;
                    poster = attach_poster (ma_fs m) gid
                      (or_else (or_else (gog_webcache_poster (ma_fs m) game_id) (install_dir_poster (ma_fs m) dir))
                        (install_dir_poster (ma_fs m) (path_parent path)))
                in Some (game gid name ''gog'' dir exe poster))))"

definition is_gog_info :: "string \<Rightarrow> bool" where
  "is_gog_info p \<longleftrightarrow>
     (case file_name p of Some n \<Rightarrow> starts_with n ''goggame-'' \<and> ends_with n ''.info'' | None \<Rightarrow> False)"

fun push_unseen :: "GameInfo list \<Rightarrow> GameInfo list \<times> string set \<Rightarrow> GameInfo list \<times> string set" where
  "push_unseen [] acc = acc"
| "push_unseen (g # gs) (out, seen) =
     push_unseen gs (if gi_id g \<in> seen then (out, seen) else (out @ [g], insert (gi_id g) seen))"

text \<open>The information files of a folder and of its direct subfolders, in listing order.\<close>

definition gog_files :: "Fs \<Rightarrow> string \<Rightarrow> string list" where
  "gog_files fs dir =
     (case fs_list fs dir of None \<Rightarrow> []
      | Some ps \<Rightarrow> filter is_gog_info
          (concat (map (\<lambda>p. if fs_dir fs p then (case fs_list fs p of Some qs \<Rightarrow> qs | None \<Rightarrow> []) else [p]) ps)))"

definition scan_gog :: "Machine \<Rightarrow> GameInfo list" where
  "scan_gog m =
     (let roots = (case ma_gog m of Some ps \<Rightarrow> ps | None \<Rightarrow> [])
                  @ map (\<lambda>d. windows_path [d, ''GOG Games'']) [''C:'', ''D:'', ''E:''];
          dirs = concat (map (\<lambda>r. if fs_dir (ma_fs m) r
                   then r # (let g = path_join r ''Games'' in if fs_dir (ma_fs m) g then [g] else []) else []) roots)
      in fst (push_unseen (List.map_filter (parse_gog_info m) (concat (map (gog_files (ma_fs m)) dirs))) ([], {})))"

section \<open>Xbox\<close>

definition HASH_ALPHABET :: string where "HASH_ALPHABET = ''0123456789abcdefghjkmnpqrstvwxyz''"

text \<open>UTF-16, little endian, of ASCII text.\<close>

definition package_family_hash :: "Machine \<Rightarrow> string \<Rightarrow> string" where
  "package_family_hash m publisher =
     (let bits = be_nat (take 8 (ma_sha256 m publisher)) * 2
      in map (\<lambda>i. HASH_ALPHABET ! (bits div 2 ^ (60 - 5 * i) mod 32)) [0..<13])"

definition xbox_family_name :: "Machine \<Rightarrow> string \<Rightarrow> string option" where
  "xbox_family_name m identity =
     (case find (\<lambda>f. starts_with f (identity @ ''_'')) (ma_appx m) of None \<Rightarrow> None
      | Some full \<Rightarrow>
          (let hash = last (split_on CHR ''_'' full) in if hash = [] then None else Some (identity @ ''_'' @ hash)))"

definition parse_xbox_manifest :: "Machine \<Rightarrow> string \<Rightarrow> string \<Rightarrow> GameInfo option" where
  "parse_xbox_manifest m path dir =
     (case fs_text (ma_fs m) path of None \<Rightarrow> None
      | Some s \<Rightarrow> (case xbox_application s of None \<Rightarrow> None
      | Some (app_id, _) \<Rightarrow> (case xbox_tag_attr s ''<Identity'' ''Name'' of None \<Rightarrow> None
      | Some identity \<Rightarrow>
          (let publisher = xbox_tag_attr s ''<Identity'' ''Publisher'';
               stated = (case or_else (xml_element_text s ''DisplayName'') (xbox_tag_attr s ''<uap:VisualElements'' ''DisplayName'') of
                           Some n \<Rightarrow> (let t = trim_str n in if t \<noteq> [] \<and> \<not> starts_with t ''ms-resource:'' then Some t else None)
                         | None \<Rightarrow> None)
           in case or_else stated (file_name dir) of None \<Rightarrow> None
              | Some raw \<Rightarrow>
                  (let name = trim_str raw in
                   if name = [] then None
                   else let gid = ''xbox:'' @ identity;
                            family = (case publisher of
                                        Some p \<Rightarrow> Some (identity @ ''_'' @ package_family_hash m p)
                                      | None \<Rightarrow> xbox_family_name m identity);
                            launch = map_option (\<lambda>f. f @ ''!'' @ app_id) family
                        in Some (game gid name ''xbox'' dir launch
                             (attach_poster (ma_fs m) gid (install_dir_poster (ma_fs m) dir))))))))"

definition scan_xbox :: "Machine \<Rightarrow> GameInfo list" where
  "scan_xbox m =
     concat (map
       (\<lambda>drive. case fs_list (ma_fs m) (windows_path [[drive, CHR '':''], ''XboxGames'']) of None \<Rightarrow> []
                | Some ps \<Rightarrow> List.map_filter
                    (\<lambda>d. parse_xbox_manifest m (path_join (path_join d ''Content'') ''appxmanifest.xml'') d)
                    (filter (fs_dir (ma_fs m)) ps))
       ''CDEFGHIJKLMNOPQRSTUVWXYZ'')"

section \<open>Installed programs\<close>

definition game_from_uninstall :: "Machine \<Rightarrow> string \<Rightarrow> UninstallEntry \<Rightarrow> GameInfo option" where
  "game_from_uninstall m source e =
     (let name = trim_str (un_display_name e) in
      if name = [] \<or> is_junk_name name then None
      else let dir = un_install_location e;
               exe = Option.bind (or_else (un_display_icon e) (un_uninstall_string e)) exe_from_path;
               gid = source @ '':'' @ slug name
           in Some (game gid name source dir exe (attach_poster (ma_fs m) gid (install_dir_poster (ma_fs m) dir))))"

definition looks_like_game :: "UninstallEntry \<Rightarrow> bool" where
  "looks_like_game e \<longleftrightarrow>
     list_ex (contains_str (lower (un_publisher e))) PUBLISHERS
     \<or> list_ex (contains_str (lower (un_install_location e))) GAME_FOLDERS"

definition from_uninstall :: "Machine \<Rightarrow> string \<Rightarrow> (UninstallEntry \<Rightarrow> bool) \<Rightarrow> GameInfo list" where
  "from_uninstall m source P = List.map_filter (game_from_uninstall m source) (filter P (ma_uninstall m))"

definition scan_battlenet :: "Machine \<Rightarrow> GameInfo list" where
  "scan_battlenet m = from_uninstall m ''battlenet'' (\<lambda>e. is_battlenet_publisher (un_publisher e))"

definition scan_registry_games :: "Machine \<Rightarrow> GameInfo list" where
  "scan_registry_games m =
     from_uninstall m ''registry''
       (\<lambda>e. \<not> un_system_component e \<and> un_parent_key e = None \<and> looks_like_game e)"

section \<open>Ubisoft, EA, Riot, Amazon\<close>

definition parse_ubisoft_config :: "Machine \<Rightarrow> string \<Rightarrow> GameInfo option" where
  "parse_ubisoft_config m path =
     (case read_json m path of None \<Rightarrow> None
      | Some v \<Rightarrow> (case jstr v [''displayName'', ''name''] of None \<Rightarrow> None
      | Some raw \<Rightarrow>
          (let name = trim_str raw in
           if name = [] then None
           else let gid = ''ubisoft:'' @ (case jstr v [''spaceId'', ''gameId''] of Some i \<Rightarrow> i | None \<Rightarrow> slug name);
                    dir = unwrap_or [] (jstr v [''installDir'', ''installPath'']);
                    exe = Option.bind (jstr v [''executable'']) file_name;
                    poster = attach_poster (ma_fs m) gid
                      (or_else (ubisoft_asset_poster (ma_fs m) (drop 8 gid)) (install_dir_poster (ma_fs m) dir))
                in Some (game gid name ''ubisoft'' dir exe poster))))"

definition scan_ubisoft :: "Machine \<Rightarrow> GameInfo list" where
  "scan_ubisoft m =
     (let dir = windows_path [''C:'', ''Program Files (x86)'', ''Ubisoft'', ''Ubisoft Game Launcher'', ''cache'', ''configuration'', ''configurations'']
      in (if fs_dir (ma_fs m) dir then
            (case fs_list (ma_fs m) dir of None \<Rightarrow> []
             | Some ps \<Rightarrow> List.map_filter (parse_ubisoft_config m) (filter (\<lambda>p. extension p = Some ''json'') ps))
          else [])
         @ from_uninstall m ''ubisoft'' (\<lambda>e. contains_str (lower (un_publisher e)) ''ubisoft''))"

definition parse_ea_game_entry :: "Machine \<Rightarrow> string \<Rightarrow> json \<Rightarrow> GameInfo option" where
  "parse_ea_game_entry m key item =
     (case jstr item [''displayName'', ''title'', ''name''] of None \<Rightarrow> None
      | Some raw \<Rightarrow>
          (let name = trim_str raw in
           if name = [] \<or> is_junk_name name then None
           else let dir = unwrap_or [] (jstr item [''installPath'', ''installLocation'', ''path'']);
                    exe = Option.bind (jstr item [''launchExecutable'', ''executable'']) file_name;
                    gid = ''ea:'' @ key
                in Some (game gid name ''ea'' dir exe (attach_poster (ma_fs m) gid (install_dir_poster (ma_fs m) dir)))))"

text \<open>The one scanner that fails: an installed-games file that cannot be read or parsed is an error.\<close>

definition parse_ea_installed_games :: "Machine \<Rightarrow> string \<Rightarrow> unit + GameInfo list" where
  "parse_ea_installed_games m path =
     (case fs_text (ma_fs m) path of None \<Rightarrow> Inl ()
      | Some s \<Rightarrow> (case ma_json m s of None \<Rightarrow> Inl ()
      | Some v \<Rightarrow>
          (let entries = List.map_filter (\<lambda>(k, item). parse_ea_game_entry m k item);
               of_object = (case as_object v of Some ms \<Rightarrow> entries ms | None \<Rightarrow> []);
               of_titles = (case Option.bind (jget v ''titleIds'') as_object of Some ms \<Rightarrow> entries ms | None \<Rightarrow> []);
               of_array = (case as_array v of
                             Some xs \<Rightarrow> entries (map (\<lambda>i. (unwrap_or ''unknown'' (jstr i [''titleId'', ''id'']), i)) xs)
                           | None \<Rightarrow> [])
           in Inr (of_object @ of_titles @ of_array))))"

definition ea_publisher :: "string \<Rightarrow> bool" where
  "ea_publisher p \<longleftrightarrow>
     contains_str (lower p) ''electronic arts'' \<or> contains_str (lower p) ''ea '' \<or> contains_str (lower p) ''origin''"

fun ea_files :: "Machine \<Rightarrow> string list \<Rightarrow> unit + GameInfo list" where
  "ea_files m [] = Inr []"
| "ea_files m (p # ps) =
     (if fs_file (ma_fs m) p
      then bindE (parse_ea_installed_games m p) (\<lambda>gs. bindE (ea_files m ps) (\<lambda>hs. Inr (gs @ hs)))
      else ea_files m ps)"

definition EA_FILES :: "string list" where
  "EA_FILES =
     map (\<lambda>f. windows_path [''C:'', ''ProgramData'', ''Electronic Arts'', ''EA Desktop'', f])
       [''Installed Games.json'', ''InstalledGames.json'']"

definition scan_ea :: "Machine \<Rightarrow> unit + GameInfo list" where
  "scan_ea m =
     bindE (ea_files m EA_FILES) (\<lambda>gs. Inr (gs @ from_uninstall m ''ea'' (\<lambda>e. ea_publisher (un_publisher e))))"

definition parse_riot_installs :: "Machine \<Rightarrow> json \<Rightarrow> GameInfo list" where
  "parse_riot_installs m v =
     (case Option.bind (jget v ''associated_client'') as_object of None \<Rightarrow> []
      | Some assoc \<Rightarrow>
          concat (map (\<lambda>(_, info).
            case Option.bind (jget info ''patchlines'') as_object of None \<Rightarrow> []
            | Some patchlines \<Rightarrow>
                List.map_filter (\<lambda>(line, pl).
                  case jstr pl [''path'', ''install_path''] of None \<Rightarrow> None
                  | Some p \<Rightarrow>
                      (let install = replace_char CHR ''/'' [backslash] p;
                           name = unwrap_or line (file_name install);
                           gid = ''riot:'' @ line @ '':'' @ name
                       in if eq_nocase name ''live'' then None
                          else Some (game gid (title_case_slug name) ''riot'' install None
                                 (attach_poster (ma_fs m) gid (install_dir_poster (ma_fs m) install))))) patchlines) assoc))"

definition parse_riot_metadata :: "Machine \<Rightarrow> string \<Rightarrow> string \<Rightarrow> GameInfo option" where
  "parse_riot_metadata m path fallback =
     (case fs_text (ma_fs m) path of None \<Rightarrow> None
      | Some s \<Rightarrow>
          (let poster = install_dir_poster (ma_fs m) (path_parent path) in
           if extension path = Some ''json'' then
             (case ma_json m s of None \<Rightarrow> None
              | Some v \<Rightarrow> (case jstr v [''product_name'', ''name''] of None \<Rightarrow> None
                  | Some name \<Rightarrow>
                      (let gid = ''riot:'' @ unwrap_or fallback (jstr v [''product_id''])
                       in Some (game gid name ''riot'' [] None (attach_poster (ma_fs m) gid poster)))))
           else
             (let name = unwrap_or (title_case_slug fallback) (or_else (yaml_field s ''product_name'') (yaml_field s ''name''));
                  gid = ''riot:'' @ fallback
              in Some (game gid name ''riot'' [] None (attach_poster (ma_fs m) gid poster)))))"

definition scan_riot :: "Machine \<Rightarrow> GameInfo list" where
  "scan_riot m =
     (let installs = windows_path [''C:'', ''ProgramData'', ''Riot Games'', ''RiotClientInstalls.json''];
          meta = windows_path [''C:'', ''ProgramData'', ''Riot Games'', ''Metadata'']
      in (if fs_file (ma_fs m) installs then (case read_json m installs of Some v \<Rightarrow> parse_riot_installs m v | None \<Rightarrow> []) else [])
         @ (if fs_dir (ma_fs m) meta then
              concat (map
                (\<lambda>d. List.map_filter (\<lambda>p. parse_riot_metadata m p (unwrap_or [] (file_name d)))
                       (filter (\<lambda>p. let n = unwrap_or [] (file_name p)
                                    in ends_with n ''.product_settings.yaml'' \<or> ends_with n ''.installed.json'')
                          (unwrap_or [] (fs_list (ma_fs m) d))))
                (filter (fs_dir (ma_fs m)) (unwrap_or [] (fs_list (ma_fs m) meta))))
            else []))"

definition parse_amazon_manifest :: "Machine \<Rightarrow> string \<Rightarrow> GameInfo option" where
  "parse_amazon_manifest m path =
     (case read_json m path of None \<Rightarrow> None
      | Some v \<Rightarrow> (case jstr v [''displayName'', ''title'', ''name''] of None \<Rightarrow> None
      | Some raw \<Rightarrow>
          (let name = trim_str raw in
           if name = [] then None
           else let gid = ''amazon:'' @ (case jstr v [''id'', ''productId''] of Some i \<Rightarrow> i | None \<Rightarrow> slug name);
                    dir = unwrap_or [] (jstr v [''installDirectory'', ''installPath''])
                in Some (game gid name ''amazon'' dir None (attach_poster (ma_fs m) gid (install_dir_poster (ma_fs m) dir))))))"

definition scan_amazon :: "Machine \<Rightarrow> GameInfo list" where
  "scan_amazon m =
     concat (map
       (\<lambda>base. List.map_filter
          (\<lambda>p. if fs_file (ma_fs m) p \<and> extension p = Some ''json'' then parse_amazon_manifest m p
               else if fs_dir (ma_fs m) p then parse_amazon_manifest m (path_join p ''manifest.json'') else None)
          (unwrap_or [] (fs_list (ma_fs m) base)))
       [windows_path [''C:'', ''ProgramData'', ''Amazon Games'', ''Data'', ''Games''],
        windows_path [''C:'', ''ProgramData'', ''Amazon Games'', ''AppData'', ''Local'', ''Amazon Games'', ''Data'', ''Games'']])
     @ from_uninstall m ''amazon'' (\<lambda>e. contains_str (lower (un_publisher e)) ''amazon'')"

section \<open>The list\<close>

definition scanners :: "(Machine \<Rightarrow> unit + GameInfo list) list" where
  "scanners =
     [\<lambda>m. Inr (scan_steam m), \<lambda>m. Inr (scan_epic m), \<lambda>m. Inr (scan_gog m), \<lambda>m. Inr (scan_xbox m), \<lambda>m. Inr (scan_battlenet m),
      \<lambda>m. Inr (scan_ubisoft m), scan_ea, \<lambda>m. Inr (scan_riot m), \<lambda>m. Inr (scan_amazon m), \<lambda>m. Inr (scan_registry_games m)]"

fun merge_games :: "GameInfo list \<Rightarrow> GameInfo list \<times> string set \<Rightarrow> GameInfo list \<times> string set" where
  "merge_games [] acc = acc"
| "merge_games (g # gs) (out, seen) =
     (if is_junk_name (gi_name g) \<or> lower (gi_name g) \<in> seen then merge_games gs (out, seen)
      else merge_games gs (out @ [g], insert (lower (gi_name g)) seen))"

fun run_scanners :: "Machine \<Rightarrow> (Machine \<Rightarrow> unit + GameInfo list) list \<Rightarrow> GameInfo list \<times> string set
    \<Rightarrow> unit + GameInfo list \<times> string set" where
  "run_scanners m [] acc = Inr acc"
| "run_scanners m (scan # scans) acc = bindE (scan m) (\<lambda>gs. run_scanners m scans (merge_games gs acc))"

definition enumerate_installed_games :: "Machine \<Rightarrow> (string \<Rightarrow> nat option) \<Rightarrow> unit + GameInfo list" where
  "enumerate_installed_games m recent =
     bindE (run_scanners m scanners ([], {}))
       (\<lambda>(out, _). Inr (map (\<lambda>g. g\<lparr>gi_last_played := recent (gi_id g)\<rparr>) (sort_key (\<lambda>g. lower (gi_name g)) out)))"

section \<open>Launching\<close>

definition launch_target :: "GameInfo \<Rightarrow> (string \<times> string option) option" where
  "launch_target g =
     (if gi_source g = ''steam'' \<and> gi_steam_app_id g \<noteq> None
      then Some (''steam://rungameid/'' @ show_nat (the (gi_steam_app_id g)), None)
      else case gi_exe_name g of None \<Rightarrow> None
      | Some exe \<Rightarrow>
          if gi_source g = ''xbox'' then Some (''shell:AppsFolder'' @ [backslash] @ exe, None)
          else if gi_install_dir g = [] then None
          else let dir = rev (dropWhile is_sep (rev (gi_install_dir g)));
                   rel = replace_char CHR ''/'' [backslash] (dropWhile is_sep exe)
               in Some (dir @ [backslash] @ rel, Some dir))"

datatype LaunchOutcome = NotInLibrary | ScanFailed | Running | NoMethod | SpawnFailed | Launched "string \<times> string option"

text \<open>\<open>running\<close> is the process list's answer for an executable name, \<open>spawned\<close> whether the start command could be run; a launch enters the recency ledger.\<close>

definition launch_game :: "Machine \<Rightarrow> (string \<Rightarrow> bool) \<Rightarrow> bool \<Rightarrow> nat \<Rightarrow> string \<Rightarrow> (string \<Rightarrow> nat option)
    \<Rightarrow> LaunchOutcome \<times> (string \<Rightarrow> nat option)" where
  "launch_game m running spawned now gid recent =
     (case enumerate_installed_games m recent of Inl _ \<Rightarrow> (ScanFailed, recent)
      | Inr games \<Rightarrow> (case find (\<lambda>g. gi_id g = gid) games of None \<Rightarrow> (NotInLibrary, recent)
      | Some g \<Rightarrow>
          (if gi_source g \<noteq> ''xbox'' \<and> (case gi_exe_name g of Some e \<Rightarrow> running e | None \<Rightarrow> False) then (Running, recent)
           else (case launch_target g of None \<Rightarrow> (NoMethod, recent)
                 | Some t \<Rightarrow> if spawned then (Launched t, recent(gi_id g \<mapsto> now)) else (SpawnFailed, recent)))))"

text \<open>The poster of an id, from the index the last scan left, after a scan if it is not there.\<close>

definition poster_index :: "GameInfo list \<Rightarrow> string \<Rightarrow> string option" where
  "poster_index games gid =
     fold (\<lambda>g idx. case gi_poster_path g of Some p \<Rightarrow> idx(gi_id g \<mapsto> p) | None \<Rightarrow> idx) games Map.empty gid"

definition poster_path_for_game_id :: "Machine \<Rightarrow> (string \<Rightarrow> nat option) \<Rightarrow> (string \<Rightarrow> string option) \<Rightarrow> string \<Rightarrow> string option" where
  "poster_path_for_game_id m recent idx gid =
     (case idx gid of Some p \<Rightarrow> Some p
      | None \<Rightarrow> (case enumerate_installed_games m recent of Inl _ \<Rightarrow> idx gid | Inr games \<Rightarrow> poster_index games gid))"

section \<open>Lemmas\<close>

abbreviation title :: "GameInfo \<Rightarrow> string" where "title g \<equiv> lower (gi_name g)"

definition merged :: "GameInfo list \<times> string set \<Rightarrow> bool" where
  "merged acc \<longleftrightarrow>
     snd acc = set (map title (fst acc)) \<and> distinct (map title (fst acc)) \<and> (\<forall>g \<in> set (fst acc). \<not> is_junk_name (gi_name g))"

lemma merge_games_spec:
  assumes "merged acc"
  shows "merged (merge_games gs acc) \<and> set (fst acc) \<subseteq> set (fst (merge_games gs acc))
    \<and> set (fst (merge_games gs acc)) \<subseteq> set (fst acc) \<union> set gs
    \<and> (\<forall>g \<in> set gs. is_junk_name (gi_name g) \<or> title g \<in> snd (merge_games gs acc))"
  using assms
proof (induction gs acc rule: merge_games.induct)
  case (2 g gs out seen)
  show ?case
  proof (cases "is_junk_name (gi_name g) \<or> title g \<in> seen")
    case True
    note IH = 2(1) [OF True 2(3)]
    have "is_junk_name (gi_name g) \<or> title g \<in> snd (merge_games gs (out, seen))"
      using True IH 2(3) by (auto simp: merged_def)
    then show ?thesis using IH True by auto
  next
    case False
    have "merged (out @ [g], insert (title g) seen)" using 2(3) False by (auto simp: merged_def)
    note IH = 2(2) [OF False this]
    have "title g \<in> snd (merge_games gs (out @ [g], insert (title g) seen))"
      using IH by (auto simp: merged_def)
    then show ?thesis using IH False by auto
  qed
qed auto

lemma run_scanners_spec:
  assumes "merged acc" "run_scanners m scans acc = Inr acc'"
  shows "merged acc' \<and> set (fst acc) \<subseteq> set (fst acc')
    \<and> (\<forall>g \<in> set (fst acc'). g \<in> set (fst acc) \<or> (\<exists>scan \<in> set scans. \<exists>gs. scan m = Inr gs \<and> g \<in> set gs))
    \<and> (\<forall>scan \<in> set scans. \<exists>gs. scan m = Inr gs \<and> (\<forall>g \<in> set gs. is_junk_name (gi_name g) \<or> title g \<in> snd acc'))"
  using assms
proof (induction scans arbitrary: acc)
  case (Cons scan scans)
  from Cons.prems(2) obtain gs where gs: "scan m = Inr gs" and r: "run_scanners m scans (merge_games gs acc) = Inr acc'"
    by (auto simp: bindE_Inr_iff)
  note ms = merge_games_spec [OF Cons.prems(1), of gs]
  note IH = Cons.IH [OF conjunct1 [OF ms] r]
  have mono: "snd (merge_games gs acc) \<subseteq> snd acc'" using ms IH by (auto simp: merged_def)
  show ?case using ms IH gs mono by (auto; blast)
qed auto

text \<open>Different names can have one id, and names without ASCII letters or digits all have the same.\<close>

lemma same_slug: "slug ''Half-Life'' = slug ''Half Life''"
  by code_simp

lemma uninstall_ids_collide:
  assumes "game_from_uninstall m src e1 = Some g1" "game_from_uninstall m src e2 = Some g2"
    and "list_all (\<lambda>c. \<not> is_alnum c) (trim_str (un_display_name e1))" "list_all (\<lambda>c. \<not> is_alnum c) (trim_str (un_display_name e2))"
  shows "gi_id g1 = gi_id g2"
  using assms by (auto simp: game_from_uninstall_def Let_def game_def slug_empty split: if_splits)

text \<open>
  An entry without an icon whose uninstaller is named by a plain path: that is what starting the game runs.
\<close>

definition uninstall_entry :: UninstallEntry where
  "uninstall_entry =
     \<lparr>un_display_name = ''Prey'', un_install_location = windows_path [''C:'', ''Prey''], un_publisher = ''Bethesda'',
      un_display_icon = None, un_uninstall_string = Some (windows_path [''C:'', ''Prey'', ''unins000.exe'']),
      un_system_component = False, un_parent_key = None\<rparr>"

lemma starting_runs_uninstaller:
  "(case game_from_uninstall m ''registry'' uninstall_entry of
      Some g \<Rightarrow> launch_target g = Some (windows_path [''C:'', ''Prey'', ''unins000.exe''], Some (windows_path [''C:'', ''Prey'']))
    | None \<Rightarrow> False)"
proof -
  have a: "trim_str ''Prey'' = ''Prey''" "is_junk_name ''Prey'' = False" by code_simp+
  have b: "exe_from_path (windows_path [''C:'', ''Prey'', ''unins000.exe'']) = Some ''unins000.exe''" by code_simp
  have c: "\<And>pid po. launch_target (game pid ''Prey'' ''registry'' (windows_path [''C:'', ''Prey'']) (Some ''unins000.exe'') po)
    = Some (windows_path [''C:'', ''Prey'', ''unins000.exe''], Some (windows_path [''C:'', ''Prey'']))" 
    unfolding launch_target_def game_def by code_simp
  show ?thesis
    unfolding game_from_uninstall_def uninstall_entry_def by (simp add: a b c or_else_def Let_def)
qed

text \<open>A quoted icon path with an index, the usual form, loses its executable.\<close>

lemma quoted_icon_lost:
  "exe_from_path ([quote] @ windows_path [''C:'', ''Prey'', ''Prey.exe''] @ [quote] @ '',0'') = None"
  by code_simp

lemma ea_broken:
  assumes "fs_file (ma_fs m) (EA_FILES ! 0)" "fs_text (ma_fs m) (EA_FILES ! 0) = Some s" "ma_json m s = None"
  shows "scan_ea m = Inl ()"
  using assms by (simp add: scan_ea_def EA_FILES_def parse_ea_installed_games_def)

lemma run_scanners_error: "\<exists>scan \<in> set scans. scan m = Inl () \<Longrightarrow> run_scanners m scans acc = Inl ()"
proof (induction scans arbitrary: acc)
  case (Cons x scans)
  show ?case
  proof (cases "x m")
    case (Inr gs)
    then have "\<exists>scan \<in> set scans. scan m = Inl ()" using Cons.prems by auto
    from Cons.IH [OF this, of "merge_games gs acc"] Inr show ?thesis by (simp add: bindE_def)
  qed (simp add: bindE_def)
qed simp

definition bare_machine :: Machine where
  "bare_machine =
     \<lparr>ma_fs = \<lparr>fs_list = (\<lambda>_. None), fs_dir = (\<lambda>_. False), fs_file = (\<lambda>_. False), fs_bytes = (\<lambda>_. None), fs_text = (\<lambda>_. None), fs_len = length\<rparr>,
      ma_json = (\<lambda>_. None), ma_uninstall = [], ma_steam = None, ma_gog = None, ma_appx = [], ma_sha256 = (\<lambda>_. replicate 32 0)\<rparr>"

definition shop :: Machine where
  "shop = bare_machine\<lparr>ma_uninstall := [uninstall_entry, uninstall_entry\<lparr>un_display_name := ''Abzu''\<rparr>, uninstall_entry\<lparr>un_display_name := ''PREY''\<rparr>]\<rparr>"

definition broken_ea :: Machine where
  "broken_ea = shop\<lparr>ma_fs := (ma_fs shop)\<lparr>fs_file := (\<lambda>p. p = EA_FILES ! 0),
     fs_text := (\<lambda>p. if p = EA_FILES ! 0 then Some ''{'' else None)\<rparr>\<rparr>"

lemma shop_library: "map_sum id (map (\<lambda>g. (gi_name g, gi_id g))) (enumerate_installed_games shop (\<lambda>_. None))
    = Inr [(''Abzu'', ''registry:abzu''), (''Prey'', ''registry:prey'')]"
  by code_simp

section \<open>Properties\<close>

text \<open>C29. The library is the merge it should be: the list is sorted by name without regard to case, has no two
  entries of one name and no junk; every entry comes from a scanner and carries its last launch; and
  every game any scanner found is listed, under its name, unless the name is junk.\<close>
theorem library_merge_exact:
  assumes "enumerate_installed_games m recent = Inr games"
  shows "sorted (map title games) \<and> distinct (map title games) \<and> list_all (\<lambda>g. \<not> is_junk_name (gi_name g)) games
    \<and> list_all (\<lambda>g. gi_last_played g = recent (gi_id g)
        \<and> (\<exists>scan gs g0. scan \<in> set scanners \<and> scan m = Inr gs \<and> g0 \<in> set gs \<and> g = g0\<lparr>gi_last_played := recent (gi_id g0)\<rparr>)) games
    \<and> list_all (\<lambda>scan. case scan m of Inl _ \<Rightarrow> False
        | Inr gs \<Rightarrow> list_all (\<lambda>g. is_junk_name (gi_name g) \<or> title g \<in> set (map title games)) gs) scanners"
proof -
  obtain out seen where r: "run_scanners m scanners ([], {}) = Inr (out, seen)"
    and g: "games = map (\<lambda>g. g\<lparr>gi_last_played := recent (gi_id g)\<rparr>) (sort_key title out)"
    using assms by (auto simp: enumerate_installed_games_def bindE_Inr_iff)
  have "merged ([], {})" by (simp add: merged_def)
  note sp = run_scanners_spec [OF this r]
  have t: "map title games = map title (sort_key title out)" by (simp add: g comp_def)
  have st: "set (map title games) = set (map title out)" unfolding t by simp
  have d: "distinct (map title games)"
    using sp unfolding t distinct_map by (simp add: merged_def distinct_map)
  have so: "sorted (map title games)" unfolding t by simp
  have junk: "list_all (\<lambda>g. \<not> is_junk_name (gi_name g)) games"
    using sp by (auto simp: g list_all_iff merged_def)
  have src: "list_all (\<lambda>g. gi_last_played g = recent (gi_id g)
        \<and> (\<exists>scan gs g0. scan \<in> set scanners \<and> scan m = Inr gs \<and> g0 \<in> set gs \<and> g = g0\<lparr>gi_last_played := recent (gi_id g0)\<rparr>)) games"
  proof (unfold list_all_iff, intro ballI conjI)
    fix x
    assume "x \<in> set games"
    then obtain y where y: "y \<in> set out" "x = y\<lparr>gi_last_played := recent (gi_id y)\<rparr>" by (auto simp: g)
    then show "gi_last_played x = recent (gi_id x)" by simp
    from y(1) sp obtain scan gs where "scan \<in> set scanners" "scan m = Inr gs" "y \<in> set gs" by auto
    with y(2) show "\<exists>scan gs g0. scan \<in> set scanners \<and> scan m = Inr gs \<and> g0 \<in> set gs \<and> x = g0\<lparr>gi_last_played := recent (gi_id g0)\<rparr>"
      by blast
  qed
  have all: "list_all (\<lambda>scan. case scan m of Inl _ \<Rightarrow> False
        | Inr gs \<Rightarrow> list_all (\<lambda>g. is_junk_name (gi_name g) \<or> title g \<in> set (map title games)) gs) scanners"
  proof (unfold list_all_iff, intro ballI)
    fix scan
    assume "scan \<in> set scanners"
    then obtain gs where "scan m = Inr gs" "\<forall>g \<in> set gs. is_junk_name (gi_name g) \<or> title g \<in> seen" using sp by auto
    then show "case scan m of Inl _ \<Rightarrow> False
        | Inr gs \<Rightarrow> \<forall>g \<in> set gs. is_junk_name (gi_name g) \<or> title g \<in> set (map title games)"
      using sp st by (simp add: merged_def)
  qed
  show ?thesis using so d junk src all by blast
qed


theorem library_merge_exact_witness:
  "\<exists>games. enumerate_installed_games shop (\<lambda>_. None) = Inr games \<and> length games = 2 \<and> sorted (map title games)"
proof (cases "enumerate_installed_games shop (\<lambda>_. None)")
  case (Inr games)
  have "length (map (\<lambda>g. (gi_name g, gi_id g)) games) = 2"
    using shop_library unfolding Inr by (simp del: length_map)
  moreover note conjunct1 [OF library_merge_exact [OF Inr]]
  ultimately show ?thesis using Inr by (intro exI [of _ games]) (simp only: length_map)
qed (use shop_library in simp)

text \<open>An installed-games file of the EA application that is not JSON takes the whole library with it: the scan of
  every launcher fails, and no game of any launcher can be started.\<close>
theorem ea_file_hides_library:
  assumes "fs_file (ma_fs m) (EA_FILES ! 0)" "fs_text (ma_fs m) (EA_FILES ! 0) = Some s" "ma_json m s = None"
  shows "enumerate_installed_games m recent = Inl ()
    \<and> launch_game m running spawned now gid recent = (ScanFailed, recent)"
proof -
  have "scan_ea m = Inl ()" by (rule ea_broken [OF assms])
  then have "run_scanners m scanners ([], {}) = Inl ()"
    by (intro run_scanners_error) (simp add: scanners_def)
  then show ?thesis by (simp add: enumerate_installed_games_def launch_game_def bindE_def)
qed

theorem ea_file_hides_library_witness: "enumerate_installed_games broken_ea (\<lambda>_. None) = Inl ()"
proof -
  have "fs_file (ma_fs broken_ea) (EA_FILES ! 0)" "fs_text (ma_fs broken_ea) (EA_FILES ! 0) = Some ''{''" "ma_json broken_ea ''{'' = None"
    by (simp_all only: broken_ea_def shop_def bare_machine_def Machine.simps Fs.simps if_True refl)
  from ea_file_hides_library [OF this] show ?thesis by blast
qed

text \<open>Starting a game: only an entry of the library with the id asked for is started, never one whose executable
  runs already; and the ledger of launches changes exactly when something was started, at that id.\<close>
theorem launch_game_exact:
  "(case launch_game m running spawned now gid recent of
      (Launched t, recent') \<Rightarrow>
        (\<exists>games g. enumerate_installed_games m recent = Inr games \<and> g \<in> set games \<and> gi_id g = gid
           \<and> launch_target g = Some t
           \<and> (gi_source g = ''xbox'' \<or> gi_exe_name g = None \<or> (\<exists>e. gi_exe_name g = Some e \<and> \<not> running e)))
        \<and> recent' = recent(gid \<mapsto> now)
    | (_, recent') \<Rightarrow> recent' = recent)"
proof (cases "enumerate_installed_games m recent")
  case (Inr games)
  show ?thesis
  proof (cases "find (\<lambda>g. gi_id g = gid) games")
    case (Some g)
    then have g: "g \<in> set games" "gi_id g = gid" by (auto simp: find_Some_iff)
    let ?busy = "gi_source g \<noteq> ''xbox'' \<and> (case gi_exe_name g of Some e \<Rightarrow> running e | None \<Rightarrow> False)"
    show ?thesis
    proof (cases ?busy)
      case False
      then have "gi_source g = ''xbox'' \<or> gi_exe_name g = None \<or> (\<exists>e. gi_exe_name g = Some e \<and> \<not> running e)"
        by (cases "gi_exe_name g") auto
      moreover have "launch_game m running spawned now gid recent =
        (case launch_target g of None \<Rightarrow> (NoMethod, recent)
          | Some t \<Rightarrow> if spawned then (Launched t, recent(gid \<mapsto> now)) else (SpawnFailed, recent))"
        unfolding launch_game_def Inr Some sum.case option.case if_not_P [OF False] g(2) ..
      ultimately show ?thesis using g Inr by (cases "launch_target g"; cases spawned) auto
    qed (simp add: launch_game_def Inr Some)
  qed (simp add: launch_game_def Inr)
qed (simp add: launch_game_def)

end
