(* ===== verification/MediaGraph.thy ===== *)
theory MediaGraph
  imports Diagnostics Bitrate Negotiation
begin

text \<open>
  The media graph of a session (\<open>crates/host/src/media/pipeline.rs\<close>, \<open>media/webrtc/webrtcbin.rs\<close>,
  \<open>platform/windows/gpus.rs\<close>): which elements are built with which properties, in order, and the
  bridge that negotiates with the client. GStreamer itself is an argument: which factories exist,
  which properties an element of a factory has, and whether linking succeeds. An error
  is the name of the factory that is missing.
\<close>

section \<open>Elements\<close>

record Registry =
  rg_has :: "string \<Rightarrow> bool"
  rg_prop :: "string \<Rightarrow> string \<Rightarrow> bool"
  rg_links :: bool

datatype PropValue = Prop EncProp | Caps string "(string \<times> string) list"

record Element =
  el_factory :: string
  el_name :: string
  el_props :: "(string \<times> PropValue) list"

definition element_make :: "Registry \<Rightarrow> string \<Rightarrow> string \<Rightarrow> (string \<times> PropValue) list \<Rightarrow> string + Element" where
  "element_make reg factory name props =
     (if rg_has reg factory then Inr \<lparr>el_factory = factory, el_name = name, el_props = props\<rparr> else Inl factory)"

definition set_property :: "string \<Rightarrow> PropValue \<Rightarrow> Element \<Rightarrow> Element" where
  "set_property k v e = e\<lparr>el_props := filter (\<lambda>(k', _). k' \<noteq> k) (el_props e) @ [(k, v)]\<rparr>"

definition el_prop :: "Element \<Rightarrow> string \<Rightarrow> PropValue option" where "el_prop e k = map_of (el_props e) k"

section \<open>The adapter\<close>

record GpuInfo =
  gpu_vendor_id :: nat
  gpu_dedicated_vram_mb :: nat

definition vendor_of :: "nat \<Rightarrow> GpuVendor" where
  "vendor_of i =
     (if i = 0x10DE then Nvidia else if i = 0x1002 \<or> i = 0x1022 then Amd else if i = 0x8086 then Intel else OtherGpu)"

definition available_encoders :: "Registry \<Rightarrow> GpuVendor \<Rightarrow> string list" where
  "available_encoders reg v = filter (rg_has reg) (List.map_filter (element_for v) [H264, H265])"

text \<open>\<open>max_by_key\<close>: the last of the adapters with the most memory.\<close>

definition primary_gpu_vendor :: "GpuInfo list option \<Rightarrow> GpuVendor option" where
  "primary_gpu_vendor found =
     Option.bind found (\<lambda>gs. map_option (\<lambda>g. vendor_of (gpu_vendor_id g))
       (fold (\<lambda>g best. case best of None \<Rightarrow> Some g
                | Some b \<Rightarrow> if gpu_dedicated_vram_mb b \<le> gpu_dedicated_vram_mb g then Some g else Some b) gs None))"

section \<open>Capture\<close>

record MonitorInfo =
  mo_index :: nat
  mo_primary :: bool

text \<open>The index is cast to \<open>i32\<close>; \<open>-1\<close> means the primary monitor.\<close>

definition as_i32 :: "nat \<Rightarrow> int" where
  "as_i32 n = (let m = int (n mod 4294967296) in if m < 2147483648 then m else m - 4294967296)"

definition resolve_monitor_index :: "Config \<Rightarrow> MonitorInfo list option \<Rightarrow> int" where
  "resolve_monitor_index c monitors =
     (case monitor_index (c_capture c) of Some i \<Rightarrow> as_i32 i
      | None \<Rightarrow> (case monitors of None \<Rightarrow> -1
          | Some ms \<Rightarrow> (case find mo_primary ms of Some m \<Rightarrow> as_i32 (mo_index m)
              | None \<Rightarrow> (case ms of m # _ \<Rightarrow> as_i32 (mo_index m) | [] \<Rightarrow> -1))))"

definition build_capture_src :: "Registry \<Rightarrow> Config \<Rightarrow> MonitorInfo list option \<Rightarrow> string + Element" where
  "build_capture_src reg c monitors =
     element_make reg ''d3d11screencapturesrc'' ''capture-src''
       [(''capture-api'', Prop (PEnum (case api (c_capture c) of Dxgi \<Rightarrow> ''dxgi'' | Wgc \<Rightarrow> ''wgc''))),
        (''show-cursor'', Prop (PBool (show_cursor (c_capture c)))),
        (''monitor-index'', Prop (PInt (resolve_monitor_index c monitors)))]"

section \<open>The encoder\<close>

definition configure_encoder :: "Registry \<Rightarrow> GpuVendor \<Rightarrow> VideoCodec \<Rightarrow> nat \<Rightarrow> Element \<Rightarrow> Element" where
  "configure_encoder reg vendor codec rate e =
     (let has = rg_prop reg (el_factory e);
          e1 = fold (\<lambda>(n, v) e. if has n then set_property n (Prop (PEnum (to_prop_string v))) e else e)
                 (low_latency_properties vendor codec rate) e
      in if has ''intra-refresh'' then set_property ''intra-refresh'' (Prop (PEnum ''true'')) e1 else e1)"

definition encoder_kbps :: "SessionConfig \<Rightarrow> nat" where "encoder_kbps s = clampN (sc_start_kbps s) 2000 120000"

definition venc_caps :: "VideoCodec \<Rightarrow> PropValue" where
  "venc_caps codec =
     (case codec of
        H264 \<Rightarrow> Caps ''video/x-h264'' [(''stream-format'', ''byte-stream''), (''alignment'', ''au''), (''profile'', ''high'')]
      | H265 \<Rightarrow> Caps ''video/x-h265'' [(''stream-format'', ''byte-stream''), (''alignment'', ''au''), (''profile'', ''main'')])"

text \<open>The codec string the client configures its decoder with.\<close>

definition wt_codec_str :: "VideoCodec \<Rightarrow> string" where
  "wt_codec_str codec = (case codec of H264 \<Rightarrow> ''avc1.640033'' | H265 \<Rightarrow> ''hev1.1.6.L153.B0'')"

section \<open>The bridge\<close>

record BinBridge =
  bb_session :: SessionConfig
  bb_vendor :: GpuVendor
  bb_strict_lan :: bool
  bb_stun_server :: "string option"
  bb_input_sink :: bool
  bb_control_sink :: bool
  bb_webrtcbin :: "Element option"
  bb_encoder :: "Element option"
  bb_data_channels :: "string list"
  bb_control_channel :: "string option"

definition bridge_vendor :: "GpuInfo list option \<Rightarrow> GpuVendor" where
  "bridge_vendor gpus = (case primary_gpu_vendor gpus of Some v \<Rightarrow> v | None \<Rightarrow> Nvidia)"

definition bridge_new :: "Config \<Rightarrow> SessionConfig \<Rightarrow> GpuInfo list option \<Rightarrow> bool \<Rightarrow> bool \<Rightarrow> BinBridge" where
  "bridge_new c s gpus input_sink control_sink =
     \<lparr>bb_session = s, bb_vendor = bridge_vendor gpus,
      bb_strict_lan = strict_lan (c_network c),
      bb_stun_server = (if strict_lan (c_network c) then None
                        else case stun_servers (c_network c) of u # _ \<Rightarrow> Some u | [] \<Rightarrow> None),
      bb_input_sink = input_sink, bb_control_sink = control_sink, bb_webrtcbin = None, bb_encoder = None,
      bb_data_channels = [], bb_control_channel = None\<rparr>"

text \<open>An unset address property is left out.\<close>

definition make_webrtcbin :: "Registry \<Rightarrow> BinBridge \<Rightarrow> string + Element" where
  "make_webrtcbin reg b =
     bindE (element_make reg ''webrtcbin'' ''inphase-webrtc'' [(''bundle-policy'', Prop (PEnum ''max-bundle''))])
       (\<lambda>wb. Inr (case (bb_strict_lan b, bb_stun_server b) of
                    (False, Some uri) \<Rightarrow> set_property ''stun-server'' (Prop (PEnum uri)) wb
                  | _ \<Rightarrow> wb))"

definition attach_video :: "Registry \<Rightarrow> BinBridge \<Rightarrow> string + Element list \<times> BinBridge" where
  "attach_video reg b =
     (let codec = sc_codec (bb_session b); rate = encoder_kbps (bb_session b) in
      case element_for (bb_vendor b) codec of None \<Rightarrow> Inl ''no encoder element''
      | Some enc_name \<Rightarrow>
          bindE (element_make reg enc_name ''venc'' []) (\<lambda>enc0.
          bindE (element_make reg ''capsfilter'' ''venc-caps'' [(''caps'', venc_caps codec)]) (\<lambda>caps.
          bindE (element_make reg ''fakesink'' ''venc-sink'' [(''sync'', Prop (PBool False)), (''async'', Prop (PBool False))]) (\<lambda>sink.
          bindE (make_webrtcbin reg b) (\<lambda>wb.
            let enc = configure_encoder reg (bb_vendor b) codec rate enc0 in
            if rg_links reg then Inr ([enc, caps, sink, wb], b\<lparr>bb_encoder := Some enc, bb_webrtcbin := Some wb\<rparr>)
            else Inl ''link'')))))"

text \<open>
  Negotiation: \<open>made\<close> says whether both data channels could be created, \<open>offer\<close> is the description
  \<open>create-offer\<close> produced.
\<close>

definition on_negotiation_needed :: "bool \<Rightarrow> string option \<Rightarrow> BinBridge \<Rightarrow> MediaSignal list \<times> BinBridge" where
  "on_negotiation_needed made offer b =
     (let b1 = (if bb_data_channels b = [] \<and> made
                then b\<lparr>bb_data_channels := [''input'', ''control''], bb_control_channel := Some ''control''\<rparr> else b)
      in (case offer of Some sdp \<Rightarrow> [MOffer sdp] | None \<Rightarrow> [], b1))"

definition on_ice_candidate :: "nat \<Rightarrow> string \<Rightarrow> MediaSignal list" where
  "on_ice_candidate mline cand = [MIce \<lparr>ice_candidate = cand, sdp_mid = None, sdp_mline_index = Some mline\<rparr>]"

datatype IceState = IceNew | IceChecking | IceConnected | IceCompleted | IceFailed | IceDisconnected | IceClosed

definition on_ice_state :: "IceState \<Rightarrow> MediaSignal list" where
  "on_ice_state s =
     (case s of IceConnected \<Rightarrow> [MReady] | IceCompleted \<Rightarrow> [MReady]
      | IceFailed \<Rightarrow> [MFailed \<lparr>se_code = NegotiationFailed, se_message = ''ICE failed''\<rparr>]
      | _ \<Rightarrow> [])"

datatype BinCall = SetRemoteDescription string | AddIceCandidate nat string

definition on_client_signal :: "(string \<Rightarrow> bool) \<Rightarrow> 't SignalMessage \<Rightarrow> BinBridge \<Rightarrow> string + BinCall list" where
  "on_client_signal parses msg b =
     (if bb_webrtcbin b = None then Inl ''webrtcbin not created yet''
      else case msg of
        Answer sdp \<Rightarrow> if parses sdp then Inr [SetRemoteDescription sdp] else Inl ''invalid answer SDP''
      | Ice k \<Rightarrow> if ice_candidate k \<noteq> []
                then Inr [AddIceCandidate (case sdp_mline_index k of Some i \<Rightarrow> i | None \<Rightarrow> 0) (ice_candidate k)] else Inr []
      | _ \<Rightarrow> Inr [])"

definition bridge_send_control :: "bool \<Rightarrow> string \<Rightarrow> BinBridge \<Rightarrow> string list" where
  "bridge_send_control is_open text b = (if bb_control_channel b \<noteq> None \<and> is_open then [text] else [])"

section \<open>Audio\<close>

record AudioEndpointInfo =
  ae_id :: string
  ae_capture :: bool

definition pinned_device :: "Config \<Rightarrow> string option" where
  "pinned_device c = (case audio_capture_device (c_media c) of Some d \<Rightarrow> if d = [] then None else Some d | None \<Rightarrow> None)"

definition is_recording :: "Config \<Rightarrow> AudioEndpointInfo list \<Rightarrow> bool" where
  "is_recording c eps =
     (case pinned_device c of None \<Rightarrow> False
      | Some d \<Rightarrow> (case find (\<lambda>e. ae_id e = d) eps of Some e \<Rightarrow> ae_capture e | None \<Rightarrow> False))"

definition build_audio_branch :: "Registry \<Rightarrow> Config \<Rightarrow> AudioEndpointInfo list \<Rightarrow> string + Element list" where
  "build_audio_branch reg c eps =
     bindE (element_make reg ''wasapi2src'' ''wasapi2src''
       [(''loopback'', Prop (PBool (\<not> is_recording c eps))), (''low-latency'', Prop (PBool True))]) (\<lambda>src0.
     let src1 = (case pinned_device c of Some d \<Rightarrow> set_property ''device'' (Prop (PEnum d)) src0 | None \<Rightarrow> src0);
         src = (if rg_prop reg ''wasapi2src'' ''continue-on-error''
                then set_property ''continue-on-error'' (Prop (PBool True)) src1 else src1) in
     bindE (element_make reg ''audioconvert'' ''audioconvert'' []) (\<lambda>convert.
     bindE (element_make reg ''audioresample'' ''audioresample'' []) (\<lambda>resample.
     bindE (element_make reg ''capsfilter'' ''capsfilter''
       [(''caps'', Caps ''audio/x-raw'' [(''rate'', ''48000''), (''channels'', ''2'')])]) (\<lambda>caps.
     bindE (element_make reg ''opusenc'' ''wt-audio-enc''
       [(''bitrate'', Prop (PInt (as_i32 (audio_bitrate_bps (c_media c))))), (''audio-type'', Prop (PEnum ''generic'')),
        (''frame-size'', Prop (PEnum (show_nat (audio_frame_ms (c_media c)))))]) (\<lambda>opus.
     bindE (element_make reg ''fakesink'' ''wt-audio-drain'' [(''sync'', Prop (PBool False)), (''async'', Prop (PBool False))]) (\<lambda>drain.
       Inr [src, convert, resample, caps, opus, drain]))))))"

section \<open>The graph\<close>

definition raw_queue_props :: "(string \<times> PropValue) list" where
  "raw_queue_props =
     [(''max-size-buffers'', Prop (PUint 1)), (''max-size-bytes'', Prop (PUint 0)), (''max-size-time'', Prop (PUint 0)),
      (''leaky'', Prop (PEnum ''downstream''))]"

definition video_caps :: "SessionConfig \<Rightarrow> PropValue" where
  "video_caps s =
     Caps ''video/x-raw(memory:D3D11Memory)''
       [(''format'', ''NV12''), (''width'', to_prop_string (PInt (as_i32 (sc_width s)))),
        (''height'', to_prop_string (PInt (as_i32 (sc_height s)))), (''framerate'', to_prop_string (PInt (as_i32 (sc_fps s))))]"

record Graph =
  gr_video :: "Element list"
  gr_audio :: "Element list"
  gr_bridge :: BinBridge

text \<open>
  \<open>Pipeline::build\<close>: the video branch must be complete; audio that cannot be built is reported and left out,
  audio that cannot be linked is an error. \<open>wt\<close> says whether there is a transport to carry it.
\<close>

definition build_video ::
  "Registry \<Rightarrow> Config \<Rightarrow> SessionConfig \<Rightarrow> MonitorInfo list option \<Rightarrow> BinBridge \<Rightarrow> string + Element list \<times> BinBridge" where
  "build_video reg c s monitors bridge =
     bindE (build_capture_src reg c monitors) (\<lambda>src.
     bindE (element_make reg ''queue'' ''raw-leaky'' raw_queue_props) (\<lambda>queue.
     bindE (element_make reg ''d3d11convert'' ''d3d11convert'' []) (\<lambda>convert.
     bindE (element_make reg ''capsfilter'' ''vcaps'' [(''caps'', video_caps s)]) (\<lambda>vcaps.
     if \<not> rg_links reg then Inl ''link''
     else bindE (attach_video reg bridge) (\<lambda>(els, b). Inr ([src, queue, convert, vcaps] @ els, b))))))"

definition pipeline_build ::
  "Registry \<Rightarrow> Config \<Rightarrow> SessionConfig \<Rightarrow> MonitorInfo list option \<Rightarrow> AudioEndpointInfo list \<Rightarrow> bool \<Rightarrow> BinBridge
     \<Rightarrow> StatsCollector \<Rightarrow> (string + Graph) \<times> StatsCollector" where
  "pipeline_build reg c s monitors eps wt bridge sc =
     (case build_video reg c s monitors bridge of Inl e \<Rightarrow> (Inl e, sc)
      | Inr (video, b) \<Rightarrow>
          if \<not> enable_audio (c_media c) then (Inr \<lparr>gr_video = video, gr_audio = [], gr_bridge = b\<rparr>, sc)
          else (case build_audio_branch reg c eps of
              Inl _ \<Rightarrow> (Inr \<lparr>gr_video = video, gr_audio = [], gr_bridge = b\<rparr>, set_audio_health Failed sc)
            | Inr audio \<Rightarrow>
                if \<not> rg_links reg then (Inl ''link'', sc)
                else (Inr \<lparr>gr_video = video, gr_audio = audio, gr_bridge = b\<rparr>,
                      set_audio_health (if wt then Healthy else Failed) sc)))"


section \<open>Lemmas\<close>

lemma element_make_Inr: "element_make reg f n ps = Inr e \<longleftrightarrow> rg_has reg f \<and> e = \<lparr>el_factory = f, el_name = n, el_props = ps\<rparr>"
  by (auto simp: element_make_def)

lemma set_property_keeps [simp]:
  "el_factory (set_property k v e) = el_factory e" "el_name (set_property k v e) = el_name e"
  by (simp_all add: set_property_def)

lemma map_of_filter_key: "map_of (filter (\<lambda>(k', _). k' \<noteq> k) ps) k' = (if k' = k then None else map_of ps k')"
  by (induction ps) auto

lemma el_prop_set [simp]: "el_prop (set_property k v e) k' = (if k' = k then Some v else el_prop e k')"
  by (auto simp: el_prop_def set_property_def map_of_filter_key map_add_def split: option.splits)

lemma el_prop_literal [simp]: "el_prop \<lparr>el_factory = f, el_name = n, el_props = ps\<rparr> k = map_of ps k"
  by (simp add: el_prop_def)

lemma fold_set_property:
  "distinct (map fst ps) \<Longrightarrow>
   el_prop (fold (\<lambda>(n, v) e. if has n then set_property n (f v) e else e) ps e) k =
     (case map_of ps k of Some v \<Rightarrow> if has k then Some (f v) else el_prop e k | None \<Rightarrow> el_prop e k)"
  by (induction ps arbitrary: e) (auto split: option.splits simp: weak_map_of_SomeI image_iff dest!: map_of_SomeD; force)+

lemma fold_set_property_keeps:
  "el_factory (fold (\<lambda>(n, v) e. if has n then set_property n (f v) e else e) ps e) = el_factory e
   \<and> el_name (fold (\<lambda>(n, v) e. if has n then set_property n (f v) e else e) ps e) = el_name e"
  by (induction ps arbitrary: e) auto

lemma configure_encoder_keeps [simp]:
  "el_factory (configure_encoder reg v k r e) = el_factory e" "el_name (configure_encoder reg v k r e) = el_name e"
  by (simp_all add: configure_encoder_def Let_def fold_set_property_keeps)

lemma configure_encoder_prop:
  assumes "k \<noteq> ''intra-refresh''"
  shows "el_prop (configure_encoder reg v cd r e) k =
    (case map_of (low_latency_properties v cd r) k of
       Some x \<Rightarrow> if rg_prop reg (el_factory e) k then Some (Prop (PEnum (to_prop_string x))) else el_prop e k
     | None \<Rightarrow> el_prop e k)"
  using assms fold_set_property [OF low_latency_distinct [of v cd r], of "rg_prop reg (el_factory e)" "\<lambda>x. Prop (PEnum (to_prop_string x))" e k]
  by (simp add: configure_encoder_def Let_def)

lemma make_webrtcbin_Inr:
  assumes "make_webrtcbin reg b = Inr wb"
  shows "el_factory wb = ''webrtcbin'' \<and> el_prop wb ''turn-server'' = None
    \<and> el_prop wb ''stun-server'' = (if bb_strict_lan b then None else map_option (\<lambda>u. Prop (PEnum u)) (bb_stun_server b))"
  using assms by (auto simp: make_webrtcbin_def bindE_Inr_iff element_make_Inr split: bool.splits option.splits)

lemma element_make_cases: "element_make reg f n ps = (if rg_has reg f then Inr \<lparr>el_factory = f, el_name = n, el_props = ps\<rparr> else Inl f)"
  by (simp add: element_make_def)

definition frames_in_order :: "Element \<Rightarrow> bool" where
  "frames_in_order e \<longleftrightarrow>
     list_all (\<lambda>n. el_prop e n \<in> {None, Some (Prop (PEnum ''0''))}) [''bframes'', ''b-frames'', ''rc-lookahead'']"

lemma configured_in_order:
  assumes "el_props e = []"
  shows "frames_in_order (configure_encoder reg v cd r e)"
proof -
  have "to_prop_string (PUint 0) = ''0''" by code_simp
  then show ?thesis
    using assms by (cases v) (simp_all add: configure_encoder_prop frames_in_order_def el_prop_def [of e])
qed

lemma encoder_rate_set:
  assumes "el_prop e ''bitrate'' = None"
  shows "el_prop (configure_encoder reg v cd r e) ''bitrate'' =
    (if rg_prop reg (el_factory e) ''bitrate'' then Some (Prop (PEnum (show_nat r))) else None)"
  using assms by (cases v) (simp_all add: configure_encoder_prop)

definition video_factories :: "GpuVendor \<Rightarrow> VideoCodec \<Rightarrow> string list" where
  "video_factories v k =
     [''d3d11screencapturesrc'', ''queue'', ''d3d11convert'', ''capsfilter'',
      (case element_for v k of Some e \<Rightarrow> e | None \<Rightarrow> []), ''capsfilter'', ''fakesink'', ''webrtcbin'']"

definition graph_possible :: "Registry \<Rightarrow> GpuVendor \<Rightarrow> VideoCodec \<Rightarrow> bool" where
  "graph_possible reg v k \<longleftrightarrow> rg_links reg \<and> list_all (rg_has reg) (video_factories v k)"

definition audio_factories :: "string list" where
  "audio_factories = [''wasapi2src'', ''audioconvert'', ''audioresample'', ''capsfilter'', ''opusenc'', ''fakesink'']"

lemma build_audio_ok: "(\<exists>els. build_audio_branch reg c eps = Inr els) = list_all (rg_has reg) audio_factories"
  by (auto simp: build_audio_branch_def audio_factories_def bindE_def element_make_cases Let_def)

lemma element_for_some: "\<exists>e. element_for v k = Some e"
  by (cases v; cases k) simp_all

section \<open>Properties\<close>


text \<open>Audio never costs the picture: whether it is switched on, whether its elements exist and whether a transport
  is there to carry it, the session has a graph exactly when the video branch alone has one, with the
  same video elements; and its reported state is healthy only if all of that holds.\<close>
theorem audio_never_stops_video:
  "(case pipeline_build reg c s monitors eps wt br sc of (r, sc') \<Rightarrow>
      (case build_video reg c s monitors br of
         Inl e \<Rightarrow> r = Inl e \<and> sc' = sc
       | Inr (els, b) \<Rightarrow> (\<exists>g. r = Inr g \<and> gr_video g = els \<and> gr_bridge g = b)
           \<and> sc' = (if \<not> enable_audio (c_media c) then sc
                    else set_audio_health (if wt \<and> list_all (rg_has reg) audio_factories then Healthy else Failed) sc)))"
proof (cases "build_video reg c s monitors br")
  case (Inr p)
  obtain els b where p: "p = (els, b)" by (cases p)
  have "rg_links reg" using Inr by (auto simp: build_video_def bindE_Inr_iff split: if_splits)
  moreover have "list_all (rg_has reg) audio_factories \<longleftrightarrow> (\<exists>els. build_audio_branch reg c eps = Inr els)"
    by (rule build_audio_ok [symmetric])
  ultimately show ?thesis
    by (cases "build_audio_branch reg c eps") (auto simp: pipeline_build_def Inr p)
qed (simp add: pipeline_build_def)

end
