(* ===== verification/MediaPump.thy ===== *)
theory MediaPump
  imports MediaGraph
begin

text \<open>
  What runs on the media graph (\<open>crates/host/src/media/pipeline.rs\<close>): the taps on the encoders, the
  capture clock, the once-a-second poller around the bitrate controller, the bus watch, the life of a
  pipeline and the frame-trace thread of \<open>webrtcbin.rs\<close>. Times are nanoseconds; a probe sees a buffer's
  time stamp, its delta flag and its bytes if it can be mapped.
\<close>

section \<open>The encoder tap\<close>

record Buffer =
  bf_pts :: "nat option"
  bf_delta :: bool
  bf_body :: "bytes option"

text \<open>The offset is unset until the first frame; the outlet is the transport's and outlives the pipeline.\<close>

record Tap =
  tp_inputs :: "nat list"
  tp_offset :: "int option"

definition tap_new :: Tap where "tap_new = \<lparr>tp_inputs = [], tp_offset = None\<rparr>"

record Outlet =
  ot_next :: u32
  ot_queue :: FrameQueue
  ot_audio_seq :: u32

datatype TapSent = SentVideo Buffer OutboundFrame | SentAudio Buffer bytes

definition tap_input :: "Buffer \<Rightarrow> Tap \<Rightarrow> Tap" where
  "tap_input b tp =
     (case bf_pts b of Some p \<Rightarrow> tp\<lparr>tp_inputs := keep_last 16 (tp_inputs tp @ [p div 1000])\<rparr> | None \<Rightarrow> tp)"

definition tap_output :: "nat \<Rightarrow> nat \<Rightarrow> Buffer \<Rightarrow> Tap \<times> Outlet \<Rightarrow> (Tap \<times> Outlet) \<times> TapSent list" where
  "tap_output now now_us b st =
     (case st of (tp, ot) \<Rightarrow>
        let tp1 = (case (bf_pts b, tp_inputs tp) of
                     (Some out, inp # _) \<Rightarrow> tp\<lparr>tp_inputs := tl (tp_inputs tp), tp_offset := Some (int (out div 1000) - int inp)\<rparr>
                   | _ \<Rightarrow> tp\<lparr>tp_inputs := tl (tp_inputs tp)\<rparr>);
            (no, next) = next_frame_no (ot_next ot);
            ot1 = ot\<lparr>ot_next := next\<rparr>
        in case bf_body b of None \<Rightarrow> ((tp1, ot1), [])
           | Some body \<Rightarrow>
               (let fr = \<lparr>o_frame_no = no, o_capture_us = of_nat (case bf_pts b of Some p \<Rightarrow> p div 1000 | None \<Rightarrow> 0),
                          o_key = (\<not> bf_delta b), o_payload = body, o_captured_at = now, o_enq_us = 0,
                          o_capture_host_us = 0\<rparr>
                in ((tp1, ot1\<lparr>ot_queue := snd (send_frame now now_us fr (ot_queue ot1))\<rparr>), [SentVideo b fr])))"

section \<open>The audio tap and the capture clock\<close>

definition audio_stamp :: "int option \<Rightarrow> nat \<Rightarrow> u64 option" where
  "audio_stamp off raw_us = map_option (\<lambda>d. of_nat (nat (max 0 (int raw_us + d)))) off"

definition audio_tap :: "Buffer \<Rightarrow> Tap \<times> Outlet \<Rightarrow> (Tap \<times> Outlet) \<times> TapSent list" where
  "audio_tap b st =
     (case st of (tp, ot) \<Rightarrow>
        (case (audio_stamp (tp_offset tp) (case bf_pts b of Some p \<Rightarrow> p div 1000 | None \<Rightarrow> 0), bf_body b) of
           (Some ts, Some m) \<Rightarrow>
             (let (d, next_seq) = audio_datagram m ts (ot_audio_seq ot) in ((tp, ot\<lparr>ot_audio_seq := next_seq\<rparr>), [SentAudio b d]))
         | _ \<Rightarrow> (st, [])))"

text \<open>\<open>clk\<close>: clock and base time of a pipeline that is still there.\<close>

definition capture_clock :: "int option \<Rightarrow> (nat \<times> nat) option \<Rightarrow> nat option" where
  "capture_clock off clk =
     (case (off, clk) of
        (Some d, Some (now, base)) \<Rightarrow>
          if now < base then None
          else let t = int ((now - base) div 1000) + d in if t < 0 then None else Some (nat t)
      | _ \<Rightarrow> None)"

datatype TapEvent = EncoderIn Buffer | EncoderOut nat nat Buffer | AudioOut Buffer

fun tap_step :: "TapEvent \<Rightarrow> Tap \<times> Outlet \<Rightarrow> (Tap \<times> Outlet) \<times> TapSent list" where
  "tap_step (EncoderIn b) (tp, ot) = ((tap_input b tp, ot), [])"
| "tap_step (EncoderOut now now_us b) st = tap_output now now_us b st"
| "tap_step (AudioOut b) st = audio_tap b st"

fun tap_run :: "TapEvent list \<Rightarrow> Tap \<times> Outlet \<Rightarrow> (Tap \<times> Outlet) \<times> TapSent list" where
  "tap_run [] st = (st, [])"
| "tap_run (e # es) st = (let (st1, out) = tap_step e st; (st2, outs) = tap_run es st1 in (st2, out @ outs))"

section \<open>The poller\<close>

datatype RouteWarning = NothingDecodes f32 f32 | LosingData f32 f32 nat nat

record Poller =
  po_last_frames :: nat
  po_last_capture :: nat
  po_last :: nat
  po_ctl :: BitrateController
  po_adapted :: nat
  po_last_lost :: "nat option"
  po_last_incomplete_ctl :: "nat option"
  po_last_client_move :: nat
  po_last_decoded :: nat
  po_last_incomplete :: nat
  po_last_route_warn :: nat

record PollEnv =
  pe_now :: nat
  pe_frames :: nat
  pe_capture :: nat
  pe_raw_level :: nat
  pe_rtp_ns :: "nat option"
  pe_wt :: "WtShared option"
  pe_enc_name :: string

text \<open>
  Starting the thread: \<open>clamp\<close> refuses a range that is empty and an instant 60 s before now must exist;
  otherwise the thread ends there and then.
\<close>

definition poller_new :: "SessionConfig \<Rightarrow> nat \<Rightarrow> nat \<Rightarrow> nat \<Rightarrow> Poller option" where
  "poller_new s now frames capture =
     (let hi = max (sc_max_kbps s) (sc_start_kbps s)
      in if hi < 500 \<or> now < 60000000000 then None
         else let ctl = controller_new (sc_start_kbps s) (max (clampN (sc_min_kbps s) 500 hi) 500) hi
              in Some \<lparr>po_last_frames = frames, po_last_capture = capture, po_last = now, po_ctl = ctl, po_adapted = kbps ctl,
                   po_last_lost = None, po_last_incomplete_ctl = None, po_last_client_move = now, po_last_decoded = 0,
                   po_last_incomplete = 0, po_last_route_warn = now - 60000000000\<rparr>)"

definition per_second :: "nat \<Rightarrow> nat \<Rightarrow> f32 \<Rightarrow> f32" where
  "per_second cur prev dt = f32_div (f32_nat (cur - prev)) dt"

text \<open>Lost packets and lost frames since the last report, the frames as the packets they would have been.\<close>

definition pkts_per_frame :: "SessionConfig \<Rightarrow> nat \<Rightarrow> nat" where
  "pkts_per_frame s bitrate =
     (let bpf = (if 0 < sc_fps s then nat \<lfloor>f32_div (f32_div (f32_mul (f32_nat bitrate) 1000) 8) (f32_nat (sc_fps s))\<rfloor> else 0)
      in max (bpf div 1100) 1)"

definition gather :: "SessionConfig \<Rightarrow> nat \<Rightarrow> nat \<Rightarrow> Telemetry option \<Rightarrow> Poller
    \<Rightarrow> (nat \<times> f32 \<times> f32 \<times> f32 \<times> bool \<times> f32) \<times> Poller" where
  "gather s now bitrate client po =
     (case client of None \<Rightarrow> ((0, 0, 0, 0, False, 0), po)
      | Some t \<Rightarrow>
          (let ld = (case po_last_lost po of Some p \<Rightarrow> te_packets_lost t - p | None \<Rightarrow> 0);
               dropped = (case po_last_incomplete_ctl po of Some p \<Rightarrow> te_frames_dropped_incomplete t - p | None \<Rightarrow> 0);
               po1 = po\<lparr>po_last_lost := Some (te_packets_lost t), po_last_incomplete_ctl := Some (te_frames_dropped_incomplete t)\<rparr>;
               po2 = (if te_frames_decoded t \<noteq> po_last_decoded po \<or> 0 < ld
                      then po1\<lparr>po_last_client_move := now, po_last_decoded := te_frames_decoded t\<rparr> else po1);
               fresh = (secs_f32 (now - po_last_client_move po2) < 4);
               lost = (ld + min (dropped * pkts_per_frame s bitrate) (2 ^ 64 - 1)) mod 2 ^ 64
           in ((lost, te_inbound_bitrate_kbps t, te_decoded_fps t, te_rtt_ms t, fresh, te_lat_p95_ms t), po2)))"

definition feedback :: "SessionConfig \<Rightarrow> PollEnv \<Rightarrow> nat \<times> f32 \<times> f32 \<times> f32 \<times> bool \<times> f32 \<Rightarrow> Feedback" where
  "feedback s e m =
     (case m of (lost, recv, dec_fps, rtt, have, lat) \<Rightarrow>
        let rtp = (case pe_rtp_ns e of Some ns \<Rightarrow> f32_div (f32_nat ns) 1000000 | None \<Rightarrow> 0);
            stall = (case pe_wt e of Some w \<Rightarrow> f32_nat (sh_write_stall_ms w) | None \<Rightarrow> 0)
        in \<lparr>lost_delta = lost, recv_kbps = recv, decoded_fps = dec_fps, target_fps = sc_fps s, rtt_ms = rtt,
            rtp_backlog_ms = max rtp stall, have_client = have, client_lat_p95_ms = lat,
            v4_datagram_carrier = (case pe_wt e of Some w \<Rightarrow> sh_datagram_video w | None \<Rightarrow> False),
            v4_pace_pps = (case pe_wt e of Some w \<Rightarrow> sh_pace_pps w | None \<Rightarrow> 0),
            inferred_loss_frac = Option.bind (pe_wt e) inferred_loss\<rparr>)"

text \<open>What is measured of the route, and the warning it raises; nothing here changes the picture's size.\<close>

definition DEFAULT_DATAGRAM_BUDGET :: nat where "DEFAULT_DATAGRAM_BUDGET = 1200"

definition route_loss :: "nat \<Rightarrow> f32 \<Rightarrow> f32" where
  "route_loss lost recv =
     (let chunk = f32_add (f32_nat DEFAULT_DATAGRAM_BUDGET) (- f32_nat WT_VIDEO_HEADER_LEN);
          frags = max (f32_div (f32_div (f32_mul recv 1000) 8) (max chunk 1)) 0;
          denom = f32_add (f32_nat lost) frags
      in if 1 < denom then f32_div (f32_nat lost) denom else 0)"

definition zombie :: "f32 \<Rightarrow> f32 \<Rightarrow> bool" where "zombie dec_fps recv \<longleftrightarrow> dec_fps \<le> 0 \<and> 1000 < recv"

definition starved :: "f32 \<Rightarrow> nat \<Rightarrow> f32 \<Rightarrow> nat \<Rightarrow> bool" where
  "starved loss inc recv adapted \<longleftrightarrow>
     dec 35 100 < loss \<or> (0 < inc \<and> 0 < recv \<and> recv < f32_mul (f32_nat adapted) (dec 5 10))"

definition route_check :: "nat \<Rightarrow> Telemetry option \<Rightarrow> nat \<times> f32 \<times> f32 \<Rightarrow> Poller \<times> StatsCollector
    \<Rightarrow> (Poller \<times> StatsCollector) \<times> RouteWarning option" where
  "route_check now client m st =
     (case (m, st) of ((lost, recv, dec_fps), po, sc) \<Rightarrow>
        let loss = route_loss lost recv;
            inc_now = (case client of Some t \<Rightarrow> te_frames_dropped_incomplete t | None \<Rightarrow> 0);
            inc = inc_now - po_last_incomplete po;
            po1 = po\<lparr>po_last_incomplete := inc_now\<rparr>;
            fire = ((zombie dec_fps recv \<or> starved loss inc recv (po_adapted po)) \<and> 30000000000 < now - po_last_route_warn po);
            sc1 = update_host (\<lambda>h. h\<lparr>st_route_loss_pct := f32_mul loss 100, st_incomplete_frames := inc\<rparr>) sc
        in if fire
           then ((po1\<lparr>po_last_route_warn := now\<rparr>, sc1),
                 Some (if zombie dec_fps recv then NothingDecodes recv loss else LosingData loss recv (po_adapted po) inc))
           else ((po1, sc1), None))"

text \<open>
  One tick; \<open>rate\<close> is the encoder's \<open>bitrate\<close> property, if it has one. The controller runs, and the property
  is set, only with one; the route is looked at only with a transport and telemetry that still moves.
\<close>

definition steer :: "Feedback \<Rightarrow> Poller \<Rightarrow> nat option \<Rightarrow> Poller \<times> nat option" where
  "steer fb po rate =
     (case rate of None \<Rightarrow> (po, None)
      | Some r \<Rightarrow>
          (let ctl = bstep fb (po_ctl po)
           in (po\<lparr>po_ctl := ctl, po_adapted := kbps ctl\<rparr>, Some (if kbps ctl \<noteq> po_adapted po then kbps ctl else r))))"

definition watch_route :: "PollEnv \<Rightarrow> Telemetry option \<Rightarrow> nat \<times> f32 \<times> f32 \<times> f32 \<times> bool \<times> f32 \<Rightarrow> Poller \<times> StatsCollector
    \<Rightarrow> (Poller \<times> StatsCollector) \<times> RouteWarning option" where
  "watch_route e client m st =
     (case m of (lost, recv, dec_fps, _, moving, _) \<Rightarrow>
        if pe_wt e \<noteq> None \<and> moving then route_check (pe_now e) client (lost, recv, dec_fps) st else (st, None))"

definition poll_step :: "SessionConfig \<Rightarrow> PollEnv \<Rightarrow> Poller \<times> nat option \<times> StatsCollector
    \<Rightarrow> (Poller \<times> nat option \<times> StatsCollector) \<times> RouteWarning option" where
  "poll_step s e st =
     (case st of (po, rate, sc) \<Rightarrow>
        let dt = max (secs_f32 (pe_now e - po_last po)) (dec 1 1000);
            enc_fps = per_second (pe_frames e) (po_last_frames po) dt;
            capture_fps = per_second (pe_capture e) (po_last_capture po) dt;
            po1 = po\<lparr>po_last := pe_now e, po_last_frames := pe_frames e, po_last_capture := pe_capture e\<rparr>;
            enc_bitrate = (case rate of Some r \<Rightarrow> r | None \<Rightarrow> 0);
            (m, po2) = gather s (pe_now e) enc_bitrate (sc_client sc) po1;
            (po3, rate1) = steer (feedback s e m) po2 rate;
            ((po4, sc1), warning) = watch_route e (sc_client sc) m (po3, sc);
            sc2 = update_host (\<lambda>h. h\<lparr>st_capture_fps := capture_fps, st_encoded_fps := enc_fps, st_raw_queue_frames := pe_raw_level e,
                    st_encoder_bitrate_kbps := enc_bitrate, st_encoder_backend := pe_enc_name e,
                    st_codec := (case sc_codec s of H264 \<Rightarrow> ''H264'' | H265 \<Rightarrow> ''H265''),
                    st_width := sc_width s, st_height := sc_height s, st_target_fps := sc_fps s\<rparr>) sc1
        in ((po4, rate1, sc2), warning))"

section \<open>The bus watch\<close>

datatype BusMsg = BusError string | BusWarning | BusEos | BusOther

definition AUDIO_BRANCH :: "string list" where
  "AUDIO_BRANCH = [''opusenc'', ''rtpopuspay'', ''rtpopus'', ''audioconvert'', ''audioresample'', ''audio-leaky'']"

text \<open>The result says whether the thread is still watching after these wake-ups; \<open>None\<close> is a time-out.\<close>

fun bus_watch :: "BusMsg option list \<Rightarrow> StatsCollector \<Rightarrow> bool \<times> StatsCollector" where
  "bus_watch [] sc = (True, sc)"
| "bus_watch (None # ms) sc = bus_watch ms sc"
| "bus_watch (Some m # ms) sc =
     (case m of
        BusError from \<Rightarrow>
          if contains_str from ''wasapi2src'' then bus_watch ms (set_audio_health Degraded sc)
          else if list_ex (contains_str from) AUDIO_BRANCH then bus_watch ms (set_audio_health Failed sc)
          else (False, sc)
      | BusEos \<Rightarrow> (False, sc)
      | _ \<Rightarrow> bus_watch ms sc)"

section \<open>The life of a pipeline\<close>

text \<open>A pipeline object of GStreamer is a number; the log holds what was done to each. A forgotten one keeps a reference for good.\<close>

datatype GstCall = ToPlaying bool | ToNull | Forgotten | Released

record GstLog =
  gl_next :: nat
  gl_calls :: "(nat \<times> GstCall) list"

record Pipe =
  pi_id :: nat
  pi_failed :: bool

definition gst_call :: "nat \<Rightarrow> GstCall \<Rightarrow> GstLog \<Rightarrow> GstLog" where
  "gst_call i k g = g\<lparr>gl_calls := gl_calls g @ [(i, k)]\<rparr>"

definition pipe_new :: "GstLog \<Rightarrow> Pipe \<times> GstLog" where
  "pipe_new g = (\<lparr>pi_id = gl_next g, pi_failed = False\<rparr>, g\<lparr>gl_next := gl_next g + 1\<rparr>)"

definition pipe_start :: "bool \<Rightarrow> Pipe \<times> GstLog \<Rightarrow> Pipe \<times> GstLog" where
  "pipe_start ok pg =
     (case pg of (p, g) \<Rightarrow> (if ok then p else p\<lparr>pi_failed := True\<rparr>, gst_call (pi_id p) (ToPlaying ok) g))"

definition pipe_stop :: "Pipe \<times> GstLog \<Rightarrow> Pipe \<times> GstLog" where
  "pipe_stop pg =
     (case pg of (p, g) \<Rightarrow>
        if pi_failed p then pipe_new (gst_call (pi_id p) Forgotten g) else (p, gst_call (pi_id p) ToNull g))"

definition pipe_drop :: "Pipe \<times> GstLog \<Rightarrow> GstLog" where
  "pipe_drop pg = (case pg of (p, g) \<Rightarrow> gst_call (pi_id p) Released (gst_call (pi_id p) ToNull g))"

text \<open>The media session's use of it: \<open>configure\<close> with a pipeline that could be built, \<open>start\<close>, \<open>stop\<close> (also its destructor).\<close>

datatype LifeOp = LConfigure | LStart bool | LStop

fun life_step :: "LifeOp \<Rightarrow> Pipe option \<times> GstLog \<Rightarrow> Pipe option \<times> GstLog" where
  "life_step LConfigure (inner, g) =
     (let (p, g1) = pipe_new g in (Some p, case inner of Some old \<Rightarrow> pipe_drop (old, g1) | None \<Rightarrow> g1))"
| "life_step (LStart ok) (inner, g) =
     (case inner of None \<Rightarrow> (None, g) | Some p \<Rightarrow> (let (p1, g1) = pipe_start ok (p, g) in (Some p1, g1)))"
| "life_step LStop (inner, g) =
     (case inner of None \<Rightarrow> (None, g) | Some p \<Rightarrow> (None, pipe_drop (pipe_stop (p, g))))"

section \<open>Asking for a keyframe\<close>

text \<open>
  \<open>accepted\<close>: the encoder's source pad took the upstream event; it has none if the argument is absent.
\<close>

datatype KeyframeAction = ForceKeyUnit | EmitForceKeyframe | SetForceIdr | NoKeyframe

definition force_keyframe_on :: "bool option \<Rightarrow> (string \<Rightarrow> bool) \<Rightarrow> KeyframeAction" where
  "force_keyframe_on accepted has =
     (if accepted = Some True then ForceKeyUnit
      else if has ''force-keyframe'' then EmitForceKeyframe
      else if has ''force-idr'' then SetForceIdr
      else NoKeyframe)"

section \<open>The frame-trace thread\<close>

definition trace_tick :: "FrameTrace \<times> StatsCollector \<Rightarrow> FrameTrace \<times> StatsCollector" where
  "trace_tick st =
     (case st of (ft, sc) \<Rightarrow>
        let (frames, ft1) = trace_drain ft
        in if frames = [] then (ft1, sc)
           else (case encode_percentiles frames of (p50, p95, _) \<Rightarrow>
             (ft1, update_host (\<lambda>h. h\<lparr>st_encode_ms_p50 := p50, st_encode_ms_p95 := p95\<rparr>) sc)))"

section \<open>Lemmas\<close>

subsection \<open>Taps\<close>

text \<open>
  The encoder the offset is measured on: at most sixteen frames inside, out in the order they went in, each
  stamped a whole number of microseconds later than its input. \<open>pend\<close> is what is inside.
\<close>

fun encodes :: "nat \<Rightarrow> nat list \<Rightarrow> TapEvent list \<Rightarrow> bool" where
  "encodes d pend [] \<longleftrightarrow> True"
| "encodes d pend (EncoderIn b # es) \<longleftrightarrow>
     (case bf_pts b of None \<Rightarrow> False | Some p \<Rightarrow> length pend < 16 \<and> encodes d (pend @ [p]) es)"
| "encodes d pend (EncoderOut _ _ b # es) \<longleftrightarrow>
     (case pend of [] \<Rightarrow> False | p # ps \<Rightarrow> bf_pts b = Some (p + 1000 * d) \<and> encodes d ps es)"
| "encodes d pend (AudioOut b # es) \<longleftrightarrow> encodes d pend es"

definition running_us :: "Buffer \<Rightarrow> nat" where
  "running_us b = (case bf_pts b of Some p \<Rightarrow> p div 1000 | None \<Rightarrow> 0)"

definition stamped :: "nat \<Rightarrow> TapSent \<Rightarrow> bool" where
  "stamped d x =
     (case x of
        SentVideo b f \<Rightarrow> o_capture_us f = of_nat ((the (bf_pts b) - 1000 * d) div 1000 + d)
      | SentAudio b g \<Rightarrow> take 8 (drop 5 g) = u64_be (of_nat (running_us b + d)))"

lemma audio_stamped:
  assumes "audio_tap b (tp, ot) = (st, outs)" "tp_offset tp = None \<or> tp_offset tp = Some (int d)"
  shows "(\<exists>q. st = (tp, q)) \<and> list_all (stamped d) outs \<and> (tp_offset tp = None \<longrightarrow> outs = [])"
  using assms
  by (auto simp: audio_tap_def audio_stamp_def audio_datagram_def stamped_def running_us_def u32_be_def u64_be_def nat_add_distrib
      split: option.splits)

lemma tap_run_stamped:
  assumes "encodes d pend es" "tp_inputs tp = map (\<lambda>p. p div 1000) pend" "length pend \<le> 16"
    and "tp_offset tp = None \<or> tp_offset tp = Some (int d)"
  shows "list_all (stamped d) (snd (tap_run es (tp, ot)))"
  using assms
proof (induction es arbitrary: pend tp ot)
  case (Cons e es)
  show ?case
  proof (cases e)
    case (EncoderIn b)
    from Cons.prems(1) obtain p where p: "bf_pts b = Some p" "length pend < 16" "encodes d (pend @ [p]) es"
      by (auto simp: EncoderIn split: option.splits)
    have "list_all (stamped d) (snd (tap_run es (tap_input b tp, ot)))"
      by (rule Cons.IH [OF p(3)]) (use p Cons.prems in \<open>auto simp: tap_input_def keep_last_def\<close>)
    then show ?thesis by (simp add: EncoderIn case_prod_beta Let_def)
  next
    case (EncoderOut now now_us b)
    from Cons.prems(1) obtain p ps where p: "pend = p # ps" "bf_pts b = Some (p + 1000 * d)" "encodes d ps es"
      by (auto simp: EncoderOut split: list.splits)
    obtain tp1 ot1 outs where o: "tap_output now now_us b (tp, ot) = ((tp1, ot1), outs)" by (metis prod.exhaust)
    have t: "tp1 = tp\<lparr>tp_inputs := map (\<lambda>p. p div 1000) ps, tp_offset := Some (int d)\<rparr>" "list_all (stamped d) outs"
      using o p Cons.prems(2)
      by (auto simp: tap_output_def next_frame_no_def Let_def stamped_def split: option.splits)
    have "list_all (stamped d) (snd (tap_run es (tp1, ot1)))"
      by (rule Cons.IH [OF p(3)]) (use p Cons.prems t in auto)
    then show ?thesis using o t(2) by (simp add: EncoderOut case_prod_beta Let_def)
  next
    case (AudioOut b)
    obtain st outs where a: "audio_tap b (tp, ot) = (st, outs)" by (metis prod.exhaust)
    from audio_stamped [OF a Cons.prems(4)] obtain q where q: "st = (tp, q)" "list_all (stamped d) outs" by blast
    have "list_all (stamped d) (snd (tap_run es (tp, q)))"
      by (rule Cons.IH) (use Cons.prems AudioOut in auto)
    then show ?thesis using a q by (simp add: AudioOut case_prod_beta Let_def)
  qed
qed simp

lemma no_offset_no_audio:
  assumes "list_all (\<lambda>e. case e of EncoderOut _ _ _ \<Rightarrow> False | _ \<Rightarrow> True) es" "tp_offset tp = None"
  shows "snd (tap_run es (tp, ot)) = []"
  using assms
proof (induction es arbitrary: tp ot)
  case (Cons e es)
  then show ?case
    by (cases e) (auto simp: tap_input_def audio_tap_def audio_stamp_def case_prod_beta Let_def split: option.splits)
qed simp

subsection \<open>The poller\<close>

fun poll_run :: "SessionConfig \<Rightarrow> (PollEnv \<times> StatsCollector) list \<Rightarrow> Poller \<times> nat option
    \<Rightarrow> (Poller \<times> nat option) \<times> (nat \<times> RouteWarning) list" where
  "poll_run s [] st = (st, [])"
| "poll_run s ((e, sc) # ticks) (po, rate) =
     (case poll_step s e (po, rate, sc) of ((po1, rate1, _), w) \<Rightarrow>
        (case poll_run s ticks (po1, rate1) of (st, ws) \<Rightarrow>
           (st, (case w of Some x \<Rightarrow> [(pe_now e, x)] | None \<Rightarrow> []) @ ws)))"

lemma gather_keeps:
  assumes "gather s now r cl po = (m, po')"
  shows "po_ctl po' = po_ctl po \<and> po_adapted po' = po_adapted po \<and> po_last_route_warn po' = po_last_route_warn po"
  using assms by (auto simp: gather_def Let_def split: option.splits if_splits)

lemma route_check_spec:
  assumes "route_check now cl m (po, sc) = ((po', sc'), w)"
  shows "po_ctl po' = po_ctl po \<and> po_adapted po' = po_adapted po
    \<and> (case w of None \<Rightarrow> po_last_route_warn po' = po_last_route_warn po
       | Some _ \<Rightarrow> po_last_route_warn po' = now \<and> po_last_route_warn po + 30000000000 < now)"
  using assms by (cases m) (auto simp: route_check_def Let_def split: if_splits)

lemma watch_route_spec:
  assumes "watch_route e cl m (po, sc) = ((po', sc'), w)"
  shows "po_ctl po' = po_ctl po \<and> po_adapted po' = po_adapted po
    \<and> (case w of None \<Rightarrow> po_last_route_warn po' = po_last_route_warn po
       | Some _ \<Rightarrow> po_last_route_warn po' = pe_now e \<and> po_last_route_warn po + 30000000000 < pe_now e)"
  using assms by (auto simp: watch_route_def split: prod.splits if_splits dest: route_check_spec)

text \<open>What one tick does to the controller, the encoder and the warnings.\<close>

lemma poll_step_spec:
  assumes "poll_step s e (po, rate, sc) = ((po', rate', sc'), w)"
  shows "(case rate of None \<Rightarrow> rate' = None \<and> po_ctl po' = po_ctl po \<and> po_adapted po' = po_adapted po
      | Some r \<Rightarrow> (\<exists>fb. po_ctl po' = bstep fb (po_ctl po) \<and> (sc_client sc = None \<longrightarrow> \<not> have_client fb))
          \<and> po_adapted po' = kbps (po_ctl po')
          \<and> rate' = Some (if po_adapted po' = po_adapted po then r else po_adapted po'))
    \<and> (case w of None \<Rightarrow> po_last_route_warn po' = po_last_route_warn po
       | Some _ \<Rightarrow> po_last_route_warn po' = pe_now e \<and> po_last_route_warn po + 30000000000 < pe_now e)"
proof -
  define po1 where "po1 = po\<lparr>po_last := pe_now e, po_last_frames := pe_frames e, po_last_capture := pe_capture e\<rparr>"
  obtain m po2 where g: "gather s (pe_now e) (case rate of Some r \<Rightarrow> r | None \<Rightarrow> 0) (sc_client sc) po1 = (m, po2)"
    by (metis prod.exhaust)
  obtain po3 r1 where s3: "steer (feedback s e m) po2 rate = (po3, r1)" by (metis prod.exhaust)
  obtain po4 sc1 w1 where c: "watch_route e (sc_client sc) m (po3, sc) = ((po4, sc1), w1)" by (metis prod.exhaust)
  have st: "po' = po4" "rate' = r1" "w = w1"
    using assms by (simp_all add: poll_step_def Let_def g s3 c flip: po1_def)
  have k: "po_ctl po2 = po_ctl po" "po_adapted po2 = po_adapted po" "po_last_route_warn po2 = po_last_route_warn po"
    using gather_keeps [OF g] by (simp_all add: po1_def)
  have h: "sc_client sc = None \<longrightarrow> \<not> have_client (feedback s e m)"
    using g by (auto simp: gather_def feedback_def)
  have "po_last_route_warn po3 = po_last_route_warn po"
    using s3 k by (auto simp: steer_def Let_def split: option.splits)
  then show ?thesis
    using s3 k h watch_route_spec [OF c] unfolding st
    by (cases rate) (auto simp: steer_def Let_def split: option.splits)
qed

lemma poll_run_rate:
  assumes "rate = Some (po_adapted po)" "po_adapted po = kbps (po_ctl po)" "rate_ok_inv (po_ctl po)" "small_ceiling (po_ctl po)"
  shows "case poll_run s ticks (po, rate) of ((po', rate'), _) \<Rightarrow>
    rate' = Some (po_adapted po') \<and> po_adapted po' = kbps (po_ctl po') \<and> rate_ok_inv (po_ctl po')
    \<and> bfloor (po_ctl po') = bfloor (po_ctl po) \<and> bceiling (po_ctl po') = bceiling (po_ctl po)"
  using assms
proof (induction ticks arbitrary: po rate)
  case (Cons tick ticks)
  obtain e sc where t: "tick = (e, sc)" by (cases tick)
  obtain po1 rate1 sc1 w where p: "poll_step s e (po, rate, sc) = ((po1, rate1, sc1), w)" by (metis prod.exhaust)
  note sp = poll_step_spec [OF p]
  then obtain fb where fb: "po_ctl po1 = bstep fb (po_ctl po)" and a: "po_adapted po1 = kbps (po_ctl po1)"
    and r: "rate1 = Some (po_adapted po1)" using Cons.prems(1) by auto
  have b: "steps_to (po_ctl po) (po_ctl po1)" unfolding fb by (rule bstep_steps) (rule Cons.prems(4))
  have "rate_ok_inv (po_ctl po1)" "small_ceiling (po_ctl po1)"
    using b Cons.prems(3,4) by (auto simp: steps_to_def small_ceiling_def)
  note IH = Cons.IH [OF r a this]
  show ?case using IH b by (auto simp: t p steps_to_def split: prod.splits)
qed simp

lemma poll_run_warnings:
  "sorted_wrt (\<lambda>a b. fst a + 30000000000 < fst b) (snd (poll_run s ticks (po, rate)))
   \<and> (\<forall>x \<in> set (snd (poll_run s ticks (po, rate))). po_last_route_warn po + 30000000000 < fst x)"
proof (induction ticks arbitrary: po rate)
  case (Cons tick ticks)
  obtain e sc where t: "tick = (e, sc)" by (cases tick)
  obtain po1 rate1 sc1 w where p: "poll_step s e (po, rate, sc) = ((po1, rate1, sc1), w)" by (metis prod.exhaust)
  note sp = poll_step_spec [OF p]
  show ?case
    using Cons.IH [of po1 rate1] sp by (cases w) (auto simp: t p case_prod_beta intro: less_trans)
qed simp

text \<open>A session negotiated from its provisional configuration starts between 2 and 6 Mbps, under its maximum.\<close>

lemma negotiated_rates:
  assumes "choose_config c b (Some (provisional_config c b m)) codecs hints = Some s"
  shows "2000 \<le> sc_start_kbps s \<and> sc_start_kbps s \<le> 6000 \<and> sc_start_kbps s \<le> sc_max_kbps s \<and> sc_max_kbps s \<le> 120000
    \<and> sc_min_kbps s = 600"
proof -
  obtain w h f where cm: "clamp_mode (rm_width m) (rm_height m) (rm_fps m) = (w, h, f)" by (metis prod_cases3)
  obtain codec mx t where s: "s = build_config c b w h f (rm_preset m) codec ''hardware'' (Some mx) t"
    using assms by (auto simp: choose_config_def provisional_config_def cm build_config_fields Let_def
        build_config_def split_beta split: option.splits)
  obtain st pm fl where pol: "bitrate_kbps codec w h f = (st, pm, fl)" by (metis prod_cases3)
  have "4000 \<le> st" using policy_bounds [OF _ _ _ _ _ _ pol] clamp_mode_bounds [OF cm] by auto
  then show ?thesis by (auto simp: s build_config_def pol Let_def clampN_def)
qed

text \<open>A rate floor of 2 Mbps on the encoder is not one on the negotiated maximum: a small mode asked for without a cap
  runs the encoder at more than twice the maximum, and a tick that leaves the controller where it is
  leaves the encoder there too.\<close>

definition small_session :: SessionConfig where
  "small_session = build_config default_config ''sendinput'' 640 360 15 Balanced H264 ''hardware'' None Desktop"

lemma encoder_over_maximum: "2 * sc_max_kbps small_session < encoder_kbps small_session"
  by code_simp

lemma poller_leaves_encoder:
  assumes "poll_step s e (po, Some r, sc) = ((po', rate', sc'), w)" "kbps (po_ctl po') = po_adapted po"
  shows "rate' = Some r"
  using poll_step_spec [OF assms(1)] assms(2) by auto

text \<open>The poller of a pipeline that was given up never ends, and keeps writing what it sees: nothing.\<close>

lemma leaked_poller_overwrites:
  assumes "poll_step s e (po, rate, sc) = ((po', rate', sc'), w)" "pe_capture e = po_last_capture po" "pe_frames e = po_last_frames po"
  shows "st_capture_fps (sc_host sc') = 0 \<and> st_encoded_fps (sc_host sc') = 0"
proof -
  have z: "per_second n n dt = 0" for n dt by (simp add: per_second_def f32_nat_def f32_div_def fround_def)
  show ?thesis
    using assms by (auto simp: poll_step_def Let_def update_host_def z split: prod.splits)
qed

subsection \<open>The bus and the life of a pipeline\<close>

definition ends_watch :: "BusMsg option \<Rightarrow> bool" where
  "ends_watch m =
     (case m of Some BusEos \<Rightarrow> True
      | Some (BusError from) \<Rightarrow> \<not> contains_str from ''wasapi2src'' \<and> \<not> list_ex (contains_str from) AUDIO_BRANCH
      | _ \<Rightarrow> False)"

lemma ends_watch_simps [simp]:
  "ends_watch None \<longleftrightarrow> False" "ends_watch (Some BusEos) \<longleftrightarrow> True" "ends_watch (Some BusWarning) \<longleftrightarrow> False"
  "ends_watch (Some BusOther) \<longleftrightarrow> False"
  "ends_watch (Some (BusError src)) \<longleftrightarrow> \<not> contains_str src ''wasapi2src'' \<and> \<not> list_ex (contains_str src) AUDIO_BRANCH"
  by (simp_all add: ends_watch_def)

text \<open>Only the reported state of the audio differs, and a failed branch stays failed.\<close>

definition only_audio :: "StatsCollector \<Rightarrow> StatsCollector \<Rightarrow> bool" where
  "only_audio sc sc' \<longleftrightarrow>
     sc'\<lparr>sc_audio_health := sc_audio_health sc\<rparr> = sc
     \<and> (sc_audio_health sc = Failed \<longrightarrow> sc_audio_health sc' = Failed)"

lemma only_audio_refl: "only_audio sc sc" by (simp add: only_audio_def)

lemma only_audio_set: "k \<noteq> Restarting \<Longrightarrow> only_audio sc (set_audio_health k sc)"
  by (simp add: only_audio_def set_audio_health_def)

lemma only_audio_trans: "only_audio a b \<Longrightarrow> only_audio b c \<Longrightarrow> only_audio a c"
  by (cases a; cases b; cases c) (auto simp: only_audio_def)

text \<open>After a pipeline refused to start, nothing shuts it down or frees it.\<close>

definition broken_safe :: "(nat \<times> GstCall) list \<Rightarrow> bool" where
  "broken_safe = sorted_wrt (\<lambda>(i, k) (j, l). \<not> (i = j \<and> k = ToPlaying False \<and> (l = ToNull \<or> l = Released)))"

definition life_ok :: "Pipe option \<times> GstLog \<Rightarrow> bool" where
  "life_ok st =
     (case st of (inner, g) \<Rightarrow>
        broken_safe (gl_calls g) \<and> (\<forall>(i, _) \<in> set (gl_calls g). i < gl_next g)
        \<and> (case inner of None \<Rightarrow> True
           | Some p \<Rightarrow> pi_id p < gl_next g \<and> ((pi_id p, ToPlaying False) \<in> set (gl_calls g) \<longrightarrow> pi_failed p)))"

text \<open>A sequence of operations that never builds over a pipeline that failed to start.\<close>

fun careful :: "LifeOp list \<Rightarrow> Pipe option \<times> GstLog \<Rightarrow> bool" where
  "careful [] st \<longleftrightarrow> True"
| "careful (k # ks) st \<longleftrightarrow>
     (k = LConfigure \<longrightarrow> (case fst st of Some p \<Rightarrow> \<not> pi_failed p | None \<Rightarrow> True)) \<and> careful ks (life_step k st)"

lemma broken_safe_snoc:
  "broken_safe (cs @ [(i, k)]) \<longleftrightarrow>
     broken_safe cs \<and> (k = ToNull \<or> k = Released \<longrightarrow> (i, ToPlaying False) \<notin> set cs)"
  by (auto simp: broken_safe_def sorted_wrt_append)

lemma gst_call_fields [simp]: "gl_calls (gst_call i k g) = gl_calls g @ [(i, k)]" "gl_next (gst_call i k g) = gl_next g"
  by (simp_all add: gst_call_def)

lemma life_step_ok:
  assumes "life_ok st" "careful [k] st"
  shows "life_ok (life_step k st)"
proof -
  obtain inner g where st: "st = (inner, g)" by (cases st)
  have less: "i < gl_next g" if "(i, c) \<in> set (gl_calls g)" for i c
    using assms(1) that by (auto simp: st life_ok_def)
  show ?thesis
  proof (cases k)
    case LConfigure
    then show ?thesis
      using assms less by (cases inner)
        (auto simp: st life_ok_def pipe_new_def pipe_drop_def broken_safe_snoc append_assoc [symmetric] simp del: append_assoc
          intro: less_SucI dest: less)
  next
    case (LStart ok)
    then show ?thesis
      using assms by (cases inner) (auto simp: st life_ok_def pipe_start_def broken_safe_snoc)
  next
    case LStop
    then show ?thesis
      using assms less by (cases inner)
        (auto simp: st life_ok_def pipe_stop_def pipe_new_def pipe_drop_def broken_safe_snoc append_assoc [symmetric]
          simp del: append_assoc intro: less_SucI dest: less)
  qed
qed

text \<open>Building over a pipeline that failed to start shuts it down after all.\<close>

lemma configure_over_failed:
  "fold life_step [LConfigure, LStart False, LConfigure] (None, \<lparr>gl_next = 0, gl_calls = []\<rparr>)
     = (Some \<lparr>pi_id = 1, pi_failed = False\<rparr>, \<lparr>gl_next = 2, gl_calls = [(0, ToPlaying False), (0, ToNull), (0, Released)]\<rparr>)"
  by (simp add: pipe_new_def pipe_start_def pipe_drop_def gst_call_def)

subsection \<open>The frame trace\<close>

text \<open>The host stamps captures only: no record is ever complete, and the encode times it reports stay as they are.\<close>

lemma frame_trace_never_reports:
  assumes "ft_pending ft = []"
  shows "ft_pending (on_capture t ft) = [] \<and> trace_tick (ft, sc) = (ft, sc)"
  using assms by (simp add: on_capture_def trace_tick_def trace_drain_def)

section \<open>Properties\<close>

text \<open>C34. Picture and sound carry one clock: with an encoder that emits its frames in order, a constant time later
  and at most sixteen behind, every frame handed to the transport and every audio packet sent is
  stamped with the running time it was captured at plus the one offset, and no packet is sent before
  the first frame has shown what the offset is.\<close>
theorem lip_sync:
  assumes "encodes d [] es"
  shows "list_all (stamped d) (snd (tap_run es (tap_new, ot)))
    \<and> snd (tap_run (takeWhile (\<lambda>e. case e of EncoderOut _ _ _ \<Rightarrow> False | _ \<Rightarrow> True) es) (tap_new, ot)) = []"
  using tap_run_stamped [OF assms, of tap_new ot]
  by (auto simp: tap_new_def list_all_iff intro!: no_offset_no_audio dest!: set_takeWhileD)

theorem lip_sync_witness:
  "list_all (stamped 5)
     (snd (tap_run
       [AudioOut \<lparr>bf_pts = Some 1000000, bf_delta = False, bf_body = Some [1]\<rparr>,
        EncoderIn \<lparr>bf_pts = Some 2000000, bf_delta = False, bf_body = None\<rparr>,
        EncoderOut 9 9 \<lparr>bf_pts = Some 2005000, bf_delta = False, bf_body = Some [2]\<rparr>,
        AudioOut \<lparr>bf_pts = Some 3000000, bf_delta = False, bf_body = Some [3]\<rparr>]
       (tap_new, \<lparr>ot_next = 0, ot_queue = queue_new 4, ot_audio_seq = 0\<rparr>)))"
  using lip_sync [of 5 "[AudioOut \<lparr>bf_pts = Some 1000000, bf_delta = False, bf_body = Some [1]\<rparr>,
        EncoderIn \<lparr>bf_pts = Some 2000000, bf_delta = False, bf_body = None\<rparr>,
        EncoderOut 9 9 \<lparr>bf_pts = Some 2005000, bf_delta = False, bf_body = Some [2]\<rparr>,
        AudioOut \<lparr>bf_pts = Some 3000000, bf_delta = False, bf_body = Some [3]\<rparr>]" "\<lparr>ot_next = 0, ot_queue = queue_new 4, ot_audio_seq = 0\<rparr>"]
  by simp

text \<open>C33. The encoder runs at the controller's rate: for a session negotiated from its provisional configuration,
  whatever is measured, reported and in whatever order, after any number of ticks the encoder's rate is
  the one the controller last decided, between 600 kbps and the negotiated maximum.\<close>
theorem encoder_follows_controller:
  assumes "choose_config c b (Some (provisional_config c b m)) codecs hints = Some s"
    and "poller_new s now frames capture = Some po"
  shows "case poll_run s ticks (po, Some (encoder_kbps s)) of ((po', rate), _) \<Rightarrow>
    rate = Some (kbps (po_ctl po')) \<and> 600 \<le> kbps (po_ctl po') \<and> kbps (po_ctl po') \<le> sc_max_kbps s"
proof -
  note r = negotiated_rates [OF assms(1)]
  have ctl: "po_ctl po = controller_new (sc_start_kbps s) 600 (sc_max_kbps s)" "po_adapted po = kbps (po_ctl po)"
    using assms(2) r by (auto simp: poller_new_def Let_def clampN_def max_def split: if_splits)
  have k: "encoder_kbps s = po_adapted po"
    using r by (simp add: ctl encoder_kbps_def controller_new_def Let_def clampN_def)
  have "small_ceiling (po_ctl po)" using r by (simp add: ctl controller_new_def Let_def small_ceiling_def u32_max_def)
  moreover have "rate_ok_inv (po_ctl po)" by (simp add: ctl controller_new_ok)
  ultimately have p: "case poll_run s ticks (po, Some (encoder_kbps s)) of ((po', rate'), _) \<Rightarrow>
    rate' = Some (po_adapted po') \<and> po_adapted po' = kbps (po_ctl po') \<and> rate_ok_inv (po_ctl po')
    \<and> bfloor (po_ctl po') = bfloor (po_ctl po) \<and> bceiling (po_ctl po') = bceiling (po_ctl po)"
    by (intro poll_run_rate) (simp_all add: k ctl(2))
  have "bfloor (po_ctl po) = 600" "bceiling (po_ctl po) = sc_max_kbps s"
    using r by (simp_all add: ctl controller_new_def Let_def)
  then show ?thesis using p by (auto simp: rate_ok_inv_def split: prod.splits)
qed

text \<open>The negotiated session of the witness.\<close>

definition witness_codecs :: "RtpCodecCapability list" where
  "witness_codecs = [\<lparr>rc_mime_type = ''video/H264'', clock_rate = 90000, channels = None, sdp_fmtp_line = None\<rparr>]"

theorem encoder_follows_controller_witness:
  "\<exists>s po. choose_config default_config ''sendinput'' (Some (provisional_config default_config ''sendinput''
        \<lparr>rm_width = 1920, rm_height = 1080, rm_fps = 60, rm_preset = Balanced, rm_codec_preference = None,
         rm_max_bitrate_kbps = None, rm_stream_target = Desktop\<rparr>)) witness_codecs [] = Some s
     \<and> poller_new s 60000000000 0 0 = Some po
     \<and> (case poll_run s [] (po, Some (encoder_kbps s)) of ((po', rate), _) \<Rightarrow> rate = Some (kbps (po_ctl po')))"
proof -
  let ?m = "\<lparr>rm_width = 1920, rm_height = 1080, rm_fps = 60, rm_preset = Balanced, rm_codec_preference = None,
         rm_max_bitrate_kbps = None, rm_stream_target = Desktop\<rparr>"
  let ?r = "choose_config default_config ''sendinput'' (Some (provisional_config default_config ''sendinput'' ?m)) witness_codecs []"
  have "client_has witness_codecs (mime_type H264) \<and> decodes [] H264" by code_simp
  then obtain s where s: "?r = Some s" using choose_config_none by (metis not_None_eq)
  obtain po where po: "poller_new s 60000000000 0 0 = Some po"
    using negotiated_rates [OF s] by (auto simp: poller_new_def Let_def)
  from encoder_follows_controller [OF s po, of "[]"] s po show ?thesis by auto
qed

text \<open>Warnings about the route are rare: however the route behaves, more than 30 seconds pass between one and the next.\<close>
theorem route_warnings_apart:
  "sorted_wrt (\<lambda>a b. fst a + 30000000000 < fst b) (snd (poll_run s ticks (po, rate)))"
  using poll_run_warnings by blast

text \<open>Without a report of the client the rate never rises: such a tick leaves it or, when the send queue stands
  for more than a quarter of a second, lowers it.\<close>
theorem silence_never_raises:
  assumes "poll_step s e (po, Some (po_adapted po), sc) = ((po', Some r, sc'), w)" "sc_client sc = None"
    and "po_adapted po = kbps (po_ctl po)"
  shows "r \<le> po_adapted po"
proof -
  from poll_step_spec [OF assms(1)] assms(2) obtain fb where "po_ctl po' = bstep fb (po_ctl po)" "\<not> have_client fb"
    "po_adapted po' = kbps (po_ctl po')" "r = po_adapted po'" by (auto split: if_splits)
  then show ?thesis by (simp add: assms(3) bstep_def Let_def)
qed

text \<open>Sound never ends the watch over the picture: the bus thread keeps watching exactly until a message ends the
  stream or reports an error outside the audio branch; and all it ever changes is the reported state of
  the audio, which a dead audio branch leaves failed.\<close>
theorem bus_watch_exact:
  "(case bus_watch ms sc of (alive, sc') \<Rightarrow>
      alive = (\<not> list_ex ends_watch ms) \<and> only_audio sc sc')"
proof (induction ms arbitrary: sc)
  case (Cons m ms)
  have go: "case bus_watch ms (set_audio_health k sc) of (alive, sc') \<Rightarrow>
      alive = (\<not> list_ex ends_watch ms) \<and> only_audio sc sc'" if "k \<noteq> Restarting" for k
    using Cons.IH [of "set_audio_health k sc"] only_audio_trans [OF only_audio_set [OF that]] by (auto split: prod.splits)
  show ?case
  proof (cases m)
    case (Some x)
    show ?thesis
    proof (cases x)
      case (BusError src)
      show ?thesis
        using go [of Degraded] go [of Failed] only_audio_refl [of sc]
        by (cases "contains_str src ''wasapi2src''"; cases "list_ex (contains_str src) AUDIO_BRANCH")
          (simp_all add: Some BusError)
    qed (use Cons.IH [of sc] only_audio_refl [of sc] in \<open>simp_all add: Some\<close>)
  qed (use Cons.IH [of sc] in \<open>simp\<close>)
qed (simp add: only_audio_refl)

text \<open>A pipeline that refused to start is left alone: however a session starts, stops and rebuilds, as long as it
  stops a pipeline that failed before it builds the next, no such pipeline is ever shut down or freed.\<close>
theorem broken_pipeline_left_alone:
  assumes "careful ops (None, \<lparr>gl_next = 0, gl_calls = []\<rparr>)"
  shows "broken_safe (gl_calls (snd (fold life_step ops (None, \<lparr>gl_next = 0, gl_calls = []\<rparr>))))"
proof -
  have "life_ok (fold life_step ops st)" if "life_ok st" "careful ops st" for st
    using that
  proof (induction ops arbitrary: st)
    case (Cons k ks)
    have "life_ok (life_step k st)" by (rule life_step_ok) (use Cons.prems in simp_all)
    then show ?case using Cons by simp
  qed simp
  from this [OF _ assms] show ?thesis
    by (auto simp: life_ok_def broken_safe_def split: prod.splits)
qed

theorem broken_pipeline_left_alone_witness:
  "broken_safe (gl_calls (snd (fold life_step [LConfigure, LStart False, LStop, LConfigure, LStart True, LStop]
     (None, \<lparr>gl_next = 0, gl_calls = []\<rparr>))))"
  using broken_pipeline_left_alone [of "[LConfigure, LStart False, LStop, LConfigure, LStart True, LStop]"]
  by (simp add: pipe_new_def pipe_start_def pipe_stop_def pipe_drop_def gst_call_def)

end
