(* ===== verification/InputBackends.thy ===== *)
theory InputBackends
  imports InputHost
begin

text \<open>
  The back ends of the input session (\<open>crates/host/src/input/backends/sendinput.rs\<close>,
  \<open>virtual_hid.rs\<close>): what a difference becomes as calls of \<open>SendInput\<close> and as reports of a virtual
  Xbox 360 pad. The specification side is what Windows holds after those calls.
\<close>

section \<open>SendInput\<close>

datatype MouseFlag =
    MMove | MLeftDown | MLeftUp | MRightDown | MRightUp | MMiddleDown | MMiddleUp | MXDown | MXUp | MWheel | MHWheel

datatype WinInput =
    KeyInput (ki_scan: u16) (ki_extended: bool) (ki_up: bool)
  | MouseInput (mi_dx: int) (mi_dy: int) (mi_data: u32) (mi_flag: MouseFlag)

definition WHEEL_DELTA :: int where "WHEEL_DELTA = 120"
definition XBUTTON1 :: u32 where "XBUTTON1 = 1"
definition XBUTTON2 :: u32 where "XBUTTON2 = 2"

definition key_input :: "u16 \<Rightarrow> bool \<Rightarrow> WinInput" where
  "key_input code down = KeyInput (code AND 0xFF) (drop_bit 8 code = 0xE0) (\<not> down)"

definition mouse_button :: "nat \<Rightarrow> bool \<Rightarrow> WinInput" where
  "mouse_button b down =
     (if b = 0 then MouseInput 0 0 0 (if down then MLeftDown else MLeftUp)
      else if b = 1 then MouseInput 0 0 0 (if down then MRightDown else MRightUp)
      else if b = 2 then MouseInput 0 0 0 (if down then MMiddleDown else MMiddleUp)
      else if b = 3 then MouseInput 0 0 XBUTTON1 (if down then MXDown else MXUp)
      else MouseInput 0 0 XBUTTON2 (if down then MXDown else MXUp))"

fun action_inputs :: "InputAction \<Rightarrow> WinInput list" where
  "action_inputs (AMouseMove dx dy) = [MouseInput dx dy 0 MMove]"
| "action_inputs (AWheel dx dy) =
     (if dy \<noteq> 0 then [MouseInput 0 0 (of_int (- dy * WHEEL_DELTA)) MWheel] else [])
     @ (if dx \<noteq> 0 then [MouseInput 0 0 (of_int (dx * WHEEL_DELTA)) MHWheel] else [])"
| "action_inputs (AMouseButton b down) = [mouse_button b down]"
| "action_inputs (AKey code down) = [key_input code down]"
| "action_inputs _ = []"

record SendInputBackend =
  injection_blocked :: bool

text \<open>\<open>accepted\<close>: how many of a batch Windows takes. The result is what was injected and whether it is warned of.\<close>

definition sendinput_send :: "(WinInput list \<Rightarrow> nat) \<Rightarrow> WinInput list \<Rightarrow> SendInputBackend \<Rightarrow> WinInput list \<times> bool \<times> SendInputBackend" where
  "sendinput_send accepted inputs b =
     (if inputs = [] then ([], False, b)
      else let n = accepted inputs
           in if n \<noteq> length inputs \<and> \<not> injection_blocked b then (take n inputs, True, b\<lparr>injection_blocked := True\<rparr>)
              else (take n inputs, False, b))"

definition sendinput_apply :: "(WinInput list \<Rightarrow> nat) \<Rightarrow> InputAction list \<Rightarrow> SendInputBackend \<Rightarrow> WinInput list \<times> bool \<times> SendInputBackend" where
  "sendinput_apply accepted d b = sendinput_send accepted (concat (map action_inputs d)) b"

text \<open>\<open>release_all\<close> of this back end does nothing.\<close>

fun sendinput_calls :: "(WinInput list \<Rightarrow> nat) \<Rightarrow> BackendCall list \<Rightarrow> SendInputBackend \<Rightarrow> WinInput list" where
  "sendinput_calls accepted [] b = []"
| "sendinput_calls accepted (Desk d # cs) b =
     (let (out, _, b1) = sendinput_apply accepted d b in out @ sendinput_calls accepted cs b1)"
| "sendinput_calls accepted (_ # cs) b = sendinput_calls accepted cs b"

section \<open>The virtual pad\<close>

record XGamepad =
  xg_buttons :: u16
  xg_left_trigger :: u8
  xg_right_trigger :: u8
  xg_thumb_lx :: i16
  xg_thumb_ly :: i16
  xg_thumb_rx :: i16
  xg_thumb_ry :: i16

definition xgamepad_default :: XGamepad where
  "xgamepad_default = \<lparr>xg_buttons = 0, xg_left_trigger = 0, xg_right_trigger = 0, xg_thumb_lx = 0, xg_thumb_ly = 0,
     xg_thumb_rx = 0, xg_thumb_ry = 0\<rparr>"

definition XUSB_MAP :: "(nat \<times> u16) list" where
  "XUSB_MAP =
     [(0, 0x1000), (1, 0x2000), (2, 0x4000), (3, 0x8000), (4, 0x0100), (5, 0x0200), (8, 0x0020), (9, 0x0010),
      (10, 0x0040), (11, 0x0080), (12, 0x0001), (13, 0x0002), (14, 0x0004), (15, 0x0008), (16, 0x0400)]"

definition xusb_buttons :: "u32 \<Rightarrow> u16" where
  "xusb_buttons browser = fold (\<lambda>(i, m) out. if bit browser i then out OR m else out) XUSB_MAP 0"

definition neg_i16 :: "i16 \<Rightarrow> i16" where
  "neg_i16 v = (if v = 0x8000 then 0x7FFF else - v)"

definition xpad :: "GamepadState \<Rightarrow> XGamepad" where
  "xpad g =
     \<lparr>xg_buttons = xusb_buttons (gbuttons g), xg_left_trigger = ucast (drop_bit 8 (glt g)),
      xg_right_trigger = ucast (drop_bit 8 (grt g)), xg_thumb_lx = glx g, xg_thumb_ly = neg_i16 (gly g),
      xg_thumb_rx = grx g, xg_thumb_ry = neg_i16 (gry g)\<rparr>"

text \<open>One batch is one report, if it has any pad action; the result lists the reports pushed.\<close>

fun vigem_fold :: "InputAction list \<Rightarrow> XGamepad \<times> bool \<Rightarrow> XGamepad \<times> bool" where
  "vigem_fold [] st = st"
| "vigem_fold (a # as) st =
     (case a of AGamepad g \<Rightarrow> vigem_fold as (xpad g, True) | AGamepadCleared \<Rightarrow> vigem_fold as (xgamepad_default, True)
      | _ \<Rightarrow> vigem_fold as st)"

definition vigem_apply :: "InputAction list \<Rightarrow> XGamepad \<Rightarrow> XGamepad \<times> XGamepad list" where
  "vigem_apply d x = (let (x1, dirty) = vigem_fold d (x, False) in (x1, if dirty then [x1] else []))"

fun vigem_calls :: "BackendCall list \<Rightarrow> XGamepad \<Rightarrow> XGamepad \<times> XGamepad list" where
  "vigem_calls [] x = (x, [])"
| "vigem_calls (c # cs) x =
     (case c of
        Pad d \<Rightarrow> (let (x1, r) = vigem_apply d x; (x2, rs) = vigem_calls cs x1 in (x2, r @ rs))
      | PadReleaseAll \<Rightarrow> (let (x2, rs) = vigem_calls cs xgamepad_default in (x2, xgamepad_default # rs))
      | _ \<Rightarrow> vigem_calls cs x)"

section \<open>The driver\<close>

text \<open>\<open>connects\<close> is what opening the bus device answers; the answer is kept for ten seconds.\<close>

definition driver_present :: "nat \<Rightarrow> bool \<Rightarrow> (nat \<times> bool) option \<Rightarrow> bool \<times> (nat \<times> bool) option" where
  "driver_present now connects cache =
     (case cache of
        Some (t, present) \<Rightarrow> if now - t < 10000000000 then (present, cache) else (connects, Some (now, connects))
      | None \<Rightarrow> (connects, Some (now, connects)))"

definition controller_support :: "InputConfig \<Rightarrow> bool \<Rightarrow> string" where
  "controller_support c present =
     (if \<not> enable_virtual_hid c then ''off'' else if present then ''ready'' else ''driver_missing'')"

definition COMPAT_GATE_PASSED :: bool where "COMPAT_GATE_PASSED = False"

section \<open>What Windows holds\<close>

datatype WinButton = LeftB | RightB | MiddleB | X1B | X2B

record win =
  win_keys :: "(u16 \<times> bool) set"
  win_buttons :: "WinButton set"

definition win_idle :: win where "win_idle = \<lparr>win_keys = {}, win_buttons = {}\<rparr>"

fun win_perform :: "WinInput \<Rightarrow> win \<Rightarrow> win" where
  "win_perform (KeyInput s e up) w =
     w\<lparr>win_keys := (if up then win_keys w - {(s, e)} else insert (s, e) (win_keys w))\<rparr>"
| "win_perform (MouseInput _ _ d f) w =
     (let press = (\<lambda>b. w\<lparr>win_buttons := insert b (win_buttons w)\<rparr>);
          release = (\<lambda>b. w\<lparr>win_buttons := win_buttons w - {b}\<rparr>);
          x = (if d = XBUTTON1 then X1B else X2B)
      in case f of MLeftDown \<Rightarrow> press LeftB | MLeftUp \<Rightarrow> release LeftB | MRightDown \<Rightarrow> press RightB | MRightUp \<Rightarrow> release RightB
           | MMiddleDown \<Rightarrow> press MiddleB | MMiddleUp \<Rightarrow> release MiddleB | MXDown \<Rightarrow> press x | MXUp \<Rightarrow> release x | _ \<Rightarrow> w)"

definition win_performs :: "WinInput list \<Rightarrow> win \<Rightarrow> win" where "win_performs is w = fold win_perform is w"

definition scan_of :: "u16 \<Rightarrow> u16 \<times> bool" where "scan_of code = (code AND 0xFF, drop_bit 8 code = 0xE0)"

definition button_of :: "nat \<Rightarrow> WinButton" where
  "button_of b = (if b = 0 then LeftB else if b = 1 then RightB else if b = 2 then MiddleB else if b = 3 then X1B else X2B)"

section \<open>Lemmas\<close>

lemma sendinput_apply_all:
  "sendinput_apply length d b = (concat (map action_inputs d), False, b)"
  by (cases "concat (map action_inputs d) = []") (simp_all add: sendinput_apply_def sendinput_send_def Let_def del: concat_eq_Nil_conv)

lemma sendinput_calls_all:
  "sendinput_calls length cs b = concat (map action_inputs (concat (map keyboard_call cs)))"
proof (induction cs)
  case (Cons c cs)
  then show ?case by (cases c) (simp_all add: sendinput_apply_all)
qed simp

lemma win_performs_simps [simp]:
  "win_performs [] w = w" "win_performs (i # is) w = win_performs is (win_perform i w)"
  "win_performs (is @ js) w = win_performs js (win_performs is w)"
  by (simp_all add: win_performs_def)

lemma win_action:
  "win_performs (action_inputs a) w =
     (case a of
        AKey k d \<Rightarrow> w\<lparr>win_keys := (if d then insert (scan_of k) (win_keys w) else win_keys w - {scan_of k})\<rparr>
      | AMouseButton b d \<Rightarrow> w\<lparr>win_buttons := (if d then insert (button_of b) (win_buttons w) else win_buttons w - {button_of b})\<rparr>
      | _ \<Rightarrow> w)"
  by (cases a) (auto simp: key_input_def mouse_button_def scan_of_def button_of_def XBUTTON1_def XBUTTON2_def Let_def)

definition plain_code :: "u16 \<Rightarrow> bool" where "plain_code k \<longleftrightarrow> drop_bit 8 k = 0 \<or> drop_bit 8 k = 0xE0"

definition plain_action :: "InputAction \<Rightarrow> bool" where
  "plain_action a =
     (case a of AKey k _ \<Rightarrow> plain_code k | AMouseButton b _ \<Rightarrow> b < 5 | _ \<Rightarrow> True)"

lemma scan_of_inj:
  assumes "plain_code a" "plain_code b"
  shows "scan_of a = scan_of b \<longleftrightarrow> a = b"
proof (intro iffI)
  assume eq: "scan_of a = scan_of b"
  have m: "(0xFF :: u16) = mask 8" by (simp add: mask_eq_exp_minus_1)
  have "take_bit 8 a = take_bit 8 b" "drop_bit 8 a = drop_bit 8 b"
    using assms eq by (auto simp: scan_of_def plain_code_def m take_bit_eq_mask)
  then show "a = b" by (metis bits_ident)
qed simp

lemma button_of_inj: "button_of a = button_of b \<Longrightarrow> a < 5 \<Longrightarrow> b < 5 \<Longrightarrow> a = b"
  by (auto simp: button_of_def split: if_splits)

definition win_below :: "win \<Rightarrow> os \<Rightarrow> bool" where
  "win_below w o' \<longleftrightarrow> win_keys w \<subseteq> scan_of ` os_keys o' \<and> win_buttons w \<subseteq> button_of ` os_buttons o'"

definition win_equals :: "win \<Rightarrow> os \<Rightarrow> bool" where
  "win_equals w o' \<longleftrightarrow> win_keys w = scan_of ` os_keys o' \<and> win_buttons w = button_of ` os_buttons o'
     \<and> (\<forall>k \<in> os_keys o'. plain_code k) \<and> (\<forall>b \<in> os_buttons o'. b < 5)"

lemma win_below_run:
  "win_below w o' \<Longrightarrow> win_below (win_performs (concat (map action_inputs as)) w) (performs as o')"
proof (induction as arbitrary: w o')
  case (Cons a as)
  have "win_below (win_performs (action_inputs a) w) (perform a o')"
    unfolding win_action using Cons.prems by (cases a) (auto simp: win_below_def)
  then show ?case using Cons.IH by simp
qed simp

lemma win_equals_run:
  "win_equals w o' \<Longrightarrow> list_all plain_action as
     \<Longrightarrow> win_equals (win_performs (concat (map action_inputs as)) w) (performs as o')"
proof (induction as arbitrary: w o')
  case (Cons a as)
  have "win_equals (win_performs (action_inputs a) w) (perform a o')"
    unfolding win_action using Cons.prems
    by (cases a) (auto simp: win_equals_def plain_action_def scan_of_inj dest: button_of_inj)
  then show ?case using Cons by simp
qed simp

text \<open>Codes that differ only above the scan code are one key to Windows: releasing the first releases both.\<close>

lemma key_codes_alias:
  "win_keys (win_performs (concat (map action_inputs [AKey 0x001E True, AKey 0x011E True, AKey 0x011E False])) win_idle) = {}
   \<and> os_keys (performs [AKey 0x001E True, AKey 0x011E True, AKey 0x011E False] nothing_held) = {0x001E}"
  by (simp add: key_input_def win_idle_def nothing_held_def)

definition pad_shows :: "XGamepad \<Rightarrow> os \<Rightarrow> bool" where
  "pad_shows x o' \<longleftrightarrow> x = (case os_pad o' of Some g \<Rightarrow> xpad g | None \<Rightarrow> xgamepad_default)"

lemma vigem_fold_shows: "pad_shows x o' \<Longrightarrow> pad_shows (fst (vigem_fold d (x, dirty))) (performs d o')"
proof (induction d arbitrary: x dirty o')
  case (Cons a d)
  show ?case
  proof (cases a)
    case (AGamepad g)
    have "pad_shows (xpad g) (perform a o')" by (simp add: AGamepad pad_shows_def)
    then show ?thesis using Cons.IH by (simp add: AGamepad)
  next
    case AGamepadCleared
    have "pad_shows xgamepad_default (perform a o')" by (simp add: AGamepadCleared pad_shows_def)
    then show ?thesis using Cons.IH by (simp add: AGamepadCleared)
  next
    case (AMouseButton k p)
    have "pad_shows x (perform a o')" using Cons.prems by (simp add: AMouseButton pad_shows_def)
    then show ?thesis using Cons.IH by (simp add: AMouseButton)
  next
    case (AKey k p)
    have "pad_shows x (perform a o')" using Cons.prems by (simp add: AKey pad_shows_def)
    then show ?thesis using Cons.IH by (simp add: AKey)
  qed (use Cons in simp_all)
qed simp

lemma vigem_calls_append:
  "vigem_calls (cs @ ds) x =
     (let (x1, r) = vigem_calls cs x; (x2, rs) = vigem_calls ds x1 in (x2, r @ rs))"
  by (induction cs arbitrary: x) (auto simp: case_prod_beta Let_def split: BackendCall.splits)

lemma vigem_calls_shows:
  assumes "PadReleaseAll \<notin> set cs" "pad_shows x o'"
  shows "pad_shows (fst (vigem_calls cs x)) (performs (concat (map pad_call cs)) o')"
  using assms
proof (induction cs arbitrary: x o')
  case (Cons c cs)
  show ?case
  proof (cases c)
    case (Pad d)
    have "pad_shows (fst (vigem_fold d (x, False))) (performs d o')" by (rule vigem_fold_shows) (rule Cons.prems(2))
    then show ?thesis using Cons by (simp add: Pad vigem_apply_def case_prod_beta Let_def)
  qed (use Cons in simp_all)
qed simp

text \<open>What a session sends: differences without a blanket release, or a release that ends with one.\<close>

lemma apply_diff_sent: "sent s' = sent s \<Longrightarrow> \<exists>cs. sent (apply_diff driver d s') = sent s @ cs \<and> PadReleaseAll \<notin> set cs"
  by (auto simp: apply_diff_def Let_def)

lemma handle_packet_sent: "\<exists>cs. sent (snd (handle_packet driver now bs s)) = sent s @ cs \<and> PadReleaseAll \<notin> set cs"
proof (cases rule: handle_packet_cases [of bs driver now s])
  case applied
  show ?thesis unfolding applied(6) snd_conv by (rule apply_diff_sent) simp
qed auto

definition vpad :: "InputSession \<Rightarrow> XGamepad" where "vpad s = fst (vigem_calls (sent s) xgamepad_default)"

lemma vpad_step:
  assumes "sent t = sent s @ cs" "PadReleaseAll \<notin> set cs" "pad_shows (vpad s) (pad_os s)"
  shows "pad_shows (vpad t) (pad_os t)"
proof -
  have "pad_os t = performs (concat (map pad_call cs)) (pad_os s)" by (simp add: pad_os_def assms(1))
  moreover have "vpad t = fst (vigem_calls cs (vpad s))"
    by (simp add: vpad_def assms(1) vigem_calls_append case_prod_beta Let_def)
  ultimately show ?thesis using vigem_calls_shows [OF assms(2,3)] by simp
qed

lemma release_all_pad:
  assumes "reach driver c s" "pad_shows (vpad s) (pad_os s)"
  shows "pad_shows (vpad (release_all driver s)) (pad_os (release_all driver s))"
proof -
  have q: "os_pad (pad_os (release_all driver s)) = None"
    using release_all_quiet reach_in_sync [OF assms(1)] by (auto simp: quiet_def)
  define s1 where "s1 = apply_diff driver (snd (state_release_all (state s))) (s\<lparr>state := fst (state_release_all (state s))\<rparr>)"
  have r: "sent (release_all driver s) = sent s1 @ [DeskReleaseAll] @ (if pad_open s1 then [PadReleaseAll] else [])"
    by (simp add: release_all_def case_prod_beta Let_def s1_def)
  show ?thesis
  proof (cases "pad_open s1")
    case True
    have "vpad (release_all driver s) = xgamepad_default"
      by (simp add: vpad_def r True vigem_calls_append case_prod_beta Let_def)
    then show ?thesis using q by (simp add: pad_shows_def)
  next
    case False
    obtain cs where "sent s1 = sent s @ cs" "PadReleaseAll \<notin> set cs"
      using apply_diff_sent [of "s\<lparr>state := fst (state_release_all (state s))\<rparr>" s] by (auto simp: s1_def)
    then have "sent (release_all driver s) = sent s @ (cs @ [DeskReleaseAll])" "PadReleaseAll \<notin> set (cs @ [DeskReleaseAll])"
      by (simp_all add: r False)
    then show ?thesis by (rule vpad_step) (rule assms(2))
  qed
qed

lemma reach_pad_shows: "reach driver c s \<Longrightarrow> pad_shows (vpad s) (pad_os s)"
proof (induction rule: reach.induct)
  case (reach_new now)
  show ?case by (simp add: pad_shows_def vpad_def pad_os_def new_session_def nothing_held_def)
next
  case (reach_packet s now bs)
  obtain cs where "sent (snd (handle_packet driver now bs s)) = sent s @ cs" "PadReleaseAll \<notin> set cs"
    using handle_packet_sent by blast
  then show ?case by (rule vpad_step) (rule reach_packet.IH)
next
  case (reach_tick s now)
  have "pad_shows (vpad ((release_all driver s)\<lparr>released := True\<rparr>)) (pad_os ((release_all driver s)\<lparr>released := True\<rparr>))"
    using release_all_pad [OF reach_tick.hyps reach_tick.IH] by (simp add: vpad_def pad_os_def)
  then show ?case using reach_tick.IH by (simp add: tick_watchdog_def)
next
  case (reach_release s)
  then show ?case by (rule release_all_pad)
qed

definition windows_after :: "InputSession \<Rightarrow> win" where
  "windows_after s = win_performs (sendinput_calls length (sent s) \<lparr>injection_blocked = False\<rparr>) win_idle"

lemma windows_after_eq: "windows_after s = win_performs (concat (map action_inputs (concat (map keyboard_call (sent s))))) win_idle"
  by (simp add: windows_after_def sendinput_calls_all)

lemma windows_below: "win_below (windows_after s) (desk_os s)"
  unfolding windows_after_eq desk_os_def by (rule win_below_run) (simp add: win_below_def win_idle_def nothing_held_def)

lemma neg_i16_exact: "sint (neg_i16 v) = min (- sint v) 32767"
proof (cases "v = 0x8000")
  case False
  have "- 32768 \<le> sint v" "sint v \<le> 32767" using sint_greater_eq [of v] sint_less [of v] by simp_all
  moreover have "sint v \<noteq> - 32768" 
  proof
    assume "sint v = - 32768"
    then have "sint v = sint (0x8000 :: i16)" by simp
    then show False using False signed_word_eqI by blast
  qed
  ultimately have "sint (- v) = - sint v" by (simp add: sint_word_ariths signed_take_bit_int_eq_self)
  then show ?thesis using False \<open>sint v \<noteq> - 32768\<close> \<open>- 32768 \<le> sint v\<close> by (simp add: neg_i16_def)
qed (simp add: neg_i16_def)

section \<open>Properties\<close>

text \<open>C32. Windows holds what the session holds: when it takes every event, in every reachable session the keys and
  mouse buttons it has down after all calls are among those of the session's state, and exactly those if
  every code is a scan code with or without the extended prefix and every button one of the five;
  and the virtual pad shows the state's report, with the Y axes turned over without overflow.\<close>
theorem windows_holds_session:
  assumes "reach driver c s"
  shows "win_keys (windows_after s) \<subseteq> scan_of ` st_held_keys (state s)
    \<and> win_buttons (windows_after s) \<subseteq> button_of ` button_set (st_mouse_buttons (state s))
    \<and> (list_all plain_action (concat (map keyboard_call (sent s))) \<longrightarrow>
         win_keys (windows_after s) = scan_of ` st_held_keys (state s)
         \<and> win_buttons (windows_after s) = button_of ` button_set (st_mouse_buttons (state s)))
    \<and> (pad_open s \<longrightarrow> (case st_gamepad (state s) of None \<Rightarrow> vpad s = xgamepad_default
         | Some g \<Rightarrow> vpad s = xpad g
             \<and> sint (xg_thumb_ly (vpad s)) = min (- sint (gly g)) 32767 \<and> sint (xg_thumb_ry (vpad s)) = min (- sint (gry g)) 32767))"
proof -
  have sync: "desk_os s = view (state s)" "os_pad (pad_os s) = (if pad_open s then st_gamepad (state s) else None)"
    using reach_in_sync [OF assms] by (simp_all add: in_sync_def)
  have eq: "win_equals (windows_after s) (desk_os s)" if "list_all plain_action (concat (map keyboard_call (sent s)))"
    unfolding windows_after_eq desk_os_def
    by (rule win_equals_run [OF _ that]) (simp add: win_equals_def win_idle_def nothing_held_def)
  show ?thesis
    using windows_below [of s] eq reach_pad_shows [OF assms] sync
    by (auto simp: win_below_def win_equals_def view_def pad_shows_def xpad_def neg_i16_exact split: option.splits)
qed

theorem windows_holds_session_witness:
  "win_keys (windows_after (snd (handle_packet True 0 press_w demo_session))) \<subseteq> {(17, False)}"
proof -
  have r: "reach True demo_config (snd (handle_packet True 0 press_w demo_session))"
    unfolding demo_session_def by (intro reach.intros)
  have "st_held_keys (state (snd (handle_packet True 0 press_w demo_session))) = {17}" by code_simp
  moreover have "scan_of 17 = (17, False)" by (simp add: scan_of_def)
  ultimately show ?thesis using windows_holds_session [OF r] by simp
qed

text \<open>The dead-man release reaches Windows: once the heartbeat has been silent for the configured time, a tick
  leaves no key and no button down in Windows and the virtual pad at rest.\<close>
theorem watchdog_frees_windows:
  assumes "reach driver c s" "watchdog_ms c * 1000000 \<le> now - last_packet_at s"
  shows "windows_after (tick_watchdog driver now s) = win_idle \<and> vpad (tick_watchdog driver now s) = xgamepad_default"
proof -
  let ?t = "tick_watchdog driver now s"
  have r: "reach driver c ?t" by (rule reach_tick [OF assms(1)])
  have "released ?t" using assms(2) reach_cfg [OF assms(1)] by (auto simp: tick_watchdog_def watchdog_timeout_def)
  then have "quiet ?t" by (rule reach_released_quiet [OF r])
  then show ?thesis
    using windows_below [of ?t] reach_pad_shows [OF r]
    by (auto simp: quiet_def win_below_def nothing_held_def win_idle_def pad_shows_def)
qed

theorem watchdog_frees_windows_witness:
  "windows_after (tick_watchdog True 5000000000 (snd (handle_packet True 0 press_w demo_session))) = win_idle"
proof -
  have r: "reach True demo_config (snd (handle_packet True 0 press_w demo_session))"
    unfolding demo_session_def by (intro reach.intros)
  have "watchdog_ms demo_config * 1000000 \<le> 5000000000 - last_packet_at (snd (handle_packet True 0 press_w demo_session))"
    by code_simp
  from watchdog_frees_windows [OF r this] show ?thesis by blast
qed

end
