(* ===== verification/Doctor.thy ===== *)
theory Doctor
  imports MediaGraph TlsCerts GameText "HOL-Library.Multiset"
begin

text \<open>
  The environment report (\<open>crates/host/src/doctor.rs\<close>): the checks in their order, their verdicts, the
  exit code, and what goes into a support bundle. What the machine answers is the record
  \<open>Surroundings\<close>; a message is the constructor of its sentence with the values put into it. A check that panics is
  \<open>None\<close>.
\<close>

section \<open>Checks\<close>

datatype Status = StOk | StWarn | StFail

datatype Detail =
    BuildUnreadable | Windows nat nat | WindowsTooOld nat
  | GstInitFailed | GstRuntime | MissingRequired "string list" | MissingAudio "string list" | AllElements
  | EncoderReady GpuVendor string string | EncoderMissing GpuVendor string | NoEncoderPath GpuVendor
  | NoGpu | UnsupportedGpus "string list"
  | NoDisplay | Displays nat "MonitorInfo option" | EnumerationFailed
  | NoEndpoints | Endpoints nat string
  | RulePresent | RuleAbsent
  | TlsIsOff | CaPresent string | CaAbsent
  | LeafCovers "string list" | LeafDiffers "string list" "string list" | NoLeafRecord
  | PortFree "IpAddr \<times> nat" | PortTaken "IpAddr \<times> nat"
  | WtDisabled | UdpFree nat | UdpTaken nat

record Check =
  ck_name :: string
  ck_status :: Status
  ck_detail :: Detail

definition ok_check :: "string \<Rightarrow> Detail \<Rightarrow> Check" where
  "ok_check n d = \<lparr>ck_name = n, ck_status = StOk, ck_detail = d\<rparr>"
definition warn_check :: "string \<Rightarrow> Detail \<Rightarrow> Check" where
  "warn_check n d = \<lparr>ck_name = n, ck_status = StWarn, ck_detail = d\<rparr>"
definition fail_check :: "string \<Rightarrow> Detail \<Rightarrow> Check" where
  "fail_check n d = \<lparr>ck_name = n, ck_status = StFail, ck_detail = d\<rparr>"

record NamedGpu = GpuInfo +
  gpu_description :: string

record NamedEndpoint = AudioEndpointInfo +
  ae_name :: string
  ae_is_default :: bool
  ae_active :: bool

text \<open>\<open>su_find\<close> is the factory lookup: \<open>None\<close> where it panics.\<close>

record Surroundings =
  su_reg_query :: "string option"
  su_gst_init :: bool
  su_find :: "string \<Rightarrow> bool option"
  su_gpus :: "NamedGpu list option"
  su_monitors :: "MonitorInfo list option"
  su_endpoints :: "NamedEndpoint list option"
  su_netsh :: "string \<Rightarrow> string option"
  su_is_file :: "string \<Rightarrow> bool"
  su_read :: "string \<Rightarrow> string option"
  su_config_dir :: string
  su_hostname :: string
  su_ipv6 :: "(128 word) option"
  su_tcp_free :: "IpAddr \<times> nat \<Rightarrow> bool"
  su_udp_free :: "IpAddr \<times> nat \<Rightarrow> bool"

definition split_whitespace :: "string \<Rightarrow> string list" where
  "split_whitespace s = filter (\<lambda>w. w \<noteq> []) (split_on CHR '' '' (map (\<lambda>c. if is_space c then CHR '' '' else c) s))"

text \<open>The build number is the last word of what \<open>reg query\<close> prints.\<close>

definition windows_build :: "Surroundings \<Rightarrow> nat" where
  "windows_build su =
     (case su_reg_query su of None \<Rightarrow> 0
      | Some out \<Rightarrow> (case split_whitespace out of [] \<Rightarrow> 0
          | ws \<Rightarrow> (case parse_uint u32_max (trim_str (last ws)) of Some b \<Rightarrow> b | None \<Rightarrow> 0)))"

definition check_os :: "Surroundings \<Rightarrow> Check" where
  "check_os su =
     (let b = windows_build su in
      if b = 0 then warn_check ''windows'' BuildUnreadable
      else if 22000 \<le> b then ok_check ''windows'' (Windows 11 b)
      else if 19041 \<le> b then ok_check ''windows'' (Windows 10 b)
      else fail_check ''windows'' (WindowsTooOld b))"

definition REQUIRED :: "(string \<times> bool) list" where
  "REQUIRED =
     [(''d3d11screencapturesrc'', True), (''d3d11convert'', True), (''videorate'', True), (''h264parse'', True),
      (''rtph264pay'', True), (''webrtcbin'', True), (''dtlssrtpenc'', True), (''nicesink'', True), (''srtpenc'', True),
      (''wasapi2src'', False), (''opusenc'', False), (''rtpopuspay'', False)]"

definition absent :: "Surroundings \<Rightarrow> bool \<Rightarrow> string list" where
  "absent su hard = map fst (filter (\<lambda>(n, h). h = hard \<and> su_find su n = Some False) REQUIRED)"

definition check_gstreamer :: "Surroundings \<Rightarrow> Check list option" where
  "check_gstreamer su =
     (if \<not> su_gst_init su then Some [fail_check ''gstreamer'' GstInitFailed]
      else if \<not> list_all (\<lambda>(n, _). su_find su n \<noteq> None) REQUIRED then None
      else let hard = absent su True; soft = absent su False in
        Some [ok_check ''gstreamer'' GstRuntime,
              (if hard \<noteq> [] then fail_check ''gst elements'' (MissingRequired hard)
               else if soft \<noteq> [] then warn_check ''gst elements'' (MissingAudio soft)
               else ok_check ''gst elements'' AllElements)])"

text \<open>Enumerating the adapters looks up the encoders of each.\<close>

definition gpus_listed :: "Surroundings \<Rightarrow> bool" where
  "gpus_listed su \<longleftrightarrow>
     (case su_gpus su of None \<Rightarrow> True
      | Some gs \<Rightarrow> list_all (\<lambda>g. list_all (\<lambda>e. su_find su e \<noteq> None)
            (List.map_filter (element_for (vendor_of (gpu_vendor_id g))) [H264, H265])) gs)"

definition check_encoder :: "Surroundings \<Rightarrow> Check option" where
  "check_encoder su =
     (if \<not> gpus_listed su then None
      else let vendor = primary_gpu_vendor (map_option (map GpuInfo.truncate) (su_gpus su));
               names = map gpu_description (case su_gpus su of Some gs \<Rightarrow> gs | None \<Rightarrow> []) in
        (case vendor of
           Some v \<Rightarrow>
             (case element_for v H264 of
                None \<Rightarrow> Some (fail_check ''hw encoder'' (NoEncoderPath v))
              | Some e \<Rightarrow> (case su_find su e of
                    None \<Rightarrow> None
                  | Some True \<Rightarrow> Some (ok_check ''hw encoder'' (EncoderReady v e (case names of n # _ \<Rightarrow> n | [] \<Rightarrow> ''?'')))
                  | Some False \<Rightarrow> Some (fail_check ''hw encoder'' (EncoderMissing v e))))
         | None \<Rightarrow> Some (if names = [] then fail_check ''hw encoder'' NoGpu
                         else fail_check ''hw encoder'' (UnsupportedGpus names))))"

definition check_monitors :: "Surroundings \<Rightarrow> Check" where
  "check_monitors su =
     (case su_monitors su of
        Some [] \<Rightarrow> warn_check ''displays'' NoDisplay
      | Some (m # ms) \<Rightarrow> ok_check ''displays'' (Displays (length (m # ms))
          (case find mo_primary (m # ms) of Some p \<Rightarrow> Some p | None \<Rightarrow> Some m))
      | None \<Rightarrow> warn_check ''displays'' EnumerationFailed)"

definition check_audio :: "Surroundings \<Rightarrow> Check" where
  "check_audio su =
     (case su_endpoints su of
        Some [] \<Rightarrow> warn_check ''audio'' NoEndpoints
      | Some (e # es) \<Rightarrow> ok_check ''audio'' (Endpoints (length (e # es))
          (case find ae_is_default (e # es) of Some d \<Rightarrow> ae_name d | None \<Rightarrow> ''?''))
      | None \<Rightarrow> warn_check ''audio'' EnumerationFailed)"

definition rule_exists :: "Surroundings \<Rightarrow> string \<Rightarrow> bool" where
  "rule_exists su n = (case su_netsh su n of Some out \<Rightarrow> contains_str out ''Rule Name'' | None \<Rightarrow> False)"

definition check_firewall :: "Surroundings \<Rightarrow> Check" where
  "check_firewall su =
     (if rule_exists su ''InPhase LAN'' \<or> rule_exists su ''InPhase App'' then ok_check ''firewall'' RulePresent
      else warn_check ''firewall'' RuleAbsent)"

definition check_https :: "Surroundings \<Rightarrow> Config \<Rightarrow> Check" where
  "check_https su c =
     (case tls_mode (c_tls c) of
        TlsOff \<Rightarrow> warn_check ''https'' TlsIsOff
      | LocalCa \<Rightarrow>
          (let ca = path_join (cert_dir_path (su_config_dir su) (c_tls c)) ''ca.crt'' in
           if su_is_file su ca then ok_check ''https'' (CaPresent ca) else warn_check ''https'' CaAbsent))"

definition wanted_sans :: "string \<times> string list \<Rightarrow> string list" where
  "wanted_sans want =
     sort (snd want @ (if fst want \<noteq> [] \<and> fst want \<notin> set (snd want) then [fst want] else []))"

definition recorded_sans :: "string \<Rightarrow> string list" where
  "recorded_sans on_disk = sort (filter (\<lambda>l. l \<noteq> []) (map trim_str (text_lines on_disk)))"

definition check_leaf_sans :: "Surroundings \<Rightarrow> Config \<Rightarrow> Selection \<Rightarrow> Check \<times> Selection" where
  "check_leaf_sans su c se =
     (let (want, se') = collect_sans c (su_hostname su) (su_ipv6 su) se;
          file = path_join (cert_dir_path (su_config_dir su) (c_tls c)) ''host.sans'' in
      (case su_read su file of
         Some on_disk \<Rightarrow>
           (let got = recorded_sans on_disk; want_set = wanted_sans want in
            if got = want_set then ok_check ''cert san'' (LeafCovers want_set)
            else warn_check ''cert san'' (LeafDiffers got want_set))
       | None \<Rightarrow> warn_check ''cert san'' NoLeafRecord,
       se'))"

definition http_socket_addr :: "Config \<Rightarrow> IpAddr \<times> nat" where
  "http_socket_addr c = (bind_addr (c_network c), http_port (c_network c))"

definition admin_socket_addr :: "Config \<Rightarrow> IpAddr \<times> nat" where
  "admin_socket_addr c = (V4 0x7F000001, admin_port (c_network c))"

definition check_ports :: "Surroundings \<Rightarrow> Config \<Rightarrow> Check list" where
  "check_ports su c =
     map (\<lambda>(label, addr). if su_tcp_free su addr then ok_check label (PortFree addr) else warn_check label (PortTaken addr))
       [(''http port'', http_socket_addr c), (''admin port'', admin_socket_addr c)]"

definition check_wt_port :: "Surroundings \<Rightarrow> Config \<Rightarrow> Check" where
  "check_wt_port su c =
     (let p = wt_port (c_media c) in
      if p = 0 then ok_check ''wt video'' WtDisabled
      else if su_udp_free su (V4 0, p) then ok_check ''wt video'' (UdpFree p)
      else warn_check ''wt video'' (UdpTaken p))"

section \<open>The report\<close>

record Report =
  rp_checks :: "Check list"
  rp_blocking :: bool

definition diagnose :: "Surroundings \<Rightarrow> Config \<Rightarrow> Selection \<Rightarrow> (Report \<times> Selection) option" where
  "diagnose su c se =
     Option.bind (check_gstreamer su) (\<lambda>gst.
     Option.bind (check_encoder su) (\<lambda>enc.
       let (leaf, se') = check_leaf_sans su c se;
           checks = [check_os su] @ gst @ [enc, check_monitors su, check_audio su, check_firewall su, check_https su c, leaf]
                      @ check_ports su c @ [check_wt_port su c] in
       Some (\<lparr>rp_checks = checks, rp_blocking = list_ex (\<lambda>k. ck_status k = StFail) checks\<rparr>, se')))"

datatype Verdict = VerdictFailed | VerdictWarnings | VerdictReady

definition verdict :: "Report \<Rightarrow> Verdict" where
  "verdict r =
     (if rp_blocking r then VerdictFailed
      else if list_ex (\<lambda>k. ck_status k = StWarn) (rp_checks r) then VerdictWarnings else VerdictReady)"

definition exit_code :: "Report \<Rightarrow> int" where "exit_code r = (if rp_blocking r then 2 else 0)"

section \<open>The support bundle\<close>

text \<open>\<open>str::lines\<close>: no empty piece after the last newline, and one carriage return at the end of a line goes.\<close>

definition rust_lines :: "string \<Rightarrow> string list" where
  "rust_lines s =
     (let ps = split_on CHR 0x0A s;
          qs = (if last ps = [] then butlast ps else ps)
      in map (\<lambda>l. if l \<noteq> [] \<and> last l = CHR 0x0D then butlast l else l) qs)"

definition log_tail :: "string option \<Rightarrow> string" where
  "log_tail file =
     (case file of None \<Rightarrow> []
      | Some s \<Rightarrow> (let ls = rust_lines s in join [CHR 0x0A] (drop (length ls - 2000) ls)))"

definition log_path :: "string option \<Rightarrow> string" where
  "log_path local_app_data =
     (case local_app_data of Some d \<Rightarrow> path_join (path_join d ''InPhase'') ''host.log'' | None \<Rightarrow> ''host.log'')"

record Bundle =
  bu_doctor :: Report
  bu_media :: MediaConfig
  bu_capture :: CaptureConfig
  bu_http_port :: nat
  bu_admin_port :: nat
  bu_cidrs :: "string list"
  bu_monitors :: "MonitorInfo list"
  bu_gpus :: "NamedGpu list"
  bu_endpoints :: "NamedEndpoint list"
  bu_log_tail :: string

definition support_bundle :: "Surroundings \<Rightarrow> string option \<Rightarrow> Config \<Rightarrow> Selection \<Rightarrow> (Bundle \<times> Selection) option" where
  "support_bundle su local_app_data c se =
     map_option (\<lambda>(r, se').
       (\<lparr>bu_doctor = r, bu_media = c_media c, bu_capture = c_capture c, bu_http_port = http_port (c_network c),
         bu_admin_port = admin_port (c_network c), bu_cidrs = allowed_remote_cidrs (c_network c),
         bu_monitors = (case su_monitors su of Some m \<Rightarrow> m | None \<Rightarrow> []),
         bu_gpus = (case su_gpus su of Some g \<Rightarrow> g | None \<Rightarrow> []),
         bu_endpoints = (case su_endpoints su of Some e \<Rightarrow> e | None \<Rightarrow> []),
         bu_log_tail = log_tail (su_read su (log_path local_app_data))\<rparr>, se'))
       (diagnose su c se)"


section \<open>Lemmas\<close>

lemma check_status [simp]:
  "ck_status (ok_check n d) = StOk" "ck_status (warn_check n d) = StWarn" "ck_status (fail_check n d) = StFail"
  by (simp_all add: ok_check_def warn_check_def fail_check_def)

lemmas check_defs = check_os_def check_monitors_def check_audio_def check_firewall_def check_https_def check_wt_port_def

lemma os_fails: "ck_status (check_os su) = StFail \<longleftrightarrow> 0 < windows_build su \<and> windows_build su < 19041"
  by (auto simp: check_os_def Let_def)

lemma informative_never_fail [simp]:
  "ck_status (check_monitors su) \<noteq> StFail" "ck_status (check_audio su) \<noteq> StFail"
  "ck_status (check_firewall su) \<noteq> StFail" "ck_status (check_https su c) \<noteq> StFail"
  "ck_status (check_wt_port su c) \<noteq> StFail" "ck_status (fst (check_leaf_sans su c se)) \<noteq> StFail"
  "\<not> list_ex (\<lambda>k. ck_status k = StFail) (check_ports su c)"
  by (auto simp: check_defs check_leaf_sans_def check_ports_def Let_def
      split: option.splits list.splits TlsMode.splits prod.splits)

lemma gstreamer_fails:
  assumes "check_gstreamer su = Some ks"
  shows "list_ex (\<lambda>k. ck_status k = StFail) ks \<longleftrightarrow>
    \<not> su_gst_init su \<or> (\<exists>n. (n, True) \<in> set REQUIRED \<and> su_find su n = Some False)"
proof -
  have "absent su True \<noteq> [] \<longleftrightarrow> (\<exists>n. (n, True) \<in> set REQUIRED \<and> su_find su n = Some False)"
    by (force simp: absent_def filter_empty_conv)
  then show ?thesis using assms by (auto simp: check_gstreamer_def Let_def split: if_splits)
qed

abbreviation su_vendor :: "Surroundings \<Rightarrow> GpuVendor option" where
  "su_vendor su \<equiv> primary_gpu_vendor (map_option (map GpuInfo.truncate) (su_gpus su))"

definition h264_lacking :: "Surroundings \<Rightarrow> bool" where
  "h264_lacking su \<longleftrightarrow>
     (case su_vendor su of None \<Rightarrow> True
      | Some v \<Rightarrow> (case element_for v H264 of None \<Rightarrow> True | Some e \<Rightarrow> su_find su e = Some False))"

lemma encoder_fails:
  assumes "check_encoder su = Some k"
  shows "ck_status k = StFail \<longleftrightarrow> h264_lacking su"
  using assms by (auto simp: check_encoder_def h264_lacking_def Let_def split: if_splits option.splits bool.splits)

lemma diagnose_cases:
  assumes "diagnose su c se = Some (r, se')"
  obtains gst enc where "check_gstreamer su = Some gst" "check_encoder su = Some enc"
    "rp_checks r = [check_os su] @ gst @ [enc, check_monitors su, check_audio su, check_firewall su, check_https su c,
        fst (check_leaf_sans su c se)] @ check_ports su c @ [check_wt_port su c]"
    "rp_blocking r = list_ex (\<lambda>k. ck_status k = StFail) (rp_checks r)"
proof -
  obtain gst enc where g: "check_gstreamer su = Some gst" "check_encoder su = Some enc"
    using assms by (auto simp: diagnose_def split: Option.bind_splits)
  obtain leaf se1 where l: "check_leaf_sans su c se = (leaf, se1)" by fastforce
  show thesis
    using assms by (intro that [OF g]) (auto simp only: diagnose_def g l bind.bind_lunit Let_def prod.case fst_conv option.inject Report.simps)
qed

lemma doctor_verdict_iff:
  assumes "diagnose su c se = Some (r, se')"
  shows "rp_blocking r \<longleftrightarrow> 0 < windows_build su \<and> windows_build su < 19041 \<or> \<not> su_gst_init su
        \<or> (\<exists>n. (n, True) \<in> set REQUIRED \<and> su_find su n = Some False) \<or> h264_lacking su"
proof -
  obtain gst enc where "check_gstreamer su = Some gst" "check_encoder su = Some enc"
    and k: "rp_checks r = [check_os su] @ gst @ [enc, check_monitors su, check_audio su, check_firewall su, check_https su c,
        fst (check_leaf_sans su c se)] @ check_ports su c @ [check_wt_port su c]"
    and b: "rp_blocking r = list_ex (\<lambda>k. ck_status k = StFail) (rp_checks r)"
    using diagnose_cases [OF assms] by blast
  then show ?thesis
    unfolding b k by (auto simp: os_fails gstreamer_fails encoder_fails)
qed

lemma doctor_passes:
  assumes "diagnose su c se = Some (r, se')" "exit_code r = 0"
  shows "\<not> h264_lacking su \<and> \<not> (\<exists>n. (n, True) \<in> set REQUIRED \<and> su_find su n = Some False)"
  using doctor_verdict_iff [OF assms(1)] assms(2) by (auto simp: exit_code_def split: if_splits)

lemma build_succeeds:
  "(\<exists>g. build_video reg c s monitors (bridge_new c s gpus i k) = Inr g) \<longleftrightarrow> graph_possible reg (bridge_vendor gpus) (sc_codec s)"
proof -
  obtain e where e: "element_for (bridge_vendor gpus) (sc_codec s) = Some e" using element_for_some by blast
  have b: "bb_vendor (bridge_new c s gpus i k) = bridge_vendor gpus" "bb_session (bridge_new c s gpus i k) = s"
    by (simp_all add: bridge_new_def)
  show ?thesis
    by (auto simp: build_video_def attach_video_def build_capture_src_def make_webrtcbin_def bindE_def element_make_cases
        graph_possible_def video_factories_def e b Let_def split: sum.splits)
qed

text \<open>Names as the host writes them: not empty, one line, no blanks around.\<close>

definition plain_name :: "string \<Rightarrow> bool" where
  "plain_name n \<longleftrightarrow> n \<noteq> [] \<and> trim_str n = n \<and> CHR 0x0A \<notin> set n"

definition sans_file :: "Surroundings \<Rightarrow> Config \<Rightarrow> string" where
  "sans_file su c = path_join (cert_dir_path (su_config_dir su) (c_tls c)) ''host.sans''"

lemma recorded_join:
  assumes "old \<noteq> []" "\<forall>n \<in> set old. plain_name n"
  shows "recorded_sans (join [CHR 0x0A] old) = sort old"
proof -
  have "text_lines (join [CHR 0x0A] old) = old"
    using assms by (simp add: text_lines_def split_join plain_name_def)
  moreover have "map trim_str old = old" using assms(2) by (intro map_idI) (simp add: plain_name_def)
  moreover have "filter (\<lambda>l. l \<noteq> []) old = old" using assms(2) by (simp add: filter_id_conv plain_name_def)
  ultimately show ?thesis by (simp add: recorded_sans_def)
qed

lemma wanted_listed: "primary \<in> set sans \<Longrightarrow> wanted_sans (primary, sans) = sort sans"
  by (simp add: wanted_sans_def)

lemma sort_eq_mset: "sort xs = sort ys \<longleftrightarrow> mset xs = mset ys"
  by (metis mset_sort properties_for_sort sorted_sort)

lemma primary_listed:
  assumes "collect_sans c h v6 se = ((primary, sans), se')" "strip_prefix ''['' primary = None"
  shows "primary \<in> set sans"
  using assms by (auto simp: collect_sans_def detect_def identities_set Let_def split: prod.splits if_splits option.splits)

lemma drop_spaces_ends:
  assumes "length (dropWhile is_space s) = length s" "s \<noteq> []"
  shows "\<not> is_space (hd s)" "dropWhile is_space s = s"
  using assms length_dropWhile_le [of is_space "tl s"] by (cases s; auto split: if_splits)+

lemma trim_ends:
  assumes "trim_str s = s" "s \<noteq> []"
  shows "\<not> is_space (hd s)" "\<not> is_space (last s)"
proof -
  have l: "length (dropWhile is_space s) = length s"
    using assms(1) length_dropWhile_le [of is_space s] length_dropWhile_le [of is_space "rev (dropWhile is_space s)"]
    by (metis trim_str_def length_rev le_antisym)
  then show "\<not> is_space (hd s)" using drop_spaces_ends [OF l assms(2)] by simp
  have "rev (dropWhile is_space (rev s)) = s" using assms drop_spaces_ends(2) [OF l] by (simp add: trim_str_def)
  then have "length (dropWhile is_space (rev s)) = length (rev s)" by (metis length_rev)
  then show "\<not> is_space (last s)" using drop_spaces_ends(1) [of "rev s"] assms(2) by (simp add: hd_rev)
qed

lemma trim_same:
  assumes "s \<noteq> []" "\<not> is_space (hd s)" "\<not> is_space (last s)"
  shows "trim_str s = s"
proof -
  have d: "dropWhile is_space t = t" if "t \<noteq> []" "\<not> is_space (hd t)" for t
    using that by (cases t) auto
  have "dropWhile is_space (rev s) = rev s" using assms by (intro d) (auto simp: hd_rev)
  then show ?thesis using assms by (simp add: trim_str_def d)
qed

lemma hd_join: "ns \<noteq> [] \<Longrightarrow> hd ns \<noteq> [] \<Longrightarrow> hd (join sep ns) = hd (hd ns)"
  by (cases "(sep, ns)" rule: join.cases) auto

lemma join_nonempty: "ns \<noteq> [] \<Longrightarrow> hd ns \<noteq> [] \<Longrightarrow> join sep ns \<noteq> []"
  by (cases "(sep, ns)" rule: join.cases) auto

lemma last_join: "ns \<noteq> [] \<Longrightarrow> \<forall>n \<in> set ns. n \<noteq> [] \<Longrightarrow> last (join sep ns) = last (last ns)"
proof (induction sep ns rule: join.induct)
  case (3 sep p q qs)
  then have "join sep (q # qs) \<noteq> []" by (intro join_nonempty) auto
  then show ?case using 3 by auto
qed auto

lemma trim_join:
  assumes "ns \<noteq> []" "\<forall>n \<in> set ns. plain_name n"
  shows "trim_str (join [CHR 0x0A] ns) = join [CHR 0x0A] ns"
proof (rule trim_same)
  have ne: "\<forall>n \<in> set ns. n \<noteq> []" "hd ns \<in> set ns" "last ns \<in> set ns" using assms by (auto simp: plain_name_def)
  then show "join [CHR 0x0A] ns \<noteq> []" using assms(1) by (intro join_nonempty) auto
  show "\<not> is_space (hd (join [CHR 0x0A] ns))"
    using ne assms trim_ends(1) [of "hd ns"] by (auto simp: hd_join plain_name_def)
  show "\<not> is_space (last (join [CHR 0x0A] ns))"
    using ne assms trim_ends(2) [of "last ns"] by (auto simp: last_join plain_name_def)
qed

lemma plain_lines_inject:
  assumes "xs \<noteq> []" "ys \<noteq> []" "\<forall>n \<in> set xs. plain_name n" "\<forall>n \<in> set ys. plain_name n"
  shows "join [CHR 0x0A] xs = join [CHR 0x0A] ys \<longleftrightarrow> xs = ys"
  using assms by (intro join_lines_inject) (auto simp: plain_name_def)

section \<open>Properties\<close>

text \<open>The exit code is 2 for exactly four reasons and 0 otherwise: a known Windows build older than 19041, a GStreamer
  runtime that does not start, a missing element of the required list, or no adapter whose H.264 encoder
  element exists. Displays, audio, the firewall, HTTPS, the certificate names and taken ports only warn.\<close>
theorem doctor_exit_exact:
  assumes "diagnose su c se = Some (r, se')"
  shows "exit_code r =
    (if 0 < windows_build su \<and> windows_build su < 19041 \<or> \<not> su_gst_init su
        \<or> (\<exists>n. (n, True) \<in> set REQUIRED \<and> su_find su n = Some False) \<or> h264_lacking su then 2 else 0)"
  using doctor_verdict_iff [OF assms] by (simp add: exit_code_def)

definition gaming_pc :: Surroundings where
  "gaming_pc =
     \<lparr>su_reg_query = Some ''CurrentBuildNumber REG_SZ 22631'', su_gst_init = True,
      su_find = (\<lambda>n. Some (n \<noteq> ''nvd3d11h265enc'')),
      su_gpus = Some [\<lparr>gpu_vendor_id = 0x10DE, gpu_dedicated_vram_mb = 8192, gpu_description = ''RTX''\<rparr>],
      su_monitors = Some [\<lparr>mo_index = 0, mo_primary = True\<rparr>], su_endpoints = Some [], su_netsh = (\<lambda>_. None),
      su_is_file = (\<lambda>_. False), su_read = (\<lambda>_. None), su_config_dir = ''cfg'', su_hostname = ''pc'', su_ipv6 = None,
      su_tcp_free = (\<lambda>_. True), su_udp_free = (\<lambda>_. True)\<rparr>"

lemma gaming_pc_diagnosed:
  "map_option (\<lambda>(r, _). (exit_code r, map ck_name (rp_checks r), verdict r)) (diagnose gaming_pc default_config selection_start) =
     Some (0, [''windows'', ''gstreamer'', ''gst elements'', ''hw encoder'', ''displays'', ''audio'', ''firewall'', ''https'',
                ''cert san'', ''http port'', ''admin port'', ''wt video''], VerdictWarnings)"
  by code_simp

theorem doctor_exit_exact_witness:
  "\<exists>r se'. diagnose gaming_pc default_config selection_start = Some (r, se') \<and> exit_code r = 0 \<and> \<not> h264_lacking gaming_pc"
proof -
  obtain r se' where d: "diagnose gaming_pc default_config selection_start = Some (r, se')" and e: "exit_code r = 0"
    using gaming_pc_diagnosed by auto
  show ?thesis using doctor_exit_exact [OF d] d e by (auto split: if_splits)
qed


text \<open>C36. What a passing report promises, against the graph the session builds: with the elements every GStreamer has, an
  H.264 session gets its video graph. An H.265 session, which the host prefers, gets one exactly if the
  adapter's H.265 encoder exists, which the report does not ask for.\<close>
theorem doctor_ready_builds:
  assumes "diagnose su c se = Some (r, se')" and "exit_code r = 0"
    and "\<forall>n. su_find su n = Some (rg_has reg n)" and "rg_links reg"
    and "list_all (rg_has reg) [''queue'', ''capsfilter'', ''fakesink'']"
  shows "(\<exists>g. build_video reg c s monitors (bridge_new c s (map_option (map GpuInfo.truncate) (su_gpus su)) i k) = Inr g)
     \<longleftrightarrow> sc_codec s = H264
       \<or> (\<exists>v e. su_vendor su = Some v \<and> element_for v H265 = Some e \<and> rg_has reg e)"
proof -
  have ok: "\<not> h264_lacking su" "\<not> (\<exists>n. (n, True) \<in> set REQUIRED \<and> su_find su n = Some False)"
    using doctor_passes [OF assms(1,2)] by auto
  then obtain v where v: "su_vendor su = Some v" by (auto simp: h264_lacking_def split: option.splits)
  have "rg_has reg ''d3d11screencapturesrc''" "rg_has reg ''d3d11convert''" "rg_has reg ''webrtcbin''"
    using ok(2) assms(3) by (auto simp: REQUIRED_def)
  moreover have "\<exists>e. element_for v H264 = Some e \<and> rg_has reg e"
    using ok(1) v assms(3) by (auto simp: h264_lacking_def split: option.splits)
  moreover obtain e where "element_for v H265 = Some e" using element_for_total by blast
  ultimately show ?thesis
    using assms(4,5) v unfolding build_succeeds
    by (cases "sc_codec s") (auto simp: graph_possible_def video_factories_def bridge_vendor_def)
qed

theorem doctor_ready_builds_witness:
  "\<not> (\<exists>g. build_video \<lparr>rg_has = (\<lambda>n. n \<noteq> ''nvd3d11h265enc''), rg_prop = (\<lambda>_ _. True), rg_links = True\<rparr> default_config
       (build_config default_config ''d3d11'' 1920 1080 60 Balanced H265 ''hardware'' None Desktop) None
       (bridge_new default_config (build_config default_config ''d3d11'' 1920 1080 60 Balanced H265 ''hardware'' None Desktop)
          (map_option (map GpuInfo.truncate) (su_gpus gaming_pc)) True True) = Inr g)"
proof -
  let ?reg = "\<lparr>rg_has = (\<lambda>n. n \<noteq> ''nvd3d11h265enc''), rg_prop = (\<lambda>_ _. True), rg_links = True\<rparr>"
  let ?s = "build_config default_config ''d3d11'' 1920 1080 60 Balanced H265 ''hardware'' None Desktop"
  obtain r se' where d: "diagnose gaming_pc default_config selection_start = Some (r, se')" and e: "exit_code r = 0"
    using gaming_pc_diagnosed by auto
  have h: "\<forall>n. su_find gaming_pc n = Some (rg_has ?reg n)" "rg_links ?reg"
    "list_all (rg_has ?reg) [''queue'', ''capsfilter'', ''fakesink'']"
    by (simp_all add: gaming_pc_def)
  have c: "sc_codec ?s = H265" by (simp add: build_config_def Let_def split: prod.splits)
  have v: "su_vendor gaming_pc = Some Nvidia" by code_simp
  show ?thesis using doctor_ready_builds [OF d e h, of ?s] c v by simp
qed

text \<open>The certificate check and the renewal agree: the check passes exactly if the recorded names are the wanted ones
  in any order; a leaf the host would keep passes; and where the check warns, the next start issues a
  new leaf after which it passes.\<close>
theorem doctor_agrees_with_renewal:
  assumes "collect_sans c (su_hostname su) (su_ipv6 su) se = ((primary, sans), se')"
    and "strip_prefix ''['' primary = None" and "\<forall>n \<in> set sans. plain_name n"
    and "lf_sans dir = Some (join [CHR 0x0A] old)" and "old \<noteq> []" and "\<forall>n \<in> set old. plain_name n"
    and "su_read su (sans_file su c) = lf_sans dir"
    and "all_written w" and "tl_self_sign lib ca \<noteq> None" and "tl_sign lib ca leaf sans primary now = Some pem"
  shows "(ck_status (fst (check_leaf_sans su c se)) = StOk \<longleftrightarrow> mset old = mset sans)
    \<and> (leaf_current now sans dir \<longrightarrow> ck_status (fst (check_leaf_sans su c se)) = StOk)
    \<and> (ck_status (fst (check_leaf_sans su c se)) = StWarn \<longrightarrow>
         ck_status (fst (check_leaf_sans
           (su\<lparr>su_read := (\<lambda>_. lf_sans (snd (ensure_leaf lib now (Some leaf) w ca_pem ca primary sans dir)))\<rparr>) c se)) = StOk)"
proof -
  have p: "primary \<in> set sans" by (rule primary_listed [OF assms(1,2)])
  have st: "ck_status (fst (check_leaf_sans su' c se)) = (if mset old' = mset sans then StOk else StWarn)"
    if "su_hostname su' = su_hostname su" "su_ipv6 su' = su_ipv6 su" "su_read su' (sans_file su' c) = Some (join [CHR 0x0A] old')"
      "old' \<noteq> []" "\<forall>n \<in> set old'. plain_name n" for su' old'
    using that assms(1) p
    by (simp add: check_leaf_sans_def sans_file_def [symmetric] recorded_join wanted_listed sort_eq_mset Let_def)
  have cur: "leaf_current now sans dir \<Longrightarrow> old = sans"
    using assms(3-6) p trim_join [of old] trim_join [of sans] plain_lines_inject [of old sans]
    by (cases "sans = []") (auto simp: leaf_current_def split: option.splits)
  let ?read = "\<lambda>_ :: string. lf_sans (snd (ensure_leaf lib now (Some leaf) w ca_pem ca primary sans dir))"
  have now: "ck_status (fst (check_leaf_sans su c se)) = (if mset old = mset sans then StOk else StWarn)"
    using assms(4-7) by (intro st) simp_all
  have later: "ck_status (fst (check_leaf_sans (su\<lparr>su_read := ?read\<rparr>) c se)) = StOk" if "mset old \<noteq> mset sans"
  proof -
    have "\<not> leaf_current now sans dir" using that cur by auto
    then have "?read f = Some (join [CHR 0x0A] sans)" for f
      using issue_complete [OF assms(8,9,10), of ca_pem dir] by (simp add: ensure_leaf_def)
    moreover have "sans \<noteq> []" using p by auto
    ultimately show ?thesis using st [of "su\<lparr>su_read := ?read\<rparr>" sans] assms(3) by simp
  qed
  show ?thesis using now later cur by auto
qed

definition signing :: "string TlsLib" where
  "signing = \<lparr>tl_parse_key = (\<lambda>_. None), tl_unwrap = (\<lambda>_. None), tl_wrap = (\<lambda>_. None), tl_pem = (\<lambda>_. []),
     tl_self_sign = (\<lambda>_. Some []), tl_sign = (\<lambda>_ _ _ _ _. Some [])\<rparr>"

theorem doctor_agrees_with_renewal_witness:
  "ck_status (fst (check_leaf_sans
     (gaming_pc\<lparr>su_read := (\<lambda>_. lf_sans (snd (ensure_leaf signing 0 (Some ''leaf'') \<lparr>wr_crt = Written, wr_key = Written, wr_sans = Written\<rparr>
         [] ''ca'' ''pc.local'' [''127.0.0.1'', ''::1'', ''localhost'', ''pc'', ''pc.local'']
         \<lparr>lf_crt = None, lf_key = None, lf_sans = Some ''old.local''\<rparr>)))\<rparr>) default_config selection_start)) = StOk"
proof -
  let ?su = "gaming_pc\<lparr>su_read := (\<lambda>_. Some ''old.local'')\<rparr>"
  let ?sans = "[''127.0.0.1'', ''::1'', ''localhost'', ''pc'', ''pc.local'']"
  let ?dir = "\<lparr>lf_crt = None, lf_key = None, lf_sans = Some ''old.local''\<rparr> :: LeafDir"
  obtain se' where c: "collect_sans default_config (su_hostname ?su) (su_ipv6 ?su) selection_start = ((''pc.local'', ?sans), se')"
  proof -
    have "fst (collect_sans default_config (su_hostname ?su) (su_ipv6 ?su) selection_start) = (''pc.local'', ?sans)" by code_simp
    then show thesis using that by (metis prod.collapse)
  qed
  have p: "\<forall>n \<in> set ?sans. plain_name n" "\<forall>n \<in> set [''old.local'']. plain_name n" "strip_prefix ''['' ''pc.local'' = None"
    by code_simp+
  have j: "lf_sans ?dir = Some (join [CHR 0x0A] [''old.local''])" by simp
  have r: "su_read ?su (sans_file ?su default_config) = lf_sans ?dir" by simp
  have w: "ck_status (fst (check_leaf_sans ?su default_config selection_start)) = StWarn" by code_simp
  show ?thesis
    using doctor_agrees_with_renewal [of default_config ?su selection_start "''pc.local''" ?sans se' ?dir "[''old.local'']"
        "\<lparr>wr_crt = Written, wr_key = Written, wr_sans = Written\<rparr>" signing "''ca''" "''leaf''" 0 "[]" "[]", OF c p(3) p(1) j _ p(2) r] w
    by (simp add: signing_def)
qed

text \<open>Without an initialised runtime the factory lookup panics: the report that would name the cause is lost as soon as there is
  an adapter.\<close>

lemma doctor_dies_without_runtime:
  assumes "\<not> su_gst_init su" "\<forall>n. su_find su n = None" "su_gpus su = Some (g # gs)"
  shows "diagnose su c se = None"
proof -
  have "\<not> gpus_listed su"
    using assms element_for_some [of "vendor_of (gpu_vendor_id g)" H264]
    by (auto simp: gpus_listed_def List.map_filter_def)
  then show ?thesis by (simp add: diagnose_def check_encoder_def split: Option.bind_splits)
qed

text \<open>The second message about adapters is never given: every adapter has a vendor.\<close>

lemma unsupported_never:
  "check_encoder su = Some k \<Longrightarrow> ck_detail k \<noteq> UnsupportedGpus ns"
proof -
  have some: "primary_gpu_vendor (Some (g # gs)) = None \<longleftrightarrow> False" for g gs
  proof -
    have "fold (\<lambda>g best. case best of None \<Rightarrow> Some g
                | Some b \<Rightarrow> if gpu_dedicated_vram_mb b \<le> gpu_dedicated_vram_mb g then Some g else Some b) gs (Some x) \<noteq> None" for x :: GpuInfo
      by (induction gs arbitrary: x) auto
    then show ?thesis by (auto simp: primary_gpu_vendor_def)
  qed
  then show "check_encoder su = Some k \<Longrightarrow> ck_detail k \<noteq> UnsupportedGpus ns"
    by (cases "su_gpus su"; cases "the (su_gpus su)")
      (auto simp: check_encoder_def ok_check_def fail_check_def some Let_def split: if_splits option.splits bool.splits)
qed

end
