(* ===== verification/HostMain.thy ===== *)
theory HostMain
  imports TlsCerts GameText "HOL-Library.AList"
begin

text \<open>
  The process around the host (\<open>crates/host/src/main.rs\<close>): the command line, the console, the single
  instance, the log file and the environment of a bundled runtime; and the two settings the host
  writes back into its configuration file (\<open>config.rs\<close>).
\<close>

section \<open>The command line\<close>

datatype CliAction =
    ShowVersion | ShowHelp | SetStartup bool | PrintConfig | NetProbe | SetupFirewall
  | RunDoctor bool | TrustCa | SupportBundle "string option" | StartHost

fun after_flag :: "string \<Rightarrow> string list \<Rightarrow> string option" where
  "after_flag f [] = None"
| "after_flag f (a # as) = (if a = f then (case as of b # _ \<Rightarrow> Some b | [] \<Rightarrow> None) else after_flag f as)"

text \<open>The arguments include the program's own name.\<close>

definition cli_action :: "string list \<Rightarrow> CliAction" where
  "cli_action args =
     (let flag = (\<lambda>f. f \<in> set args) in
      if flag ''--version'' \<or> flag ''-V'' then ShowVersion
      else if flag ''--help'' \<or> flag ''-h'' then ShowHelp
      else if flag ''--enable-startup'' then SetStartup True
      else if flag ''--disable-startup'' then SetStartup False
      else if flag ''--print-config'' then PrintConfig
      else if flag ''--net-probe'' then NetProbe
      else if flag ''--setup-firewall'' then SetupFirewall
      else if flag ''--doctor'' then RunDoctor (flag ''--json'')
      else if flag ''--trust-ca'' then TrustCa
      else if flag ''--support-bundle'' then SupportBundle (after_flag ''--support-bundle'' args)
      else StartHost)"

definition CLI_FLAGS :: "string list" where
  "CLI_FLAGS =
     [''--help'', ''-h'', ''--version'', ''-V'', ''--print-config'', ''--net-probe'', ''--doctor'', ''--trust-ca'',
      ''--setup-firewall'', ''--support-bundle'']"

definition attach_console_for_cli :: "string list \<Rightarrow> bool" where
  "attach_console_for_cli args \<longleftrightarrow> (\<exists>a \<in> set args. a \<in> set CLI_FLAGS)"

definition bundle_path :: "string \<Rightarrow> string option \<Rightarrow> string" where
  "bundle_path temp arg = (case arg of Some p \<Rightarrow> p | None \<Rightarrow> path_join temp ''inphase-support.json'')"

text \<open>\<open>claim_instance\<close>: the named mutex is created, existed already, or cannot be made.\<close>

datatype Claim = Claimed | AlreadyRunning | ClaimFailed

datatype MainOutcome =
    DoAction CliAction Config
  | MainError string
  | OpenDashboard nat
  | Boot Config

definition main_run :: "string list \<Rightarrow> string + Config \<Rightarrow> Claim \<Rightarrow> MainOutcome" where
  "main_run args loaded claim =
     (let lenient = (case loaded of Inr c \<Rightarrow> c | Inl _ \<Rightarrow> default_config) in
      case cli_action args of
        StartHost \<Rightarrow>
          (case loaded of
             Inl e \<Rightarrow> MainError (''loading configuration: '' @ e)
           | Inr c \<Rightarrow> (case claim of
                 ClaimFailed \<Rightarrow> MainError ''mutex''
               | AlreadyRunning \<Rightarrow> OpenDashboard (http_port (c_network c))
               | Claimed \<Rightarrow> Boot c))
      | PrintConfig \<Rightarrow> DoAction PrintConfig default_config
      | a \<Rightarrow> DoAction a lenient)"

text \<open>\<open>--trust-ca\<close>: authority, leaf, then the trust store.\<close>

definition trust_command ::
  "'k TlsLib \<Rightarrow> bool \<Rightarrow> 'k option \<Rightarrow> WriteOutcome \<Rightarrow> WriteOutcome \<Rightarrow> nat \<Rightarrow> 'k option \<Rightarrow> LeafWrites \<Rightarrow> string \<times> string list
     \<Rightarrow> bool \<Rightarrow> CaDir \<times> LeafDir \<Rightarrow> (string + unit) \<times> CaDir \<times> LeafDir" where
  "trust_command lib readable fresh_ca w_crt w_key now fresh_leaf w want trusted dirs =
     (case load_or_create_ca lib readable fresh_ca w_crt w_key (fst dirs) of
        (Inl _, ca') \<Rightarrow> (Inl ''authority'', (ca', snd dirs))
      | (Inr (pem, key), ca') \<Rightarrow>
          (case ensure_leaf lib now fresh_leaf w pem key (fst want) (snd want) (snd dirs) of
             (Inl _, leaf') \<Rightarrow> (Inl ''leaf'', (ca', leaf'))
           | (Inr _, leaf') \<Rightarrow>
               ((if trusted then Inr ()
                 else Inl ''Certificate trust was not completed for the user running InPhase''), (ca', leaf'))))"

section \<open>The log file\<close>

record LogDir =
  lg_log :: "string option"
  lg_old :: "string option"

definition LOG_LIMIT :: nat where "LOG_LIMIT = 8000000"

text \<open>\<open>renamed\<close> says whether the roll succeeded; opening creates the file.\<close>

definition open_log :: "bool \<Rightarrow> LogDir \<Rightarrow> LogDir" where
  "open_log renamed d =
     (let d1 = (case lg_log d of
                  Some l \<Rightarrow> if LOG_LIMIT < length l \<and> renamed then \<lparr>lg_log = None, lg_old = Some l\<rparr> else d
                | None \<Rightarrow> d)
      in d1\<lparr>lg_log := Some (case lg_log d1 of Some l \<Rightarrow> l | None \<Rightarrow> [])\<rparr>)"

definition write_log :: "string \<Rightarrow> LogDir \<Rightarrow> LogDir" where
  "write_log s d = d\<lparr>lg_log := Some ((case lg_log d of Some l \<Rightarrow> l | None \<Rightarrow> []) @ s)\<rparr>"

section \<open>The bundled runtime\<close>

text \<open>\<open>split_paths\<close> and \<open>join_paths\<close> of Windows: semicolons separate except between quotes, quotes go.\<close>

fun path_pieces :: "string \<Rightarrow> bool \<Rightarrow> string \<Rightarrow> string list" where
  "path_pieces acc q [] = [acc]"
| "path_pieces acc q (c # cs) =
     (if c = quote then path_pieces acc (\<not> q) cs
      else if c = CHR '';'' \<and> \<not> q then acc # path_pieces [] q cs
      else path_pieces (acc @ [c]) q cs)"

definition split_paths :: "string \<Rightarrow> string list" where
  "split_paths s =
     (let ps = path_pieces [] False s in if length ps \<noteq> 1 \<and> last ps = [] then butlast ps else ps)"

definition path_field :: "string \<Rightarrow> string option" where
  "path_field p =
     (if quote \<in> set p then None else if CHR '';'' \<in> set p then Some ([quote] @ p @ [quote]) else Some p)"

definition join_paths :: "string list \<Rightarrow> string option" where
  "join_paths ps = map_option (join '';'') (all_some (map path_field ps))"

type_synonym env = "string \<Rightarrow> string option"

definition point_at_bundled_runtime :: "string option \<Rightarrow> (string \<Rightarrow> bool) \<Rightarrow> string option \<Rightarrow> env \<Rightarrow> env" where
  "point_at_bundled_runtime exe is_dir local_app_data env =
     (case exe of None \<Rightarrow> env
      | Some x \<Rightarrow>
          (let root = path_join (path_join (path_parent x) ''runtime'') ''gstreamer'';
               plugins = path_join (path_join root ''lib'') ''gstreamer-1.0'' in
           if \<not> is_dir plugins then env
           else let e1 = env(''GST_PLUGIN_PATH'' \<mapsto> plugins, ''GST_PLUGIN_SYSTEM_PATH'' \<mapsto> [], ''GST_REGISTRY_FORK'' \<mapsto> ''no'');
                    e2 = (case local_app_data of None \<Rightarrow> e1
                          | Some l \<Rightarrow> e1(''GST_REGISTRY'' \<mapsto> path_join (path_join l ''InPhase'') ''gst-registry.bin''));
                    path = (case e2 ''PATH'' of Some p \<Rightarrow> p | None \<Rightarrow> [])
                in (case join_paths (path_parent x # split_paths path) of
                      Some p \<Rightarrow> e2(''PATH'' \<mapsto> p) | None \<Rightarrow> e2)))"

section \<open>Settings written back\<close>

datatype TomlValue = TBool bool | TStr string | TOther | TTable "(string \<times> TomlValue) list"

type_synonym doc = "(string \<times> TomlValue) list"

text \<open>\<open>entry(section).or_insert_with(table)\<close>, then the change if it is a table.\<close>

definition in_section :: "string \<Rightarrow> (doc \<Rightarrow> doc) \<Rightarrow> doc \<Rightarrow> doc" where
  "in_section sec f d =
     (case map_of d sec of
        None \<Rightarrow> AList.update sec (TTable (f [])) d
      | Some (TTable t) \<Rightarrow> AList.update sec (TTable (f t)) d
      | Some _ \<Rightarrow> d)"

text \<open>\<open>found\<close>: no file, or a file that parses or not. The result is what is written.\<close>

definition persist_bool :: "string \<Rightarrow> string \<Rightarrow> bool \<Rightarrow> doc option option \<Rightarrow> doc option" where
  "persist_bool sec k v found =
     (case found of None \<Rightarrow> Some (in_section sec (AList.update k (TBool v)) [])
      | Some None \<Rightarrow> None
      | Some (Some d) \<Rightarrow> Some (in_section sec (AList.update k (TBool v)) d))"

definition set_device :: "string option \<Rightarrow> doc \<Rightarrow> doc" where
  "set_device i t =
     (case i of Some v \<Rightarrow> if v \<noteq> [] then AList.update ''audio_capture_device'' (TStr v) t
                          else AList.delete ''audio_capture_device'' t
      | None \<Rightarrow> AList.delete ''audio_capture_device'' t)"

definition persist_audio_capture_device :: "string option \<Rightarrow> doc option option \<Rightarrow> doc option" where
  "persist_audio_capture_device i found =
     (case found of None \<Rightarrow> Some (in_section ''media'' (set_device i) [])
      | Some None \<Rightarrow> None
      | Some (Some d) \<Rightarrow> Some (in_section ''media'' (set_device i) d))"

definition setting :: "doc \<Rightarrow> string \<Rightarrow> string \<Rightarrow> TomlValue option" where
  "setting d sec k = (case map_of d sec of Some (TTable t) \<Rightarrow> map_of t k | _ \<Rightarrow> None)"

section \<open>Lemmas\<close>

lemma in_section_setting:
  "setting (in_section sec f d) s k =
     (if s = sec then (case map_of d sec of None \<Rightarrow> map_of (f []) k
                       | Some (TTable t) \<Rightarrow> map_of (f t) k | _ \<Rightarrow> None)
      else setting d s k)"
  by (auto simp: setting_def in_section_def update_conv' split: option.splits TomlValue.splits)

lemma in_section_elsewhere: "s \<noteq> sec \<Longrightarrow> map_of (in_section sec f d) s = map_of d s"
  by (simp add: in_section_def update_conv' split: option.splits TomlValue.splits)

abbreviation not_a_table :: "doc \<Rightarrow> string \<Rightarrow> bool" where
  "not_a_table d sec \<equiv> (case map_of d sec of None \<Rightarrow> False | Some (TTable t) \<Rightarrow> False | Some _ \<Rightarrow> True)"

lemma setting_update:
  "setting (in_section sec (AList.update k v) d) s key =
     (if s = sec \<and> key = k \<and> \<not> not_a_table d sec then Some v else setting d s key)"
  unfolding in_section_setting
  by (cases "s = sec"; cases "map_of d sec"; cases "the (map_of d sec)") (simp_all add: setting_def update_conv')

lemma set_device_lookup:
  "map_of (set_device i t) k =
     (if k = ''audio_capture_device'' then (case i of Some v \<Rightarrow> if v = [] then None else Some (TStr v) | None \<Rightarrow> None)
      else map_of t k)"
  by (auto simp: set_device_def update_conv' delete_conv' split: option.splits)

definition device_value :: "string option \<Rightarrow> TomlValue option" where
  "device_value i = (case i of Some v \<Rightarrow> if v = [] then None else Some (TStr v) | None \<Rightarrow> None)"

lemma setting_device:
  "setting (in_section ''media'' (set_device i) d) s key =
     (if s = ''media'' \<and> key = ''audio_capture_device'' \<and> \<not> not_a_table d ''media'' then device_value i
      else setting d s key)"
  unfolding in_section_setting
  by (cases "s = ''media''"; cases "map_of d ''media''"; cases "the (map_of d ''media'')")
    (simp_all add: setting_def set_device_lookup device_value_def)

text \<open>The scanner over a list of fields: each field comes back as it was.\<close>

lemma pieces_plain:
  "quote \<notin> set p \<Longrightarrow> q \<or> CHR '';'' \<notin> set p \<Longrightarrow> path_pieces acc q (p @ s) = path_pieces (acc @ p) q s"
  by (induction p arbitrary: acc) auto

lemma pieces_field:
  assumes "path_field p = Some f"
  shows "path_pieces acc False (f @ s) = path_pieces (acc @ p) False s"
  using assms pieces_plain [of p True acc "quote # s"] pieces_plain [of p False acc s]
  by (auto simp: path_field_def split: if_splits)

lemma semicolon_not_quote [simp]: "CHR '';'' \<noteq> quote" "quote \<noteq> CHR '';''"
  by (code_simp)+

lemma pieces_join:
  assumes "all_some (map path_field ps) = Some fs" "ps \<noteq> []"
  shows "path_pieces [] False (join '';'' fs) = ps"
  using assms
proof (induction ps arbitrary: fs)
  case (Cons p ps)
  then obtain f gs where f: "path_field p = Some f" "all_some (map path_field ps) = Some gs" "fs = f # gs"
    by (cases "path_field p") auto
  show ?case
  proof (cases ps)
    case Nil
    then show ?thesis using f pieces_field [OF f(1), of "[]" "[]"] by auto
  next
    case (Cons p' ps')
    then obtain g gs' where "gs = g # gs'" using f(2) by (cases "path_field p'") auto
    then show ?thesis using f pieces_field [OF f(1), of "[]" "'';'' @ join '';'' gs"] Cons.IH [OF f(2)] Cons by simp
  qed
qed simp

lemma pieces_no_quote: "quote \<notin> set acc \<Longrightarrow> \<forall>p \<in> set (path_pieces acc q s). quote \<notin> set p"
  by (induction acc q s rule: path_pieces.induct) auto

lemma path_field_some: "quote \<notin> set p \<Longrightarrow> path_field p \<noteq> None"
  by (simp add: path_field_def)

lemma join_paths_total:
  assumes "\<forall>p \<in> set ps. quote \<notin> set p"
  shows "\<exists>s. join_paths ps = Some s"
proof -
  have "\<exists>fs. all_some (map path_field ps) = Some fs"
    using assms by (induction ps) (auto simp: path_field_def)
  then show ?thesis by (auto simp: join_paths_def)
qed

lemma split_paths_no_quote: "p \<in> set (split_paths s) \<Longrightarrow> quote \<notin> set p"
  using pieces_no_quote [of "[]" False s] by (auto simp: split_paths_def Let_def split: if_splits dest: in_set_butlastD)

lemma split_join_paths:
  assumes "join_paths ps = Some s" "ps \<noteq> []"
  shows "filter (\<lambda>p. p \<noteq> []) (split_paths s) = filter (\<lambda>p. p \<noteq> []) ps"
proof -
  obtain fs where "all_some (map path_field ps) = Some fs" "s = join '';'' fs"
    using assms(1) by (auto simp: join_paths_def)
  then have p: "path_pieces [] False s = ps" using pieces_join assms(2) by simp
  have "filter (\<lambda>p. p \<noteq> []) (butlast ps) = filter (\<lambda>p. p \<noteq> []) ps" if l: "last ps = []"
  proof -
    have "ps = butlast ps @ [[]]" using append_butlast_last_id [OF assms(2)] l by simp
    then obtain qs where "ps = qs @ [[]]" by blast
    then show ?thesis by simp
  qed
  then show ?thesis by (simp add: split_paths_def p)
qed

definition bundled_plugins :: "string \<Rightarrow> string" where
  "bundled_plugins x = path_join (path_join (path_join (path_join (path_parent x) ''runtime'') ''gstreamer'') ''lib'') ''gstreamer-1.0''"

definition doc_before :: "doc option option \<Rightarrow> doc" where
  "doc_before found = (case found of Some (Some d) \<Rightarrow> d | _ \<Rightarrow> [])"

definition gst_env :: "string \<Rightarrow> string option \<Rightarrow> env \<Rightarrow> env" where
  "gst_env plugins appdata env =
     (let e = env(''GST_PLUGIN_PATH'' \<mapsto> plugins, ''GST_PLUGIN_SYSTEM_PATH'' \<mapsto> [], ''GST_REGISTRY_FORK'' \<mapsto> ''no'') in
      case appdata of None \<Rightarrow> e | Some l \<Rightarrow> e(''GST_REGISTRY'' \<mapsto> path_join (path_join l ''InPhase'') ''gst-registry.bin''))"

lemma gst_env_keeps:
  "gst_env pl a env ''GST_PLUGIN_PATH'' = Some pl"
  "gst_env pl a env ''GST_PLUGIN_SYSTEM_PATH'' = Some []"
  "v \<notin> {''GST_PLUGIN_PATH'', ''GST_PLUGIN_SYSTEM_PATH'', ''GST_REGISTRY_FORK'', ''GST_REGISTRY''} \<Longrightarrow> gst_env pl a env v = env v"
  by (simp_all add: gst_env_def Let_def split: option.split)

text \<open>The command line, decided flag by flag: the first of the list that is given.\<close>

lemma no_flag_no_console: "cli_action args = StartHost \<Longrightarrow> a \<in> set CLI_FLAGS \<Longrightarrow> a \<notin> set args"
  by (simp add: cli_action_def CLI_FLAGS_def Let_def split: if_splits) blast

lemma command_has_flag:
  assumes "cli_action args \<noteq> StartHost" "\<forall>b. cli_action args \<noteq> SetStartup b"
  shows "\<exists>a \<in> set CLI_FLAGS. a \<in> set args"
proof (rule ccontr)
  assume "\<not> (\<exists>a \<in> set CLI_FLAGS. a \<in> set args)"
  then have "''--version'' \<notin> set args" "''-V'' \<notin> set args" "''--help'' \<notin> set args" "''-h'' \<notin> set args"
    "''--print-config'' \<notin> set args" "''--net-probe'' \<notin> set args" "''--setup-firewall'' \<notin> set args"
    "''--doctor'' \<notin> set args" "''--trust-ca'' \<notin> set args" "''--support-bundle'' \<notin> set args"
    by (simp_all add: CLI_FLAGS_def)
  then have "cli_action args \<in> {SetStartup True, SetStartup False, StartHost}" by (simp add: cli_action_def)
  then show False using assms by auto
qed

section \<open>Properties\<close>

text \<open>With a bundled runtime beside the program, the search path the process goes on with is the program's own
  directory and then every directory that was in it, in the old order and whatever characters they
  contain; plugins come from the bundle alone; and no variable other than those five is touched.\<close>
theorem bundled_runtime_exact:
  assumes "is_dir (bundled_plugins x)" and "quote \<notin> set (path_parent x)" and "path_parent x \<noteq> []"
  shows "(let env' = point_at_bundled_runtime (Some x) is_dir appdata env in
     (\<exists>p. env' ''PATH'' = Some p
        \<and> filter (\<lambda>d. d \<noteq> []) (split_paths p)
            = path_parent x # filter (\<lambda>d. d \<noteq> []) (split_paths (case env ''PATH'' of Some p \<Rightarrow> p | None \<Rightarrow> [])))
     \<and> env' ''GST_PLUGIN_PATH'' = Some (bundled_plugins x) \<and> env' ''GST_PLUGIN_SYSTEM_PATH'' = Some []
     \<and> (\<forall>v. v \<notin> {''PATH'', ''GST_PLUGIN_PATH'', ''GST_PLUGIN_SYSTEM_PATH'', ''GST_REGISTRY_FORK'', ''GST_REGISTRY''} \<longrightarrow> env' v = env v))"
proof -
  let ?old = "split_paths (case env ''PATH'' of Some p \<Rightarrow> p | None \<Rightarrow> [])"
  have "\<forall>p \<in> set (path_parent x # ?old). quote \<notin> set p" using assms(2) split_paths_no_quote by auto
  then obtain p where p: "join_paths (path_parent x # ?old) = Some p" using join_paths_total by blast
  have "filter (\<lambda>d. d \<noteq> []) (split_paths p) = path_parent x # filter (\<lambda>d. d \<noteq> []) ?old"
    using split_join_paths [OF p] assms(3) by simp
  moreover have "point_at_bundled_runtime (Some x) is_dir appdata env =
      (gst_env (bundled_plugins x) appdata env)(''PATH'' \<mapsto> p)"
    using assms(1) p unfolding point_at_bundled_runtime_def bundled_plugins_def gst_env_def Let_def
    by (cases appdata) simp_all
  ultimately show ?thesis unfolding Let_def by (simp add: gst_env_keeps)
qed

definition program :: string where
  "program = ''C:'' @ [backslash] @ ''InPhase'' @ [backslash] @ ''host.exe''"

theorem bundled_runtime_exact_witness:
  "\<exists>p. point_at_bundled_runtime (Some program) (\<lambda>_. True) None [''PATH'' \<mapsto> ''A;B''] ''PATH'' = Some p
     \<and> filter (\<lambda>d. d \<noteq> []) (split_paths p) = [path_parent program, ''A'', ''B'']"
proof -
  have p: "quote \<notin> set (path_parent program)" "path_parent program \<noteq> []" by code_simp+
  have s: "filter (\<lambda>d. d \<noteq> []) (split_paths ''A;B'') = [''A'', ''B'']" by code_simp
  show ?thesis
    using bundled_runtime_exact [of "\<lambda>_. True" program None "[''PATH'' \<mapsto> ''A;B'']", OF _ p] s by (simp add: Let_def)
qed

text \<open>Writing a setting back changes that setting and nothing else: the file read again has the new value under its
  section and key and every other setting as before. It is not written if the file is there and does not
  parse, and the value is silently lost where the section's name holds something that is not a table.\<close>
theorem setting_written_back:
  "(case persist_bool sec k v found of
      None \<Rightarrow> found = Some None
    | Some d \<Rightarrow> (\<forall>s key. setting d s key =
           (if s = sec \<and> key = k \<and> \<not> not_a_table (doc_before found) sec then Some (TBool v)
            else setting (doc_before found) s key))
        \<and> (\<forall>s. s = sec \<or> map_of d s = map_of (doc_before found) s))
   \<and> (case persist_audio_capture_device i found of
      None \<Rightarrow> found = Some None
    | Some d \<Rightarrow> (\<forall>s key. setting d s key =
           (if s = ''media'' \<and> key = ''audio_capture_device'' \<and> \<not> not_a_table (doc_before found) ''media'' then device_value i
            else setting (doc_before found) s key))
        \<and> (\<forall>s. s = ''media'' \<or> map_of d s = map_of (doc_before found) s))"
proof -
  consider "found = None" | "found = Some None" | d where "found = Some (Some d)"
    by (cases found) (auto split: option.splits)
  then show ?thesis
  proof cases
    case 1
    then show ?thesis
      by (simp only: persist_bool_def persist_audio_capture_device_def doc_before_def option.case setting_update setting_device
          simp_thms) (metis in_section_elsewhere)
  next
    case 2
    then show ?thesis by (simp add: persist_bool_def persist_audio_capture_device_def)
  next
    case (3 d)
    then show ?thesis
      by (simp only: persist_bool_def persist_audio_capture_device_def doc_before_def option.case setting_update setting_device
          simp_thms) (metis in_section_elsewhere)
  qed
qed

text \<open>The console is opened for exactly the commands that print: it is there for every command but the two that change
  the start at sign-in, and never when the host starts. And the host starts exactly without a command,
  with a configuration that loads, and as the only instance.\<close>
theorem command_line_exact:
  "(case cli_action args of SetStartup _ \<Rightarrow> True | StartHost \<Rightarrow> \<not> attach_console_for_cli args | _ \<Rightarrow> attach_console_for_cli args)
   \<and> (main_run args loaded claim = Boot c \<longleftrightarrow> cli_action args = StartHost \<and> loaded = Inr c \<and> claim = Claimed)"
proof -
  have "case cli_action args of SetStartup _ \<Rightarrow> True | StartHost \<Rightarrow> \<not> attach_console_for_cli args | _ \<Rightarrow> attach_console_for_cli args"
    using no_flag_no_console [of args] command_has_flag [of args]
    by (cases "cli_action args") (auto simp: attach_console_for_cli_def)
  moreover have "main_run args loaded claim = Boot c \<longleftrightarrow> cli_action args = StartHost \<and> loaded = Inr c \<and> claim = Claimed" for c
    by (cases "cli_action args"; cases loaded; cases claim) (simp_all add: main_run_def)
  ultimately show ?thesis by auto
qed

text \<open>The log is rolled when it is opened and not while it is written.\<close>

lemma log_grows_while_running:
  "\<exists>d. lg_log (fold write_log ss (open_log renamed d0)) = Some d \<and> sum_list (map length ss) \<le> length d"
proof -
  have "\<exists>e. lg_log (fold write_log ss d) = Some (l @ e) \<and> length e = sum_list (map length ss)" if "lg_log d = Some l" for d l
    using that
  proof (induction ss arbitrary: d l)
    case (Cons s ss)
    have "lg_log (write_log s d) = Some (l @ s)" using Cons.prems by (simp add: write_log_def)
    then show ?case using Cons.IH by fastforce
  qed simp
  moreover have "lg_log (open_log renamed d0) \<noteq> None" by (simp add: open_log_def Let_def)
  ultimately show ?thesis by fastforce
qed

lemma trust_command_sound:
  assumes "trust_command lib readable fresh_ca w_crt w_key now fresh_leaf w want trusted dirs = (Inr (), (ca', leaf'))"
  shows "trusted \<and> ca_crt ca' \<noteq> None \<and> ca_key ca' \<noteq> None"
  using assms
  by (auto simp: trust_command_def load_or_create_ca_def write_file_def Let_def split: prod.splits sum.splits option.splits if_splits)

end
