(* ===== verification/HostBoot.thy ===== *)
theory HostBoot
  imports HostMain Doctor HttpApi MediaPump
begin

text \<open>
  Starting the host and what it says about itself: \<open>HostRuntime::boot\<close> and \<open>run\<close>
  (\<open>crates/host/src/app.rs\<close>), the resolution of HTTPS and the listeners (\<open>http/mod.rs\<close>), the certificate of the
  video transport (\<open>media/wt/mod.rs\<close>), the health watchdog, the tray's lines and the names the host answers to.
  The stores start as the components define it; every outcome of the machine is an argument.
\<close>

section \<open>Names\<close>

text \<open>The names of this machine's addresses, read again when more than 30 s old (nanoseconds).\<close>

type_synonym sslip_cache = "nat option \<times> string list"

definition sslip_names_of :: "IpAddr list \<Rightarrow> string list" where
  "sslip_names_of ips =
     map lower (List.map_filter (\<lambda>ip. case ip of
        V6 a \<Rightarrow> if is_global_unicast_v6 a then sslip_hostname (v6_text a) else None
      | V4 _ \<Rightarrow> None) ips)"

definition own_sslip_names :: "nat \<Rightarrow> IpAddr list \<Rightarrow> sslip_cache \<Rightarrow> string list \<times> sslip_cache" where
  "own_sslip_names now ips c =
     (let stale = (case fst c of None \<Rightarrow> True | Some t \<Rightarrow> 30 * second < now - t);
          c' = (if stale then (Some now, sslip_names_of ips) else c)
      in (snd c', c'))"

text \<open>The connect-src directive of the content policy.\<close>

definition csp_char :: "char \<Rightarrow> bool" where
  "csp_char c \<longleftrightarrow> is_alnum c \<or> c \<in> {CHR ''.'', CHR ''-'', CHR ''_'', CHR '':'', CHR ''['', CHR '']''}"

definition csp_safe_host :: "string \<Rightarrow> string option" where
  "csp_safe_host host =
     (if host = [] \<or> CHR ''@'' \<in> set host then None
      else if list_all csp_char host then Some host else None)"

definition connect_src_directive :: "string option \<Rightarrow> nat option \<Rightarrow> string" where
  "connect_src_directive host wt =
     (let c = [char_of (39 :: nat)] @ ''self'' @ [char_of (39 :: nat)] @ '' ws: wss:'';
          c1 = (case Option.bind host csp_safe_host of None \<Rightarrow> c
                | Some h \<Rightarrow> (case wt of None \<Rightarrow> c
                    | Some p \<Rightarrow>
                        (let name = host_from_header h in
                         if CHR '':'' \<in> set name \<and> \<not> starts_with name ''[''
                         then c @ '' https://['' @ name @ '']:'' @ show_nat p
                         else c @ '' https://'' @ name @ '':'' @ show_nat p)))
      in (case wt of None \<Rightarrow> c1
          | Some p \<Rightarrow> c1 @ '' https://*:'' @ show_nat p @ '' '' @ [char_of (39 :: nat)]
                        @ ''unsafe-webtransport-hashes'' @ [char_of (39 :: nat)]))"

section \<open>HTTPS\<close>

record ResolvedTls =
  rt_domain :: string
  rt_https_addr :: "IpAddr \<times> nat"
  rt_play_url :: string

text \<open>The machine's part in issuing certificates.\<close>

record 'k TlsInput =
  ti_lib :: "'k TlsLib"
  ti_readable :: bool
  ti_fresh_ca :: "'k option"
  ti_w_ca :: "WriteOutcome \<times> WriteOutcome"
  ti_now :: nat
  ti_fresh_leaf :: "'k option"
  ti_w_leaf :: LeafWrites

type_synonym tls_dir = "CaDir \<times> LeafDir"

definition resolve_tls ::
  "'k TlsInput \<Rightarrow> Config \<Rightarrow> string \<Rightarrow> (128 word) option \<Rightarrow> Selection \<times> tls_dir \<Rightarrow> ResolvedTls option \<times> Selection \<times> tls_dir" where
  "resolve_tls ti c host v6 x =
     (case x of (se, ca, leaf) \<Rightarrow>
        (case tls_mode (c_tls c) of
           TlsOff \<Rightarrow> (None, x)
         | LocalCa \<Rightarrow>
             (case load_or_create_ca (ti_lib ti) (ti_readable ti) (ti_fresh_ca ti) (fst (ti_w_ca ti)) (snd (ti_w_ca ti)) ca of
                (Inl _, ca') \<Rightarrow> (None, se, ca', leaf)
              | (Inr (pem, ck), ca') \<Rightarrow>
                  (let ((primary, sans), se1) = collect_sans c host v6 se in
                   (case ensure_leaf (ti_lib ti) (ti_now ti) (ti_fresh_leaf ti) (ti_w_leaf ti) pem ck primary sans leaf of
                      (Inl _, leaf') \<Rightarrow> (None, se1, ca', leaf')
                    | (Inr _, leaf') \<Rightarrow>
                        (let (url, se2) = play_url c host v6 se1 in
                         (Some \<lparr>rt_domain = primary, rt_https_addr = (bind_addr (c_network c), tls_port (c_tls c)),
                                rt_play_url = url\<rparr>, se2, ca', leaf')))))))"

section \<open>Listeners\<close>

datatype ListenerName = AdminL | HttpL | Http6L | HttpsL | Https6L

datatype Tls = PlainText | LocalCert | PublicCert

record Bound =
  bo_name :: ListenerName
  bo_addr :: "IpAddr \<times> nat"
  bo_router :: Listener
  bo_tls :: Tls

datatype BindOutcome = BindOk | AddrInUse | BindFailed

datatype ServeError =
    PortInUse string "IpAddr \<times> nat" | CannotBind string "IpAddr \<times> nat" | CertUnloadable | NoFallbackCert | HttpsBindFailed

definition bind_or_explain :: "(ListenerName \<Rightarrow> BindOutcome) \<Rightarrow> ListenerName \<Rightarrow> IpAddr \<times> nat \<Rightarrow> string \<Rightarrow> ServeError + unit" where
  "bind_or_explain b l addr what =
     (case b l of BindOk \<Rightarrow> Inr () | AddrInUse \<Rightarrow> Inl (PortInUse what addr) | BindFailed \<Rightarrow> Inl (CannotBind what addr))"

text \<open>
  \<open>serve\<close> up to where it waits for the listeners: which it waits for, in the order it opens them. The IPv6 ones are
  optional; the HTTPS one is bound when it is first waited for. \<open>cert_loads\<close> and \<open>fallback\<close> say whether the certificate
  files can be loaded for the listener and for the resolver of the public one.
\<close>

definition serve_listeners ::
  "(ListenerName \<Rightarrow> BindOutcome) \<Rightarrow> bool \<Rightarrow> bool \<Rightarrow> Config \<Rightarrow> ResolvedTls option \<Rightarrow> ServeError + Bound list" where
  "serve_listeners b cert_loads fallback c tls =
     bindE (bind_or_explain b AdminL (admin_socket_addr c) ''admin'') (\<lambda>_.
     bindE (bind_or_explain b HttpL (http_socket_addr c) ''plaintext http'') (\<lambda>_.
       let admin = \<lparr>bo_name = AdminL, bo_addr = admin_socket_addr c, bo_router = AdminListener, bo_tls = PlainText\<rparr>;
           http = \<lparr>bo_name = HttpL, bo_addr = http_socket_addr c, bo_router = LanListener, bo_tls = PlainText\<rparr>;
           http6 = (if b Http6L = BindOk
                    then [\<lparr>bo_name = Http6L, bo_addr = (V6 0, http_port (c_network c)), bo_router = LanListener, bo_tls = PlainText\<rparr>]
                    else []) in
       (case tls of
          None \<Rightarrow> Inr ([admin, http] @ http6)
        | Some t \<Rightarrow>
            if \<not> cert_loads then Inl CertUnloadable
            else if \<not> fallback then Inl NoFallbackCert
            else let https6 = (if b Https6L = BindOk
                       then [\<lparr>bo_name = Https6L, bo_addr = (V6 0, snd (rt_https_addr t)), bo_router = LanListener, bo_tls = PublicCert\<rparr>]
                       else []) in
              if b HttpsL \<noteq> BindOk then Inl HttpsBindFailed
              else Inr ([admin, http] @ http6
                    @ [\<lparr>bo_name = HttpsL, bo_addr = rt_https_addr t, bo_router = LanListener, bo_tls = LocalCert\<rparr>] @ https6))))"

section \<open>The video transport's certificate\<close>

definition WT_CERT_BACKDATE :: nat where "WT_CERT_BACKDATE = 3600"

record WtBindParams =
  wp_sans :: "string list"
  wp_port :: nat
  wp_datagram_budget :: nat
  wp_max_queued_frames :: nat
  wp_congestion :: WtCongestion

definition wt_params :: "Config \<Rightarrow> string \<Rightarrow> WtBindParams" where
  "wt_params c host =
     \<lparr>wp_sans = [''localhost'', host], wp_port = wt_port (c_media c), wp_datagram_budget = DEFAULT_DATAGRAM_BUDGET,
      wp_max_queued_frames = DEFAULT_MAX_QUEUED_FRAMES, wp_congestion = wt_congestion (c_media c)\<rparr>"

text \<open>Unix seconds: not before, not after.\<close>

definition self_signed :: "nat \<Rightarrow> int \<times> int" where
  "self_signed wall = (let nb = int wall - int WT_CERT_BACKDATE in (nb, nb + int WT_CERT_VALIDITY))"

definition validity :: "int \<times> int \<Rightarrow> nat" where "validity w = nat (snd w - fst w)"

text \<open>\<open>bind\<close>: the certificate's remaining life on the monotonic clock (seconds).\<close>

definition cert_expires_at :: "nat \<Rightarrow> nat \<Rightarrow> int \<times> int \<Rightarrow> nat" where
  "cert_expires_at now wall w = now + nat (snd w - int wall)"

definition cert_remaining :: "nat \<Rightarrow> nat \<Rightarrow> nat" where "cert_remaining expires now = expires - now"

definition fresh_transport :: "nat \<Rightarrow> nat \<Rightarrow> nat \<Rightarrow> nat \<Rightarrow> Transport" where
  "fresh_transport i made wall now =
     \<lparr>tr_id = i, tr_cert_remaining = cert_remaining (cert_expires_at made wall (self_signed wall)) now, tr_sender_alive = True\<rparr>"

section \<open>The start\<close>

text \<open>What the machine answers while the host starts.\<close>

record 'k StartEnv =
  st_tls :: "'k TlsInput"
  st_identity :: "IdentityError + bytes"
  st_acl_file :: "Controller list option"
  st_session_file :: "SessionFile option"
  st_hostname :: string
  st_ipv6 :: "(128 word) option"
  st_ifaces :: "iface list option"
  st_wt_bound :: bool
  st_binds :: "ListenerName \<Rightarrow> BindOutcome"
  st_cert_loads :: bool
  st_fallback :: bool
  st_now :: nat
  st_wall :: nat
  st_rp :: nat

datatype StartError = NoIdentity | NoVideoTransport | NoListeners ServeError

record Running =
  ru_state :: HttpState
  ru_listeners :: "Bound list"
  ru_dirs :: tls_dir

definition plain_url :: "Config \<Rightarrow> iface list option \<Rightarrow> string" where
  "plain_url c ifaces =
     ''http://'' @ (case best_lan_ip (preferred_interface (c_network c)) ifaces of Some ip \<Rightarrow> ip_text ip | None \<Rightarrow> ''localhost'')
       @ '':'' @ show_nat (http_port (c_network c)) @ ''/''"

definition start_state :: "'k StartEnv \<Rightarrow> Config \<Rightarrow> ResolvedTls option \<Rightarrow> HttpState" where
  "start_state e c tls =
     \<lparr>hs_cfg = c, hs_pairing = pairing_new (st_now e) (st_wall e) (st_rp e) (c_pairing c) (st_session_file e),
      hs_sessions = manager_new c, hs_acl = acl_load (st_acl_file e), hs_invites = [], hs_host_name = st_hostname e,
      hs_play_url = (case tls of Some t \<Rightarrow> rt_play_url t | None \<Rightarrow> plain_url c (st_ifaces e)),
      hs_https = (tls \<noteq> None), hs_remote_access = ra_enabled (c_remote_access c),
      hs_wt = Some (shared_new (st_now e))\<rparr>"

definition host_start :: "'k StartEnv \<Rightarrow> Config \<Rightarrow> Selection \<Rightarrow> tls_dir \<Rightarrow> StartError + Running" where
  "host_start e c se dirs =
     (case st_identity e of Inl _ \<Rightarrow> Inl NoIdentity
      | Inr _ \<Rightarrow>
          (let (tls, se1, dirs1) = resolve_tls (st_tls e) c (st_hostname e) (st_ipv6 e) (se, dirs) in
           if \<not> st_wt_bound e then Inl NoVideoTransport
           else (case serve_listeners (st_binds e) (st_cert_loads e) (st_fallback e) c tls of
                   Inl err \<Rightarrow> Inl (NoListeners err)
                 | Inr ls \<Rightarrow> Inr \<lparr>ru_state = start_state e c tls, ru_listeners = ls, ru_dirs = dirs1\<rparr>)))"

section \<open>Reporting changes\<close>

datatype HealthLog = Recovered string | Ailing "(string \<times> Severity) list"

text \<open>One tick of the health watchdog: the last verdict, and what is logged.\<close>

definition health_tick :: "Health \<Rightarrow> string \<Rightarrow> HealthLog list \<times> string" where
  "health_tick h last_seen =
     (let current = summary h in
      if current = last_seen then ([], last_seen)
      else (if he_ok h then [Recovered last_seen] else [Ailing (map (\<lambda>s. (sy_code s, sy_severity s)) (he_symptoms h))],
            current))"

fun health_watch :: "Health list \<Rightarrow> string \<Rightarrow> HealthLog list" where
  "health_watch [] last_seen = []"
| "health_watch (h # hs) last_seen = (let (l, s) = health_tick h last_seen in l @ health_watch hs s)"

text \<open>UTF-8 of the ellipsis and the middle dot.\<close>

definition ellipsis :: string where "ellipsis = map char_of [226 :: nat, 128, 166]"
definition middot :: string where "middot = map char_of [194 :: nat, 183]"

definition tray_status_line :: "bool \<Rightarrow> SessionState \<Rightarrow> bool \<Rightarrow> string" where
  "tray_status_line streaming s remote =
     (let base = (if streaming then ''Streaming''
                  else if s \<in> {Paired, Negotiating} then ''Connecting'' @ ellipsis else ''Available'')
      in if remote then base @ '' '' @ middot @ '' remote access on'' else base)"

definition two_digits :: "nat \<Rightarrow> string" where
  "two_digits n = (if n < 10 then ''0'' @ show_nat n else show_nat n)"

definition tray_pin_line :: "nat \<Rightarrow> nat \<Rightarrow> nat \<Rightarrow> PairingState \<Rightarrow> string \<times> PairingState" where
  "tray_pin_line now wall rp p =
     (if snd (pin_guard p) then (''Pairing PIN locked - choose New PIN in the dashboard'', p)
      else (case current_pin now wall rp p of
              ((code, Some left), p') \<Rightarrow>
                (let secs = left div second in
                 (''Pairing PIN: '' @ code @ '' ('' @ show_nat (secs div 60) @ '':'' @ two_digits (secs mod 60) @ '' left)'', p'))
            | ((code, None), p') \<Rightarrow> (''Pairing PIN: '' @ code, p')))"

type_synonym tray_view = "bool \<times> string \<times> string"

text \<open>A tick of the tray task: it redraws only what differs from what it showed last.\<close>

definition tray_tick :: "SessionState \<Rightarrow> bool \<Rightarrow> string \<Rightarrow> tray_view option \<Rightarrow> tray_view list \<times> tray_view option" where
  "tray_tick s remote pin_line shown =
     (let streaming = (s \<in> {Playing, Reconnecting});
          view = (streaming, tray_status_line streaming s remote, pin_line)
      in if shown = Some view then ([], shown) else ([view], Some view))"

fun tray_watch :: "(SessionState \<times> bool \<times> string) list \<Rightarrow> tray_view option \<Rightarrow> tray_view list" where
  "tray_watch [] shown = []"
| "tray_watch ((s, r, p) # xs) shown = (let (out, shown') = tray_tick s r p shown in out @ tray_watch xs shown')"

text \<open>\<open>--open-dashboard\<close>: at most 40 attempts, 250 ms apart; the milliseconds until the page opens.\<close>

fun open_when_up :: "nat \<Rightarrow> bool list \<Rightarrow> nat option" where
  "open_when_up 0 ups = None"
| "open_when_up (Suc n) [] = None"
| "open_when_up (Suc n) (u # us) = (if u then Some 0 else map_option (\<lambda>t. t + 250) (open_when_up n us))"

definition dashboard_opens :: "bool list \<Rightarrow> nat option" where "dashboard_opens ups = open_when_up 40 ups"

text \<open>The tray switch of remote access: the flag, the setting in the file, the rule if the host manages it.\<close>

record Remote =
  re_flag :: bool
  re_model :: bool
  re_file :: "doc option option"
  re_rule :: "nat list \<times> string list"

definition set_remote_access :: "Config \<Rightarrow> bool \<Rightarrow> Remote \<Rightarrow> Remote" where
  "set_remote_access c on r =
     r\<lparr>re_flag := on, re_model := on,
       re_file := (case persist_bool ''remote_access'' ''enabled'' on (re_file r) of Some d \<Rightarrow> Some (Some d) | None \<Rightarrow> re_file r),
       re_rule := (if manage_firewall_rule (c_network c) then toggled_rule c on else re_rule r)\<rparr>"

section \<open>Lemmas\<close>

lemma sslip_names_are_own:
  assumes "n \<in> set (fst (own_sslip_names now ips c))"
  shows "(\<exists>a. V6 a \<in> set ips \<and> is_global_unicast_v6 a \<and> n = lower (sslip_name a))
    \<or> (\<exists>t. fst c = Some t \<and> now - t \<le> 30 * second \<and> n \<in> set (snd c))"
proof -
  have "\<exists>a. V6 a \<in> set ips \<and> is_global_unicast_v6 a \<and> n = lower (sslip_name a)" if "n \<in> set (sslip_names_of ips)"
    using that sslip_of_text(1) [OF global_not_mapped]
    by (fastforce simp: sslip_names_of_def List.map_filter_def split: IpAddr.splits if_splits)
  then show ?thesis using assms by (auto simp: own_sslip_names_def Let_def split: option.splits if_splits)
qed

lemma digit_alnum: "digit c \<noteq> None \<Longrightarrow> csp_char c"
  by (auto simp: csp_char_def digit_def is_alnum_def Let_def split: if_splits)

lemma show_nat_csp: "c \<in> set (show_nat n) \<Longrightarrow> csp_char c"
  using show_nat_chars digit_alnum by blast

lemma split_once_chars: "split_once d s = Some (a, b) \<Longrightarrow> s = a @ d # b"
  by (induction s arbitrary: a) (auto split: if_splits option.splits)

lemma rsplit_once_chars: "rsplit_once d s = Some (a, b) \<Longrightarrow> s = a @ d # b"
  by (auto simp: rsplit_once_def split: option.splits dest!: split_once_chars)
    (metis append.assoc append_Cons append_Nil rev.simps(2) rev_append rev_rev_ident)

lemma host_from_header_chars: "c \<in> set (host_from_header h) \<Longrightarrow> c \<in> set h \<or> c = CHR '']''"
  by (auto simp: host_from_header_def split: if_splits option.splits dest!: split_once_chars rsplit_once_chars)

lemma resolve_tls_some:
  assumes "resolve_tls ti c host v6 x = (Some t, y)"
  shows "tls_mode (c_tls c) = LocalCa \<and> rt_https_addr t = (bind_addr (c_network c), tls_port (c_tls c))"
  using assms by (auto simp: resolve_tls_def Let_def split: prod.splits TlsMode.splits sum.splits)

lemma serve_listeners_Inr:
  "serve_listeners b loads fallback c tls = Inr ls \<longleftrightarrow>
     b AdminL = BindOk \<and> b HttpL = BindOk \<and> (tls \<noteq> None \<longrightarrow> loads \<and> fallback \<and> b HttpsL = BindOk)
     \<and> ls = [\<lparr>bo_name = AdminL, bo_addr = admin_socket_addr c, bo_router = AdminListener, bo_tls = PlainText\<rparr>,
              \<lparr>bo_name = HttpL, bo_addr = http_socket_addr c, bo_router = LanListener, bo_tls = PlainText\<rparr>]
        @ (if b Http6L = BindOk
           then [\<lparr>bo_name = Http6L, bo_addr = (V6 0, http_port (c_network c)), bo_router = LanListener, bo_tls = PlainText\<rparr>] else [])
        @ (case tls of None \<Rightarrow> []
           | Some t \<Rightarrow> \<lparr>bo_name = HttpsL, bo_addr = rt_https_addr t, bo_router = LanListener, bo_tls = LocalCert\<rparr>
               # (if b Https6L = BindOk
                  then [\<lparr>bo_name = Https6L, bo_addr = (V6 0, snd (rt_https_addr t)), bo_router = LanListener, bo_tls = PublicCert\<rparr>]
                  else []))"
  by (cases "b AdminL"; cases "b HttpL"; cases tls)
    (auto simp: serve_listeners_def bind_or_explain_def bindE_def Let_def)

lemma host_start_Inr:
  "host_start e c se dirs = Inr r \<longleftrightarrow>
     (\<exists>i tls se1 dirs1 ls. st_identity e = Inr i \<and> st_wt_bound e
        \<and> resolve_tls (st_tls e) c (st_hostname e) (st_ipv6 e) (se, dirs) = (tls, se1, dirs1)
        \<and> serve_listeners (st_binds e) (st_cert_loads e) (st_fallback e) c tls = Inr ls
        \<and> r = \<lparr>ru_state = start_state e c tls, ru_listeners = ls, ru_dirs = dirs1\<rparr>)"
  by (auto simp: host_start_def split: sum.splits prod.splits if_splits)

text \<open>What is said is what changed: a report that leaves out repetitions.\<close>

definition log_verdict :: "HealthLog \<Rightarrow> string" where
  "log_verdict l = (case l of Recovered _ \<Rightarrow> ''ok'' | Ailing ss \<Rightarrow> join_codes (map fst ss))"

lemma health_tick_log:
  "map log_verdict (fst (health_tick h s)) = (if summary h = s then [] else [summary h])" "snd (health_tick h s) = summary h"
  by (auto simp: health_tick_def log_verdict_def summary_def comp_def Let_def)

lemma tl_remdups_adj: "tl (remdups_adj (x # y # ys)) = (if x = y then tl (remdups_adj (y # ys)) else remdups_adj (y # ys))"
  by simp

lemma health_watch_edges: "map log_verdict (health_watch hs s) = tl (remdups_adj (s # map summary hs))"
proof (induction hs arbitrary: s)
  case (Cons h hs)
  obtain l s' where t: "health_tick h s = (l, s')" by fastforce
  have "remdups_adj (summary h # map summary hs) = summary h # tl (remdups_adj (summary h # map summary hs))"
    by (metis list.collapse remdups_adj_Nil_iff hd_remdups_adj list.sel(1) list.simps(3))
  then show ?case
    using health_tick_log [of h s] Cons.IH [of "summary h"] by (auto simp: t)
qed simp

definition tray_view_of :: "SessionState \<times> bool \<times> string \<Rightarrow> tray_view" where
  "tray_view_of x =
     (case x of (s, r, p) \<Rightarrow> (s \<in> {Playing, Reconnecting}, tray_status_line (s \<in> {Playing, Reconnecting}) s r, p))"

lemma tray_watch_edges:
  "tray_watch xs (Some v) = tl (remdups_adj (v # map tray_view_of xs))"
proof (induction xs arbitrary: v)
  case (Cons x xs)
  obtain s r p where x: "x = (s, r, p)" by (cases x)
  have "remdups_adj (tray_view_of x # map tray_view_of xs) = tray_view_of x # tl (remdups_adj (tray_view_of x # map tray_view_of xs))"
    by (metis list.collapse remdups_adj_Nil_iff hd_remdups_adj list.sel(1) list.simps(3))
  then show ?case
    using Cons.IH by (auto simp: x tray_tick_def tray_view_of_def Let_def)
qed simp

lemma open_when_up_bound: "open_when_up n us = Some t \<Longrightarrow> t + 250 \<le> 250 * n \<and> us ! (t div 250) \<and> t mod 250 = 0"
  by (induction n us arbitrary: t rule: open_when_up.induct) (auto split: if_splits simp: div_add_self2)

text \<open>The switch in the tray: flag, file and firewall agree.\<close>

lemma remote_switch_agrees:
  assumes "re_file r \<noteq> Some None" "\<not> not_a_table (doc_before (re_file r)) ''remote_access''" "manage_firewall_rule (c_network c)"
  shows "(case set_remote_access c on r of r' \<Rightarrow>
     re_flag r' = on \<and> setting (doc_before (re_file r')) ''remote_access'' ''enabled'' = Some (TBool on) \<and> re_rule r' = toggled_rule c on)"
proof -
  obtain d where d: "persist_bool ''remote_access'' ''enabled'' on (re_file r) = Some d"
      "d = in_section ''remote_access'' (AList.update ''enabled'' (TBool on)) (doc_before (re_file r))"
    using assms(1) by (cases "re_file r") (auto simp: persist_bool_def doc_before_def split: option.splits)
  then have "setting d ''remote_access'' ''enabled'' = Some (TBool on)"
    using assms(2) setting_update [of "''remote_access''" "''enabled''" "TBool on" "doc_before (re_file r)"] by simp
  then show ?thesis using d(1) assms(3) by (simp add: set_remote_access_def doc_before_def)
qed

section \<open>Properties\<close>


text \<open>A certificate of the video transport is good for seven days, within the two weeks a browser accepts, and back-dated
  by an hour; the transport that was bound with it is due for rotation exactly from three days and 23 hours on, three
  days before the browser would refuse it; and one that has just been bound never is.\<close>
theorem wt_certificate_window:
  "validity (self_signed wall) = 7 * 86400
   \<and> (fst (rotation_due (Some (fresh_transport i made wall now))) \<longleftrightarrow> made + (4 * 86400 - 3600) \<le> now)
   \<and> (tr_cert_remaining (fresh_transport i made wall now) = 0 \<longleftrightarrow> made + (7 * 86400 - 3600) \<le> now)"
proof -
  have "nat (int wall - 3600 + 604800 - int wall) = 601200" by simp
  then show ?thesis
    by (auto simp: validity_def self_signed_def fresh_transport_def cert_expires_at_def cert_remaining_def rotation_due_def
        WT_CERT_VALIDITY_def WT_CERT_BACKDATE_def WT_CERT_ROTATE_WHEN_LEFT_def Let_def)
qed

text \<open>The health watchdog and the tray speak at changes only: over any run the verdicts that are logged are the verdicts of
  the ticks without repetitions, starting from a healthy host, and what the tray shows is the sequence of its views
  without repetitions.\<close>
theorem reports_are_edges:
  "map log_verdict (health_watch hs ''ok'') = tl (remdups_adj (''ok'' # map summary hs))
   \<and> tray_watch xs None = remdups_adj (map tray_view_of xs)"
proof -
  have "tray_watch xs None = remdups_adj (map tray_view_of xs)"
  proof (cases xs)
    case (Cons x ys)
    obtain s r p where x: "x = (s, r, p)" by (cases x)
    have "remdups_adj (tray_view_of x # map tray_view_of ys) = tray_view_of x # tl (remdups_adj (tray_view_of x # map tray_view_of ys))"
      by (metis list.collapse remdups_adj_Nil_iff hd_remdups_adj list.sel(1) list.simps(3))
    then show ?thesis
      using tray_watch_edges [of ys "tray_view_of x"] by (auto simp: Cons x tray_tick_def tray_view_of_def Let_def)
  qed simp
  then show ?thesis by (simp add: health_watch_edges)
qed

text \<open>No host name can add a directive to the content policy: whatever the request names, the sources consist of the
  characters of host names, of blanks, apostrophes, slashes and the star, none of which ends a directive.\<close>
theorem connect_src_contained:
  "ch \<in> set (connect_src_directive host wt) \<Longrightarrow> csp_char ch \<or> ch \<in> {CHR '' '', CHR ''/'', CHR ''*'', char_of (39 :: nat)}"
proof -
  let ?ok = "\<lambda>x. csp_char x \<or> x \<in> {CHR '' '', CHR ''/'', CHR ''*'', char_of (39 :: nat)}"
  have safe: "list_all ?ok (host_from_header h)" if "csp_safe_host h0 = Some h" for h0 h
  proof -
    have "list_all csp_char h" using that by (auto simp: csp_safe_host_def split: if_splits)
    moreover have "csp_char CHR '']''" by code_simp
    ultimately show ?thesis using host_from_header_chars by (fastforce simp: list_all_iff)
  qed
  have num: "list_all ?ok (show_nat n)" for n using show_nat_csp by (simp add: list_all_iff)
  have lit: "list_all ?ok [char_of (39 :: nat)]" "list_all ?ok ''self''" "list_all ?ok '' ws: wss:''" "list_all ?ok '' https://[''"
    "list_all ?ok '']:''" "list_all ?ok '' https://''" "list_all ?ok '':''" "list_all ?ok '' https://*:''" "list_all ?ok '' ''"
    "list_all ?ok ''unsafe-webtransport-hashes''"
    by code_simp+
  have "list_all ?ok (connect_src_directive host wt)"
  proof (cases "Option.bind host csp_safe_host")
    case None
    show ?thesis unfolding connect_src_directive_def Let_def None
      by (cases wt) (simp_all only: option.case list_all_append lit num simp_thms)
  next
    case (Some h)
    then have h: "list_all ?ok (host_from_header h)" using safe by (auto simp: Option.bind_eq_Some_conv)
    show ?thesis unfolding connect_src_directive_def Let_def Some
      by (cases wt) (simp_all only: option.case list_all_append lit num h simp_thms if_cancel split: if_split)
  qed
  then show "ch \<in> set (connect_src_directive host wt) \<Longrightarrow> ?ok ch" by (simp only: list_all_iff)
qed

end
