(* ===== verification/SignalLink.thy ===== *)
theory SignalLink
  imports HttpApi
begin

text \<open>
  Opening a signaling link (\<open>drive\<close> in \<open>crates/host/src/http/signal.rs\<close>): challenge, device check, claim of the
  session, the offer of the video path and the sinks, each a step of its own because others run in between; and the
  configuration the transport keeps for the client (\<open>media/wt/transport.rs\<close>). Signatures and base64 are
  arguments.
\<close>

section \<open>The offer of the video path\<close>

record VideoPort =
  vp_port :: nat
  vp_cert_sha256 :: bytes

definition cert_sha256_hex :: "VideoPort \<Rightarrow> string" where "cert_sha256_hex v = hex (vp_cert_sha256 v)"

definition TOKEN_TTL :: nat where "TOKEN_TTL = 60 * second"

definition wt_issue_token :: "nat \<Rightarrow> nat \<Rightarrow> bytes \<Rightarrow> WtShared \<Rightarrow> string \<times> WtShared" where
  "wt_issue_token now ttl rnd sh =
     (let (token, ts) = token_issue now ttl rnd (wt_tokens sh) in (token, sh\<lparr>wt_tokens := ts\<rparr>))"

definition wt_advertisement :: "nat \<Rightarrow> bytes \<Rightarrow> VideoPort \<Rightarrow> HttpState \<Rightarrow> 't SignalMessage option \<times> HttpState" where
  "wt_advertisement now rnd v st =
     (case hs_wt st of None \<Rightarrow> (None, st)
      | Some sh \<Rightarrow>
          (let (token, sh') = wt_issue_token now TOKEN_TTL rnd sh in
           (Some (WtVideoInfo token (vp_port v) (cert_sha256_hex v)), st\<lparr>hs_wt := Some sh'\<rparr>)))"

section \<open>Opening a link\<close>

record PeerDesc =
  pd_browser :: string
  pd_addr_label :: string
  pd_session :: "string option"
  pd_lan :: bool
  pd_preview :: bool

text \<open>Nanoseconds, Unix seconds, and what the libraries answer.\<close>

record LinkEnv =
  le_now :: nat
  le_wall :: nat
  le_driver :: bool
  le_nonce :: bytes
  le_b64 :: "bytes \<Rightarrow> string"
  le_sig_ok :: "bytes \<Rightarrow> bytes \<Rightarrow> string \<Rightarrow> bool"
  le_token :: bytes
  le_video :: VideoPort

text \<open>The first text on the link: the link ends, the text is no message, or it is one.\<close>

datatype 't FirstText = LinkEnds | NoMessage | Message "'t SignalMessage"

definition drive_auth ::
  "LinkEnv \<Rightarrow> PeerDesc \<Rightarrow> 't FirstText \<Rightarrow> HttpState \<Rightarrow> (Controller option \<times> 't SignalMessage list) \<times> HttpState" where
  "drive_auth env pd first st =
     (let challenge = AuthChallenge (le_b64 env (le_nonce env)) in
      case first of
        LinkEnds \<Rightarrow> ((None, [challenge]), st)
      | Message (AuthResponse cid sig) \<Rightarrow>
          (case verify_device (le_sig_ok env) (le_wall env) (pd_session pd) (pd_lan pd)
                  (\<lambda>s. session_controllers s (hs_pairing st)) cid (le_nonce env) sig (hs_acl st) of
             (Some c, a) \<Rightarrow>
               (let p = (case pd_session pd of
                           Some sid \<Rightarrow> bind_controller (le_now env) (le_wall env) sid (k_id c) (hs_pairing st)
                         | None \<Rightarrow> hs_pairing st)
                in ((Some c, [challenge]), st\<lparr>hs_pairing := p, hs_acl := acl_touch (le_wall env) (k_id c) a\<rparr>))
           | (None, a) \<Rightarrow>
               ((None, [challenge, error_msg Unauthorized (''this Home Screen app is not paired yet '' @ em_dash
                   @ '' enter the PIN from your PC'')]), st\<lparr>hs_acl := a\<rparr>))
      | _ \<Rightarrow> ((None, [challenge, error_msg ProtocolVersion (''expected an auth_response '' @ em_dash @ '' reload the player'')]), st))"

definition drive_claim :: "LinkEnv \<Rightarrow> PeerDesc \<Rightarrow> HttpState \<Rightarrow> (nat option \<times> 't SignalMessage list) \<times> HttpState" where
  "drive_claim env pd st =
     (let who = \<lparr>browser = pd_browser pd, client_ip = pd_addr_label pd, connected_since_unix = le_wall env\<rparr> in
      case claim (le_driver env) (le_now env) who (pd_preview pd) (hs_sessions st) of
        (Inr t, s) \<Rightarrow> ((Some t, []), st\<lparr>hs_sessions := s\<rparr>)
      | (Inl _, s) \<Rightarrow> ((None, [error_msg Busy ''another player is connected'']), st\<lparr>hs_sessions := s\<rparr>))"

definition drive_controller :: "Controller \<Rightarrow> HttpState \<Rightarrow> HttpState" where
  "drive_controller c st = st\<lparr>hs_sessions := set_controller (k_id c) (hs_sessions st)\<rparr>"

definition drive_sinks :: "HttpState \<Rightarrow> HttpState" where
  "drive_sinks st =
     st\<lparr>hs_sessions := with_player (\<lambda>p. p\<lparr>media := set_control_sink (set_input_sink (media p))\<rparr>) (hs_sessions st)\<rparr>"

text \<open>The steps without another link in between: the ticket, and the messages sent.\<close>

definition drive_open ::
  "LinkEnv \<Rightarrow> PeerDesc \<Rightarrow> 't FirstText \<Rightarrow> HttpState \<Rightarrow> (nat option \<times> 't SignalMessage list) \<times> HttpState" where
  "drive_open env pd first st =
     (case drive_auth env pd first st of
        ((None, out), st1) \<Rightarrow> ((None, out), st1)
      | ((Some c, out), st1) \<Rightarrow>
          (case drive_claim env pd st1 of
             ((None, out2), st2) \<Rightarrow> ((None, out @ out2), st2)
           | ((Some t, out2), st2) \<Rightarrow>
               (let (adv, st3) = wt_advertisement (le_now env) (le_token env) (le_video env) (drive_controller c st2) in
                ((Some t, out @ out2 @ (case adv of Some m \<Rightarrow> [m] | None \<Rightarrow> [])), drive_sinks st3))))"

section \<open>The control channel of a link\<close>

text \<open>A text on the control channel, parsed. \<open>ready\<close> is whether the channel takes a text: pongs go back on it. The first
  result is what the link sends, the second what the channel sends.\<close>

definition control_message ::
  "LinkEnv \<Rightarrow> string \<Rightarrow> string + unit \<Rightarrow> string + unit \<Rightarrow> string + unit \<Rightarrow> bool \<Rightarrow> 't SignalMessage option \<Rightarrow> HttpState
   \<Rightarrow> 't SignalMessage list \<times> 't SignalMessage list \<times> MediaSignal list \<times> HttpState" where
  "control_message env backend capture built started ready msg st =
     (case msg of
        None \<Rightarrow> ([], [], [], st)
      | Some (SignalMessage.Ping us) \<Rightarrow>
          ([], if player (hs_sessions st) \<noteq> None \<and> ready then [SignalMessage.Pong us] else [], [], st)
      | Some WtVideoInfoRequest \<Rightarrow>
          (case wt_advertisement (le_now env) (le_token env) (le_video env) st of
             (Some info, st') \<Rightarrow> ([info], [], [], st')
           | (None, st') \<Rightarrow> ([], [], [], st'))
      | Some m \<Rightarrow>
          (case handle_message (le_driver env) backend capture built started m (hs_sessions st) of
             (_, out, emitted, s) \<Rightarrow> (out, [], emitted, st\<lparr>hs_sessions := s\<rparr>)))"

section \<open>A dial of the video endpoint\<close>

definition AUTH_TIMEOUT :: nat where "AUTH_TIMEOUT = 5 * second"

datatype DialRefusal = WrongPath | NoControlStream | StreamFailed | NoAuthLine | LineUnreadable | ClosedBeforeAuth
  | NotAuth | TokenRejected

text \<open>What arrives, with the nanoseconds it takes: the control stream (\<open>None\<close>: never), then the chunks up to the auth line.\<close>

record Dial =
  di_path :: string
  di_stream :: "(nat \<times> bool) option"
  di_line :: "(nat \<times> bytes list) option"

definition in_time :: "nat \<Rightarrow> bool" where "in_time t \<longleftrightarrow> t < AUTH_TIMEOUT"

text \<open>When it is decided, and whether the dial is admitted; what the client is told; the transport afterwards. One deadline
  holds for the whole exchange.\<close>

definition dial_incoming ::
  "nat \<Rightarrow> (bytes \<Rightarrow> WtClientMessage option) \<Rightarrow> Dial \<Rightarrow> WtShared \<Rightarrow> nat \<times> (DialRefusal + unit) \<times> WtHostMessage list \<times> WtShared" where
  "dial_incoming now parse d sh =
     (if di_path d \<noteq> ''/wt-video'' then (0, Inl WrongPath, [], sh)
      else case di_stream d of
        None \<Rightarrow> (AUTH_TIMEOUT, Inl NoControlStream, [], sh)
      | Some (t, opened) \<Rightarrow>
          if \<not> in_time t then (AUTH_TIMEOUT, Inl NoControlStream, [], sh)
          else if \<not> opened then (t, Inl StreamFailed, [], sh)
          else (case di_line d of
             None \<Rightarrow> (AUTH_TIMEOUT, Inl NoAuthLine, [], sh)
           | Some (t2, chunks) \<Rightarrow>
               if \<not> in_time (t + t2) then (AUTH_TIMEOUT, Inl NoAuthLine, [], sh)
               else (case fst (read_line 4096 chunks []) of
                  LineTooLong \<Rightarrow> (t + t2, Inl LineUnreadable, [], sh)
                | Eof \<Rightarrow> (t + t2, Inl ClosedBeforeAuth, [], sh)
                | Line l \<Rightarrow>
                    (case authenticate (now + t + t2) (parse l) sh of
                       (True, sh') \<Rightarrow> (t + t2, Inr (), [], sh')
                     | (False, sh') \<Rightarrow>
                         (case parse l of
                            Some (Auth _) \<Rightarrow>
                              (t + t2, Inl TokenRejected,
                               [WtHostMessage.ErrorMsg ''unauthorized'' ''token unknown, expired, or already used''], sh')
                          | _ \<Rightarrow>
                              (t + t2, Inl NotAuth,
                               [WtHostMessage.ErrorMsg ''unauthorized'' ''first control message must be Auth''], sh'))))))"

section \<open>The configuration kept for the client\<close>

text \<open>The process-wide counter beside the transport, and what goes out on the live control stream.\<close>

definition next_config_epoch :: "nat \<Rightarrow> nat \<times> nat" where
  "next_config_epoch e = ((e + 1) mod 2 ^ 32, (e + 1) mod 2 ^ 32)"

definition push_control :: "WtHostMessage \<Rightarrow> WtShared \<Rightarrow> (nat \<times> WtHostMessage) list" where
  "push_control m sh = (case wt_control_out sh of Some sid \<Rightarrow> [(sid, m)] | None \<Rightarrow> [])"

definition set_video_config :: "string \<Rightarrow> nat \<Rightarrow> nat \<Rightarrow> nat \<Rightarrow> nat \<Rightarrow> nat \<times> WtShared \<Rightarrow> nat \<times> WtShared" where
  "set_video_config codec w h fps start x =
     (case x of (e, sh) \<Rightarrow>
        (let (epoch, e') = next_config_epoch e in (e', sh\<lparr>wt_video_config := Some (VideoConfig codec w h fps start None epoch)\<rparr>)))"

definition push_route_warning :: "string \<Rightarrow> WtShared \<Rightarrow> (nat \<times> WtHostMessage) list" where
  "push_route_warning d sh = push_control (RouteWarning d) sh"

definition update_video_config_description ::
  "string \<Rightarrow> string \<Rightarrow> nat \<times> WtShared \<Rightarrow> (nat \<times> WtHostMessage) list \<times> nat \<times> WtShared" where
  "update_video_config_description codec desc x =
     (case x of (e, sh) \<Rightarrow>
        (case wt_video_config sh of
           Some (VideoConfig _ w h fps start _ _) \<Rightarrow>
             (let (epoch, e') = next_config_epoch e;
                  m = VideoConfig codec w h fps start (Some desc) epoch
              in (push_control m sh, e', sh\<lparr>wt_video_config := Some m\<rparr>))
         | _ \<Rightarrow> ([], x)))"

text \<open>What happens to it: negotiation, the caps of the encoder, a client that authenticates, one that goes.\<close>

datatype ConfigOp = Negotiate string nat nat nat nat | Describe string string | ClientAuth nat | ClientGone nat

text \<open>The state with every configuration any client was sent.\<close>

fun config_step :: "ConfigOp \<Rightarrow> (nat \<times> WtHostMessage) list \<times> nat \<times> WtShared \<Rightarrow> (nat \<times> WtHostMessage) list \<times> nat \<times> WtShared" where
  "config_step (Negotiate codec w h fps start) (told, x) = (told, set_video_config codec w h fps start x)"
| "config_step (Describe codec desc) (told, x) =
     (case update_video_config_description codec desc x of (out, x') \<Rightarrow> (told @ out, x'))"
| "config_step (ClientAuth sid) (told, e, sh) =
     (case install_control sid sh of (sh', out) \<Rightarrow>
        (told @ List.map_filter (\<lambda>o'. case o' of Reply m \<Rightarrow> Some (sid, m) | Resend _ \<Rightarrow> None) out, e, sh'))"
| "config_step (ClientGone sid) (told, e, sh) =
     (told, e, if wt_control_out sh = Some sid then sh\<lparr>wt_control_out := None\<rparr> else sh)"

definition config_run :: "ConfigOp list \<Rightarrow> nat \<times> WtShared \<Rightarrow> (nat \<times> WtHostMessage) list \<times> nat \<times> WtShared" where
  "config_run ops x = fold config_step ops ([], x)"

section \<open>Lemmas\<close>

lemma error_msg_eq [simp]: "error_msg c m = error_msg c' m' \<longleftrightarrow> c = c' \<and> m = m'"
  by (simp add: error_msg_def)

lemma acl_add_found [simp]: "(acl_get i (acl_add now i n a) = None) = False"
proof -
  obtain c where "c \<in> set (acl_list (acl_add now i n a))" "k_id c = i" "\<not> k_revoked c"
    using acl_add_authorizes [of i now n a] by (auto simp: acl_is_authorized_def)
  then show ?thesis unfolding acl_get_def find_None_iff using eq_nocase_refl by blast
qed

lemma verify_refused_keeps:
  assumes "verify_device sig_ok now ses lan f cid nonce sig a = (None, a')"
  shows "a' = a"
  using assms acl_add_found
  by (auto simp: verify_device_def verify_and_maybe_enroll_def Let_def split: option.splits if_splits)

lemma transition_ticket [simp]: "ticket (snd (transition driver n s)) = ticket s"
  by (simp add: transition_def Let_def)

lemma walk_down_ticket [simp]: "ticket (walk_down driver xs s) = ticket s"
  by (induction driver xs s rule: walk_down.induct) (auto simp: Let_def split: prod.splits if_splits)

text \<open>A claim that is refused is a preview's, and changes nothing.\<close>

lemma claim_refused:
  assumes "slot_ok driver s" "claim driver now who prev s = (Inl e, s')"
  shows "prev \<and> reclaim_needed s \<and> s' = s"
proof (cases prev)
  case True
  then show ?thesis using assms(2) by (auto simp: claim_def claim_begin_def split: prod.splits if_splits)
next
  case False
  then show ?thesis using claim_player_eq [OF assms(1), of now who] assms(2) by auto
qed

lemma claim_granted:
  assumes "claim driver now who prev s = (Inr t, s')"
  shows "ticket s' = t \<and> ticket s < t
    \<and> (\<exists>p. player s' = Some p \<and> peer p = who \<and> preview p = prev \<and> \<not> input_armed p)"
proof -
  obtain w s1 where b: "claim_begin driver prev s = (Inr w, s1)"
    and i: "(t, s') = claim_install driver now who prev s1"
    using assms by (auto simp: claim_def split: prod.splits sum.splits if_splits)
  have "ticket s1 = ticket s" using b by (auto simp: claim_begin_def force_disconnect_def Let_def split: if_splits)
  then show ?thesis using claim_install_result [OF i [symmetric]] by auto
qed

text \<open>A configuration's epoch names it: nothing that was sent or is kept shares one.\<close>

definition is_config :: "WtHostMessage \<Rightarrow> bool" where
  "is_config m = (case m of VideoConfig _ _ _ _ _ _ _ \<Rightarrow> True | _ \<Rightarrow> False)"

definition epochs_ok :: "(nat \<times> WtHostMessage) list \<Rightarrow> nat \<Rightarrow> WtHostMessage option \<Rightarrow> bool" where
  "epochs_ok told e vc =
     ((case vc of None \<Rightarrow> told = []
       | Some m \<Rightarrow> is_config m \<and> vc_epoch m \<le> e \<and> (\<forall>k \<in> snd ` set told. vc_epoch k \<le> vc_epoch m \<and> (vc_epoch k = vc_epoch m \<longrightarrow> k = m)))
      \<and> (\<forall>k \<in> snd ` set told. is_config k) \<and> sorted (map (vc_epoch \<circ> snd) told)
      \<and> (\<forall>k \<in> snd ` set told. \<forall>l \<in> snd ` set told. vc_epoch k = vc_epoch l \<longrightarrow> k = l))"

text \<open>A live client has the description the decoder needs, once there is one.\<close>

definition live_told :: "(nat \<times> WtHostMessage) list \<Rightarrow> WtShared \<Rightarrow> bool" where
  "live_told told sh =
     (case (wt_control_out sh, wt_video_config sh) of
        (Some sid, Some m) \<Rightarrow> vc_description_b64 m = None \<or> (sid, m) \<in> set told | _ \<Rightarrow> True)"

lemma epochs_ok_init: "epochs_ok [] e None"
  by (simp add: epochs_ok_def)

lemma epochs_ok_append:
  assumes "epochs_ok told e (Some m)"
  shows "epochs_ok (told @ [(sid, m)]) e (Some m)"
proof -
  have s: "snd ` set (told @ [(sid, m)]) = insert m (snd ` set told)" by auto
  have t: "sorted (map (vc_epoch \<circ> snd) told)" "\<forall>k \<in> snd ` set told. vc_epoch k \<le> vc_epoch m"
    using assms by (simp_all add: epochs_ok_def)
  then have o: "sorted (map (vc_epoch \<circ> snd) (told @ [(sid, m)]))" by (simp add: sorted_append)
  have i: "is_config m" "vc_epoch m \<le> e"
    and u: "\<forall>k \<in> snd ` set told. vc_epoch k \<le> vc_epoch m \<and> (vc_epoch k = vc_epoch m \<longrightarrow> k = m)"
    and w: "\<forall>k \<in> snd ` set told. is_config k"
      "\<forall>k \<in> snd ` set told. \<forall>l \<in> snd ` set told. vc_epoch k = vc_epoch l \<longrightarrow> k = l"
    using assms by (simp_all add: epochs_ok_def)
  have "\<forall>k \<in> insert m (snd ` set told). \<forall>l \<in> insert m (snd ` set told). vc_epoch k = vc_epoch l \<longrightarrow> k = l"
    using u w(2) by (metis insert_iff)
  then show ?thesis using i u w(1) o unfolding epochs_ok_def s option.case by blast
qed

lemma epochs_ok_next:
  assumes "epochs_ok told e vc" "is_config m" "vc_epoch m = e + 1"
  shows "epochs_ok told (e + 1) (Some m)"
proof -
  have "vc_epoch k \<le> e" if "k \<in> snd ` set told" for k
  proof (cases vc)
    case None
    then show ?thesis using assms(1) that by (simp add: epochs_ok_def)
  next
    case (Some m')
    then have "vc_epoch m' \<le> e" "\<forall>k \<in> snd ` set told. vc_epoch k \<le> vc_epoch m'"
      using assms(1) by (simp_all add: epochs_ok_def)
    then show ?thesis using that by (meson le_trans)
  qed
  then have "\<forall>k \<in> snd ` set told. vc_epoch k < vc_epoch m" using assms(3) by fastforce
  then have "\<forall>k \<in> snd ` set told. vc_epoch k \<le> vc_epoch m \<and> (vc_epoch k = vc_epoch m \<longrightarrow> k = m)" by fastforce
  then show ?thesis using assms unfolding epochs_ok_def by simp
qed

lemma config_step_ok:
  assumes "epochs_ok told e (wt_video_config sh)" "live_told told sh" "e + 1 < 2 ^ 32"
    and s: "config_step opn (told, e, sh) = (told', e', sh')"
  shows "epochs_ok told' e' (wt_video_config sh') \<and> live_told told' sh' \<and> e' \<le> e + 1"
proof (cases opn)
  case (Negotiate codec w h fps start)
  then show ?thesis
    using s assms(3) epochs_ok_next [OF assms(1), of "VideoConfig codec w h fps start None (e + 1)"]
    by (auto simp: set_video_config_def next_config_epoch_def is_config_def live_told_def split: option.splits)
next
  case (Describe codec desc)
  show ?thesis
  proof (cases "wt_video_config sh")
    case None
    then show ?thesis using s assms Describe by (simp add: update_video_config_description_def)
  next
    case (Some m)
    then obtain a w h fps start d ep where m: "m = VideoConfig a w h fps start d ep"
      using assms(1) by (cases m) (auto simp: epochs_ok_def is_config_def)
    let ?n = "VideoConfig codec w h fps start (Some desc) (e + 1)"
    have n: "epochs_ok told (e + 1) (Some ?n)"
      using epochs_ok_next [OF assms(1), of ?n] by (simp add: is_config_def)
    have "(told @ push_control ?n sh, e + 1, sh\<lparr>wt_video_config := Some ?n\<rparr>) = (told', e', sh')"
      unfolding s [symmetric] using Describe Some m assms(3)
      by (simp add: update_video_config_description_def next_config_epoch_def Let_def)
    then show ?thesis
      using n epochs_ok_append [OF n] by (cases "wt_control_out sh") (auto simp: push_control_def live_told_def)
  qed
next
  case (ClientAuth sid)
  then show ?thesis
    using s assms epochs_ok_append [of told e _ sid]
    by (cases "wt_video_config sh") (auto simp: install_control_def List.map_filter_def live_told_def)
next
  case (ClientGone sid)
  then show ?thesis
    using s assms by (cases "wt_control_out sh = Some sid") (auto simp: live_told_def)
qed

lemma config_run_ok:
  assumes "epochs_ok told e (wt_video_config sh)" "live_told told sh" "e + length ops < 2 ^ 32"
    and "fold config_step ops (told, e, sh) = (told', e', sh')"
  shows "epochs_ok told' e' (wt_video_config sh') \<and> live_told told' sh'"
  using assms
proof (induction ops arbitrary: told e sh)
  case (Cons opn ops)
  obtain told1 e1 sh1 where s: "config_step opn (told, e, sh) = (told1, e1, sh1)" by (metis prod.collapse)
  then show ?case
    using Cons.IH [of told1 e1 sh1] Cons.prems config_step_ok [OF Cons.prems(1,2) _ s] by simp
qed simp

text \<open>The link's ticket is not asked again: a link that was displaced between its claim and its next step marks the player
  of the link that displaced it as its own device.\<close>

lemma late_link_marks_successor:
  assumes "drive_claim env pd st = ((Some t, out), st2)"
  shows "\<exists>p. player (hs_sessions (drive_controller displaced (drive_controller c st2))) = Some p
    \<and> client_ip (peer p) = pd_addr_label pd \<and> controller_id p = Some (k_id displaced)"
proof -
  obtain s2 where "claim (le_driver env) (le_now env)
        \<lparr>browser = pd_browser pd, client_ip = pd_addr_label pd, connected_since_unix = le_wall env\<rparr> (pd_preview pd)
        (hs_sessions st) = (Inr t, s2)" and st2: "st2 = st\<lparr>hs_sessions := s2\<rparr>"
    using assms by (auto simp: drive_claim_def Let_def split: prod.splits sum.splits)
  from claim_granted [OF this(1)] st2 show ?thesis
    by (auto simp: drive_controller_def set_controller_def)
qed

text \<open>The control channel does not ask whether the link still owns the session, and \<open>Bye\<close> on it ends nothing.\<close>

lemma control_bye_ignored:
  "control_message env backend capture built started ready (Some Bye) st = ([], [], [], st)"
  by (simp add: control_message_def handle_message_def)

text \<open>A dial is decided within the deadline, and admitted only with a token that is spent by it.\<close>

lemma dial_in_time:
  assumes "dial_incoming now parse d sh = (t, r, told, sh')"
  shows "t \<le> AUTH_TIMEOUT \<and> (case r of Inl _ \<Rightarrow> True | Inr _ \<Rightarrow> t < AUTH_TIMEOUT \<and> di_path d = ''/wt-video'' \<and> told = [])"
  using assms
  by (auto simp: dial_incoming_def in_time_def split: if_splits option.splits prod.splits ReadLine.splits bool.splits
      WtClientMessage.splits)

lemma dial_needs_token:
  assumes "dial_incoming now parse d sh = (t, Inr (), told, sh')"
  shows "\<exists>l token. parse l = Some (Auth token) \<and> token_consume (now + t) token (wt_tokens sh) = (True, wt_tokens sh')"
  using assms
  by (auto simp: dial_incoming_def authenticate_def Let_def add.assoc split: if_splits option.splits prod.splits ReadLine.splits
      bool.splits WtClientMessage.splits) blast

section \<open>Properties\<close>

lemma drive_auth_proved:
  assumes "drive_auth env pd first st = ((Some c, out), st1)"
  shows "out = [AuthChallenge (le_b64 env (le_nonce env))] \<and> hs_sessions st1 = hs_sessions st \<and> hs_wt st1 = hs_wt st
    \<and> (\<exists>cid sig a. first = Message (AuthResponse cid sig)
          \<and> verify_device (le_sig_ok env) (le_wall env) (pd_session pd) (pd_lan pd)
              (\<lambda>s. session_controllers s (hs_pairing st)) cid (le_nonce env) sig (hs_acl st) = (Some c, a))"
  using assms by (auto simp: drive_auth_def Let_def split: FirstText.splits SignalMessage.splits prod.splits option.splits)

lemma fresh_token_dials:
  "fst (token_consume u (hex rnd) (snd (token_issue now ttl rnd ts))) \<longleftrightarrow> u < now + ttl"
proof -
  have "fst (token_issue now ttl rnd ts) = hex rnd" by (simp add: token_issue_def Let_def)
  then show ?thesis using token_issue_consume [of now ttl rnd ts] by (metis prod.collapse)
qed

text \<open>The steps after a claim that was granted.\<close>

lemma drive_open_granted:
  assumes "drive_auth env pd first st = ((Some c, out1), st1)"
    and "claim (le_driver env) (le_now env)
        \<lparr>browser = pd_browser pd, client_ip = pd_addr_label pd, connected_since_unix = le_wall env\<rparr> (pd_preview pd)
        (hs_sessions st1) = (Inr t, s2)"
    and "drive_open env pd first st = ((r, out), st')"
  shows "r = Some t
    \<and> hs_sessions st' = with_player (\<lambda>p. p\<lparr>media := set_control_sink (set_input_sink (media p))\<rparr>) (set_controller (k_id c) s2)
    \<and> (case hs_wt st1 of None \<Rightarrow> hs_wt st' = None \<and> out = out1
       | Some sh \<Rightarrow> hs_wt st' = Some (sh\<lparr>wt_tokens := snd (token_issue (le_now env) TOKEN_TTL (le_token env) (wt_tokens sh))\<rparr>)
           \<and> out = out1 @ [WtVideoInfo (hex (le_token env)) (vp_port (le_video env)) (cert_sha256_hex (le_video env))])"
  using assms
  by (auto simp: drive_open_def drive_claim_def wt_advertisement_def wt_issue_token_def drive_controller_def drive_sinks_def
      token_issue_def Let_def split: option.splits)


definition demo_link :: LinkEnv where
  "demo_link =
     \<lparr>le_now = 0, le_wall = 5, le_driver = True, le_nonce = [1], le_b64 = (\<lambda>_. ''AQ==''),
      le_sig_ok = (\<lambda>pk nonce sig. sig = ''ok''), le_token = [7], le_video = \<lparr>vp_port = 4433, vp_cert_sha256 = [9]\<rparr>\<rparr>"

definition demo_link_peer :: PeerDesc where
  "demo_link_peer = \<lparr>pd_browser = ''Firefox'', pd_addr_label = ''10.0.0.9'', pd_session = None, pd_lan = True, pd_preview = False\<rparr>"


text \<open>The epoch names the configuration, across negotiations, decoder descriptions and clients that come and go: of what the
  clients were told, in the order they were told it, the epochs never fall and equal ones belong to equal
  configurations, so a client can tell a repeated one from a new one. A client on the control stream has the
  configuration with its description as soon as there is one. The epochs must not have wrapped.\<close>
theorem config_epochs_exact:
  assumes "config_run ops (e, sh) = (told, e', sh')" "wt_video_config sh = None" "e + length ops < 2 ^ 32"
  shows "sorted (map (vc_epoch \<circ> snd) told)
    \<and> (\<forall>k \<in> snd ` set told. \<forall>l \<in> snd ` set told. vc_epoch k \<noteq> vc_epoch l \<or> k = l)
    \<and> (case (wt_control_out sh', wt_video_config sh') of
         (Some sid, Some m) \<Rightarrow> vc_description_b64 m = None \<or> (sid, m) \<in> set told | _ \<Rightarrow> True)"
proof -
  have "epochs_ok told e' (wt_video_config sh') \<and> live_told told sh'"
    using config_run_ok [of "[]" e sh ops told e' sh'] assms
    by (simp add: config_run_def epochs_ok_init live_told_def split: option.splits)
  then show ?thesis by (auto simp: epochs_ok_def live_told_def)
qed

lemma config_epochs_exact_witness:
  "sorted (map (vc_epoch \<circ> snd) (fst (config_run
     [Negotiate ''hvc1.1.6.L153.B0'' 1920 1080 60 8000, ClientAuth 3, Describe ''hvc1.1.6.L153.B0'' ''AQ==''] (0, shared_new 0))))
   \<and> length (fst (config_run
     [Negotiate ''hvc1.1.6.L153.B0'' 1920 1080 60 8000, ClientAuth 3, Describe ''hvc1.1.6.L153.B0'' ''AQ==''] (0, shared_new 0))) = 2"
proof -
  let ?ops = "[Negotiate ''hvc1.1.6.L153.B0'' 1920 1080 60 8000, ClientAuth 3, Describe ''hvc1.1.6.L153.B0'' ''AQ=='']"
  obtain told e' sh' where r: "config_run ?ops (0, shared_new 0) = (told, e', sh')" by (metis prod.collapse)
  have "wt_video_config (shared_new 0) = None" by (simp add: shared_new_def)
  moreover have "length told = 2"
    using r by (auto simp: config_run_def set_video_config_def update_video_config_description_def next_config_epoch_def
        install_control_def push_control_def List.map_filter_def Let_def shared_new_def)
  ultimately show ?thesis using config_epochs_exact [OF r] r by simp
qed

end
