(* ===== verification/WinPlatform.thy ===== *)
theory WinPlatform
  imports HostBoot PortMap Doctor
begin

text \<open>
  What the host makes of Windows' answers (\<open>crates/host/src/platform/windows\<close>): the address and the gateways out of the
  adapter list (\<open>net6.rs\<close>), displays and audio devices in order (\<open>monitors.rs\<close>, \<open>audio.rs\<close>), the firewall rules
  (\<open>firewall.rs\<close>), the autostart value (\<open>startup.rs\<close>), the emergency key (\<open>hotkey.rs\<close>), the
  console events (\<open>console.rs\<close>) and whether the desktop can be captured (\<open>capture_check.rs\<close>). The
  answers themselves are arguments.
\<close>

section \<open>Adapters\<close>

datatype SuffixOrigin = OriginDhcp | OriginManual | OriginLinkLayer | OriginRandom | OriginOther

text \<open>\<open>None\<close>: no address, or one of another family than the code reads.\<close>

record UnicastAddress =
  ua_addr :: "IpAddr option"
  ua_origin :: SuffixOrigin

record GatewayAddress =
  ga_addr :: "IpAddr option"
  ga_scope :: nat

record Adapter =
  ad_name :: string
  ad_unicast :: "UnicastAddress list"
  ad_gateways :: "GatewayAddress list"
  ad_if_index6 :: nat

definition suffix_rank :: "SuffixOrigin \<Rightarrow> nat option" where
  "suffix_rank o' =
     (case o' of OriginDhcp \<Rightarrow> Some 0 | OriginManual \<Rightarrow> Some 1 | OriginLinkLayer \<Rightarrow> Some 2 | OriginRandom \<Rightarrow> None
      | OriginOther \<Rightarrow> Some 3)"

text \<open>\<open>GetAdaptersAddresses\<close>, asked at most four times while the buffer is too small.\<close>

datatype AdapterAnswer = Adapters "Adapter list" | BufferOverflow | AdapterError

fun first_answer :: "AdapterAnswer list \<Rightarrow> Adapter list option" where
  "first_answer [] = None"
| "first_answer (Adapters ads # as) = Some ads"
| "first_answer (BufferOverflow # as) = first_answer as"
| "first_answer (AdapterError # as) = None"

definition better :: "nat \<Rightarrow> (nat \<times> 128 word) option \<Rightarrow> bool" where
  "better r best = (case best of None \<Rightarrow> True | Some (br, _) \<Rightarrow> r < br)"

fun best_unicast :: "UnicastAddress list \<Rightarrow> (nat \<times> 128 word) option \<Rightarrow> (nat \<times> 128 word) option" where
  "best_unicast [] best = best"
| "best_unicast (u # us) best =
     best_unicast us
       (case ua_addr u of
          Some (V6 a) \<Rightarrow>
            if is_global_unicast_v6 a then
              (case suffix_rank (ua_origin u) of
                 Some r \<Rightarrow> if better r best then Some (r, a) else best
               | None \<Rightarrow> best)
            else best
        | _ \<Rightarrow> best)"

fun best_adapter :: "Adapter list \<Rightarrow> (nat \<times> 128 word) option \<Rightarrow> (nat \<times> 128 word) option" where
  "best_adapter [] best = best"
| "best_adapter (ad # ads) best =
     best_adapter ads (if is_virtual (ad_name ad) then best else best_unicast (ad_unicast ad) best)"

definition best_from :: "Adapter list \<Rightarrow> (128 word) option" where
  "best_from ads = map_option snd (best_adapter ads None)"

definition windows_stable_ipv6 :: "(nat \<Rightarrow> AdapterAnswer) \<Rightarrow> (128 word) option" where
  "windows_stable_ipv6 ask = (case first_answer (map ask [0..<4]) of Some ads \<Rightarrow> best_from ads | None \<Rightarrow> None)"

section \<open>Gateways\<close>

fun own_v4 :: "UnicastAddress list \<Rightarrow> IpAddr option" where
  "own_v4 [] = None"
| "own_v4 (u # us) = (case ua_addr u of Some (V4 a) \<Rightarrow> Some (V4 a) | _ \<Rightarrow> own_v4 us)"

fun own_v6 :: "UnicastAddress list \<Rightarrow> IpAddr option" where
  "own_v6 [] = None"
| "own_v6 (u # us) =
     (case ua_addr u of Some (V6 a) \<Rightarrow> if is_global_unicast_v6 a then Some (V6 a) else own_v6 us | _ \<Rightarrow> own_v6 us)"

definition gateway_of :: "Adapter \<Rightarrow> GatewayAddress \<Rightarrow> Gateway list" where
  "gateway_of ad g =
     (case ga_addr g of
        None \<Rightarrow> []
      | Some (V4 a) \<Rightarrow>
          (case own_v4 (ad_unicast ad) of
             Some own \<Rightarrow> [\<lparr>gw_ip = V4 a, gw_scope = 0, gw_local = own\<rparr>] | None \<Rightarrow> [])
      | Some (V6 a) \<Rightarrow>
          (case own_v6 (ad_unicast ad) of
             Some own \<Rightarrow> [\<lparr>gw_ip = V6 a, gw_scope = max (ga_scope g) (ad_if_index6 ad), gw_local = own\<rparr>] | None \<Rightarrow> []))"

definition gateways_from :: "Adapter list \<Rightarrow> Gateway list" where
  "gateways_from ads =
     concat (map (\<lambda>ad. if is_virtual (ad_name ad) then [] else concat (map (gateway_of ad) (ad_gateways ad))) ads)"

definition default_gateways :: "(nat \<Rightarrow> AdapterAnswer) \<Rightarrow> Gateway list" where
  "default_gateways ask = (case first_answer (map ask [0..<4]) of Some ads \<Rightarrow> gateways_from ads | None \<Rightarrow> [])"

section \<open>Displays\<close>

record DisplayDevice =
  dd_attached :: bool
  dd_primary :: bool
  dd_string :: string
  dd_monitor :: "string option"
  dd_mode :: "(nat \<times> nat \<times> nat) option"

record NamedMonitor = MonitorInfo +
  mo_name :: string
  mo_width :: nat
  mo_height :: nat
  mo_refresh_hz :: nat

fun list_monitors :: "DisplayDevice list \<Rightarrow> NamedMonitor list \<Rightarrow> NamedMonitor list" where
  "list_monitors [] out = out"
| "list_monitors (d # ds) out =
     (if \<not> dd_attached d then list_monitors ds out
      else
        let (w, h, hz) = (case dd_mode d of Some m \<Rightarrow> m | None \<Rightarrow> (0, 0, 0)) in
        list_monitors ds
          (out @ [\<lparr>mo_index = length out, mo_primary = dd_primary d,
                   mo_name = (case dd_monitor d of Some n \<Rightarrow> n | None \<Rightarrow> dd_string d),
                   mo_width = w, mo_height = h, mo_refresh_hz = hz\<rparr>]))"

definition monitor_le :: "NamedMonitor \<Rightarrow> NamedMonitor \<Rightarrow> bool" where
  "monitor_le a b \<longleftrightarrow> (if mo_primary a = mo_primary b then mo_index a \<le> mo_index b else mo_primary a)"

definition renumber :: "NamedMonitor list \<Rightarrow> NamedMonitor list" where
  "renumber ms = map (\<lambda>(i, m). m\<lparr>mo_index := i\<rparr>) (zip [0..<length ms] ms)"

definition enumerate_monitors :: "DisplayDevice list \<Rightarrow> NamedMonitor list" where
  "enumerate_monitors ds = renumber (sort_by monitor_le (list_monitors ds []))"

section \<open>Audio devices\<close>

record AudioDevice =
  dv_id :: "string option"
  dv_name :: "string option"
  dv_active :: "bool option"

text \<open>A flow that cannot be listed is \<open>None\<close>, so is a device that cannot be read.\<close>

definition collect_device :: "bool \<Rightarrow> string option \<Rightarrow> AudioDevice option \<Rightarrow> NamedEndpoint list" where
  "collect_device is_capture default_render d =
     (case d of None \<Rightarrow> []
      | Some v \<Rightarrow>
          (case dv_id v of None \<Rightarrow> []
           | Some i \<Rightarrow>
               if i = [] then []
               else [\<lparr>ae_id = i, ae_capture = is_capture,
                      ae_name = (case dv_name v of Some n \<Rightarrow> if n = [] then i else n | None \<Rightarrow> i),
                      ae_is_default = (\<not> is_capture \<and> default_render = Some i),
                      ae_active = (case dv_active v of Some b \<Rightarrow> b | None \<Rightarrow> False)\<rparr>]))"

definition collect_flow :: "bool \<Rightarrow> string option \<Rightarrow> AudioDevice option list option \<Rightarrow> NamedEndpoint list" where
  "collect_flow is_capture default_render ds =
     (case ds of None \<Rightarrow> [] | Some xs \<Rightarrow> concat (map (collect_device is_capture default_render) xs))"

definition endpoint_le :: "NamedEndpoint \<Rightarrow> NamedEndpoint \<Rightarrow> bool" where
  "endpoint_le a b \<longleftrightarrow>
     (if ae_capture a \<noteq> ae_capture b then \<not> ae_capture a
      else if ae_is_default a \<noteq> ae_is_default b then ae_is_default a
      else if ae_active a \<noteq> ae_active b then ae_active a
      else ae_name a \<le> ae_name b)"

definition enumerate_audio_endpoints ::
  "string option \<Rightarrow> AudioDevice option list option \<Rightarrow> AudioDevice option list option \<Rightarrow> NamedEndpoint list" where
  "enumerate_audio_endpoints default_render rendering recording =
     sort_by endpoint_le (collect_flow False default_render rendering @ collect_flow True default_render recording)"

section \<open>Firewall rules\<close>

text \<open>\<open>netsh\<close>: whether this process may change rules, and what \<open>show rule\<close> prints for a name that has a rule or not.\<close>

record Netsh =
  nt_elevated :: bool
  nt_show :: "bool \<Rightarrow> string option"

type_synonym rules = "(string \<times> string list) list"

definition APP_RULE :: string where "APP_RULE = ''InPhase App''"

definition fw_rule_exists :: "Netsh \<Rightarrow> string \<Rightarrow> rules \<Rightarrow> bool" where
  "fw_rule_exists nt n fw =
     (case nt_show nt (n \<in> fst ` set fw) of Some out \<Rightarrow> contains_str out ''Rule Name'' | None \<Rightarrow> False)"

definition netsh_delete :: "Netsh \<Rightarrow> string \<Rightarrow> rules \<Rightarrow> rules" where
  "netsh_delete nt n fw = (if nt_elevated nt then filter (\<lambda>x. fst x \<noteq> n) fw else fw)"

text \<open>Whether the rule was not installed, and the rules afterwards.\<close>

definition add_rule :: "Netsh \<Rightarrow> bool \<Rightarrow> string \<Rightarrow> string list \<Rightarrow> rules \<Rightarrow> bool \<times> rules" where
  "add_rule nt recreate n args fw =
     (if \<not> recreate \<and> fw_rule_exists nt n fw then (False, fw)
      else
        let fw1 = netsh_delete nt n fw in
        if nt_elevated nt then (False, fw1 @ [(n, args)])
        else if fw_rule_exists nt n fw1 then (False, fw1)
        else (True, fw1))"

definition app_args :: "string \<Rightarrow> string \<Rightarrow> string list" where
  "app_args exe remote =
     [''dir=in'', ''action=allow'', ''program='' @ exe, ''enable=yes'', ''profile=any'', ''remoteip='' @ remote]"

definition port_name :: "nat \<Rightarrow> string \<Rightarrow> string" where
  "port_name port tag = ''InPhase '' @ show_nat port @ '' '' @ tag"

definition port_args :: "nat \<Rightarrow> string \<Rightarrow> string \<Rightarrow> string list" where
  "port_args port proto remote =
     [''dir=in'', ''action=allow'', ''protocol='' @ proto, ''localport='' @ show_nat port, ''profile=any'', ''remoteip='' @ remote]"

definition wanted_rules :: "nat list \<Rightarrow> string \<Rightarrow> string option \<Rightarrow> rules" where
  "wanted_rules ports remote exe =
     (case exe of Some e \<Rightarrow> [(APP_RULE, app_args e remote)] | None \<Rightarrow> [])
     @ concat (map (\<lambda>p. [(port_name p ''tcp'', port_args p ''TCP'' remote), (port_name p ''udp'', port_args p ''UDP'' remote)]) ports)"

fun add_rules :: "Netsh \<Rightarrow> bool \<Rightarrow> rules \<Rightarrow> rules \<Rightarrow> string list \<times> rules" where
  "add_rules nt recreate [] fw = ([], fw)"
| "add_rules nt recreate ((n, args) # rs) fw =
     (let (failed, fw1) = add_rule nt recreate n args fw;
          (failures, fw2) = add_rules nt recreate rs fw1
      in ((if failed then [n] else []) @ failures, fw2))"

definition remote_scope :: "string list \<Rightarrow> string" where
  "remote_scope allowed = (if allowed = [] then ''localsubnet'' else join '','' allowed)"

text \<open>The names of the rules that could not be installed (none: \<open>Ok\<close>), and the rules.\<close>

definition ensure_firewall_rule ::
  "Netsh \<Rightarrow> nat list \<Rightarrow> string list \<Rightarrow> bool \<Rightarrow> string option \<Rightarrow> rules \<Rightarrow> string list \<times> rules" where
  "ensure_firewall_rule nt ports allowed recreate exe fw =
     (let (failures, fw1) = add_rules nt recreate (wanted_rules ports (remote_scope allowed) exe) fw
      in (failures, if recreate then netsh_delete nt ''InPhase LAN'' fw1 else fw1))"

text \<open>The calls of \<open>app.rs\<close>: at start and from the installer, and by the switch in the tray.\<close>

definition apply_firewall_rules :: "Netsh \<Rightarrow> Config \<Rightarrow> bool \<Rightarrow> string option \<Rightarrow> rules \<Rightarrow> string list \<times> rules" where
  "apply_firewall_rules nt c recreate exe fw =
     (case startup_rule c of (ports, cidrs) \<Rightarrow> ensure_firewall_rule nt ports cidrs recreate exe fw)"

definition toggle_firewall :: "Netsh \<Rightarrow> Config \<Rightarrow> bool \<Rightarrow> string option \<Rightarrow> rules \<Rightarrow> string list \<times> rules" where
  "toggle_firewall nt c on exe fw =
     (if manage_firewall_rule (c_network c)
      then (case toggled_rule c on of (ports, cidrs) \<Rightarrow> ensure_firewall_rule nt ports cidrs True exe fw)
      else ([], fw))"

section \<open>Autostart\<close>

text \<open>The \<open>Run\<close> value, and whether \<open>reg.exe\<close> can be run and succeeds.\<close>

definition run_command :: "string option \<Rightarrow> string option" where
  "run_command exe = map_option (\<lambda>e. [char_of (34 :: nat)] @ e @ [char_of (34 :: nat)]) exe"

definition set_start_at_login :: "bool \<Rightarrow> bool \<Rightarrow> string option \<Rightarrow> string option \<Rightarrow> bool \<times> string option" where
  "set_start_at_login enabled reg_ok exe run =
     (if enabled then
        (case run_command exe of None \<Rightarrow> (False, run)
         | Some cmd \<Rightarrow> if reg_ok then (True, Some cmd) else (False, run))
      else (True, if reg_ok then None else run))"

definition start_at_login_enabled :: "bool \<Rightarrow> string option \<Rightarrow> bool" where
  "start_at_login_enabled reg_runs run \<longleftrightarrow> reg_runs \<and> run \<noteq> None"

section \<open>The emergency key and the console\<close>

text \<open>\<open>Ctrl+Alt+Shift+F12\<close>: the messages of the thread that registered it, as their number and \<open>wParam\<close>.\<close>

definition HOTKEY_ID :: nat where "HOTKEY_ID = 0x0B1F"
definition WM_HOTKEY :: nat where "WM_HOTKEY = 0x0312"

definition hotkey_message :: "bool \<Rightarrow> nat \<times> nat \<Rightarrow> SessionManager \<Rightarrow> SessionManager" where
  "hotkey_message driver msg s = (if msg = (WM_HOTKEY, HOTKEY_ID) then force_disconnect driver s else s)"

definition hotkey_thread :: "bool \<Rightarrow> bool \<Rightarrow> (nat \<times> nat) list \<Rightarrow> SessionManager \<Rightarrow> SessionManager" where
  "hotkey_thread registered driver msgs s = (if registered then fold (hotkey_message driver) msgs s else s)"

datatype CtrlEvent = CtrlC | CtrlBreak | CtrlClose | CtrlLogoff | CtrlShutdown

definition ctrl_handled :: "CtrlEvent \<Rightarrow> bool" where
  "ctrl_handled e = (case e of CtrlC \<Rightarrow> True | CtrlBreak \<Rightarrow> True | _ \<Rightarrow> False)"

section \<open>Capture\<close>

datatype CaptureError = AccessDenied | SessionDisconnected | NotCurrentlyAvailable | Unsupported | OtherError

datatype CaptureRefusal = PcLocked | DesktopDisconnected | TooManyCaptures | DriverLacksCapture | ScreenUnavailable

definition refusal_of :: "CaptureError \<Rightarrow> CaptureRefusal" where
  "refusal_of e =
     (case e of AccessDenied \<Rightarrow> PcLocked | SessionDisconnected \<Rightarrow> DesktopDisconnected
      | NotCurrentlyAvailable \<Rightarrow> TooManyCaptures | Unsupported \<Rightarrow> DriverLacksCapture | OtherError \<Rightarrow> ScreenUnavailable)"

text \<open>An output: its description or the error of \<open>GetDesc\<close>, and what creating a device and a duplication answers
  (\<open>Inr False\<close>: no device came back).\<close>

record OutputDesc =
  od_left :: int
  od_top :: int
  od_attached :: bool

record DxgiOutput =
  do_desc :: "CaptureError + OutputDesc"
  do_device :: "CaptureError + bool"
  do_duplicate :: "CaptureError option"

fun try_duplicate :: "DxgiOutput list \<Rightarrow> CaptureError option" where
  "try_duplicate [] = None"
| "try_duplicate (o' # os) =
     (case do_desc o' of Inl e \<Rightarrow> Some e
      | Inr d \<Rightarrow>
          if \<not> od_attached d \<or> od_left d \<noteq> 0 \<or> od_top d \<noteq> 0 then try_duplicate os
          else (case do_device o' of Inl e \<Rightarrow> Some e
                | Inr False \<Rightarrow> None
                | Inr True \<Rightarrow> do_duplicate o'))"

text \<open>The factory, then every output of every adapter.\<close>

definition try_duplicate_primary :: "CaptureError + DxgiOutput list list \<Rightarrow> CaptureError option" where
  "try_duplicate_primary factory = (case factory of Inl e \<Rightarrow> Some e | Inr adapters \<Rightarrow> try_duplicate (concat adapters))"

definition desktop_capture_available :: "CaptureError + DxgiOutput list list \<Rightarrow> CaptureRefusal option" where
  "desktop_capture_available factory = map_option refusal_of (try_duplicate_primary factory)"

section \<open>Lemmas\<close>

text \<open>The addresses the choice is between, with their ranks, in the order Windows lists them.\<close>

definition unicast_candidates :: "UnicastAddress list \<Rightarrow> (nat \<times> 128 word) list" where
  "unicast_candidates us =
     List.map_filter
       (\<lambda>u. case (ua_addr u, suffix_rank (ua_origin u)) of
              (Some (V6 a), Some r) \<Rightarrow> if is_global_unicast_v6 a then Some (r, a) else None
            | _ \<Rightarrow> None) us"

definition stable_candidates :: "Adapter list \<Rightarrow> (nat \<times> 128 word) list" where
  "stable_candidates ads =
     concat (map (\<lambda>ad. if is_virtual (ad_name ad) then [] else unicast_candidates (ad_unicast ad)) ads)"

definition keep_better :: "nat \<times> 128 word \<Rightarrow> (nat \<times> 128 word) option \<Rightarrow> (nat \<times> 128 word) option" where
  "keep_better c best = (if better (fst c) best then Some c else best)"

lemma keep_better_simps [simp]:
  "keep_better c None = Some c" "keep_better c (Some b) = (if fst c < fst b then Some c else Some b)"
  by (simp_all add: keep_better_def better_def split: prod.splits)

lemma best_unicast_fold: "best_unicast us best = fold keep_better (unicast_candidates us) best"
  by (induction us arbitrary: best)
    (auto simp: unicast_candidates_def List.map_filter_simps keep_better_def split: option.splits IpAddr.splits)

lemma best_adapter_fold: "best_adapter ads best = fold keep_better (stable_candidates ads) best"
  by (induction ads arbitrary: best) (auto simp: stable_candidates_def best_unicast_fold)

lemma fold_keep_better:
  "case fold keep_better cs None of
     None \<Rightarrow> cs = []
   | Some c \<Rightarrow> \<exists>pre post. cs = pre @ c # post \<and> (\<forall>x \<in> set pre. fst c < fst x) \<and> (\<forall>x \<in> set post. fst c \<le> fst x)"
proof (induction cs rule: rev_induct)
  case (snoc x cs)
  show ?case
  proof (cases "fold keep_better cs None")
    case None
    then show ?thesis using snoc by (auto intro!: exI [of _ "[]"])
  next
    case (Some c)
    then obtain pre post where c: "cs = pre @ c # post" "\<forall>x \<in> set pre. fst c < fst x" "\<forall>x \<in> set post. fst c \<le> fst x"
      using snoc by auto
    show ?thesis
    proof (cases "fst x < fst c")
      case True
      then have "\<forall>y \<in> set cs. fst x < fst y" using c by fastforce
      then have "\<exists>pre post. cs @ [x] = pre @ x # post \<and> (\<forall>y \<in> set pre. fst x < fst y) \<and> (\<forall>y \<in> set post. fst x \<le> fst y)"
        by (intro exI [of _ cs] exI [of _ "[]"]) simp
      then show ?thesis using Some True by simp
    next
      case False
      then have "cs @ [x] = pre @ c # (post @ [x])" "\<forall>y \<in> set (post @ [x]). fst c \<le> fst y" using c by auto
      then have "\<exists>pre post. cs @ [x] = pre @ c # post \<and> (\<forall>y \<in> set pre. fst c < fst y) \<and> (\<forall>y \<in> set post. fst c \<le> fst y)"
        using c(2) by blast
      moreover have "fold keep_better (cs @ [x]) None = Some c"
        using Some False by simp
      ultimately show ?thesis by (simp del: fold_append fold.simps)
    qed
  qed
qed simp

lemma stable_candidate_origin:
  assumes "(r, a) \<in> set (stable_candidates ads)"
  shows "is_global_unicast_v6 a \<and> (\<exists>ad \<in> set ads. \<not> is_virtual (ad_name ad)
    \<and> (\<exists>u \<in> set (ad_unicast ad). ua_addr u = Some (V6 a) \<and> suffix_rank (ua_origin u) = Some r))"
proof -
  have u: "\<exists>u \<in> set us. ua_addr u = Some (V6 a) \<and> suffix_rank (ua_origin u) = Some r \<and> is_global_unicast_v6 a"
    if "(r, a) \<in> set (unicast_candidates us)" for us
    using that
    by (induction us) (auto simp: unicast_candidates_def List.map_filter_simps split: if_splits option.splits IpAddr.splits)
  obtain ad where "ad \<in> set ads" "\<not> is_virtual (ad_name ad)" "(r, a) \<in> set (unicast_candidates (ad_unicast ad))"
    using assms by (auto simp: stable_candidates_def split: if_splits)
  then show ?thesis using u by blast
qed

text \<open>The gateway's own address is of its family, and for IPv6 a global one.\<close>

lemma own_v4_some: "own_v4 us = Some x \<Longrightarrow> \<exists>a. x = V4 a"
  by (induction us) (auto split: option.splits IpAddr.splits)

lemma own_v6_some: "own_v6 us = Some x \<Longrightarrow> \<exists>a. x = V6 a \<and> is_global_unicast_v6 a"
  by (induction us) (auto split: option.splits IpAddr.splits if_splits)

lemma gateway_local_family:
  assumes "g \<in> set (gateways_from ads)"
  shows "case (gw_ip g, gw_local g) of (V4 _, V4 _) \<Rightarrow> True | (V6 _, V6 a) \<Rightarrow> is_global_unicast_v6 a | _ \<Rightarrow> False"
proof -
  obtain ad h where "g \<in> set (gateway_of ad h)" using assms by (auto simp: gateways_from_def split: if_splits)
  then show ?thesis
    by (cases "ga_addr h"; cases "the (ga_addr h)"; cases "own_v4 (ad_unicast ad)"; cases "own_v6 (ad_unicast ad)")
      (auto simp: gateway_of_def dest: own_v4_some own_v6_some)
qed

text \<open>The pinhole is asked for the first global address of the adapter, a temporary one included: not for the address that is
  published.\<close>

lemma pinhole_for_privacy_address:
  defines "ads \<equiv> [\<lparr>ad_name = ''Ethernet'',
      ad_unicast = [\<lparr>ua_addr = Some (V6 0x26050000000000000000000000003919), ua_origin = OriginRandom\<rparr>,
                    \<lparr>ua_addr = Some (V6 0x26050000000000000000000000000100), ua_origin = OriginDhcp\<rparr>],
      ad_gateways = [\<lparr>ga_addr = Some (V6 0xfe800000000000000000000000000001), ga_scope = 0\<rparr>], ad_if_index6 = 7\<rparr>]"
  shows "best_from ads = Some 0x26050000000000000000000000000100
    \<and> map gw_local (gateways_from ads) = [V6 0x26050000000000000000000000003919]"
  unfolding ads_def by code_simp

text \<open>Where Windows has temporary addresses only, the choice by value that follows takes one of them.\<close>

lemma privacy_address_published:
  defines "ads \<equiv> [\<lparr>ad_name = ''Ethernet'',
      ad_unicast = [\<lparr>ua_addr = Some (V6 0x26050000000000000000000000003919), ua_origin = OriginRandom\<rparr>],
      ad_gateways = [], ad_if_index6 = 7\<rparr>]"
  shows "windows_stable_ipv6 (\<lambda>_. Adapters ads) = None
    \<and> stable_global_ipv6 (windows_stable_ipv6 (\<lambda>_. Adapters ads))
        (Some [\<lparr>if_name = ''Ethernet'', if_ip = V6 0x26050000000000000000000000003919\<rparr>]) = Some 0x26050000000000000000000000003919"
  unfolding ads_def by code_simp

text \<open>Displays: those that are attached, primary ones first, otherwise as listed.\<close>

lemma list_monitors_index:
  "map mo_index out = [0..<length out] \<Longrightarrow> map mo_index (list_monitors ds out) = [0..<length (list_monitors ds out)]"
  by (induction ds out rule: list_monitors.induct) (auto simp: Let_def split: prod.splits)

lemma insert_monitor:
  assumes "\<forall>m \<in> set ms. mo_index x < mo_index m"
  shows "insert_by monitor_le x (filter mo_primary ms @ filter (\<lambda>m. \<not> mo_primary m) ms)
    = filter mo_primary (x # ms) @ filter (\<lambda>m. \<not> mo_primary m) (x # ms)"
proof -
  have np: "insert_by monitor_le x ys = x # ys" if "\<forall>m \<in> set ys. \<not> mo_primary m \<and> mo_index x < mo_index m" for ys
    using that by (cases ys) (auto simp: monitor_le_def)
  have "insert_by monitor_le x (ys @ zs) = ys @ x # zs"
    if "\<not> mo_primary x" "\<forall>m \<in> set ys. mo_primary m" "\<forall>m \<in> set zs. \<not> mo_primary m \<and> mo_index x < mo_index m" for ys zs
    using that np [of zs] by (induction ys) (auto simp: monitor_le_def)
  moreover have "insert_by monitor_le x ys = x # ys" if "mo_primary x" "\<forall>m \<in> set ys. mo_index x < mo_index m" for ys
    using that by (cases ys) (auto simp: monitor_le_def)
  moreover have "\<forall>m \<in> set (filter mo_primary ms @ filter (\<lambda>m. \<not> mo_primary m) ms). mo_index x < mo_index m"
    using assms by auto
  ultimately show ?thesis using assms by (cases "mo_primary x") simp_all
qed

lemma sort_monitors:
  assumes "sorted_wrt (\<lambda>a b. mo_index a < mo_index b) ms"
  shows "sort_by monitor_le ms = filter mo_primary ms @ filter (\<lambda>m. \<not> mo_primary m) ms"
  using assms
proof (induction ms)
  case (Cons x ms)
  then show ?case using insert_monitor [of ms x] by (simp add: sort_by_def)
qed (simp add: sort_by_def)

lemma enumerate_monitors_eq:
  "enumerate_monitors ds =
     renumber (filter mo_primary (list_monitors ds []) @ filter (\<lambda>m. \<not> mo_primary m) (list_monitors ds []))"
proof -
  let ?ms = "list_monitors ds []"
  have "map mo_index ?ms = [0..<length ?ms]" by (rule list_monitors_index) simp
  then have "sorted_wrt (<) (map mo_index ?ms)" by simp
  then show ?thesis by (simp add: enumerate_monitors_def sort_monitors sorted_wrt_map)
qed

lemma renumber_fields: "map mo_index (renumber ms) = [0..<length ms]" "map mo_primary (renumber ms) = map mo_primary ms"
  "map mo_name (renumber ms) = map mo_name ms" "length (renumber ms) = length ms"
  by (auto simp: renumber_def intro!: nth_equalityI)

text \<open>Audio devices: the order is one, and the default playback device leads.\<close>

lemma endpoint_le_total: "endpoint_le a b \<or> endpoint_le b a"
  by (auto simp: endpoint_le_def)

lemma endpoint_le_trans: "endpoint_le a b \<Longrightarrow> endpoint_le b c \<Longrightarrow> endpoint_le a c"
  by (auto simp: endpoint_le_def split: if_splits)

lemma endpoints_sorted: "sorted_wrt endpoint_le (enumerate_audio_endpoints d rs cs)"
  unfolding enumerate_audio_endpoints_def by (rule sorted_sort_by [OF endpoint_le_total endpoint_le_trans])

lemma default_endpoint_first:
  assumes "e \<in> set (enumerate_audio_endpoints d rs cs)" "ae_is_default e"
  shows "ae_is_default (hd (enumerate_audio_endpoints d rs cs)) \<and> \<not> ae_capture (hd (enumerate_audio_endpoints d rs cs))
    \<and> d = Some (ae_id (hd (enumerate_audio_endpoints d rs cs)))"
proof -
  let ?es = "enumerate_audio_endpoints d rs cs"
  have dev: "ae_is_default x \<longrightarrow> \<not> ae_capture x \<and> d = Some (ae_id x)" if "x \<in> set (collect_device c d v)" for x c v
    using that by (cases v; cases "dv_id (the v)") (auto simp: collect_device_def split: if_splits)
  have src: "ae_is_default x \<longrightarrow> \<not> ae_capture x \<and> d = Some (ae_id x)" if "x \<in> set ?es" for x
  proof -
    have "\<exists>c v. x \<in> set (collect_device c d v)"
      using that by (auto simp: enumerate_audio_endpoints_def collect_flow_def split: option.splits)
    then show ?thesis using dev by blast
  qed
  have h: "hd ?es \<in> set ?es" using assms(1) by (cases ?es) auto
  have "hd ?es = e \<or> endpoint_le (hd ?es) e" using assms(1) endpoints_sorted [of d rs cs] by (cases ?es) auto
  then have "ae_is_default (hd ?es)" using assms(2) src [OF assms(1)] by (auto simp: endpoint_le_def split: if_splits)
  then show ?thesis using src [OF h] by blast
qed

text \<open>Firewall rules.\<close>

definition named_rules :: "string \<Rightarrow> rules \<Rightarrow> rules" where
  "named_rules n fw = filter (\<lambda>x. fst x = n) fw"

lemma add_rules_elevated:
  assumes "nt_elevated nt"
  shows "fst (add_rules nt True rs fw) = []"
    "named_rules n (snd (add_rules nt True rs fw)) = (case map_of (rev rs) n of Some a \<Rightarrow> [(n, a)] | None \<Rightarrow> named_rules n fw)"
proof -
  have "fst (add_rules nt True rs fw) = []
      \<and> named_rules n (snd (add_rules nt True rs fw)) = (case map_of (rev rs) n of Some a \<Rightarrow> [(n, a)] | None \<Rightarrow> named_rules n fw)"
  proof (induction rs arbitrary: fw)
    case (Cons r rs)
    obtain m a where r: "r = (m, a)" by (cases r)
    have "named_rules n (filter (\<lambda>x. fst x \<noteq> m) fw @ [(m, a)]) = (if n = m then [(m, a)] else named_rules n fw)"
      by (auto simp: named_rules_def filter_empty_conv intro: filter_cong)
    then show ?case
      using Cons.IH [of "filter (\<lambda>x. fst x \<noteq> m) fw @ [(m, a)]"] assms
      by (auto simp: r add_rule_def netsh_delete_def Let_def split: prod.splits option.splits)
  qed simp
  then show "fst (add_rules nt True rs fw) = []"
    "named_rules n (snd (add_rules nt True rs fw)) = (case map_of (rev rs) n of Some a \<Rightarrow> [(n, a)] | None \<Rightarrow> named_rules n fw)"
    by simp_all
qed

lemma add_rules_present:
  assumes "\<not> nt_elevated nt" "\<forall>r \<in> set rs. fw_rule_exists nt (fst r) fw"
  shows "add_rules nt recreate rs fw = ([], fw)"
  using assms(2)
  by (induction rs) (auto simp: add_rule_def netsh_delete_def assms(1) Let_def)

lemma add_rules_kept:
  assumes "\<forall>r \<in> set rs. fw_rule_exists nt (fst r) fw"
  shows "add_rules nt False rs fw = ([], fw)"
  using assms by (induction rs) (auto simp: add_rule_def Let_def)

text \<open>The switch for remote access in a host without administrator rights: every rule keeps the scope it was installed with, and
  no failure is reported.\<close>

lemma toggle_unelevated_keeps_scope:
  assumes "\<not> nt_elevated nt" "\<forall>r \<in> set (wanted_rules (fst (toggled_rule c on)) (remote_scope (snd (toggled_rule c on))) exe). fw_rule_exists nt (fst r) fw"
  shows "toggle_firewall nt c on exe fw = ([], fw)"
  using add_rules_present [OF assms] assms(1)
  by (auto simp: toggle_firewall_def ensure_firewall_rule_def netsh_delete_def Let_def split: prod.splits)

text \<open>A \<open>netsh\<close> that answers in another language: every rule counts as missing.\<close>

lemma localized_rule_missing:
  assumes "nt_show nt = (\<lambda>found. Some (if found then ''Regelname: InPhase App'' else ''Keine Regeln''))"
  shows "\<not> fw_rule_exists nt n fw"
proof -
  have "\<not> contains_str ''Regelname: InPhase App'' ''Rule Name''" "\<not> contains_str ''Keine Regeln'' ''Rule Name''" by code_simp+
  then show ?thesis using assms by (simp add: fw_rule_exists_def)
qed

text \<open>The autostart switch: turning it on is reported as it went, turning it off always as done.\<close>

lemma start_switch:
  "set_start_at_login True reg_ok exe run = (ok, run') \<Longrightarrow>
     (if ok then run' = run_command exe \<and> run' \<noteq> None else run' = run)"
  "fst (set_start_at_login False reg_ok exe run)"
  by (cases "run_command exe"; auto simp: set_start_at_login_def split: if_splits)+

text \<open>The emergency key always frees the slot, and other messages leave the session alone.\<close>

lemma hotkey_frees_slot:
  assumes "slot_ok driver s"
  shows "slot_free (hotkey_thread True driver [(WM_HOTKEY, HOTKEY_ID)] s)"
proof (cases "reclaim_needed s")
  case True
  then show ?thesis using claim_player_eq [OF assms] by (auto simp: hotkey_thread_def hotkey_message_def)
next
  case False
  then have "force_disconnect driver s = s" "slot_free s"
    by (simp_all add: reclaim_needed_def slot_free_def force_disconnect_def transition_def can_transition_to_def)
  then show ?thesis by (simp add: hotkey_thread_def hotkey_message_def)
qed

text \<open>The rules asked for all carry the remote scope, and none of them is the old LAN rule.\<close>

lemma wanted_rules_scoped: "(n, a) \<in> set (wanted_rules ports remote exe) \<Longrightarrow> ''remoteip='' @ remote \<in> set a"
  by (auto simp: wanted_rules_def app_args_def port_args_def split: option.splits)

lemma show_nat_first: "\<exists>c cs. show_nat n = c # cs \<and> digit c \<noteq> None"
proof -
  have "show_nat n \<noteq> []" by (simp add: show_nat.simps [of n])
  then obtain c cs where s: "show_nat n = c # cs" by (cases "show_nat n") simp_all
  then have "c \<in> set (show_nat n)" by simp
  then show ?thesis using show_nat_chars s by blast
qed

lemma port_name_first: "\<exists>c cs. port_name p t = ''InPhase '' @ c # cs \<and> digit c \<noteq> None"
  using show_nat_first [of p] by (auto simp: port_name_def)

lemma port_name_other [simp]: "port_name p t \<noteq> ''InPhase LAN''" "port_name p t \<noteq> ''InPhase App''"
  "''InPhase LAN'' \<noteq> port_name p t" "''InPhase App'' \<noteq> port_name p t"
proof -
  have d: "digit CHR ''L'' = None" "digit CHR ''A'' = None" by code_simp+
  show "port_name p t \<noteq> ''InPhase LAN''" "port_name p t \<noteq> ''InPhase App''"
    "''InPhase LAN'' \<noteq> port_name p t" "''InPhase App'' \<noteq> port_name p t"
    using port_name_first [of p t] d by auto
qed

lemma lan_rule_not_wanted: "''InPhase LAN'' \<notin> fst ` set (wanted_rules ports remote exe)"
  by (auto simp: wanted_rules_def APP_RULE_def split: option.splits)

section \<open>Properties\<close>





text \<open>Displays are reported as the capture numbers them: those attached to the desktop, the primary ones first and otherwise in
  Windows' order, numbered without a gap; and without a setting the capture takes number 0 as soon as one is
  attached.\<close>
theorem monitors_exact:
  "map mo_index (enumerate_monitors ds) = [0..<length (filter dd_attached ds)]
   \<and> map mo_primary (enumerate_monitors ds)
       = replicate (length (filter (\<lambda>d. dd_attached d \<and> dd_primary d) ds)) True
         @ replicate (length (filter (\<lambda>d. dd_attached d \<and> \<not> dd_primary d) ds)) False
   \<and> (case (monitor_index (c_capture c), filter dd_attached ds) of
        (None, _ # _) \<Rightarrow> resolve_monitor_index c (Some (map MonitorInfo.truncate (enumerate_monitors ds))) = 0
      | _ \<Rightarrow> True)"
proof -
  let ?L = "list_monitors ds []"
  let ?ms = "enumerate_monitors ds"
  have q: "filter P (map mo_primary (list_monitors ds out))
      = filter P (map mo_primary out) @ filter P (map dd_primary (filter dd_attached ds))" for P out
    by (induction ds out rule: list_monitors.induct) (auto simp: Let_def split: prod.splits)
  have p: "map mo_primary ?L = map dd_primary (filter dd_attached ds)" using q [of "\<lambda>_. True" "[]"] by simp
  have len: "length ?L = length (filter dd_attached ds)" using arg_cong [OF p, of length] by simp
  have ix: "map mo_index ?ms = [0..<length (filter dd_attached ds)]"
    using sum_length_filter_compl [of mo_primary ?L] by (simp add: enumerate_monitors_eq renumber_fields len)
  have cnt: "length (filter mo_primary ?L) = length (filter (\<lambda>d. dd_attached d \<and> dd_primary d) ds)"
    "length (filter (\<lambda>m. \<not> mo_primary m) ?L) = length (filter (\<lambda>d. dd_attached d \<and> \<not> dd_primary d) ds)"
    using arg_cong [OF p, of "\<lambda>xs. length (filter id xs)"] arg_cong [OF p, of "\<lambda>xs. length (filter Not xs)"]
    by (simp_all add: filter_map comp_def filter_filter conj_commute)
  have all: "map mo_primary (filter mo_primary xs) = replicate (length (filter mo_primary xs)) True"
    "map mo_primary (filter (\<lambda>m. \<not> mo_primary m) xs) = replicate (length (filter (\<lambda>m. \<not> mo_primary m) xs)) False"
    for xs :: "NamedMonitor list" by (induction xs) auto
  have pr: "map mo_primary ?ms
       = replicate (length (filter (\<lambda>d. dd_attached d \<and> dd_primary d) ds)) True
         @ replicate (length (filter (\<lambda>d. dd_attached d \<and> \<not> dd_primary d) ds)) False"
    by (simp add: enumerate_monitors_eq renumber_fields all cnt)
  have "resolve_monitor_index c (Some (map MonitorInfo.truncate ?ms)) = 0"
    if n: "monitor_index (c_capture c) = None" and ne: "filter dd_attached ds \<noteq> []"
  proof -
    have "length ?ms = length (filter dd_attached ds)" using arg_cong [OF ix, of length] by simp
    then have "?ms \<noteq> []" using ne by (metis length_0_conv)
    then obtain m ms where m: "?ms = m # ms" by (cases ?ms) auto
    then have m0: "mo_index m = 0" using arg_cong [OF ix, of hd] ne by (simp del: upt_Suc)
    have later: "\<not> mo_primary x" if "\<not> mo_primary m" "x \<in> set ms" for x
    proof -
      have "map mo_primary (m # ms) = replicate (length (filter (\<lambda>d. dd_attached d \<and> \<not> dd_primary d) ds)) False"
        using pr that(1) unfolding m by (cases "length (filter (\<lambda>d. dd_attached d \<and> dd_primary d) ds)") auto
      then have "\<forall>b \<in> set (map mo_primary (m # ms)). \<not> b" by (metis in_set_replicate)
      then show ?thesis using that(2) by auto
    qed
    have f: "find mo_primary (map MonitorInfo.truncate xs) = map_option MonitorInfo.truncate (find mo_primary xs)"
      for xs :: "NamedMonitor list"
      by (induction xs) (auto simp: MonitorInfo.truncate_def)
    have "find mo_primary ?ms = (if mo_primary m then Some m else None)"
      using later by (auto simp: m find_None_iff)
    then show ?thesis
      using n m m0 f [of ?ms] by (simp add: resolve_monitor_index_def MonitorInfo.truncate_def as_i32_def)
  qed
  then show ?thesis using ix pr by (auto split: option.splits list.splits)
qed

end
