(* ===== verification/Tray.thy ===== *)
theory Tray
  imports WinPlatform
begin

text \<open>
  The tray icon (\<open>crates/host/src/platform/windows/tray.rs\<close>, \<open>tray_mask.rs\<close>): its bitmap, its menu, and the window procedure as
  a function of the messages that arrive. The taskbar, which keeps the icon and the tooltip it was last given, is part
  of the state; whether Windows makes an icon out of a bitmap is an argument.
\<close>

section \<open>The icon\<close>

definition MASK_16 :: "nat list" where
  "MASK_16 = [
    0, 0, 0, 0, 1, 1, 1, 1, 1, 1, 1, 1, 0, 0, 0, 0, 0, 0, 1, 0, 0, 0, 0, 0, 0, 0, 0, 0, 0, 1, 0, 0, 0, 0, 0, 13, 43,
     42, 41, 41, 41, 41, 41, 42, 13, 0, 0, 0, 2, 0, 46, 222, 210, 203, 210, 210, 207, 208, 207, 210, 217, 49, 0, 2,
     3, 0, 170, 118, 0, 16, 0, 0, 4, 1, 4, 0, 132, 160, 0, 7, 3, 0, 46, 83, 212, 236, 201, 52, 0, 3, 4, 0, 30, 66,
     189, 190, 0, 0, 129, 253, 112, 35, 138, 255, 105, 0, 3, 0, 69, 247, 163, 35, 73, 207, 220, 34, 0, 3, 0, 64, 247,
     185, 79, 162, 251, 83, 0, 1, 173, 139, 68, 49, 0, 1, 1, 0, 19, 151, 213, 164, 54, 76, 0, 3, 4, 0, 156, 158, 13,
     33, 31, 30, 20, 11, 23, 0, 148, 161, 0, 4, 3, 0, 26, 191, 215, 210, 207, 227, 229, 210, 211, 218, 194, 25, 0, 1,
     0, 0, 0, 1, 8, 11, 0, 144, 144, 0, 11, 8, 1, 0, 0, 0, 0, 0, 1, 4, 0, 60, 210, 227, 227, 210, 60, 0, 4, 1, 0, 0,
     0, 0, 0, 0, 0, 11, 44, 36, 36, 44, 11, 0, 0, 0, 0, 0, 0, 0, 0, 0, 0, 0, 0, 0, 0, 0, 0, 0, 0, 0, 0, 0, 0, 0, 0,
     0, 0, 0, 1, 1, 1, 1, 0, 0, 0, 0, 0, 0]"

definition MASK_32 :: "nat list" where
  "MASK_32 = [
    0, 0, 0, 0, 0, 0, 0, 0, 0, 0, 0, 0, 0, 0, 0, 0, 0, 0, 0, 0, 0, 0, 0, 0, 0, 0, 0, 0, 0, 0, 0, 0, 0, 0, 0, 0, 0, 0,
     0, 0, 0, 0, 0, 0, 0, 0, 0, 0, 0, 0, 0, 0, 0, 0, 0, 0, 0, 0, 0, 0, 0, 0, 0, 0, 0, 0, 0, 0, 0, 0, 0, 0, 0, 0, 0,
     0, 0, 0, 0, 0, 0, 0, 0, 0, 0, 0, 0, 0, 0, 0, 0, 0, 0, 0, 0, 0, 0, 0, 0, 0, 0, 0, 0, 1, 2, 2, 2, 2, 2, 2, 2, 2,
     2, 2, 2, 2, 2, 2, 2, 2, 1, 0, 0, 0, 0, 0, 0, 0, 0, 0, 0, 0, 0, 1, 2, 0, 0, 0, 0, 0, 0, 0, 0, 0, 0, 0, 0, 0, 0,
     0, 0, 0, 0, 2, 1, 0, 0, 0, 0, 0, 0, 0, 0, 0, 0, 1, 0, 24, 46, 44, 45, 45, 45, 45, 45, 45, 45, 45, 45, 45, 45,
     45, 44, 46, 24, 0, 1, 0, 0, 0, 0, 0, 0, 0, 0, 0, 0, 9, 154, 250, 255, 254, 255, 255, 255, 255, 255, 255, 255,
     255, 255, 255, 255, 255, 254, 255, 250, 153, 9, 0, 0, 0, 0, 0, 0, 0, 0, 1, 0, 161, 255, 229, 183, 183, 184, 184,
     183, 183, 183, 183, 183, 183, 183, 183, 183, 183, 183, 183, 230, 255, 161, 0, 1, 0, 0, 0, 0, 0, 1, 0, 35, 255,
     226, 27, 0, 1, 0, 0, 0, 0, 0, 0, 0, 0, 0, 0, 0, 0, 1, 0, 27, 225, 255, 36, 0, 5, 0, 2, 0, 0, 3, 0, 61, 255, 160,
     0, 3, 0, 12, 8, 0, 0, 4, 4, 2, 2, 2, 2, 2, 2, 2, 5, 0, 165, 255, 61, 0, 2, 0, 0, 0, 0, 2, 0, 72, 186, 10, 7,
     105, 191, 228, 220, 169, 68, 0, 1, 2, 0, 0, 0, 0, 0, 0, 2, 0, 159, 122, 0, 37, 146, 213, 112, 0, 0, 0, 0, 14, 0,
     53, 215, 255, 253, 254, 254, 254, 255, 171, 21, 0, 3, 0, 0, 0, 0, 0, 0, 2, 16, 0, 116, 246, 253, 255, 175, 0, 0,
     2, 3, 0, 106, 252, 255, 234, 127, 58, 71, 164, 251, 255, 224, 52, 0, 4, 1, 0, 0, 0, 4, 0, 13, 180, 255, 255,
     201, 91, 14, 2, 3, 0, 3, 147, 255, 255, 186, 27, 0, 1, 1, 0, 69, 228, 255, 244, 92, 0, 1, 3, 4, 2, 0, 40, 213,
     255, 250, 120, 0, 0, 1, 1, 0, 45, 197, 255, 255, 145, 0, 0, 4, 2, 3, 4, 0, 26, 196, 255, 255, 152, 16, 0, 0, 1,
     99, 238, 255, 236, 70, 0, 3, 4, 0, 62, 180, 246, 255, 248, 101, 0, 3, 2, 0, 0, 0, 0, 3, 0, 6, 155, 255, 255,
     231, 154, 139, 207, 255, 255, 207, 34, 0, 4, 0, 0, 0, 183, 255, 253, 190, 40, 4, 62, 0, 0, 0, 0, 0, 0, 0, 2, 2,
     0, 88, 224, 255, 254, 254, 255, 245, 136, 1, 37, 39, 0, 1, 0, 0, 50, 128, 62, 0, 13, 204, 170, 0, 5, 1, 1, 1, 1,
     1, 1, 2, 4, 0, 13, 87, 143, 153, 112, 34, 0, 70, 249, 69, 0, 3, 0, 0, 0, 0, 2, 0, 60, 255, 175, 0, 2, 0, 0, 0,
     0, 0, 0, 0, 0, 0, 0, 0, 0, 0, 0, 2, 0, 177, 255, 56, 0, 2, 0, 0, 2, 4, 4, 0, 17, 233, 254, 90, 19, 27, 26, 26,
     26, 26, 26, 28, 28, 26, 27, 29, 30, 30, 31, 21, 90, 252, 234, 18, 0, 1, 0, 0, 0, 0, 0, 2, 0, 103, 255, 253, 254,
     255, 255, 255, 254, 255, 254, 247, 247, 254, 255, 254, 255, 255, 255, 254, 253, 255, 103, 0, 2, 0, 0, 0, 0, 0,
     0, 0, 1, 0, 73, 182, 209, 208, 208, 208, 209, 208, 210, 251, 251, 210, 208, 209, 208, 208, 208, 209, 182, 73, 0,
     1, 0, 0, 0, 0, 0, 0, 0, 0, 0, 1, 0, 0, 0, 0, 0, 0, 0, 0, 8, 234, 234, 8, 0, 0, 0, 0, 0, 0, 0, 0, 1, 0, 0, 0, 0,
     0, 0, 0, 0, 0, 0, 0, 3, 2, 0, 0, 0, 0, 0, 0, 8, 235, 235, 8, 0, 0, 0, 0, 0, 0, 2, 3, 0, 0, 0, 0, 0, 0, 0, 0, 0,
     0, 0, 0, 0, 0, 0, 2, 0, 97, 193, 181, 186, 249, 249, 186, 181, 193, 97, 0, 2, 0, 0, 0, 0, 0, 0, 0, 0, 0, 0, 0,
     0, 0, 0, 0, 0, 0, 0, 3, 0, 166, 255, 251, 255, 255, 255, 255, 251, 255, 166, 0, 3, 0, 0, 0, 0, 0, 0, 0, 0, 0, 0,
     0, 0, 0, 0, 0, 0, 0, 0, 0, 0, 11, 45, 44, 45, 48, 48, 45, 44, 45, 11, 0, 0, 0, 0, 0, 0, 0, 0, 0, 0, 0, 0, 0, 0,
     0, 0, 0, 0, 0, 0, 0, 0, 0, 0, 0, 0, 0, 0, 0, 0, 0, 0, 0, 0, 0, 0, 0, 0, 0, 0, 0, 0, 0, 0, 0, 0, 0, 0, 0, 0, 0,
     0, 0, 0, 0, 2, 2, 2, 2, 2, 2, 2, 2, 0, 0, 0, 0, 0, 0, 0, 0, 0, 0, 0, 0, 0, 0, 0, 0, 0, 0, 0, 0, 0, 0, 0, 0, 0,
     0, 0, 0, 0, 0, 0, 0, 0, 0, 0, 0, 0, 0, 0, 0, 0, 0, 0, 0, 0, 0, 0, 0, 0, 0, 0, 0, 0, 0, 0, 0, 0, 0, 0, 0, 0, 0,
     0, 0, 0, 0, 0, 0, 0, 0, 0, 0, 0, 0, 0, 0, 0, 0, 0, 0, 0, 0, 0, 0, 0, 0, 0, 0, 0, 0, 0, 0, 0, 0, 0, 0, 0, 0, 0,
     0, 0, 0, 0, 0, 0, 0, 0, 0]"

definition icon_size :: "nat \<Rightarrow> nat" where "icon_size metric = min (max metric 16) 64"

definition pick_mask :: "nat \<Rightarrow> nat list \<times> nat" where
  "pick_mask want = (if want \<le> 20 then (MASK_16, 16) else (MASK_32, 32))"

text \<open>Cyan while streaming, half transparent black while idle; blue, green, red, alpha, premultiplied.\<close>

definition pixel :: "bool \<Rightarrow> nat \<Rightarrow> nat list" where
  "pixel streaming cov =
     (let (r, g, b, alpha_mul) = (if streaming then (0x22, 0xD3, 0xEE, 255) else (0, 0, 0, 128));
          a = cov * alpha_mul div 255
      in [b * a div 255 mod 256, g * a div 255 mod 256, r * a div 255 mod 256, a mod 256])"

definition sample :: "nat \<Rightarrow> nat \<Rightarrow> nat \<Rightarrow> nat" where
  "sample msz n x = min (x * msz div n) (msz - 1)"

definition icon_pixels :: "nat \<Rightarrow> bool \<Rightarrow> nat list" where
  "icon_pixels metric streaming =
     (let n = icon_size metric; (tile, msz) = pick_mask n in
      concat (map (\<lambda>y. concat (map (\<lambda>x. pixel streaming (tile ! (sample msz n y * msz + sample msz n x))) [0..<n])) [0..<n]))"

section \<open>The menu\<close>

record TrayModel =
  tm_streaming :: bool
  tm_remote_access :: bool
  tm_start_at_login :: bool
  tm_status :: string
  tm_pin_line :: string

datatype TrayAction = OpenDashboard | SetRemoteAccess bool | SetStartAtLogin bool | QuitHost

definition ID_STATUS :: nat where "ID_STATUS = 0x10"
definition ID_PIN :: nat where "ID_PIN = 0x11"
definition ID_REMOTE :: nat where "ID_REMOTE = 0x21"
definition ID_LOGIN :: nat where "ID_LOGIN = 0x22"
definition ID_DASH :: nat where "ID_DASH = 0x23"
definition ID_QUIT :: nat where "ID_QUIT = 0x24"

lemmas menu_ids = ID_STATUS_def ID_PIN_def ID_REMOTE_def ID_LOGIN_def ID_DASH_def ID_QUIT_def

datatype MenuEntry = Grayed nat string | Separator | Item nat string bool

definition show_menu :: "TrayModel \<Rightarrow> MenuEntry list" where
  "show_menu m =
     [Grayed ID_STATUS (tm_status m)] @ (if tm_pin_line m \<noteq> [] then [Grayed ID_PIN (tm_pin_line m)] else [])
     @ [Separator, Item ID_REMOTE ''Remote access'' (tm_remote_access m),
        Item ID_LOGIN ''Start at sign-in'' (tm_start_at_login m), Separator,
        Item ID_DASH ''Open dashboard'' False, Separator, Item ID_QUIT ''Quit InPhase'' False]"

definition dispatch :: "TrayModel \<Rightarrow> nat \<Rightarrow> TrayAction option" where
  "dispatch m i =
     (if i = ID_REMOTE then Some (SetRemoteAccess (\<not> tm_remote_access m))
      else if i = ID_LOGIN then Some (SetStartAtLogin (\<not> tm_start_at_login m))
      else if i = ID_DASH then Some OpenDashboard
      else if i = ID_QUIT then Some QuitHost
      else None)"

section \<open>The window\<close>

text \<open>UTF-16 of UTF-8.\<close>

fun utf16 :: "nat list \<Rightarrow> nat list" where
  "utf16 [] = []"
| "utf16 (b # bs) =
     (if b < 128 then b # utf16 bs
      else if b < 224 then (case bs of c # cs \<Rightarrow> ((b - 192) * 64 + (c - 128)) # utf16 cs | [] \<Rightarrow> [])
      else if b < 240 then
        (case bs of c # d # cs \<Rightarrow> ((b - 224) * 4096 + (c - 128) * 64 + (d - 128)) # utf16 cs | _ \<Rightarrow> [])
      else
        (case bs of
           c # d # e # cs \<Rightarrow>
             (let n = (b - 240) * 262144 + (c - 128) * 4096 + (d - 128) * 64 + (e - 128) - 65536
              in (55296 + n div 1024) # (56320 + n mod 1024) # utf16 cs)
         | _ \<Rightarrow> []))"

definition encode_utf16 :: "string \<Rightarrow> nat list" where "encode_utf16 s = utf16 (map of_char s)"

definition tip_of :: "TrayModel \<Rightarrow> string" where
  "tip_of m =
     (if tm_pin_line m = [] then ''InPhase '' @ em_dash @ '' '' @ tm_status m
      else ''InPhase '' @ em_dash @ '' '' @ tm_status m @ '' '' @ em_dash @ '' '' @ tm_pin_line m)"

text \<open>The 128 units of \<open>szTip\<close>, zero at first.\<close>

definition tip_units :: "string \<Rightarrow> nat list" where
  "tip_units tip = (let u = take 128 (encode_utf16 tip @ [0]) in u @ replicate (128 - length u) 0)"

text \<open>The taskbar's entry: the colour of the icon it was given, and the tooltip.\<close>

record Entry =
  en_icon :: "bool option"
  en_tip :: "nat list"

text \<open>Icons are numbers; \<open>tw_live\<close> are those made and not destroyed.\<close>

record TrayWorld =
  tw_model :: TrayModel
  tw_icon :: "nat option"
  tw_icon_streaming :: bool
  tw_live :: "nat list"
  tw_made :: nat
  tw_entry :: "Entry option"
  tw_run_value :: "string option"
  tw_opened :: nat
  tw_exited :: bool

definition add_icon :: "TrayWorld \<Rightarrow> TrayWorld" where
  "add_icon w = (if tw_entry w = None then w\<lparr>tw_entry := Some \<lparr>en_icon = None, en_tip = replicate 128 0\<rparr>\<rparr> else w)"

definition apply_icon :: "bool \<Rightarrow> bool \<Rightarrow> TrayWorld \<Rightarrow> TrayWorld" where
  "apply_icon can_make force w =
     (let streaming = tm_streaming (tw_model w);
          fresh = (force \<or> tw_icon w = None \<or> streaming \<noteq> tw_icon_streaming w) \<and> can_make;
          w1 = (if fresh
                then w\<lparr>tw_made := tw_made w + 1,
                       tw_live := (case tw_icon w of Some old \<Rightarrow> remove1 old (tw_live w) | None \<Rightarrow> tw_live w) @ [tw_made w],
                       tw_icon := Some (tw_made w), tw_icon_streaming := streaming\<rparr>
                else w)
      in w1\<lparr>tw_entry := map_option (\<lambda>e. e\<lparr>en_icon := (if fresh then Some streaming else en_icon e),
                                           en_tip := tip_units (tip_of (tw_model w))\<rparr>) (tw_entry w1)\<rparr>)"

datatype Mouse = RightUp | LeftDouble | OtherMouse

datatype TrayMsg =
    TaskbarCreated | TrayMouse Mouse | RefreshMsg | CommandMsg nat | CloseMsg | EndSession | QueryEndSession | OtherMsg

text \<open>What the actions of \<open>app.rs\<close> do: \<open>reg_ok\<close> and \<open>exe\<close> are for the autostart value.\<close>

record TrayEnv =
  te_can_make :: bool
  te_reg_ok :: bool
  te_exe :: "string option"

definition act :: "TrayEnv \<Rightarrow> TrayAction \<Rightarrow> TrayWorld \<Rightarrow> TrayWorld" where
  "act env a w =
     (case a of
        OpenDashboard \<Rightarrow> w\<lparr>tw_opened := tw_opened w + 1\<rparr>
      | SetRemoteAccess on \<Rightarrow> w\<lparr>tw_model := (tw_model w)\<lparr>tm_remote_access := on\<rparr>\<rparr>
      | SetStartAtLogin on \<Rightarrow>
          (let (ok, run) = set_start_at_login on (te_reg_ok env) (te_exe env) (tw_run_value w) in
           w\<lparr>tw_run_value := run,
             tw_model := (if ok then (tw_model w)\<lparr>tm_start_at_login := on\<rparr> else tw_model w)\<rparr>)
      | QuitHost \<Rightarrow> w\<lparr>tw_exited := True\<rparr>)"

definition wndproc :: "TrayEnv \<Rightarrow> TrayMsg \<Rightarrow> TrayWorld \<Rightarrow> TrayWorld" where
  "wndproc env m w =
     (case m of
        TaskbarCreated \<Rightarrow> apply_icon (te_can_make env) True (add_icon w)
      | TrayMouse LeftDouble \<Rightarrow> act env OpenDashboard w
      | TrayMouse _ \<Rightarrow> w
      | RefreshMsg \<Rightarrow> apply_icon (te_can_make env) False w
      | CommandMsg i \<Rightarrow> (case dispatch (tw_model w) (i mod 65536) of Some a \<Rightarrow> act env a w | None \<Rightarrow> w)
      | CloseMsg \<Rightarrow> act env QuitHost w
      | EndSession \<Rightarrow> act env QuitHost w
      | QueryEndSession \<Rightarrow> w
      | OtherMsg \<Rightarrow> w)"

text \<open>What happens to the tray: a message; the runtime writes the model; Explorer restarts, which forgets the icon.\<close>

datatype TrayEvent = Msg TrayMsg | Write bool string string | ExplorerDies

definition tray_event :: "TrayEnv \<Rightarrow> TrayEvent \<Rightarrow> TrayWorld \<Rightarrow> TrayWorld" where
  "tray_event env ev w =
     (if tw_exited w then w
      else case ev of
        Msg m \<Rightarrow> wndproc env m w
      | Write streaming status line \<Rightarrow>
          w\<lparr>tw_model := (tw_model w)\<lparr>tm_streaming := streaming, tm_status := status, tm_pin_line := line\<rparr>\<rparr>
      | ExplorerDies \<Rightarrow> w\<lparr>tw_entry := None\<rparr>)"

text \<open>The thread up to its message loop.\<close>

definition tray_start :: "TrayEnv \<Rightarrow> TrayModel \<Rightarrow> string option \<Rightarrow> TrayWorld" where
  "tray_start env m run =
     apply_icon (te_can_make env) True
       (add_icon \<lparr>tw_model = m, tw_icon = None, tw_icon_streaming = False, tw_live = [], tw_made = 0, tw_entry = None,
                  tw_run_value = run, tw_opened = 0, tw_exited = False\<rparr>)"

definition tray_run :: "TrayEnv \<Rightarrow> TrayModel \<Rightarrow> string option \<Rightarrow> TrayEvent list \<Rightarrow> TrayWorld" where
  "tray_run env m run evs = fold (tray_event env) evs (tray_start env m run)"

section \<open>Lemmas\<close>

text \<open>No sample is out of the mask, and every pixel is premultiplied.\<close>

lemma mask_lengths: "length MASK_16 = 16 * 16" "length MASK_32 = 32 * 32"
  by code_simp+

lemma mask_bytes: "list_all (\<lambda>c. c < 256) MASK_16" "list_all (\<lambda>c. c < 256) MASK_32"
  by code_simp+

lemma sample_bound: "0 < msz \<Longrightarrow> sample msz n x < msz"
  by (simp add: sample_def)

lemma mask_index:
  assumes "a < m" "b < (m :: nat)"
  shows "a * m + b < m * m"
proof -
  have "a * m + b < (a + 1) * m" using assms(2) by simp
  also have "\<dots> \<le> m * m" using assms(1) by (intro mult_le_mono1) simp
  finally show ?thesis .
qed

lemma mask_sample:
  assumes "pick_mask n = (tile, msz)"
  shows "sample msz n y * msz + sample msz n x < length tile \<and> tile ! (sample msz n y * msz + sample msz n x) < 256"
proof -
  have m: "0 < msz" "length tile = msz * msz" "list_all (\<lambda>c. c < 256) tile"
    using assms mask_lengths mask_bytes by (auto simp: pick_mask_def split: if_splits)
  then have i: "sample msz n y * msz + sample msz n x < length tile"
    using mask_index [OF sample_bound [OF m(1), of n y] sample_bound [OF m(1), of n x]] by simp
  then show ?thesis using m(3) by (simp add: list_all_length)
qed

lemma pixel_premultiplied:
  assumes "cov < 256"
  shows "\<exists>b g r a. pixel streaming cov = [b, g, r, a] \<and> b \<le> a \<and> g \<le> a \<and> r \<le> a \<and> a = (if streaming then cov else cov * 128 div 255)"
proof -
  have "cov * 128 div 255 < 256" using assms by (simp add: div_less_dividend less_mult_imp_div_less)
  moreover have "c * cov div 255 \<le> cov" if "c \<le> 255" for c
    using that by (metis div_le_mono div_mult_self1_is_m mult.commute mult_le_mono1 zero_less_numeral)
  ultimately show ?thesis
    using assms by (auto simp: pixel_def Let_def intro: order_trans [OF mod_less_eq_dividend])
qed

lemma concat_rows_length: "(\<And>y. length (f y) = k) \<Longrightarrow> length (concat (map f [0..<n])) = n * k"
  by (induction n) auto

lemma icon_pixels_length: "length (icon_pixels metric streaming) = icon_size metric * (icon_size metric * 4)"
proof -
  have p: "length (pixel s c) = 4" for s c by (simp add: pixel_def Let_def split: prod.splits)
  show ?thesis by (simp add: icon_pixels_def Let_def concat_rows_length p split: prod.splits)
qed

text \<open>A tip that is too long has no end.\<close>

lemma tip_units_length: "length (tip_units tip) = 128"
  by (simp add: tip_units_def Let_def)

lemma tip_units_whole:
  assumes "length (encode_utf16 tip) < 128"
  shows "\<exists>n > 0. tip_units tip = encode_utf16 tip @ replicate n 0"
proof -
  define k where "k = 127 - length (encode_utf16 tip)"
  have "tip_units tip = encode_utf16 tip @ replicate (Suc k) 0"
    using assms by (simp add: tip_units_def Let_def k_def)
  then show ?thesis by blast
qed

text \<open>At most one icon is alive, the one in use.\<close>

definition one_icon :: "TrayWorld \<Rightarrow> bool" where
  "one_icon w \<longleftrightarrow> tw_live w = (case tw_icon w of Some h \<Rightarrow> [h] | None \<Rightarrow> [])"

lemma one_icon_apply: "one_icon w \<Longrightarrow> one_icon (apply_icon can_make force w)"
  by (auto simp: one_icon_def apply_icon_def Let_def split: option.splits)

lemma one_icon_act: "one_icon w \<Longrightarrow> one_icon (act env a w)"
  by (auto simp: one_icon_def act_def split: TrayAction.splits prod.splits)

lemma one_icon_add [simp]: "one_icon (add_icon w) = one_icon w"
  by (simp add: one_icon_def add_icon_def)

lemma one_icon_event: "one_icon w \<Longrightarrow> one_icon (tray_event env ev w)"
  using one_icon_apply [of w] one_icon_apply [of "add_icon w"] one_icon_act [of w]
  by (auto simp: tray_event_def wndproc_def split: TrayEvent.splits TrayMsg.splits Mouse.splits option.splits)
    (simp_all add: one_icon_def)

lemma one_icon_fold: "one_icon w \<Longrightarrow> one_icon (fold (tray_event env) evs w)"
  by (induction evs arbitrary: w) (auto intro: one_icon_event)

lemma one_icon_start: "one_icon (tray_start env m run)"
  unfolding tray_start_def by (rule one_icon_apply) (simp add: one_icon_def add_icon_def)

text \<open>The taskbar's entry has the colour the icon was made for.\<close>

definition entry_ok :: "TrayWorld \<Rightarrow> bool" where
  "entry_ok w \<longleftrightarrow> tw_icon w \<noteq> None \<and> (case tw_entry w of Some e \<Rightarrow> en_icon e = Some (tw_icon_streaming w) | None \<Rightarrow> True)"

lemma entry_ok_apply:
  assumes "entry_ok w \<or> force"
  shows "entry_ok (apply_icon True force w)"
proof (cases "force \<or> tw_icon w = None \<or> tm_streaming (tw_model w) \<noteq> tw_icon_streaming w")
  case True
  then show ?thesis by (cases "tw_entry w") (simp_all add: entry_ok_def apply_icon_def Let_def)
next
  case False
  then show ?thesis using assms by (cases "tw_entry w") (simp_all add: entry_ok_def apply_icon_def Let_def)
qed

lemma act_keeps [simp]:
  "tw_icon (act env a w) = tw_icon w" "tw_entry (act env a w) = tw_entry w"
  "tw_icon_streaming (act env a w) = tw_icon_streaming w" "tw_live (act env a w) = tw_live w"
  by (simp_all add: act_def split: TrayAction.splits prod.splits)

lemma entry_ok_act: "entry_ok w \<Longrightarrow> entry_ok (act env a w)"
  by (cases "tw_entry w") (simp_all add: entry_ok_def)

lemma entry_ok_event:
  assumes "te_can_make env" "entry_ok w"
  shows "entry_ok (tray_event env ev w)"
proof (cases ev)
  case (Msg m)
  then show ?thesis
    using assms entry_ok_apply [of w] entry_ok_apply [of "add_icon w" True] entry_ok_act [OF assms(2)]
    by (cases m) (simp_all add: tray_event_def wndproc_def split: Mouse.splits option.splits)
next
  case (Write streaming status line)
  then show ?thesis using assms by (cases "tw_entry w") (simp_all add: tray_event_def entry_ok_def)
next
  case ExplorerDies
  then show ?thesis using assms by (simp add: tray_event_def entry_ok_def)
qed

lemma entry_ok_fold: "te_can_make env \<Longrightarrow> entry_ok w \<Longrightarrow> entry_ok (fold (tray_event env) evs w)"
  by (induction evs arbitrary: w) (auto intro: entry_ok_event)

lemma refresh_shows_model:
  assumes "entry_ok w" "tw_entry w = Some e"
  shows "tw_entry (apply_icon True False w) = Some \<lparr>en_icon = Some (tm_streaming (tw_model w)), en_tip = tip_units (tip_of (tw_model w))\<rparr>"
  using assms by (cases e) (simp add: entry_ok_def apply_icon_def Let_def)

text \<open>The model keeps what it was last told, whatever is clicked.\<close>

lemma act_model:
  "tm_streaming (tw_model (act env a w)) = tm_streaming (tw_model w)"
  "tm_status (tw_model (act env a w)) = tm_status (tw_model w)"
  "tm_pin_line (tw_model (act env a w)) = tm_pin_line (tw_model w)"
  by (simp_all add: act_def split: TrayAction.splits prod.splits)

text \<open>An icon that cannot be made after Explorer restarted leaves the entry without one, until streaming starts or ends.\<close>

lemma lost_icon_stays_lost:
  assumes "tw_icon w \<noteq> None" "tw_icon_streaming w = tm_streaming (tw_model w)" "tw_entry w = None"
  shows "map_option en_icon (tw_entry (apply_icon True False (apply_icon False True (add_icon w)))) = Some None"
  using assms by (simp add: apply_icon_def add_icon_def Let_def)

section \<open>Properties\<close>

text \<open>The tray shows the session. After any messages, clicks, updates and restarts of Explorer, a refresh leaves the
  taskbar with the icon of the current streaming state and the tooltip of the current status and PIN line, and
  exactly one icon is alive: none leaks. The menu offers the two switches with their current state, and choosing
  one asks for the other state.\<close>
theorem tray_shows_session:
  assumes "te_can_make env" "tw_entry (tray_run env m run evs) \<noteq> None" "\<not> tw_exited (tray_run env m run evs)"
  shows "(let w = tray_run env m run (evs @ [Msg RefreshMsg]) in
     tw_entry w = Some \<lparr>en_icon = Some (tm_streaming (tw_model w)), en_tip = tip_units (tip_of (tw_model w))\<rparr>
     \<and> (\<exists>h. tw_icon w = Some h \<and> tw_live w = [h])
     \<and> (\<forall>i text on. Item i text on \<notin> set (show_menu (tw_model w))
          \<or> dispatch (tw_model w) i = (if i = ID_REMOTE then Some (SetRemoteAccess (\<not> on))
               else if i = ID_LOGIN then Some (SetStartAtLogin (\<not> on))
               else if i = ID_DASH then Some OpenDashboard else Some QuitHost)))"
proof -
  let ?w = "tray_run env m run evs"
  have s: "entry_ok (tray_start env m run)"
    unfolding tray_start_def using entry_ok_apply [of _ True] assms(1) by simp
  have e: "entry_ok ?w" unfolding tray_run_def by (rule entry_ok_fold [OF assms(1) s])
  have r: "tray_run env m run (evs @ [Msg RefreshMsg]) = apply_icon True False ?w"
    using assms by (simp add: tray_run_def tray_event_def wndproc_def)
  have "tw_model (apply_icon True False ?w) = tw_model ?w" by (simp add: apply_icon_def Let_def)
  moreover have "tw_entry (apply_icon True False ?w)
      = Some \<lparr>en_icon = Some (tm_streaming (tw_model ?w)), en_tip = tip_units (tip_of (tw_model ?w))\<rparr>"
    using refresh_shows_model [OF e] assms(2) by blast
  moreover have "one_icon (apply_icon True False ?w)"
    unfolding tray_run_def by (intro one_icon_apply one_icon_fold one_icon_start)
  moreover have "tw_icon (apply_icon True False ?w) \<noteq> None" using e by (simp add: entry_ok_def apply_icon_def Let_def)
  ultimately show ?thesis
    unfolding r by (auto simp: Let_def one_icon_def show_menu_def dispatch_def menu_ids)
qed

lemma tray_shows_session_witness:
  "map_option en_icon (tw_entry (tray_run \<lparr>te_can_make = True, te_reg_ok = True, te_exe = Some ''inphase.exe''\<rparr>
     \<lparr>tm_streaming = False, tm_remote_access = False, tm_start_at_login = False, tm_status = ''Available'', tm_pin_line = []\<rparr> None
     ([Msg (CommandMsg 34), ExplorerDies, Write True ''Streaming'' [], Msg TaskbarCreated] @ [Msg RefreshMsg]))) = Some (Some True)"
proof -
  let ?env = "\<lparr>te_can_make = True, te_reg_ok = True, te_exe = Some ''inphase.exe''\<rparr>"
  let ?m = "\<lparr>tm_streaming = False, tm_remote_access = False, tm_start_at_login = False, tm_status = ''Available'', tm_pin_line = []\<rparr>"
  let ?evs = "[Msg (CommandMsg 34), ExplorerDies, Write True ''Streaming'' [], Msg TaskbarCreated]"
  have f: "tw_entry (tray_run ?env ?m None ?evs) \<noteq> None" "\<not> tw_exited (tray_run ?env ?m None ?evs)"
    "tm_streaming (tw_model (tray_run ?env ?m None (?evs @ [Msg RefreshMsg])))"
    by (simp_all add: tray_run_def tray_start_def tray_event_def wndproc_def dispatch_def menu_ids act_def set_start_at_login_def
        run_command_def apply_icon_def add_icon_def Let_def)
  have "te_can_make ?env" by simp
  from tray_shows_session [OF this f(1,2)] f(3) show ?thesis by (simp add: Let_def)
qed

text \<open>The icon's bitmap: for every size Windows may ask for, it has four bytes for each pixel, no sample lies outside the
  mask, and each pixel is premultiplied: no colour exceeds its alpha, which is the mask's coverage, halved while
  idle.\<close>
theorem icon_bitmap:
  "length (icon_pixels metric streaming) = icon_size metric * (icon_size metric * 4)
   \<and> (case pick_mask (icon_size metric) of (tile, msz) \<Rightarrow>
        sample msz (icon_size metric) y * msz + sample msz (icon_size metric) x < length tile
        \<and> (let cov = tile ! (sample msz (icon_size metric) y * msz + sample msz (icon_size metric) x) in
           \<exists>b g r a. pixel streaming cov = [b, g, r, a] \<and> b \<le> a \<and> g \<le> a \<and> r \<le> a
             \<and> a = (if streaming then cov else cov * 128 div 255)))"
proof -
  obtain tile msz where p: "pick_mask (icon_size metric) = (tile, msz)" by (metis prod.collapse)
  show ?thesis
    using mask_sample [OF p, of y x] pixel_premultiplied unfolding p prod.case Let_def icon_pixels_length by blast
qed

end
