(* ===== verification/HostPages.thy ===== *)
theory HostPages
  imports HostBoot GameLibrary Doctor Diagnostics
begin

text \<open>
  What the HTTP answers contain that come from the platform (\<open>crates/host/src/http/api.rs\<close>, \<open>http/assets.rs\<close>): the capture
  device and the rest of the capabilities, the library with its covers, the posters, the embedded page, the local
  authority's certificate; and the timer that renews the listeners' certificate (\<open>http/mod.rs\<close>). Who may ask is the
  matter of HttpApi.
\<close>

section \<open>Capabilities\<close>

definition default_modes :: "(nat \<times> nat \<times> nat) list" where
  "default_modes = [(1920, 1080, 60), (1920, 1080, 120), (2560, 1440, 60), (2560, 1440, 120)]"

definition preset_names :: "string list" where
  "preset_names = [''low_latency'', ''balanced'', ''quality'', ''custom'']"

record AudioCapture =
  ac_device_id :: string
  ac_name :: string
  ac_is_default :: bool
  ac_active :: bool
  ac_health :: AudioHealth
  ac_signal_detected :: "bool option"

definition capture_device_id :: "HttpState \<Rightarrow> string" where
  "capture_device_id st =
     (case audio_device (hs_sessions st) of Some d \<Rightarrow> d
      | None \<Rightarrow> (case audio_capture_device (c_media (hs_cfg st)) of Some d \<Rightarrow> d | None \<Rightarrow> []))"

definition matched_endpoint :: "string \<Rightarrow> NamedEndpoint list \<Rightarrow> NamedEndpoint option" where
  "matched_endpoint i eps = find (\<lambda>e. if i = [] then ae_is_default e else ae_id e = i) eps"

definition signal_detected :: "StatsCollector \<Rightarrow> bool option" where
  "signal_detected s =
     (case sc_client s of None \<Rightarrow> None
      | Some c \<Rightarrow> (case te_audio_state c of None \<Rightarrow> None
                 | Some a \<Rightarrow> if a = ''signal'' then Some True else if a = ''silent'' then Some False else None))"

definition audio_capture :: "HttpState \<Rightarrow> StatsCollector \<Rightarrow> NamedEndpoint list option \<Rightarrow> AudioCapture" where
  "audio_capture st s listed =
     (let eps = (if enable_audio (c_media (hs_cfg st)) then (case listed of Some es \<Rightarrow> es | None \<Rightarrow> []) else []);
          i = capture_device_id st; m = matched_endpoint i eps
      in \<lparr>ac_device_id = i,
          ac_name = (case m of Some e \<Rightarrow> ae_name e | None \<Rightarrow> if i = [] then ''System default'' else i),
          ac_is_default = (i = [] \<or> (case m of Some e \<Rightarrow> ae_is_default e | None \<Rightarrow> False)),
          ac_active = (case m of Some e \<Rightarrow> ae_active e | None \<Rightarrow> True),
          ac_health = sc_audio_health s, ac_signal_detected = signal_detected s\<rparr>)"

text \<open>What the next session captures (\<open>claim\<close> puts it into the session's configuration).\<close>

definition next_capture_device :: "HttpState \<Rightarrow> string" where
  "next_capture_device st = (case audio_dev (hs_sessions st) of Some d \<Rightarrow> d | None \<Rightarrow> [])"

section \<open>The library\<close>

record LibraryItem =
  li_id :: string
  li_name :: string
  li_kind :: string
  li_poster_url :: "string option"
  li_source :: string
  li_last_played :: "nat option"

definition wants_of :: "GameInfo list \<Rightarrow> Want list" where
  "wants_of games =
     map (\<lambda>g. \<lparr>wa_id = gi_id g, wa_name = gi_name g, wa_appid = gi_steam_app_id g\<rparr>)
       (filter (\<lambda>g. \<not> (gi_source g = ''steam'' \<and> gi_poster_url g \<noteq> None)) games)"

definition library_item :: "ArtCache \<Rightarrow> GameInfo \<Rightarrow> LibraryItem" where
  "library_item a g =
     \<lparr>li_id = gi_id g, li_name = gi_name g, li_kind = ''game'',
      li_poster_url =
        (if art_cached (gi_id g) a
         then Some (''/api/v1/library/poster/'' @ replace_char CHR '':'' ''%3A'' (gi_id g) @ ''?s=steam'')
         else gi_poster_url g),
      li_source = gi_source g, li_last_played = gi_last_played g\<rparr>"

text \<open>The items, whether covers are still being fetched, what is to be fetched, and the cache.\<close>

definition library_for :: "nat \<Rightarrow> unit + GameInfo list \<Rightarrow> ArtCache \<Rightarrow> (LibraryItem list \<times> bool) \<times> Want list \<times> ArtCache" where
  "library_for now scanned a =
     (let games = (case scanned of Inr gs \<Rightarrow> gs | Inl _ \<Rightarrow> []);
          (todo, a') = warm now (wants_of games) a
      in ((map (library_item a') games, art_busy a'), todo, a'))"

datatype PosterReply = NoPoster | PosterUnreadable | Poster string bytes

text \<open>\<open>cover\<close> is the path of a file in the cache, \<open>read\<close> reads a file, \<open>mime\<close> guesses from its name.\<close>

definition library_poster ::
  "(string \<Rightarrow> string) \<Rightarrow> (string \<Rightarrow> string option) \<Rightarrow> (string \<Rightarrow> bytes option) \<Rightarrow> (string \<Rightarrow> string) \<Rightarrow> ArtCache \<Rightarrow> string \<Rightarrow> PosterReply" where
  "library_poster cover launcher_poster read mime a gid =
     (case (if art_cached gid a then Some (cover (art_slug gid)) else launcher_poster gid) of
        None \<Rightarrow> NoPoster
      | Some p \<Rightarrow> (case read p of None \<Rightarrow> PosterUnreadable | Some b \<Rightarrow> Poster (mime p) b))"

section \<open>The embedded page\<close>

datatype Asset = Served string string bytes | AssetMissing

lemma trim_start_dot [simp]: "c \<noteq> d \<Longrightarrow> d \<in> set (trim_start_char c s) \<longleftrightarrow> d \<in> set s"
  by (induction s) (auto simp: trim_start_char_def)

function serve_asset :: "(string \<Rightarrow> bytes option) \<Rightarrow> (string \<Rightarrow> string) \<Rightarrow> string \<Rightarrow> Asset" where
  "serve_asset get mime path =
     (let p = trim_start_char CHR ''/'' path;
          candidate = (if p = [] then ''index.html'' else p)
      in case get candidate of
           Some data \<Rightarrow>
             Served (mime candidate)
               (if starts_with candidate ''assets/'' then ''public, max-age=31536000, immutable'' else ''no-cache'') data
         | None \<Rightarrow> if CHR ''.'' \<notin> set candidate then serve_asset get mime ''index.html'' else AssetMissing)"
  by pat_completeness auto

termination
  by (relation "measure (\<lambda>(get, mime, path). if CHR ''.'' \<in> set path then 0 else 1)") (auto split: if_splits)

declare serve_asset.simps [simp del]

text \<open>The local authority's certificate, for download: the file if it can be read.\<close>

definition ca_download :: "bytes option \<Rightarrow> nat \<times> (string \<times> string) list \<times> bytes option" where
  "ca_download ca =
     (case ca of
        Some pem \<Rightarrow>
          (200, [(''content-type'', ''application/x-x509-ca-cert''),
                 (''content-disposition'', ''attachment; filename='' @ [char_of (34 :: nat)] @ ''InPhase-Local-CA.crt'' @ [char_of (34 :: nat)])],
           Some pem)
      | None \<Rightarrow> (404, [], None))"

section \<open>Renewing the certificate\<close>

text \<open>What the LAN listener and the fallback of the public one present.\<close>

record ServedCerts =
  sv_lan :: "LeafDir"
  sv_public :: "LeafDir"

definition start_certs :: "LeafDir \<Rightarrow> ServedCerts" where "start_certs leaf = \<lparr>sv_lan = leaf, sv_public = leaf\<rparr>"

text \<open>One tick, twelve hours apart. \<open>readable\<close> is whether the new pair of files loads.\<close>

definition renewal_tick ::
  "'k TlsInput \<Rightarrow> Config \<Rightarrow> string \<Rightarrow> (128 word) option \<Rightarrow> (LeafDir \<Rightarrow> bool) \<Rightarrow> (Selection \<times> tls_dir) \<times> ServedCerts
   \<Rightarrow> (Selection \<times> tls_dir) \<times> ServedCerts" where
  "renewal_tick ti c host v6 readable x =
     (case x of ((se, ca, leaf), sv) \<Rightarrow>
        (case tls_mode (c_tls c) of
           TlsOff \<Rightarrow> x
         | LocalCa \<Rightarrow>
             (case load_or_create_ca (ti_lib ti) (ti_readable ti) (ti_fresh_ca ti) (fst (ti_w_ca ti)) (snd (ti_w_ca ti)) ca of
                (Inl _, ca') \<Rightarrow> ((se, ca', leaf), sv)
              | (Inr (pem, ck), ca') \<Rightarrow>
                  (let ((primary, sans), se1) = collect_sans c host v6 se in
                   (case ensure_leaf (ti_lib ti) (ti_now ti) (ti_fresh_leaf ti) (ti_w_leaf ti) pem ck primary sans leaf of
                      (Inl _, leaf') \<Rightarrow> ((se1, ca', leaf'), sv)
                    | (Inr _, leaf') \<Rightarrow> ((se1, ca', leaf'), if readable leaf' then sv\<lparr>sv_lan := leaf'\<rparr> else sv))))))"

section \<open>Trusting the authority\<close>

definition CA_CN :: string where "CA_CN = ''InPhase Local CA''"

record CaParams =
  ca_not_before :: int
  ca_not_after :: int
  ca_is_ca :: bool
  ca_names :: "(string \<times> string) list"
  ca_usages :: "string list"

definition ca_params :: "int \<Rightarrow> CaParams" where
  "ca_params now =
     \<lparr>ca_not_before = now - 86400, ca_not_after = now + 3650 * 86400, ca_is_ca = True,
      ca_names = [(''CommonName'', CA_CN), (''OrganizationName'', ''InPhase'')],
      ca_usages = [''KeyCertSign'', ''CrlSign'', ''DigitalSignature'']\<rparr>"

text \<open>The user's root store, as names and certificates. \<open>ok\<close>: \<open>certutil\<close> runs, answers within three seconds and, where it
  adds, succeeds. Without \<open>force\<close> the store is only asked.\<close>

definition trust_ca :: "bool \<Rightarrow> bool \<Rightarrow> bytes option \<Rightarrow> (string \<times> bytes) list \<Rightarrow> bool \<times> (string \<times> bytes) list" where
  "trust_ca ok force ca store =
     (case ca of None \<Rightarrow> (False, store)
      | Some crt \<Rightarrow>
          if \<not> force then (ok \<and> CA_CN \<in> fst ` set store, store)
          else if ok then (True, (CA_CN, crt) # removeAll (CA_CN, crt) store)
          else (False, store))"

section \<open>Lemmas\<close>

text \<open>Asking never changes the store; setting up succeeds only with the present authority in it, and removes nobody. But asking
  goes by the name: the root of an authority that was replaced passes for the present one.\<close>

lemma trust_ca_result:
  assumes "trust_ca ok force ca store = (r, store')"
  shows "set store \<subseteq> set store' \<and> (if force then r \<longrightarrow> (\<exists>crt. ca = Some crt \<and> (CA_CN, crt) \<in> set store') else store' = store)"
  using assms by (auto simp: trust_ca_def split: option.splits if_splits)

lemma old_root_passes: "trust_ca True False (Some new) [(CA_CN, old)] = (True, [(CA_CN, old)])"
  by (simp add: trust_ca_def)

text \<open>The device that is reported is the one the next session captures, unless it was set back to the default while the
  configuration names another.\<close>

lemma capture_device_reported:
  assumes "audio_device (hs_sessions st) \<noteq> None \<or> audio_capture_device (c_media (hs_cfg st)) \<in> {None, Some []}"
    and "audio_dev (hs_sessions st) \<noteq> Some []"
  shows "capture_device_id st = next_capture_device st"
  using assms
  by (cases "audio_dev (hs_sessions st)") (auto simp: capture_device_id_def next_capture_device_def audio_device_def non_empty_def)

lemma cleared_device_misreported:
  assumes "audio_capture_device (c_media (hs_cfg st)) = Some d"
  shows "capture_device_id (st\<lparr>hs_sessions := set_audio_device None (hs_sessions st)\<rparr>) = d
    \<and> next_capture_device (st\<lparr>hs_sessions := set_audio_device None (hs_sessions st)\<rparr>) = []"
  using assms by (simp add: capture_device_id_def next_capture_device_def audio_device_def set_audio_device_def)

text \<open>A chosen device that is not there any more is reported as active.\<close>

lemma missing_device_reported_active:
  assumes "capture_device_id st = d" "d \<noteq> []" "\<forall>e \<in> set eps. ae_id e \<noteq> d"
  shows "ac_active (audio_capture st s (Some eps)) \<and> ac_name (audio_capture st s (Some eps)) = d"
proof -
  have "matched_endpoint d eps = None" using assms(2,3) by (auto simp: matched_endpoint_def find_None_iff)
  moreover have "matched_endpoint d [] = None" by (simp add: matched_endpoint_def)
  ultimately show ?thesis using assms by (simp add: audio_capture_def Let_def)
qed

text \<open>Asking for covers keeps those there are.\<close>

lemma warm_covers [simp]: "ar_covers (snd (warm now ws a)) = ar_covers a"
proof -
  have "ar_covers (snd (warm_filter now ws a)) = ar_covers a"
    by (induction now ws a rule: warm_filter.induct) (auto simp: Let_def split: prod.splits if_splits)
  then show ?thesis by (simp add: warm_def)
qed

lemma warm_todo: "set (fst (warm now ws a)) \<subseteq> {w \<in> set ws. \<not> art_cached (wa_id w) a}"
proof -
  have "set (fst (warm_filter now ws a)) \<subseteq> {w \<in> set ws. \<not> art_cached (wa_id w) a}"
  proof (induction now ws a rule: warm_filter.induct)
    case (2 now w ws a)
    then show ?case by (auto simp: art_cached_def Let_def split: prod.splits if_splits)
  qed simp
  then show ?thesis by (simp add: warm_def)
qed

text \<open>The public listener's fallback certificate is that of the start, however often the files are renewed.\<close>

lemma public_fallback_never_renewed:
  "sv_public (snd (renewal_tick ti c host v6 readable x)) = sv_public (snd x)"
  by (cases x) (auto simp: renewal_tick_def Let_def split: prod.splits sum.splits TlsMode.splits)

lemma public_fallback_of_the_start:
  "sv_public (snd (fold (\<lambda>(ti, readable). renewal_tick ti c host v6 readable) ticks (d, start_certs leaf))) = leaf"
proof -
  have "sv_public (snd (fold (\<lambda>(ti, readable). renewal_tick ti c host v6 readable) ticks x)) = sv_public (snd x)" for x
    by (induction ticks arbitrary: x) (auto simp: public_fallback_never_renewed)
  then show ?thesis by (simp add: start_certs_def)
qed

section \<open>Properties\<close>

text \<open>The library shows every game the scan found, in its order, and nothing else; a game whose cover is cached shows that
  one, any other what its launcher has; and covers are only asked for games that have none and are not Steam games
  with a poster. Where the scan fails the library is empty.\<close>
theorem library_exact:
  "(case library_for now scanned a of ((items, pending), todo, a') \<Rightarrow>
     (case scanned of Inl _ \<Rightarrow> items = []
      | Inr games \<Rightarrow>
          map li_id items = map gi_id games \<and> map li_name items = map gi_name games
          \<and> map li_poster_url items =
              map (\<lambda>g. if art_cached (gi_id g) a
                       then Some (''/api/v1/library/poster/'' @ replace_char CHR '':'' ''%3A'' (gi_id g) @ ''?s=steam'')
                       else gi_poster_url g) games
          \<and> (\<forall>w \<in> set todo. \<not> art_cached (wa_id w) a
               \<and> (\<exists>g \<in> set games. gi_id g = wa_id w \<and> (gi_source g \<noteq> ''steam'' \<or> gi_poster_url g = None))))
     \<and> ar_covers a' = ar_covers a \<and> (pending \<longleftrightarrow> ar_in_flight a' \<noteq> {}))"
proof -
  obtain todo a' where w: "warm now (wants_of (case scanned of Inr gs \<Rightarrow> gs | Inl _ \<Rightarrow> [])) a = (todo, a')" by (metis prod.collapse)
  have c: "ar_covers a' = ar_covers a" using warm_covers [of now _ a] w by (metis snd_conv)
  then have ac: "art_cached i a' = art_cached i a" for i by (simp add: art_cached_def)
  have t: "\<forall>x \<in> set todo. x \<in> set (wants_of (case scanned of Inr gs \<Rightarrow> gs | Inl _ \<Rightarrow> [])) \<and> \<not> art_cached (wa_id x) a"
    using warm_todo [of now _ a] w by (metis (no_types, lifting) fst_conv mem_Collect_eq subset_eq)
  show ?thesis
  proof (cases scanned)
    case (Inl e)
    then show ?thesis using w c by (simp add: library_for_def art_busy_def)
  next
    case (Inr games)
    have "\<forall>x \<in> set todo. \<not> art_cached (wa_id x) a
        \<and> (\<exists>g \<in> set games. gi_id g = wa_id x \<and> (gi_source g \<noteq> ''steam'' \<or> gi_poster_url g = None))"
      using t Inr by (fastforce simp: wants_of_def)
    then show ?thesis using Inr w c by (auto simp: library_for_def library_item_def art_busy_def ac)
  qed
qed

text \<open>The page is always answered: a file of the bundle is served as it is, cached for good only below \<open>assets/\<close>; a path
  without a dot that is no file gets the page itself, so the client's own routes work; anything else is missing.\<close>
theorem page_served:
  assumes "get ''index.html'' = Some page"
  shows "serve_asset get mime path =
    (let p = trim_start_char CHR ''/'' path; candidate = (if p = [] then ''index.html'' else p) in
     case get candidate of
       Some data \<Rightarrow> Served (mime candidate) (if starts_with candidate ''assets/'' then ''public, max-age=31536000, immutable'' else ''no-cache'') data
     | None \<Rightarrow> if CHR ''.'' \<in> set p then AssetMissing else Served (mime ''index.html'') ''no-cache'' page)"
proof -
  have i: "serve_asset get mime ''index.html'' = Served (mime ''index.html'') ''no-cache'' page"
    using assms by (subst serve_asset.simps) (simp add: trim_start_char_def)
  show ?thesis using i assms by (subst serve_asset.simps) (auto simp: Let_def split: option.splits)
qed

lemma page_served_witness:
  "serve_asset (\<lambda>p. if p = ''index.html'' then Some [1] else None) (\<lambda>_. ''text/html'') ''/play'' = Served ''text/html'' ''no-cache'' [1]"
  using page_served [of "\<lambda>p. if p = ''index.html'' then Some [1] else None" "[1]" "\<lambda>_. ''text/html''" "''/play''"]
  by (simp add: trim_start_char_def)

end
