(* ===== verification/Spec2Isabelle.thy ===== *)
theory Spec2Isabelle
  imports InputCodec WtWire AnnexB Net HostConfig InputHost Signaling Negotiation SessionMgr
    Stores Credentials Pairing Bitrate FrameSender Slots WtSession EventPump IpText HttpApi Diagnostics TlsCerts PortMap GameLibrary MediaPump InputBackends Doctor HostMain HostBoot SignalLink WinPlatform Tray HostPages
begin

text \<open>
  A model of the InPhase host: the Rust program that streams a Windows PC's desktop and games to a browser
  (\<open>src/crates/host\<close>) and the wire formats it shares with the browser (\<open>src/crates/protocol\<close>).

  The program. A browser that has been paired by PIN or by invitation (\<open>pairing/mod.rs\<close>, \<open>identity/\<close>) opens a
  signaling WebSocket (\<open>http/signal.rs\<close>), proves its device key, claims the only session (\<open>session/mod.rs\<close>), is
  sent a one-time token, says what it can decode and is given a configuration. With the token it dials the
  WebTransport endpoint (\<open>media/wt/\<close>). From then on three flows meet in one process: encoded frames leave the media
  graph (\<open>media/pipeline.rs\<close>), go through a latest-value queue, a pace and one of two carriers (a QUIC stream per
  frame, or datagrams with parity and re-sends); input packets come back, are gated and turned into Windows input
  (\<open>input/\<close>); and telemetry comes back, moves the bitrate (\<open>media/bitrate.rs\<close>) and the verdict on the stream
  (\<open>health.rs\<close>). Around them stand the HTTPS server with its guards and API (\<open>http/\<close>), certificates (\<open>tls.rs\<close>,
  \<open>acme.rs\<close>), router mappings (\<open>portmap.rs\<close>), the game library, and the process itself.

  How the model reads. A struct is a \<open>record\<close>, an enum a \<open>datatype\<close> with the source's constructors, a method a
  definition of the same name that takes the state and returns it updated; \<open>Result\<close> is a sum with \<open>Inl\<close> the error,
  \<open>Option\<close> an option. Bytes are \<open>8 word\<close>, and integers are words where the code wraps or saturates, \<open>nat\<close> where the
  width cannot matter; arithmetic the code truncates is written with \<open>mod\<close>. Clocks are \<open>nat\<close> arguments (nanoseconds for
  \<open>Instant\<close>, where \<open>second\<close> is a constant, and Unix seconds for the wall clock). Randomness, signatures, JSON, base64, QUIC, GStreamer,
  the file system, the registry and the router are arguments; what is relied on of them is a named hypothesis of the
  theorem that needs it. Tasks that run side by side are the steps of an \<open>inductive\<close> relation, one per critical section
  of the code, so every interleaving is a run.

  Shared library.
    \<^item> InPhasePrelude: words and byte strings, the conversions to and from bytes, sequencing of fallible steps, the locales
      \<open>wire_codec\<close> (what was encoded decodes to its normal form) and \<open>prefix_codec\<close> (also in front of further bytes),
      interpreted by the input packet, the video frame and the datagram fragment.
    \<^item> RustText, IpText: strings and addresses as the Rust standard library splits, trims, prints and parses them.
    \<^item> Floats: finite \<open>f32\<close> and \<open>f64\<close> arithmetic with the rounding written out.
    \<^item> Stores: keyed stores and the locale \<open>capped_store\<close> (expired entries go first, the oldest is evicted, the size stays
      bounded), interpreted by dial tokens, invitations and cookie sessions.
    \<^item> Slots: the locale \<open>owned_slot\<close> (the newest claim owns, only the owner closes), interpreted by the player slot and by the
      video slot.

  Protocol.
    \<^item> InputCodec: \<open>protocol/input.rs\<close>. Round trip with following bytes left alone; \<open>decode\<close> accepts exactly the encoded packets.
    \<^item> WtWire, AnnexB: \<open>protocol/wtvideo.rs\<close>. Frames, fragments, XOR parity (any one lost fragment of a group comes back),
      NAL splitting, the HEVC configuration record.
    \<^item> Signaling, Negotiation: \<open>protocol/signaling.rs\<close>, \<open>media/encoder_policy.rs\<close>, \<open>http/signal.rs\<close>. Capability choice, modes,
      bitrate and encoder settings.

  Session and input.
    \<^item> SessionMgr: \<open>session/mod.rs\<close>, the media session of \<open>media/mod.rs\<close> and the link loop of \<open>http/signal.rs\<close>, as states, operations
      and the step relation \<open>step\<close>; the slot is safe on every run, except for the two races the findings name.
    \<^item> SignalLink: \<open>drive\<close> in \<open>http/signal.rs\<close> up to the message loop and its control channel, the dial of the video endpoint up to
      its admission, and the configuration the transport keeps for its client.
    \<^item> InputHost: \<open>input/mod.rs\<close>, \<open>input/state.rs\<close>. The packet gate, state diff, rate limit and watchdog refine a set of held
      keys and buttons; what is injected equals what the session holds on every reachable state.
    \<^item> InputBackends: \<open>input/backends/\<close>. Every call down to the events Windows receives, and what a Windows that applies them holds.

  Admission.
    \<^item> Credentials: \<open>identity/*.rs\<close>, \<open>media/wt/tokens.rs\<close>. Tokens are spent once and in time, a device is let in by a
      signature of a listed key only.
    \<^item> Pairing: \<open>pairing/mod.rs\<close>. Lockout, back-off, cookies.
    \<^item> HttpApi: \<open>http/mod.rs\<close>, \<open>http/api.rs\<close>. All stores together behind the guards (locale \<open>http_guard\<close>, interpreted by each
      middleware): a request changes state only when it is admitted.
    \<^item> HostPages: what the answers contain that come from the platform (\<open>http/api.rs\<close>, \<open>http/assets.rs\<close>), the timer that
      renews the certificate, and the trust store.

  Video.
    \<^item> Bitrate: \<open>media/bitrate.rs\<close>, \<open>media/wt/congestion.rs\<close>. The control law in \<open>f32\<close>.
    \<^item> FrameSender: \<open>media/wt/transport.rs\<close>. Queue, pace, fragments and their order, parity groups, the re-send cache, both carriers,
      and a client that rebuilds frames from what arrives.
    \<^item> WtSession: \<open>media/wt/session.rs\<close>. Line reader, authentication, control messages, streams, datagrams, loss window, re-sends,
      and the hand-over of the video slot as the step relation \<open>wt_step\<close>.
    \<^item> EventPump: \<open>app.rs\<close>. Client events against the session manager, and the certificate rotation.
    \<^item> MediaGraph, MediaPump: \<open>media/pipeline.rs\<close>, \<open>media/webrtc/\<close>, \<open>platform/windows/gpus.rs\<close>. The graph that is built for a
      configuration, the taps, the capture clock, the poller, the bus, the life of a pipeline.
    \<^item> Diagnostics: \<open>stats/mod.rs\<close>, \<open>health.rs\<close>, \<open>media/frametrace.rs\<close>.

  Host.
    \<^item> HostConfig: \<open>config.rs\<close>; HostMain: \<open>main.rs\<close> and the settings written back; HostBoot: \<open>app.rs\<close> start and run, the listeners of
      \<open>http/mod.rs\<close>, health watchdog, tray lines; Doctor: \<open>doctor.rs\<close>.
    \<^item> WinPlatform, Tray: \<open>platform/windows/\<close>. The published address and the gateways out of the adapter list, displays, audio
      devices, firewall rules, autostart, emergency key, capture check; the tray's bitmap, menu and window procedure.
    \<^item> Net, Endpoint: \<open>net.rs\<close>, \<open>endpoint.rs\<close>, the public names of \<open>acme.rs\<close>, the firewall rule; TlsCerts: \<open>tls.rs\<close>, \<open>acme.rs\<close>;
      PortMap: \<open>portmap.rs\<close>, byte for byte, against any router.
    \<^item> GameText, CoverArt, GameLibrary: \<open>platform/windows/games.rs\<close>, \<open>posters.rs\<close>, \<open>gameart.rs\<close>.

  What the lemmas show. Each theory has an invariant of its state with its preservation by every operation, the result of
  each operation on every branch, and where the code has a contract, that the operation meets it: a smaller abstract state
  (input, Windows' keys), a reference definition (health, reports, the preflight against the graph), a relation over runs (slots,
  tokens, pairing). Where the code does not do what its comments say, a lemma shows it on a concrete run.

  Bounds and termination. No model uses fuel. Loops whose recursion is not structural are functions with a measure (NAL
  splitting, JPEG markers, the sleep of the mapping task); loops that wait for input are runs of a step relation or a fold over the list of
  what arrives, so a theorem about them is about every finite prefix. Bounds in theorems are the code's own (8 fragments a
  parity group, 32 live tokens, 4096 records, 32-bit counters); the video configuration's epoch is compared before it wraps.

  Not modelled.
    \<^item> The Win32 calls themselves: their answers are arguments of WinPlatform, Tray, InputBackends and MediaGraph. \<open>timer.rs\<close> is two
      calls without a decision, \<open>platform/stub.rs\<close> (other systems) only fails; the panic hook of \<open>main.rs\<close>.
    \<^item> Libraries: GStreamer, QUIC and its vendored copy, TLS, the ACME client, axum, serde and tokio. The source only calls them.
    \<^item> The contents of the page's files, log sentences and the explanatory text of symptoms.
    \<^item> Examples and test vectors, the web client, the site and the installer.
\<close>

end
